(* ===== verification/Prelude.thy ===== *)
theory Prelude
  imports Main "HOL-Library.Char_ord" "HOL-Library.List_Lexorder" "HOL-Library.Product_Lexorder"
begin

text \<open>
  Shared vocabulary of the development: results with an error (Rust's \<open>Result\<close> and its
  \<open>?\<close> operator), the relational statements the code sends to SQLite (a table is the list
  of its rows in rowid order), text helpers of Rust's standard library, and the generic
  lemmas about them that every component uses.
\<close>

named_theorems tx_simps \<open>equations that unfold transaction plumbing\<close>
named_theorems frame \<open>what an operation leaves unchanged\<close>

section \<open>Errors and results\<close>

text \<open>
  \<open>Bail m\<close> is an \<open>anyhow!(m)\<close> or \<open>bail!(m)\<close>, \<open>StaleLease\<close> and \<open>AckRejected m\<close> are the
  two typed errors of the store, \<open>Sql m\<close> is an error SQLite itself reports (a violated
  constraint, a \<open>query_row\<close> that found no row).
\<close>

datatype error = StaleLease | AckRejected string | Bail string | Sql string

fun err_text :: "error \<Rightarrow> string" where
  "err_text StaleLease = ''stale actor lease''"
| "err_text (AckRejected m) = m"
| "err_text (Bail m) = m"
| "err_text (Sql m) = m"

text \<open>The \<open>?\<close> operator: stop at the first error, otherwise go on with the value.\<close>

definition ebind :: "'e + 'a \<Rightarrow> ('a \<Rightarrow> 'e + 'b) \<Rightarrow> 'e + 'b" where
  "ebind m k = (case m of Inl e \<Rightarrow> Inl e | Inr x \<Rightarrow> k x)"

definition require :: "bool \<Rightarrow> 'e \<Rightarrow> 'e + unit" where
  "require b e = (if b then Inr () else Inl e)"

definition from_option :: "'e \<Rightarrow> 'a option \<Rightarrow> 'e + 'a" where
  "from_option e m = (case m of None \<Rightarrow> Inl e | Some x \<Rightarrow> Inr x)"

text \<open>A loop whose body may fail, and \<open>collect::<Result<Vec<_>>>\<close>.\<close>

fun efold :: "('a \<Rightarrow> 's \<Rightarrow> 'e + 's) \<Rightarrow> 'a list \<Rightarrow> 's \<Rightarrow> 'e + 's" where
  "efold f [] s = Inr s"
| "efold f (x # xs) s = ebind (f x s) (efold f xs)"

fun emap :: "('a \<Rightarrow> 'e + 'b) \<Rightarrow> 'a list \<Rightarrow> 'e + 'b list" where
  "emap f [] = Inr []"
| "emap f (x # xs) = ebind (f x) (\<lambda>y. ebind (emap f xs) (\<lambda>ys. Inr (y # ys)))"

lemma ebind_Inl [simp]: "ebind (Inl e) k = Inl e"
  by (simp add: ebind_def)

lemma ebind_Inr [simp]: "ebind (Inr x) k = k x"
  by (simp add: ebind_def)

lemma ebind_eq_Inr: "ebind m k = Inr z \<longleftrightarrow> (\<exists>y. m = Inr y \<and> k y = Inr z)"
  by (cases m) auto

lemma ebind_eq_Inl:
  "ebind m k = Inl e \<longleftrightarrow> m = Inl e \<or> (\<exists>y. m = Inr y \<and> k y = Inl e)"
  by (cases m) auto

lemma ebindE:
  assumes "ebind m k = Inr z"
  obtains y where "m = Inr y" and "k y = Inr z"
  using assms by (auto simp: ebind_eq_Inr)

lemma require_eq_Inr [simp]: "require b e = Inr u \<longleftrightarrow> b"
  by (auto simp: require_def)

lemma require_eq_Inl [simp]: "require b e = Inl d \<longleftrightarrow> \<not> b \<and> d = e"
  by (auto simp: require_def)

lemma require_True [simp]: "b \<Longrightarrow> require b e = Inr ()"
  by (simp add: require_def)

lemma from_option_eq_Inr [simp]: "from_option e m = Inr x \<longleftrightarrow> m = Some x"
  by (auto simp: from_option_def split: option.splits)

lemma from_option_Some [simp]: "from_option e (Some x) = Inr x"
  by (simp add: from_option_def)

lemma from_option_None [simp]: "from_option e None = Inl e"
  by (simp add: from_option_def)

lemmas tx_unfold = ebind_eq_Inr ebind_eq_Inl

lemma efold_append: "efold f (xs @ ys) s = ebind (efold f xs s) (efold f ys)"
  by (induction xs arbitrary: s) (auto simp: ebind_def split: sum.splits)

lemma efold_invariant:
  assumes "efold f xs s = Inr t" and "P s"
    and "\<And>x s t. x \<in> set xs \<Longrightarrow> P s \<Longrightarrow> f x s = Inr t \<Longrightarrow> P t"
  shows "P t"
  using assms by (induction xs arbitrary: s) (auto simp: ebind_eq_Inr)

lemma emap_eq_Inr: "emap f xs = Inr ys \<longleftrightarrow> list_all2 (\<lambda>x y. f x = Inr y) xs ys"
  by (induction xs arbitrary: ys)
     (auto simp: ebind_eq_Inr list_all2_Cons1)

lemma emap_Inr: "(\<And>x. x \<in> set xs \<Longrightarrow> f x = Inr (g x)) \<Longrightarrow> emap f xs = Inr (map g xs)"
  by (induction xs) auto

section \<open>SQL statements over lists of rows\<close>

text \<open>
  \<open>UPDATE t SET \<dots> WHERE p\<close> and the number of rows it reports, \<open>DELETE FROM t WHERE p\<close>,
  \<open>SELECT \<dots> ORDER BY k LIMIT 1\<close>, and an \<open>INSERT\<close> that a uniqueness constraint may refuse.
\<close>

definition update_where :: "('r \<Rightarrow> bool) \<Rightarrow> ('r \<Rightarrow> 'r) \<Rightarrow> 'r list \<Rightarrow> 'r list" where
  "update_where p f rows = map (\<lambda>r. if p r then f r else r) rows"

definition changed :: "('r \<Rightarrow> bool) \<Rightarrow> 'r list \<Rightarrow> nat" where
  "changed p rows = length (filter p rows)"

definition delete_where :: "('r \<Rightarrow> bool) \<Rightarrow> 'r list \<Rightarrow> 'r list" where
  "delete_where p rows = filter (\<lambda>r. \<not> p r) rows"

definition first_by :: "('r \<Rightarrow> 'k::linorder) \<Rightarrow> 'r list \<Rightarrow> 'r option" where
  "first_by key rows = (case sort_key key rows of [] \<Rightarrow> None | r # _ \<Rightarrow> Some r)"

definition last_by :: "('r \<Rightarrow> 'k::linorder) \<Rightarrow> 'r list \<Rightarrow> 'r option" where
  "last_by key rows = (case rev (sort_key key rows) of [] \<Rightarrow> None | r # _ \<Rightarrow> Some r)"

definition insert_unique :: "('r \<Rightarrow> 'k) \<Rightarrow> 'r \<Rightarrow> 'r list \<Rightarrow> error + 'r list" where
  "insert_unique key r rows =
     (if key r \<in> key ` set rows then Inl (Sql ''UNIQUE constraint failed'') else Inr (rows @ [r]))"

text \<open>\<open>t JOIN u ON c\<close>.\<close>

definition inner_join :: "('a \<Rightarrow> 'b \<Rightarrow> bool) \<Rightarrow> 'a list \<Rightarrow> 'b list \<Rightarrow> ('a \<times> 'b) list" where
  "inner_join on rows rows' = concat (map (\<lambda>a. map (Pair a) (filter (on a) rows')) rows)"

text \<open>A nullable time column compared with a time: \<open>c IS NULL OR c <= now\<close>.\<close>

definition due :: "int option \<Rightarrow> int \<Rightarrow> bool" where
  "due c now = (case c of None \<Rightarrow> True | Some t \<Rightarrow> t \<le> now)"

definition min_of :: "int list \<Rightarrow> int option" where
  "min_of xs = (case xs of [] \<Rightarrow> None | x # ys \<Rightarrow> Some (foldl min x ys))"

definition max_of :: "int list \<Rightarrow> int option" where
  "max_of xs = (case xs of [] \<Rightarrow> None | x # ys \<Rightarrow> Some (foldl max x ys))"

lemma in_inner_join [simp]: "(a, b) \<in> set (inner_join on xs ys) \<longleftrightarrow> a \<in> set xs \<and> b \<in> set ys \<and> on a b"
  by (auto simp: inner_join_def)

text \<open>Joining on a key of the left table gives at most one row for each row of the right.\<close>

lemma length_inner_join_key:
  assumes "distinct (map k xs)" and "\<And>a b. on a b \<Longrightarrow> q b = k a \<and> p b"
  shows "length (inner_join on xs ys) \<le> length (filter p ys)"
  using assms(1)
proof (induction xs arbitrary: ys)
  case Nil
  then show ?case by (simp add: inner_join_def)
next
  case (Cons a xs)
  let ?ys = "filter (\<lambda>b. q b \<noteq> k a) ys"
  have "filter (on c) ys = filter (on c) ?ys" if "c \<in> set xs" for c
  proof -
    have "k c \<in> k ` set xs" using that by (rule imageI)
    then have "k c \<noteq> k a" using Cons.prems by auto
    then show ?thesis using assms(2)[of c] by (auto intro!: filter_cong)
  qed
  then have "inner_join on xs ys = inner_join on xs ?ys"
    unfolding inner_join_def by (intro arg_cong[where f = concat] map_cong) auto
  then have "length (inner_join on xs ys) \<le> length (filter p ?ys)"
    using Cons.IH[of ?ys] Cons.prems by simp
  moreover have "length (filter (on a) ys) \<le> length (filter (\<lambda>b. q b = k a) (filter p ys))"
  proof -
    have "filter (on a) ys = filter (on a) (filter (\<lambda>b. q b = k a) (filter p ys))"
      using assms(2)[of a] by (auto intro!: filter_cong)
    then show ?thesis by (metis length_filter_le)
  qed
  moreover have "length (filter (\<lambda>b. q b = k a) (filter p ys)) + length (filter p ?ys) = length (filter p ys)"
    using sum_length_filter_compl[of "\<lambda>b. q b = k a" "filter p ys"] by (simp add: conj_commute)
  ultimately show ?case by (simp add: inner_join_def)
qed

lemma set_update_where: "set (update_where p f rows) = (\<lambda>r. if p r then f r else r) ` set rows"
  by (simp add: update_where_def)

lemma in_update_whereE:
  assumes "r \<in> set (update_where p f rows)"
  obtains r0 where "r0 \<in> set rows" and "r = (if p r0 then f r0 else r0)"
  using assms by (auto simp: set_update_where)

lemma map_update_where:
  "(\<And>r. r \<in> set rows \<Longrightarrow> p r \<Longrightarrow> k (f r) = k r) \<Longrightarrow> map k (update_where p f rows) = map k rows"
  by (auto simp: update_where_def)

lemma update_where_id: "(\<And>r. r \<in> set rows \<Longrightarrow> \<not> p r) \<Longrightarrow> update_where p f rows = rows"
  by (auto simp: update_where_def intro: map_idI)

lemma length_update_where [simp]: "length (update_where p f rows) = length rows"
  by (simp add: update_where_def)

lemma update_where_Nil [simp]: "update_where p f [] = []"
  by (simp add: update_where_def)

lemma update_where_Cons [simp]:
  "update_where p f (r # rows) = (if p r then f r else r) # update_where p f rows"
  by (simp add: update_where_def)

lemma update_where_append [simp]:
  "update_where p f (xs @ ys) = update_where p f xs @ update_where p f ys"
  by (simp add: update_where_def)

lemma set_delete_where [simp]: "set (delete_where p rows) = {r \<in> set rows. \<not> p r}"
  by (auto simp: delete_where_def)

lemma delete_where_Nil [simp]: "delete_where p [] = []"
  by (simp add: delete_where_def)

lemma changed_Nil [simp]: "changed p [] = 0"
  by (simp add: changed_def)

lemma changed_Cons [simp]: "changed p (r # rows) = (if p r then Suc (changed p rows) else changed p rows)"
  by (simp add: changed_def)

lemma distinct_map_delete_where: "distinct (map k rows) \<Longrightarrow> distinct (map k (delete_where p rows))"
  by (simp add: delete_where_def distinct_map_filter)

lemma changed_eq_0: "changed p rows = 0 \<longleftrightarrow> (\<forall>r \<in> set rows. \<not> p r)"
  by (auto simp: changed_def filter_empty_conv)

lemma changed_pos: "0 < changed p rows \<longleftrightarrow> (\<exists>r \<in> set rows. p r)"
  by (simp add: changed_def filter_empty_conv)

lemma changed_oneE:
  assumes "changed p rows = Suc 0"
  obtains r where "r \<in> set rows" and "p r"
proof -
  have "0 < changed p rows" using assms by simp
  then show ?thesis using that by (auto simp: changed_pos)
qed

text \<open>On a key column at most one row matches, so an update by key changes 0 or 1 row.\<close>

lemma filter_key_single:
  assumes "distinct (map k rows)" and "r \<in> set rows" and "p r"
    and "\<And>s. s \<in> set rows \<Longrightarrow> p s \<Longrightarrow> k s = k r"
  shows "filter p rows = [r]"
proof -
  obtain us vs where rows: "rows = us @ r # vs" using assms(2) by (auto simp: in_set_conv_decomp)
  have "\<not> p s" if "s \<in> set us \<union> set vs" for s
  proof
    assume "p s"
    then have "k s = k r" using assms(4) that rows by auto
    moreover have "k s \<in> k ` (set us \<union> set vs)" using that by blast
    ultimately show False using assms(1) by (auto simp: rows)
  qed
  then have "filter p us = []" and "filter p vs = []" by (auto simp: filter_empty_conv)
  then show ?thesis using assms(3) by (simp add: rows)
qed

lemma changed_key:
  assumes "distinct (map k rows)" and "r \<in> set rows" and "p r"
    and "\<And>s. s \<in> set rows \<Longrightarrow> p s \<Longrightarrow> k s = k r"
  shows "changed p rows = Suc 0"
proof -
  have "filter p rows = [r]" by (rule filter_key_single[of k]) (fact assms)+
  then show ?thesis by (simp add: changed_def)
qed

lemma distinct_key_eq:
  "distinct (map k rows) \<Longrightarrow> r \<in> set rows \<Longrightarrow> s \<in> set rows \<Longrightarrow> k r = k s \<Longrightarrow> r = s"
  by (auto simp: distinct_map inj_on_def)

lemma insert_unique_eq_Inr:
  "insert_unique k r rows = Inr rows' \<longleftrightarrow> k r \<notin> k ` set rows \<and> rows' = rows @ [r]"
  by (auto simp: insert_unique_def)

lemma insert_unique_distinct:
  "insert_unique k r rows = Inr rows' \<Longrightarrow> distinct (map k rows) \<Longrightarrow> distinct (map k rows')"
  by (auto simp: insert_unique_eq_Inr)

lemma first_by_Some_in: "first_by k rows = Some r \<Longrightarrow> r \<in> set rows"
  by (auto simp: first_by_def split: list.splits dest: arg_cong[where f = set])

lemma first_by_None [simp]: "first_by k rows = None \<longleftrightarrow> rows = []"
  by (auto simp: first_by_def split: list.splits dest: arg_cong[where f = set])

lemma first_by_Nil [simp]: "first_by k [] = None"
  by simp

lemma first_by_min:
  assumes "first_by k rows = Some r" and "s \<in> set rows"
  shows "k r \<le> k s"
proof -
  from assms(1) obtain rest where eq: "sort_key k rows = r # rest"
    by (auto simp: first_by_def split: list.splits)
  have "sorted (map k (r # rest))" using eq sorted_sort_key[of k rows] by simp
  moreover have "s \<in> set (r # rest)" using assms(2) eq set_sort[of k rows] by simp
  ultimately show ?thesis by auto
qed

lemma last_by_Some_in: "last_by k rows = Some r \<Longrightarrow> r \<in> set rows"
  by (auto simp: last_by_def split: list.splits dest: arg_cong[where f = set])

lemma last_by_None [simp]: "last_by k rows = None \<longleftrightarrow> rows = []"
  by (auto simp: last_by_def split: list.splits dest: arg_cong[where f = set])

lemma last_by_Nil [simp]: "last_by k [] = None"
  by simp

lemma last_by_max:
  assumes "last_by k rows = Some r" and "s \<in> set rows"
  shows "k s \<le> k r"
proof -
  from assms(1) obtain rest where eq: "rev (sort_key k rows) = r # rest"
    by (auto simp: last_by_def split: list.splits)
  then have "sort_key k rows = rev rest @ [r]" by (metis rev.simps(2) rev_rev_ident)
  moreover from this have "sorted (map k (rev rest @ [r]))" using sorted_sort_key[of k rows] by simp
  moreover have "s \<in> set (rev rest @ [r])" using assms(2) calculation(1) set_sort[of k rows] by simp
  ultimately show ?thesis by (auto simp: sorted_append)
qed

lemma find_Some_in: "List.find p xs = Some x \<Longrightarrow> x \<in> set xs \<and> p x"
  by (metis find_Some_iff nth_mem)

lemma find_key:
  assumes "distinct (map k rows)" and "r \<in> set rows"
  shows "List.find (\<lambda>s. k s = k r) rows = Some r"
  using assms by (induction rows) (auto simp: image_iff)

lemma find_update_where:
  assumes "\<And>r. k (f r) = k r"
  shows "List.find (\<lambda>r. k r = b) (update_where (\<lambda>r. k r = a) f rows) =
         map_option (if b = a then f else id) (List.find (\<lambda>r. k r = b) rows)"
  using assms by (induction rows) auto

lemma find_updated:
  assumes "\<And>r. p (f r) = p r"
  shows "List.find p (update_where p f rows) = map_option f (List.find p rows)"
  using assms by (induction rows) simp_all

lemma filter_updated:
  assumes "\<And>r. p (f r) = p r"
  shows "filter p (update_where p f rows) = map f (filter p rows)"
  using assms by (induction rows) simp_all

lemma find_delete_where:
  assumes "\<And>r. k r = b \<Longrightarrow> \<not> p r"
  shows "List.find (\<lambda>r. k r = b) (delete_where p rows) = List.find (\<lambda>r. k r = b) rows"
  using assms by (induction rows) (auto simp: delete_where_def)

lemma find_append: "List.find p (xs @ ys) = (case List.find p xs of None \<Rightarrow> List.find p ys | Some x \<Rightarrow> Some x)"
  by (induction xs) auto

lemma find_None_all: "List.find p xs = None \<longleftrightarrow> (\<forall>x \<in> set xs. \<not> p x)"
  by (auto simp: find_None_iff)

lemma min_of_None [simp]: "min_of xs = None \<longleftrightarrow> xs = []"
  by (auto simp: min_of_def split: list.splits)

lemma foldl_min_le: "foldl min (x::int) ys \<le> x \<and> (\<forall>y \<in> set ys. foldl min x ys \<le> y)"
proof (induction ys arbitrary: x)
  case Nil
  then show ?case by simp
next
  case (Cons a ys)
  from Cons[of "min x a"] show ?case by auto
qed

lemma min_of_Nil [simp]: "min_of [] = None"
  by simp

lemma min_of_le: "min_of xs = Some m \<Longrightarrow> x \<in> set xs \<Longrightarrow> m \<le> x"
  using foldl_min_le by (auto simp: min_of_def split: list.splits)

lemma min_of_Some: "x \<in> set xs \<Longrightarrow> \<exists>m. min_of xs = Some m \<and> m \<le> x"
  using min_of_le[of xs _ x] by (cases "min_of xs") auto

lemma foldl_max_ge: "(x::int) \<le> foldl max x ys \<and> (\<forall>y \<in> set ys. y \<le> foldl max x ys)"
proof (induction ys arbitrary: x)
  case Nil
  then show ?case by simp
next
  case (Cons a ys)
  from Cons[of "max x a"] show ?case by auto
qed

lemma max_of_ge: "max_of xs = Some m \<Longrightarrow> x \<in> set xs \<Longrightarrow> x \<le> m"
  using foldl_max_ge by (auto simp: max_of_def split: list.splits)

lemma max_of_None [simp]: "max_of xs = None \<longleftrightarrow> xs = []"
  by (auto simp: max_of_def split: list.splits)

lemma max_of_Nil [simp]: "max_of [] = None"
  by simp

section \<open>Text\<close>

text \<open>
  A Rust \<open>str\<close> is the list of its characters. \<open>str::trim\<close> strips Unicode white space,
  whose members below code point 256 are listed here.
\<close>

definition is_space :: "char \<Rightarrow> bool" where
  "is_space c = (let n = (of_char c :: nat) in (9 \<le> n \<and> n \<le> 13) \<or> n = 32 \<or> n = 133 \<or> n = 160)"

definition trim :: "string \<Rightarrow> string" where
  "trim s = rev (dropWhile is_space (rev (dropWhile is_space s)))"

definition blank :: "string \<Rightarrow> bool" where
  "blank s = (trim s = [])"

lemma blank_iff: "blank s \<longleftrightarrow> (\<forall>c \<in> set s. is_space c)"
proof
  assume "blank s"
  then have "\<forall>c \<in> set (dropWhile is_space s). is_space c"
    by (simp add: blank_def trim_def)
  then have "dropWhile is_space s = []"
    by (metis hd_dropWhile list.set_sel(1))
  then show "\<forall>c \<in> set s. is_space c" by simp
next
  assume "\<forall>c \<in> set s. is_space c"
  then show "blank s" by (auto simp: blank_def trim_def dest: set_dropWhileD)
qed

text \<open>Decimal digits of a number, as \<open>format!("{n}")\<close> prints it.\<close>

definition digit_char :: "nat \<Rightarrow> char" where
  "digit_char d = char_of (48 + d)"

fun show_nat :: "nat \<Rightarrow> string" where
  "show_nat n = (if n < 10 then [digit_char n] else show_nat (n div 10) @ [digit_char (n mod 10)])"

declare show_nat.simps [simp del]

definition is_digit :: "char \<Rightarrow> bool" where
  "is_digit c = (let n = (of_char c :: nat) in 48 \<le> n \<and> n \<le> 57)"

definition digit_val :: "char \<Rightarrow> nat" where
  "digit_val c = (of_char c :: nat) - 48"

definition read_nat :: "string \<Rightarrow> nat" where
  "read_nat s = foldl (\<lambda>a c. 10 * a + digit_val c) 0 s"

lemma of_char_digit: "d < 10 \<Longrightarrow> (of_char (digit_char d) :: nat) = 48 + d"
  by (simp add: digit_char_def of_char_of)

lemma is_digit_digit_char: "d < 10 \<Longrightarrow> is_digit (digit_char d)"
  by (simp add: is_digit_def of_char_digit)

lemma digit_val_digit_char: "d < 10 \<Longrightarrow> digit_val (digit_char d) = d"
  by (simp add: digit_val_def of_char_digit)

lemma show_nat_digits: "\<forall>c \<in> set (show_nat n). is_digit c"
proof (induction n rule: show_nat.induct)
  case (1 n)
  then show ?case
    by (cases "n < 10") (auto simp: show_nat.simps[of n] is_digit_digit_char)
qed

lemma read_nat_snoc: "read_nat (s @ [c]) = 10 * read_nat s + digit_val c"
  by (simp add: read_nat_def)

lemma read_show_nat [simp]: "read_nat (show_nat n) = n"
proof (induction n rule: show_nat.induct)
  case (1 n)
  show ?case
  proof (cases "n < 10")
    case True
    then show ?thesis
      by (simp add: show_nat.simps[of n] read_nat_def digit_val_digit_char)
  next
    case False
    then show ?thesis
      using 1 by (simp add: show_nat.simps[of n] read_nat_snoc digit_val_digit_char)
  qed
qed

lemma show_nat_inj [simp]: "show_nat m = show_nat n \<longleftrightarrow> m = n"
  by (metis read_show_nat)

lemma show_nat_length: "n < 10 ^ k \<Longrightarrow> 0 < k \<Longrightarrow> length (show_nat n) \<le> k"
proof (induction k arbitrary: n)
  case 0
  then show ?case by simp
next
  case (Suc k)
  show ?case
  proof (cases "n < 10")
    case True
    then show ?thesis by (simp add: show_nat.simps[of n])
  next
    case False
    then have k: "0 < k" using Suc.prems by (cases k) auto
    have "n div 10 < 10 ^ k" using Suc.prems(1) by auto
    then have "length (show_nat (n div 10)) \<le> k" using Suc.IH k by blast
    then show ?thesis using False by (simp add: show_nat.simps[of n])
  qed
qed

text \<open>
  \<open>format!("{n:0w}")\<close>: zero padding to at least \<open>w\<close> characters.
\<close>

definition pad_nat :: "nat \<Rightarrow> nat \<Rightarrow> string" where
  "pad_nat w n = replicate (w - length (show_nat n)) (digit_char 0) @ show_nat n"

lemma pad_nat_digits: "\<forall>c \<in> set (pad_nat w n). is_digit c"
  using show_nat_digits by (auto simp: pad_nat_def is_digit_digit_char)

lemma length_pad_nat: "n < 10 ^ w \<Longrightarrow> 0 < w \<Longrightarrow> length (pad_nat w n) = w"
  using show_nat_length[of n w] by (simp add: pad_nat_def)

lemma read_replicate_zero: "read_nat (replicate k (digit_char 0) @ s) = read_nat s"
  by (induction k) (auto simp: read_nat_def digit_val_digit_char)

lemma read_pad_nat [simp]: "read_nat (pad_nat w n) = n"
  by (simp add: pad_nat_def read_replicate_zero)

end
