(* ===== verification/Runtime_Model.thy ===== *)
theory Runtime_Model
  imports Prelude
begin

text \<open>
  The value types of the runtime and the pure functions on them: \<open>runtime/model.rs\<close>
  (identifiers, timestamps, states, policies), \<open>runtime/gateway.rs\<close> (delivery routes and
  text splitting), \<open>agent/message.rs\<close> (messages), and the encodings of these values that
  \<open>runtime/sqlite/dispatch.rs\<close> and \<open>ingress.rs\<close> write into columns.

  Identifiers are the strings their Rust newtypes wrap. A \<open>Timestamp\<close> is an \<open>i64\<close> of
  milliseconds, kept as an \<open>int\<close> whose only arithmetic is the saturating one written out
  below. A character of a HOL string stands for a code point below 256; its UTF-8 bytes are
  those of \<open>utf8_bytes\<close>.
\<close>

section \<open>Identifiers, limits and timestamps\<close>

type_synonym actor_id = string
type_synonym event_id = string
type_synonym work_item_id = string
type_synonym run_id = string
type_synonym attempt_id = string
type_synonym outbox_id = string
type_synonym delivery_id = string
type_synonym request_id = string
type_synonym cancel_id = string
type_synonym bundle_id = string
type_synonym artifact_id = string
type_synonym timestamp = int

definition MAX_FRAME_BYTES :: nat where "MAX_FRAME_BYTES = 1024 * 1024"
definition MAX_SUBMIT_BYTES :: nat where "MAX_SUBMIT_BYTES = 256 * 1024"
definition MAX_FINAL_CHUNK_BYTES :: nat where "MAX_FINAL_CHUNK_BYTES = 192 * 1024"
definition MAX_MANIFEST_BYTES :: nat where "MAX_MANIFEST_BYTES = 256 * 1024"
definition MAX_BUNDLE_BYTES :: nat where "MAX_BUNDLE_BYTES = 16 * 1024 * 1024"
definition MAX_BUNDLE_DELIVERIES :: nat where "MAX_BUNDLE_DELIVERIES = 1024"

definition i64_max :: int where "i64_max = 9223372036854775807"
definition i64_min :: int where "i64_min = - 9223372036854775808"

text \<open>\<open>i64::saturating_add\<close>.\<close>

definition sat_add :: "int \<Rightarrow> int \<Rightarrow> int" where
  "sat_add a b = max i64_min (min i64_max (a + b))"

definition plus_millis :: "timestamp \<Rightarrow> int \<Rightarrow> timestamp" where
  "plus_millis t millis = sat_add t millis"

text \<open>
  \<open>civil_date_from_unix_days\<close>: the dividends are nonnegative for every day from the epoch
  on, so the truncating division of Rust and \<open>div\<close> agree on them.
\<close>

definition day_of_era :: "int \<Rightarrow> int" where
  "day_of_era days = (let z = days + 719468; era = z div 146097 in z - era * 146097)"

definition year_of_era :: "int \<Rightarrow> int" where
  "year_of_era doe = (doe - doe div 1460 + doe div 36524 - doe div 146096) div 365"

definition civil_date_from_unix_days :: "int \<Rightarrow> int \<times> int \<times> int" where
  "civil_date_from_unix_days days =
     (let z = days + 719468;
          era = z div 146097;
          doe = day_of_era days;
          yoe = year_of_era doe;
          year = yoe + era * 400;
          doy = doe - (365 * yoe + yoe div 4 - yoe div 100);
          mp = (5 * doy + 2) div 153;
          day = doy - (153 * mp + 2) div 5 + 1;
          month = mp + (if mp < 10 then 3 else - 9)
      in (year + (if month \<le> 2 then 1 else 0), month, day))"

definition to_rfc3339_utc :: "timestamp \<Rightarrow> error + string" where
  "to_rfc3339_utc t =
     (if t < 0 then Inl (Bail ''timestamp must not be before Unix epoch'')
      else let days = t div 86400000;
               day_millis = t mod 86400000;
               (year, month, day) = civil_date_from_unix_days days
           in if year > 9999 then Inl (Bail ''timestamp year exceeds RFC3339 four-digit range'')
              else let hour = day_millis div 3600000;
                       minute = day_millis mod 3600000 div 60000;
                       second = day_millis mod 60000 div 1000;
                       millis = day_millis mod 1000
                   in Inr (pad_nat 4 (nat year) @ ''-'' @ pad_nat 2 (nat month) @ ''-'' @
                           pad_nat 2 (nat day) @ ''T'' @ pad_nat 2 (nat hour) @ '':'' @
                           pad_nat 2 (nat minute) @ '':'' @ pad_nat 2 (nat second) @ ''.'' @
                           pad_nat 3 (nat millis) @ ''Z''))"

text \<open>\<open>ActorId::parse_workspace_safe\<close>.\<close>

definition parse_workspace_safe :: "string \<Rightarrow> error + actor_id" where
  "parse_workspace_safe value =
     (let v = trim value
      in if v = [] \<or> v = ''.'' \<or> v = ''..'' \<or> CHR ''/'' \<in> set v \<or> CHR 0x5C \<in> set v
         then Inl (Bail (''unsafe actor id for workspace path: '' @ v))
         else Inr v)"

section \<open>States and kinds\<close>

datatype audience = ActorPrivate | ConversationScoped (au_address: string) | Shareable
datatype event_kind = UserMessage | CancelRequested | ExternalCompletion
datatype execution_policy = ActorTools | SkillsOnly
datatype event_state = EvPending | EvProcessing | EvCompleted | EvCancelled | EvFailedTerminal | EvBlocked
datatype work_item_state =
  WiReady | WiWaiting | WiCompleted | WiCancelled | WiFailedTerminal
  | WiBlockedUnknownOutcome | WiBlockedMalformed | WiWaitingForDecision
datatype run_state = RunActive | RunCompleted | RunCancelled | RunFailedTerminal
datatype attempt_state =
  AtPrepared | AtRunning | AtSucceeded | AtFailedKnown | AtOutcomeUnknown
  | AtCancelledKnown | AtWaitingForDecision
datatype local_request_state = LrActive | LrCompleted | LrCancelled | LrFailedTerminal
datatype bundle_state = BnPending | BnDelivering | BnDelivered | BnFailedRetryable | BnFailedTerminal
datatype gateway_delivery_state =
  GdPending | GdDelivering | GdDelivered | GdFailedRetryable | GdFailedTerminal | GdOutcomeUnknown

definition policy_intersect :: "execution_policy \<Rightarrow> execution_policy \<Rightarrow> execution_policy" where
  "policy_intersect a b = (if a = SkillsOnly \<or> b = SkillsOnly then SkillsOnly else ActorTools)"

definition policy_allows :: "execution_policy \<Rightarrow> string \<Rightarrow> bool" where
  "policy_allows p name \<longleftrightarrow> p = ActorTools \<or> name = ''skills_list'' \<or> name = ''skills_read''"

definition is_failure_target :: "gateway_delivery_state \<Rightarrow> bool" where
  "is_failure_target s \<longleftrightarrow> s = GdFailedTerminal \<or> s = GdOutcomeUnknown"

text \<open>
  The policies are ordered by how much they allow, \<open>SkillsOnly\<close> being the smaller; the
  intersection is the minimum of that order.
\<close>

instantiation execution_policy :: linorder
begin

definition less_eq_execution_policy :: "execution_policy \<Rightarrow> execution_policy \<Rightarrow> bool" where
  "less_eq_execution_policy a b \<longleftrightarrow> a = SkillsOnly \<or> b = ActorTools"

definition less_execution_policy :: "execution_policy \<Rightarrow> execution_policy \<Rightarrow> bool" where
  "less_execution_policy a b \<longleftrightarrow> a = SkillsOnly \<and> b = ActorTools"

instance
proof
  fix a b c :: execution_policy
  show "(a < b) = (a \<le> b \<and> \<not> b \<le> a)"
    by (cases a; cases b) (simp_all add: less_eq_execution_policy_def less_execution_policy_def)
  show "a \<le> a"
    by (cases a) (simp_all add: less_eq_execution_policy_def)
  show "a \<le> b \<Longrightarrow> b \<le> c \<Longrightarrow> a \<le> c"
    by (cases a; cases b; cases c) (simp_all add: less_eq_execution_policy_def)
  show "a \<le> b \<Longrightarrow> b \<le> a \<Longrightarrow> a = b"
    by (cases a; cases b) (simp_all add: less_eq_execution_policy_def)
  show "a \<le> b \<or> b \<le> a"
    by (cases a; cases b) (simp_all add: less_eq_execution_policy_def)
qed

end

lemma policy_intersect_min: "policy_intersect a b = min a b"
  by (cases a; cases b) (simp_all add: policy_intersect_def min_def less_eq_execution_policy_def)

lemma policy_allows_mono: "a \<le> b \<Longrightarrow> policy_allows a name \<Longrightarrow> policy_allows b name"
  by (cases a; cases b) (auto simp: policy_allows_def less_eq_execution_policy_def)

section \<open>Column encodings\<close>

text \<open>
  The columns \<open>audience_kind\<close> and \<open>audience_address\<close>, \<open>kind\<close> and \<open>execution_policy\<close>.
  The rows of the model hold the decoded value; the round trips below are what licenses it.
\<close>

definition encode_audience :: "audience \<Rightarrow> error + (string \<times> string option)" where
  "encode_audience a =
     (case a of ActorPrivate \<Rightarrow> Inr (''actor_private'', None)
      | Shareable \<Rightarrow> Inr (''shareable'', None)
      | ConversationScoped address \<Rightarrow>
          if \<not> blank address then Inr (''conversation_scoped'', Some address)
          else Inl (Bail ''conversation-scoped audience requires an address''))"

definition decode_audience :: "string \<Rightarrow> string option \<Rightarrow> error + audience" where
  "decode_audience kind address =
     (if kind = ''actor_private'' \<and> address = None then Inr ActorPrivate
      else if kind = ''shareable'' \<and> address = None then Inr Shareable
      else case address of
             Some a \<Rightarrow> if kind = ''conversation_scoped'' then Inr (ConversationScoped a)
                       else Inl (Bail ''invalid stored audience'')
           | None \<Rightarrow> Inl (Bail ''invalid stored audience''))"

definition encode_event_kind :: "event_kind \<Rightarrow> string" where
  "encode_event_kind k =
     (case k of UserMessage \<Rightarrow> ''user_message'' | CancelRequested \<Rightarrow> ''cancel_requested''
      | ExternalCompletion \<Rightarrow> ''external_completion'')"

definition decode_event_kind :: "string \<Rightarrow> error + event_kind" where
  "decode_event_kind k =
     (if k = ''user_message'' then Inr UserMessage
      else if k = ''cancel_requested'' then Inr CancelRequested
      else if k = ''external_completion'' then Inr ExternalCompletion
      else Inl (Bail (''invalid stored event kind: '' @ k)))"

definition encode_execution_policy :: "execution_policy \<Rightarrow> string" where
  "encode_execution_policy p =
     (case p of ActorTools \<Rightarrow> ''actor_tools'' | SkillsOnly \<Rightarrow> ''skills_only'')"

definition decode_execution_policy :: "string \<Rightarrow> error + execution_policy" where
  "decode_execution_policy p =
     (if p = ''actor_tools'' then Inr ActorTools
      else if p = ''skills_only'' then Inr SkillsOnly
      else Inl (Bail (''invalid stored execution policy: '' @ p)))"

text \<open>What \<open>encode_audience\<close> accepts, the guard every writer of an audience passes.\<close>

definition audience_ok :: "audience \<Rightarrow> bool" where
  "audience_ok a = (\<not> (\<exists>r. encode_audience a = Inl r))"

lemma encode_audience_ok:
  "encode_audience a = Inr c \<Longrightarrow> decode_audience (fst c) (snd c) = Inr a"
  by (cases a) (auto simp: encode_audience_def decode_audience_def split: if_splits)

lemma decode_encode_event_kind: "decode_event_kind (encode_event_kind k) = Inr k"
  by (cases k) (simp_all add: encode_event_kind_def decode_event_kind_def)

lemma decode_encode_policy: "decode_execution_policy (encode_execution_policy p) = Inr p"
  by (cases p) (simp_all add: encode_execution_policy_def decode_execution_policy_def)

section \<open>Delivery routes and text splitting\<close>

record delivery_route =
  dr_gateway :: string
  dr_address :: string
  dr_reply_to :: "string option"
  dr_max_text :: nat
  dr_max_caption :: nat

definition delivery_route_new ::
    "string \<Rightarrow> string \<Rightarrow> string option \<Rightarrow> nat \<Rightarrow> nat \<Rightarrow> error + delivery_route" where
  "delivery_route_new gateway address reply max_text max_caption =
     (if blank gateway then Inl (Bail ''delivery gateway must not be blank'')
      else if blank address then Inl (Bail ''delivery address must not be blank'')
      else if max_text = 0 then Inl (Bail ''delivery text limit must be greater than zero'')
      else if max_caption = 0 then Inl (Bail ''delivery caption limit must be greater than zero'')
      else Inr \<lparr>dr_gateway = gateway, dr_address = address, dr_reply_to = reply,
                dr_max_text = max_text, dr_max_caption = max_caption\<rparr>)"

definition route_ok :: "delivery_route \<Rightarrow> bool" where
  "route_ok r \<longleftrightarrow> \<not> blank (dr_gateway r) \<and> \<not> blank (dr_address r) \<and> 0 < dr_max_text r \<and> 0 < dr_max_caption r"

lemma delivery_route_new_ok: "delivery_route_new g a p t c = Inr r \<Longrightarrow> route_ok r"
  by (auto simp: delivery_route_new_def route_ok_def split: if_splits)

lemma delivery_route_new_again:
  "route_ok r \<Longrightarrow>
   delivery_route_new (dr_gateway r) (dr_address r) (dr_reply_to r) (dr_max_text r) (dr_max_caption r) = Inr r"
  by (simp add: delivery_route_new_def route_ok_def)

text \<open>
  \<open>split_unicode\<close>: the loop over the characters, with the chunks pushed so far, the current
  chunk and the count of its characters. The \<open>assert!\<close> on the limit is the caller's
  obligation \<open>0 < max_chars\<close>; with 0 the Rust function panics, here the result is \<open>None\<close>.
\<close>

fun split_loop :: "nat \<Rightarrow> string \<Rightarrow> string list \<Rightarrow> string \<Rightarrow> nat \<Rightarrow> string list" where
  "split_loop m [] chunks current count = (if current \<noteq> [] then chunks @ [current] else chunks)"
| "split_loop m (c # cs) chunks current count =
     (if count = m then split_loop m cs (chunks @ [current]) [c] 1
      else split_loop m cs chunks (current @ [c]) (count + 1))"

definition split_unicode :: "string \<Rightarrow> nat \<Rightarrow> string list option" where
  "split_unicode s m = (if 0 < m then Some (split_loop m s [] [] 0) else None)"

lemma split_loop_concat: "concat (split_loop m cs chunks current n) = concat chunks @ current @ cs"
  by (induction m cs chunks current n rule: split_loop.induct) auto

lemma split_loop_bound:
  "n = length cur \<Longrightarrow> n \<le> m \<Longrightarrow> 0 < m \<Longrightarrow> \<forall>c \<in> set chunks. c \<noteq> [] \<and> length c \<le> m \<Longrightarrow>
   x \<in> set (split_loop m cs chunks cur n) \<Longrightarrow> x \<noteq> [] \<and> length x \<le> m"
proof (induction m cs chunks cur n rule: split_loop.induct)
  case (1 m chunks current count)
  then show ?case by (auto split: if_splits)
next
  case (2 m c cs chunks current count)
  show ?case
  proof (cases "count = m")
    case True
    then have "current \<noteq> []" and "length current \<le> m" using 2(3,5) by auto
    then show ?thesis using True 2(1,5,6,7) by (simp add: Suc_leI)
  next
    case False
    then show ?thesis using 2(2-7) by simp
  qed
qed

text \<open>All chunks but the last are full, so their number is the least possible.\<close>

lemma split_loop_length:
  assumes "n = length cur" and "n \<le> m" and "0 < m"
  shows "length (split_loop m cs chunks cur n) = length chunks + (length cur + length cs + m - 1) div m"
  using assms
proof (induction m cs chunks cur n rule: split_loop.induct)
  case (1 m chunks current count)
  show ?case
  proof (cases "current = []")
    case True
    then show ?thesis using 1 by simp
  next
    case False
    then have "1 \<le> length current" by (cases current) auto
    then have "length current + m - 1 = m + (length current - 1)" and "length current - 1 < m"
      using 1(1-3) by linarith+
    moreover have "(m + (length current - 1)) div m = 1"
      using calculation(2) 1(3) div_add_self1[of m "length current - 1"] by simp
    ultimately have "(length current + m - 1) div m = 1" by metis
    then show ?thesis using False 1 by simp
  qed
next
  case (2 m c cs chunks current count)
  show ?case
  proof (cases "count = m")
    case True
    have "(m + Suc (length cs) + m - 1) div m = Suc ((1 + length cs + m - 1) div m)"
      using 2(5) div_add_self1[of m "1 + length cs + m - 1"] by (simp add: add.assoc)
    then show ?thesis using True 2 by simp
  next
    case False
    then show ?thesis using 2 by simp
  qed
qed

text \<open>
  \<open>split_unicode\<close> loses no character and respects the limit: for every positive limit it
  returns chunks whose concatenation is the text, each nonempty and at most \<open>max_chars\<close> long,
  and as few of them as the length of the text allows.
\<close>

theorem split_unicode_correct:
  assumes "0 < m"
  shows "\<exists>chunks. split_unicode s m = Some chunks \<and> concat chunks = s
           \<and> (\<forall>c \<in> set chunks. c \<noteq> [] \<and> length c \<le> m)
           \<and> length chunks = (length s + m - 1) div m"
  using assms split_loop_concat[of m s "[]" "[]" 0] split_loop_length[of 0 "[]" m s "[]"]
    split_loop_bound[of 0 "[]" m "[]" _ s]
  by (simp add: split_unicode_def)

theorem split_unicode_correct_witness:
  "\<exists>chunks. split_unicode ''abcdefg'' 3 = Some chunks \<and> concat chunks = ''abcdefg''
     \<and> (\<forall>c \<in> set chunks. c \<noteq> [] \<and> length c \<le> 3) \<and> length chunks = (length ''abcdefg'' + 3 - 1) div 3"
  by (rule split_unicode_correct) simp

section \<open>Messages\<close>

record attachment =
  at_id :: string
  at_path :: string
  at_display_name :: string
  at_media_type :: string
  at_size :: nat
  at_sha256 :: string

datatype message_part = TextPart string | AttachmentPart attachment
datatype role = RoleUser | RoleAssistant | RoleSystem | RoleTool

record llm_tool_call =
  tc_id :: string
  tc_name :: string
  tc_arguments :: string

record message =
  ms_role :: role
  ms_content :: "message_part list"
  ms_tool_calls :: "llm_tool_call list"
  ms_tool_call_id :: "string option"

definition push_text :: "message_part list \<Rightarrow> string \<Rightarrow> message_part list" where
  "push_text parts text = (if text \<noteq> [] then parts @ [TextPart text] else parts)"

definition push_attachment :: "message_part list \<Rightarrow> attachment \<Rightarrow> message_part list" where
  "push_attachment parts a = parts @ [AttachmentPart a]"

definition user_message :: "message_part list \<Rightarrow> message" where
  "user_message parts =
     \<lparr>ms_role = RoleUser, ms_content = parts, ms_tool_calls = [], ms_tool_call_id = None\<rparr>"

definition user_text :: "string \<Rightarrow> message" where
  "user_text text = user_message (push_text [] text)"

definition assistant_message :: "string \<Rightarrow> message" where
  "assistant_message text =
     \<lparr>ms_role = RoleAssistant, ms_content = push_text [] text, ms_tool_calls = [], ms_tool_call_id = None\<rparr>"

definition assistant_tool_calls :: "string \<Rightarrow> llm_tool_call list \<Rightarrow> message" where
  "assistant_tool_calls text calls =
     \<lparr>ms_role = RoleAssistant, ms_content = push_text [] text, ms_tool_calls = calls, ms_tool_call_id = None\<rparr>"

definition tool_result :: "string \<Rightarrow> string \<Rightarrow> message" where
  "tool_result call text =
     \<lparr>ms_role = RoleTool, ms_content = push_text [] text, ms_tool_calls = [], ms_tool_call_id = Some call\<rparr>"

fun join_lines :: "string list \<Rightarrow> string" where
  "join_lines [] = []"
| "join_lines [s] = s"
| "join_lines (s # ss) = s @ [CHR 0x0A] @ join_lines ss"

definition text_from_parts :: "message_part list \<Rightarrow> string" where
  "text_from_parts parts =
     join_lines (List.map_filter (\<lambda>p. case p of TextPart t \<Rightarrow> Some t | AttachmentPart a \<Rightarrow> None) parts)"

definition message_text :: "message \<Rightarrow> string" where
  "message_text m = text_from_parts (ms_content m)"

text \<open>
  \<open>validate_runtime_attachment\<close> of \<open>runtime/store.rs\<close>. A relative path is its text;
  \<open>normal_components\<close> says that each of its components is \<open>Component::Normal\<close>: \<open>std::path\<close>
  drops empty components and inner \<open>.\<close> ones, so only a leading \<open>.\<close>, a leading slash and
  \<open>..\<close> are not normal.
\<close>

fun path_parts :: "string \<Rightarrow> string \<Rightarrow> string list" where
  "path_parts [] acc = [rev acc]"
| "path_parts (c # cs) acc = (if c = CHR ''/'' then rev acc # path_parts cs [] else path_parts cs (c # acc))"

definition is_absolute :: "string \<Rightarrow> bool" where
  "is_absolute p = (case p of [] \<Rightarrow> False | c # _ \<Rightarrow> c = CHR ''/'')"

definition normal_components :: "string \<Rightarrow> bool" where
  "normal_components p \<longleftrightarrow>
     \<not> is_absolute p \<and> hd (path_parts p []) \<noteq> ''.'' \<and> ''..'' \<notin> set (path_parts p [])"

definition is_lower_hex :: "char \<Rightarrow> bool" where
  "is_lower_hex c = (let n = (of_char c :: nat) in is_digit c \<or> (97 \<le> n \<and> n \<le> 102))"

definition validate_runtime_attachment :: "attachment \<Rightarrow> error + unit" where
  "validate_runtime_attachment a =
     (if at_id a \<noteq> at_sha256 a \<or> length (at_sha256 a) \<noteq> 64
         \<or> \<not> list_all is_lower_hex (at_sha256 a)
         \<or> blank (at_display_name a) \<or> blank (at_media_type a)
         \<or> at_path a = [] \<or> is_absolute (at_path a) \<or> \<not> normal_components (at_path a)
      then Inl (Bail ''inbound attachment metadata is invalid'') else Inr ())"

section \<open>The canonical time text of a webhook\<close>

definition utf8_bytes :: "string \<Rightarrow> nat list" where
  "utf8_bytes s = concat (map (\<lambda>c. let n = (of_char c :: nat)
                              in if n < 128 then [n] else [192 + n div 64, 128 + n mod 64]) s)"

definition utf8_len :: "string \<Rightarrow> nat" where
  "utf8_len s = length (utf8_bytes s)"

definition byte_digit :: "nat \<Rightarrow> bool" where
  "byte_digit b \<longleftrightarrow> 48 \<le> b \<and> b \<le> 57"

definition number_at :: "nat list \<Rightarrow> nat \<Rightarrow> nat \<Rightarrow> nat" where
  "number_at bs i j = foldl (\<lambda>a b. 10 * a + (b - 48)) 0 (take (j - i) (drop i bs))"

definition leap_year :: "nat \<Rightarrow> bool" where
  "leap_year y \<longleftrightarrow> y mod 4 = 0 \<and> (y mod 100 \<noteq> 0 \<or> y mod 400 = 0)"

definition month_days :: "nat \<Rightarrow> nat \<Rightarrow> nat" where
  "month_days year month =
     (if month \<in> {1, 3, 5, 7, 8, 10, 12} then 31
      else if month \<in> {4, 6, 9, 11} then 30
      else if month = 2 then (if leap_year year then 29 else 28) else 0)"

definition received_shape :: "nat list \<Rightarrow> bool" where
  "received_shape bs \<longleftrightarrow>
     length bs = 24 \<and> bs ! 4 = 45 \<and> bs ! 7 = 45 \<and> bs ! 10 = 84 \<and> bs ! 13 = 58
     \<and> bs ! 16 = 58 \<and> bs ! 19 = 46 \<and> bs ! 23 = 90
     \<and> list_all (\<lambda>i. i \<in> {4, 7, 10, 13, 16, 19, 23} \<or> byte_digit (bs ! i)) [0..<24]"

definition validate_received_at :: "string \<Rightarrow> error + unit" where
  "validate_received_at value =
     (let bs = utf8_bytes value;
          bad = Bail ''webhook received_at is not canonical RFC3339 UTC''
      in if \<not> received_shape bs then Inl bad
         else let year = number_at bs 0 4; month = number_at bs 5 7; day = number_at bs 8 10;
                  hour = number_at bs 11 13; minute = number_at bs 14 16; second = number_at bs 17 19
              in if year = 0 \<or> day = 0 \<or> day > month_days year month
                    \<or> hour > 23 \<or> minute > 59 \<or> second > 59
                 then Inl bad else Inr ())"

end
