(* ===== verification/Time_Text.thy ===== *)
theory Time_Text
  imports Runtime_Model
begin

text \<open>
  \<open>Timestamp::to_rfc3339_utc\<close> and \<open>civil_date_from_unix_days\<close> of \<open>runtime/model.rs\<close>
  against the Gregorian calendar counted day by day, and against the reader of the same
  texts, \<open>validate_received_at\<close> of \<open>runtime/sqlite/dispatch.rs\<close>.
\<close>

section \<open>The calendar, by counting\<close>

text \<open>Days before 1 January of a year, counted from the year 0, and the number of a date.\<close>

fun year_start :: "nat \<Rightarrow> nat" where
  "year_start 0 = 0"
| "year_start (Suc y) = year_start y + (if leap_year y then 366 else 365)"

definition day_number :: "nat \<Rightarrow> nat \<Rightarrow> nat \<Rightarrow> nat" where
  "day_number y m d = year_start y + sum_list (map (month_days y) [1..<m]) + d - 1"

definition valid_date :: "nat \<Rightarrow> nat \<Rightarrow> nat \<Rightarrow> bool" where
  "valid_date y m d \<longleftrightarrow> 1 \<le> m \<and> m \<le> 12 \<and> 1 \<le> d \<and> d \<le> month_days y m"

text \<open>Days before 1 March of a year: the 60 days of January and February of the leap year 0,
  and a leap day for each later leap year up to this one.\<close>

definition march_start :: "nat \<Rightarrow> int" where
  "march_start y = 365 * int y + int (y div 4) - int (y div 100) + int (y div 400) + 60"

lemma mod_100_4: "(y::nat) mod 100 = 0 \<Longrightarrow> y mod 4 = 0" and mod_400_100: "(y::nat) mod 400 = 0 \<Longrightarrow> y mod 100 = 0"
  using mod_mod_cancel[of 4 100 y] mod_mod_cancel[of 100 400 y] by simp_all

lemma march_start_Suc: "march_start (Suc y) = march_start y + (if leap_year (Suc y) then 366 else 365)"
  using mod_100_4[of "Suc y"] mod_400_100[of "Suc y"]
  by (simp add: march_start_def div_Suc leap_year_def)

lemma march_start_year_start:
  "march_start y = int (year_start y) + 59 + (if leap_year y then 1 else 0)"
proof (induction y)
  case 0
  then show ?case by (simp add: march_start_def leap_year_def)
next
  case (Suc y)
  then show ?case by (simp add: march_start_Suc)
qed

section \<open>The arithmetic of an era\<close>

text \<open>
  First day of a year of the era; \<open>year_of_era\<close> is monotone, so checking it at the 400 first
  days and at the day before each determines it everywhere.
\<close>

definition era_day :: "int \<Rightarrow> int" where
  "era_day y = 365 * y + y div 4 - y div 100"

definition era_sum :: "int \<Rightarrow> int" where
  "era_sum doe = doe - doe div 1460 + doe div 36524 - doe div 146096"

lemma div_step: "(a::int) \<le> b \<Longrightarrow> 0 < k \<Longrightarrow> b div k \<le> a div k + (b - a)"
proof -
  assume ab: "a \<le> b" and k: "0 < k"
  have "(b - a) * 1 \<le> (b - a) * k" using ab k by (intro mult_left_mono) auto
  then have "b \<le> a + (b - a) * k" by simp
  then have "b div k \<le> (a + (b - a) * k) div k" using k by (rule zdiv_mono1)
  also have "\<dots> = a div k + (b - a)" using k by simp
  finally show ?thesis .
qed

lemma era_sum_mono_below: "0 \<le> a \<Longrightarrow> a \<le> b \<Longrightarrow> b < 146096 \<Longrightarrow> era_sum a \<le> era_sum b"
  using div_step[of a b 1460] zdiv_mono1[of a b 36524] by (simp add: era_sum_def)

lemma era_sum_mono:
  assumes "0 \<le> a" and "a \<le> b" and "b \<le> 146096"
  shows "era_sum a \<le> era_sum b"
proof (cases "b < 146096 \<or> a = b")
  case True
  then show ?thesis using assms era_sum_mono_below by auto
next
  case False
  then have "b = 146096" "a \<le> 146095" using assms by auto
  moreover have "era_sum 146095 \<le> era_sum 146096" by (simp add: era_sum_def)
  moreover have "era_sum a \<le> era_sum 146095" using calculation(2) assms(1) by (intro era_sum_mono_below) auto
  ultimately show ?thesis by auto
qed

lemma year_of_era_mono: "0 \<le> a \<Longrightarrow> a \<le> b \<Longrightarrow> b \<le> 146096 \<Longrightarrow> year_of_era a \<le> year_of_era b"
  unfolding year_of_era_def era_sum_def[symmetric] by (intro zdiv_mono1 era_sum_mono) auto

lemma int_div_eqI: "d = k * b + r \<Longrightarrow> 0 \<le> r \<Longrightarrow> r < k \<Longrightarrow> d div k = b" for d k b r :: int
  by simp

text \<open>A year of the era in its century \<open>c\<close>, its cycle \<open>q\<close> of four years and its place \<open>r\<close> there.\<close>

lemma era_parts:
  assumes "0 \<le> y" and "y < 400"
  obtains c q r :: int where "0 \<le> c" "c \<le> 3" "0 \<le> q" "q \<le> 24" "0 \<le> r" "r \<le> 3"
    "y = 100 * c + 4 * q + r" "era_day y = 36524 * c + 1461 * q + 365 * r"
proof -
  define c q r where "c = y div 100" and "q = y mod 100 div 4" and "r = y mod 4"
  have "y mod 100 mod 4 = r" unfolding r_def by (rule mod_mod_cancel) simp
  then have "y mod 100 = 4 * q + r" using mult_div_mod_eq[of 4 "y mod 100"] by (simp add: q_def)
  then have y: "y = 100 * c + 4 * q + r" using mult_div_mod_eq[of 100 y] by (simp add: c_def)
  have r: "0 \<le> r" "r \<le> 3" using pos_mod_bound[of 4 y] by (auto simp: r_def)
  have "y mod 100 < 100" "0 \<le> y mod 100" by auto
  then have q: "0 \<le> q" "q \<le> 24" using \<open>y mod 100 = 4 * q + r\<close> r by linarith+
  have c: "0 \<le> c" "c \<le> 3" using y q r assms by linarith+
  note bounds = c q r
  have "y div 4 = 25 * c + q" by (rule int_div_eqI[of _ _ _ r]) (use y bounds in auto)
  moreover have "y div 100 = c" by (simp add: c_def)
  ultimately have "era_day y = 36524 * c + 1461 * q + 365 * r"
    using y by (simp add: era_day_def)
  then show ?thesis using that y bounds by blast
qed

lemma year_of_era_first_day:
  assumes "0 \<le> y" and "y < 400"
  shows "year_of_era (era_day y) = y"
proof -
  obtain c q r where p: "0 \<le> c" "c \<le> 3" "0 \<le> q" "q \<le> 24" "0 \<le> r" "r \<le> 3"
    "y = 100 * c + 4 * q + r" "era_day y = 36524 * c + 1461 * q + 365 * r"
    using assms by (rule era_parts)
  have "era_day y div 1460 = 25 * c + q"
    by (rule int_div_eqI[of _ _ _ "24 * c + q + 365 * r"]) (use p in auto)
  moreover have "era_day y div 36524 = c"
    by (rule int_div_eqI[of _ _ _ "1461 * q + 365 * r"]) (use p in auto)
  moreover have "era_day y div 146096 = 0"
    by (rule int_div_eqI[of _ _ _ "era_day y"]) (use p in auto)
  ultimately have "era_sum (era_day y) = 365 * y" using p by (simp add: era_sum_def)
  then show ?thesis by (simp add: year_of_era_def era_sum_def)
qed

lemma year_of_era_last_day:
  assumes "0 < y" and "y < 400"
  shows "year_of_era (era_day y - 1) = y - 1"
proof -
  obtain c q r where p: "0 \<le> c" "c \<le> 3" "0 \<le> q" "q \<le> 24" "0 \<le> r" "r \<le> 3"
    "y = 100 * c + 4 * q + r" "era_day y = 36524 * c + 1461 * q + 365 * r"
    using era_parts[of y] assms by (metis order_less_imp_le)
  define z where "z = (if q = 0 \<and> r = 0 then 1 else 0 :: int)"
  have "24 * c + q + 365 * r > 0" using p assms(1) by (cases "c = 0") auto
  then have "(era_day y - 1) div 1460 = 25 * c + q"
    by (intro int_div_eqI[of _ _ _ "24 * c + q + 365 * r - 1"]) (use p in auto)
  moreover have "(era_day y - 1) div 36524 = c - z"
    by (rule int_div_eqI[of _ _ _ "1461 * q + 365 * r - 1 + 36524 * z"])
       (use p in \<open>auto simp: z_def\<close>)
  moreover have "(era_day y - 1) div 146096 = 0"
    by (rule int_div_eqI[of _ _ _ "era_day y - 1"]) (use p assms(1) in auto)
  ultimately have "era_sum (era_day y - 1) = 365 * (y - 1) + (364 - z)"
    using p by (simp add: era_sum_def)
  then have "year_of_era (era_day y - 1) = (365 * (y - 1) + (364 - z)) div 365"
    by (simp add: year_of_era_def era_sum_def)
  also have "\<dots> = y - 1" by (rule int_div_eqI[of _ _ _ "364 - z"]) (auto simp: z_def)
  finally show ?thesis .
qed

lemma era_day_bounds: "0 \<le> y \<Longrightarrow> y < 400 \<Longrightarrow> 0 \<le> era_day y \<and> era_day y \<le> 146096"
  using div_step[of 0 y 4] div_step[of 0 y 100] by (auto simp: era_day_def)

lemma year_of_era_spec:
  assumes "0 \<le> doe" and "doe \<le> 146096"
  shows "0 \<le> year_of_era doe \<and> year_of_era doe \<le> 399 \<and> era_day (year_of_era doe) \<le> doe
         \<and> (year_of_era doe < 399 \<longrightarrow> doe < era_day (year_of_era doe + 1))"
proof -
  let ?y = "year_of_era doe"
  have "year_of_era 0 = 0" "year_of_era 146096 = 399" by (simp_all add: year_of_era_def)
  then have y: "0 \<le> ?y" "?y \<le> 399"
    using year_of_era_mono[of 0 doe] year_of_era_mono[of doe 146096] assms by auto
  have low: "era_day ?y \<le> doe"
  proof (rule ccontr)
    assume "\<not> era_day ?y \<le> doe"
    then have d: "doe \<le> era_day ?y - 1" by simp
    show False
    proof (cases "?y = 0")
      case True
      then have "era_day ?y = 0" by (simp only: era_day_def)
      then show False using d assms(1) by simp
    next
      case False
      then have "year_of_era (era_day ?y - 1) = ?y - 1" using y by (intro year_of_era_last_day) auto
      moreover have "?y \<le> year_of_era (era_day ?y - 1)"
        using year_of_era_mono[of doe "era_day ?y - 1"] d assms(1) era_day_bounds[of ?y] y by simp
      ultimately show False by simp
    qed
  qed
  have up: "doe < era_day (?y + 1)" if "?y < 399"
  proof (rule ccontr)
    assume "\<not> doe < era_day (?y + 1)"
    then have "year_of_era (era_day (?y + 1)) \<le> ?y"
      using year_of_era_mono[of "era_day (?y + 1)" doe] era_day_bounds[of "?y + 1"] y that assms by simp
    moreover have "year_of_era (era_day (?y + 1)) = ?y + 1"
      using y that by (intro year_of_era_first_day) auto
    ultimately show False by simp
  qed
  show ?thesis using y low up by simp
qed

text \<open>
  The day within the year of March: its month and day, checked for the 366 possible days.
\<close>

definition month_prime :: "int \<Rightarrow> int" where
  "month_prime doy = (5 * doy + 2) div 153"

definition march_days :: "nat \<Rightarrow> nat" where
  "march_days k = [31, 30, 31, 30, 31, 31, 30, 31, 30, 31, 31, 29] ! k"

lemma march_prefix:
  "[0..<10] = [0, 1, 2, 3, 4, 5, 6, 7, 8, 9::nat]" "[0..<11] = [0, 1, 2, 3, 4, 5, 6, 7, 8, 9, 10::nat]"
  by (simp_all add: upt_rec)

text \<open>The offset of each month of the year of March, and the last day the next month's bound leaves.\<close>

definition march_checked :: "nat \<Rightarrow> bool" where
  "march_checked k \<longleftrightarrow> (153 * int k + 2) div 5 = int (sum_list (map march_days [0..<k]))
     \<and> (k < 11 \<longrightarrow> (153 * int k + 150) div 5 < (153 * int k + 2) div 5 + int (march_days k))"

lemma march_table: "list_all march_checked [0, 1, 2, 3, 4, 5, 6, 7, 8, 9, 10, 11]"
  by code_simp

lemma month_of_march:
  assumes "0 \<le> doy" and "doy \<le> 365"
  defines "mp \<equiv> month_prime doy"
  defines "d \<equiv> doy - (153 * mp + 2) div 5 + 1"
  shows "0 \<le> mp" "mp \<le> 11" "1 \<le> d" "d \<le> int (march_days (nat mp))"
    "mp = 11 \<Longrightarrow> doy < 365 \<Longrightarrow> d \<le> 28"
    "doy = int (sum_list (map march_days [0..<nat mp])) + d - 1"
proof -
  have mp: "153 * mp \<le> 5 * doy + 2" "5 * doy + 2 < 153 * mp + 153"
    using pos_mod_bound[of 153 "5 * doy + 2"] pos_mod_sign[of 153 "5 * doy + 2"]
      mult_div_mod_eq[of 153 "5 * doy + 2"]
    unfolding mp_def month_prime_def by linarith+
  then show r: "0 \<le> mp" "mp \<le> 11" using assms(1,2) by linarith+
  then have "nat mp < 12" by simp
  then have "nat mp \<in> set [0, 1, 2, 3, 4, 5, 6, 7, 8, 9, 10, 11]"
    by (simp add: less_Suc_eq numeral_eq_Suc)
  then have "march_checked (nat mp)" using march_table unfolding list_all_iff by blast
  then have off: "(153 * mp + 2) div 5 = int (sum_list (map march_days [0..<nat mp]))"
    and len: "mp < 11 \<longrightarrow> (153 * mp + 150) div 5 < (153 * mp + 2) div 5 + int (march_days (nat mp))"
    using r(1) by (auto simp: march_checked_def)
  have "(153 * mp + 2) div 5 \<le> (5 * doy + 4) div 5" using mp by (intro zdiv_mono1) auto
  then show "1 \<le> d" by (simp add: d_def)
  have "5 * doy div 5 \<le> (153 * mp + 150) div 5" using mp by (intro zdiv_mono1) auto
  moreover have "mp = 11 \<Longrightarrow> (153 * mp + 2) div 5 = 337" by simp
  ultimately show "d \<le> int (march_days (nat mp))"
    using len r(2) assms(2) by (cases "mp < 11") (auto simp: d_def march_days_def)
  show "mp = 11 \<Longrightarrow> doy < 365 \<Longrightarrow> d \<le> 28" by (simp add: d_def)
  show "doy = int (sum_list (map march_days [0..<nat mp])) + d - 1" by (simp add: d_def off)
qed

section \<open>The civil date is the date\<close>

lemma march_start_era:
  assumes "0 \<le> y" and "y < 400" and "0 \<le> e"
  shows "march_start (nat (y + e * 400)) = era_day y + 146097 * e + 60"
proof -
  have n: "int (nat (y + e * 400)) = y + e * 400" using assms by simp
  have d: "int (nat (y + e * 400) div 4) = y div 4 + 100 * e"
    "int (nat (y + e * 400) div 100) = y div 100 + 4 * e"
    "int (nat (y + e * 400) div 400) = e"
    unfolding zdiv_int n using assms by simp_all
  show ?thesis unfolding march_start_def era_day_def d n by (simp add: algebra_simps)
qed

text \<open>The year of March that a day falls in, as the code computes it, and where it falls there.\<close>

lemma march_year:
  assumes "0 \<le> days"
  defines "era \<equiv> (days + 719468) div 146097"
  defines "doe \<equiv> day_of_era days"
  defines "yoe \<equiv> year_of_era doe"
  defines "doy \<equiv> doe - (365 * yoe + yoe div 4 - yoe div 100)"
  defines "Y \<equiv> nat (yoe + era * 400)"
  shows "int Y = yoe + era * 400" "0 \<le> doy" "doy \<le> 365" "doy = 365 \<Longrightarrow> leap_year (Suc Y)"
    "march_start Y + doy = days + 719528"
proof -
  have era: "0 \<le> era" using assms(1) by (simp add: era_def)
  have "doe = (days + 719468) mod 146097"
    unfolding doe_def day_of_era_def Let_def by (simp add: minus_div_mult_eq_mod)
  then have doe: "0 \<le> doe" "doe \<le> 146096" and z: "days + 719468 = 146097 * era + doe"
    by (simp_all add: era_def)
  note spec = year_of_era_spec[OF doe, folded yoe_def]
  have yoe: "0 \<le> yoe" "yoe \<le> 399" "era_day yoe \<le> doe" using spec by blast+
  show Y: "int Y = yoe + era * 400" using yoe(1) era by (simp add: Y_def)
  have doy: "doy = doe - era_day yoe" by (simp add: doy_def era_day_def)
  have ms: "march_start Y = era_day yoe + 146097 * era + 60"
    unfolding Y_def by (rule march_start_era) (use yoe era in linarith)+
  then show sum: "march_start Y + doy = days + 719528" using z doy by linarith
  show "0 \<le> doy" using yoe(3) doy by linarith
  have "days + 719528 < march_start (Suc Y)"
  proof (cases "yoe < 399")
    case True
    have "march_start (nat ((yoe + 1) + era * 400)) = era_day (yoe + 1) + 146097 * era + 60"
      by (rule march_start_era) (use yoe era True in linarith)+
    moreover have "nat ((yoe + 1) + era * 400) = Suc Y" using Y by linarith
    ultimately have "march_start (Suc Y) = era_day (yoe + 1) + 146097 * era + 60" by simp
    moreover have "doe < era_day (yoe + 1)" using spec True by blast
    ultimately show ?thesis using z by linarith
  next
    case False
    have "march_start (nat (0 + (era + 1) * 400)) = era_day 0 + 146097 * (era + 1) + 60"
      by (rule march_start_era) (use era in linarith)+
    moreover have "nat (0 + (era + 1) * 400) = Suc Y" using Y False yoe(2) by simp
    ultimately have "march_start (Suc Y) = 146097 * (era + 1) + 60" by (simp add: era_day_def)
    then show ?thesis using z doe by simp
  qed
  then have "doy < (if leap_year (Suc Y) then 366 else 365)"
    using sum by (simp add: march_start_Suc)
  then show "doy \<le> 365" "doy = 365 \<Longrightarrow> leap_year (Suc Y)" by (auto split: if_splits)
qed

lemma month_days_march:
  "k < 10 \<Longrightarrow> month_days y (k + 3) = march_days k"
proof -
  assume "k < 10"
  then have "k = 0 \<or> k = 1 \<or> k = 2 \<or> k = 3 \<or> k = 4 \<or> k = 5 \<or> k = 6 \<or> k = 7 \<or> k = 8 \<or> k = 9"
    by presburger
  then show ?thesis by (elim disjE) (simp_all add: month_days_def march_days_def)
qed

lemma months_from_march:
  "k \<le> 10 \<Longrightarrow> sum_list (map (month_days y) [1..<k + 3]) =
    59 + (if leap_year y then 1 else 0) + sum_list (map march_days [0..<k])"
proof (induction k)
  case 0
  then show ?case by (simp add: upt_rec month_days_def)
next
  case (Suc k)
  then have "month_days y (k + 3) = march_days k" by (intro month_days_march) simp
  moreover have "[1..<Suc k + 3] = [1..<k + 3] @ [k + 3]" using upt_Suc_append[of 1 "k + 3"] by simp
  ultimately show ?case using Suc by simp
qed

lemma months_of_year: "sum_list (map (month_days y) [1..<13]) = (if leap_year y then 366 else 365)"
  by (simp add: upt_rec month_days_def)

lemma day_number_before_next_year:
  assumes "valid_date y m d"
  shows "day_number y m d < year_start (Suc y)"
proof -
  have "1 \<le> m" "m < 13" using assms by (auto simp: valid_date_def)
  then have "[1..<13] = [1..<m] @ m # [Suc m..<13]"
    using upt_add_eq_append[of 1 m "13 - m"] by (simp add: upt_conv_Cons)
  then have "sum_list (map (month_days y) [1..<m]) + month_days y m \<le> (if leap_year y then 366 else 365)"
    unfolding months_of_year[symmetric] by simp
  then show ?thesis using assms by (simp add: valid_date_def day_number_def split: if_splits)
qed

lemma year_start_mono: "x \<le> y \<Longrightarrow> year_start x \<le> year_start y"
  by (rule lift_Suc_mono_le[of year_start]) auto

lemma day_number_epoch: "int (day_number 1970 1 1) = 719528"
proof -
  have "int (year_start 1970) = 719528"
    using march_start_year_start[of 1970] by (simp add: march_start_def leap_year_def)
  then show ?thesis by (simp add: day_number_def)
qed

lemma civil_date_is_date:
  assumes "0 \<le> days" and "civil_date_from_unix_days days = (year, month, day)"
  shows "valid_date (nat year) (nat month) (nat day) \<and> 0 \<le> year
         \<and> int (day_number (nat year) (nat month) (nat day)) = int (day_number 1970 1 1) + days"
proof -
  define era doe where "era = (days + 719468) div 146097" and "doe = day_of_era days"
  define yoe where "yoe = year_of_era doe"
  define doy where "doy = doe - (365 * yoe + yoe div 4 - yoe div 100)"
  define Y where "Y = nat (yoe + era * 400)"
  define mp where "mp = month_prime doy"
  define d where "d = doy - (153 * mp + 2) div 5 + 1"
  note my = march_year[OF assms(1), folded era_def doe_def, folded yoe_def, folded doy_def Y_def]
  note mm = month_of_march[OF my(2,3), folded mp_def, folded d_def]
  have "civil_date_from_unix_days days =
      (yoe + era * 400 + (if mp + (if mp < 10 then 3 else - 9) \<le> 2 then 1 else 0),
       mp + (if mp < 10 then 3 else - 9), d)"
    unfolding civil_date_from_unix_days_def Let_def era_def[symmetric] doe_def[symmetric]
      yoe_def[symmetric] doy_def[symmetric] month_prime_def[symmetric] mp_def[symmetric] d_def ..
  then have res: "month = mp + (if mp < 10 then 3 else - 9)" "day = d"
      "year = int Y + (if month \<le> 2 then 1 else 0)"
    using assms(2) my(1) by (metis prod.inject)+
  have epoch: "march_start Y + doy = int (day_number 1970 1 1) + days"
    using my(5) day_number_epoch by simp
  show ?thesis
  proof (cases "mp < 10")
    case True
    then have y: "year = int Y" and m: "nat month = nat mp + 3" and m12: "1 \<le> nat month" "nat month \<le> 12"
      using res mm(1) by (auto simp: nat_add_distrib)
    have len: "month_days Y (nat mp + 3) = march_days (nat mp)"
      using True mm(1) by (intro month_days_march) simp
    have "sum_list (map (month_days Y) [1..<nat mp + 3]) =
        59 + (if leap_year Y then 1 else 0) + sum_list (map march_days [0..<nat mp])"
      using True mm(1) by (intro months_from_march) simp
    then have "int (day_number Y (nat mp + 3) (nat d)) = march_start Y + doy"
      using mm(3,6) march_start_year_start[of Y] by (simp add: day_number_def)
    moreover have "1 \<le> nat d" "nat d \<le> march_days (nat mp)" using mm(3,4) by simp_all
    ultimately show ?thesis
      using m12 epoch unfolding y m \<open>day = d\<close> by (simp add: valid_date_def len)
  next
    case False
    have ms: "int (year_start (Suc Y)) = march_start Y + 306"
      using march_start_year_start[of Y] by simp
    have d: "1 \<le> d" by (fact mm(3))
    from False mm(2) consider "mp = 10" | "mp = 11" by linarith
    then show ?thesis
    proof cases
      case 1
      then have m: "nat month = 1" and y: "nat year = Suc Y" and pos: "0 \<le> year" using res by simp_all
      have "sum_list (map march_days [0..<nat mp]) = 306"
        unfolding 1 by (simp add: march_days_def march_prefix)
      then have "doy = 306 + d - 1" using mm(6) by simp
      then have "int (day_number (Suc Y) 1 (nat d)) = int (day_number 1970 1 1) + days"
        using ms epoch d by (simp add: day_number_def)
      moreover have "nat d \<le> 31" using mm(4) 1 by (simp add: march_days_def)
      ultimately show ?thesis
        unfolding m y \<open>day = d\<close> using d pos by (simp add: valid_date_def month_days_def)
    next
      case 2
      then have m: "nat month = 2" and y: "nat year = Suc Y" and pos: "0 \<le> year" using res by simp_all
      have "sum_list (map march_days [0..<nat mp]) = 337"
        unfolding 2 by (simp add: march_days_def march_prefix)
      then have "doy = 337 + d - 1" using mm(6) by simp
      moreover have "[1..<2] = [1::nat]" by (simp add: upt_rec)
      ultimately have "int (day_number (Suc Y) 2 (nat d)) = int (day_number 1970 1 1) + days"
        using ms epoch d by (simp add: day_number_def month_days_def)
      moreover have "nat d \<le> month_days (Suc Y) 2"
      proof (cases "doy = 365")
        case True
        then show ?thesis using my(4) mm(4) 2 by (simp add: month_days_def march_days_def)
      next
        case False
        then show ?thesis using my(3) mm(5) 2 by (auto simp: month_days_def)
      qed
      ultimately show ?thesis
        unfolding m y \<open>day = d\<close> using d pos by (simp add: valid_date_def)
    qed
  qed
qed

section \<open>The printed text is the canonical one\<close>

lemma utf8_bytes_append: "utf8_bytes (s @ t) = utf8_bytes s @ utf8_bytes t"
  by (simp add: utf8_bytes_def)

lemma utf8_bytes_ascii: "(\<forall>c \<in> set s. (of_char c :: nat) < 128) \<Longrightarrow> utf8_bytes s = map of_char s"
  by (induction s) (auto simp: utf8_bytes_def)

lemma utf8_bytes_digits: "\<forall>c \<in> set s. is_digit c \<Longrightarrow> utf8_bytes s = map of_char s"
  by (rule utf8_bytes_ascii) (auto simp: is_digit_def Let_def)

definition byte_value :: "nat list \<Rightarrow> nat" where
  "byte_value bs = foldl (\<lambda>a b. 10 * a + (b - 48)) 0 bs"

lemma pad_bytes:
  assumes "n < 10 ^ w" and "0 < w"
  shows "length (utf8_bytes (pad_nat w n)) = w" and "list_all byte_digit (utf8_bytes (pad_nat w n))"
    and "byte_value (utf8_bytes (pad_nat w n)) = n"
proof -
  have b: "utf8_bytes (pad_nat w n) = map of_char (pad_nat w n)"
    by (rule utf8_bytes_digits) (rule pad_nat_digits)
  show "length (utf8_bytes (pad_nat w n)) = w" using assms by (simp add: b length_pad_nat)
  show "list_all byte_digit (utf8_bytes (pad_nat w n))"
    using pad_nat_digits[of w n] by (auto simp: b list_all_iff byte_digit_def is_digit_def Let_def)
  have "foldl (\<lambda>a b. 10 * a + (b - 48)) 0 (map of_char (pad_nat w n)) = read_nat (pad_nat w n)"
    by (simp add: read_nat_def digit_val_def foldl_map)
  then show "byte_value (utf8_bytes (pad_nat w n)) = n" by (simp add: b byte_value_def)
qed

lemma two_bytes: "length bs = 2 \<Longrightarrow> \<exists>a b. bs = [a, b]"
  and three_bytes: "length bs = 3 \<Longrightarrow> \<exists>a b c. bs = [a, b, c]"
  and four_bytes: "length bs = 4 \<Longrightarrow> \<exists>a b c d. bs = [a, b, c, d]"
  by (auto simp: length_Suc_conv numeral_eq_Suc)

lemma upt_24: "[0..<24] = [0,1,2,3,4,5,6,7,8,9,10,11,12,13,14,15,16,17,18,19,20,21,22,23::nat]"
  by (simp add: upt_rec)

lemma validate_fields:
  assumes "utf8_bytes s = y @ [45] @ mo @ [45] @ d @ [84] @ h @ [58] @ mi @ [58] @ sec @ [46] @ ms @ [90]"
    and "length y = 4" "length mo = 2" "length d = 2" "length h = 2" "length mi = 2" "length sec = 2" "length ms = 3"
    and "list_all byte_digit y" "list_all byte_digit mo" "list_all byte_digit d" "list_all byte_digit h"
      "list_all byte_digit mi" "list_all byte_digit sec" "list_all byte_digit ms"
    and "0 < byte_value y" "0 < byte_value d" "byte_value d \<le> month_days (byte_value y) (byte_value mo)"
      "byte_value h \<le> 23" "byte_value mi \<le> 59" "byte_value sec \<le> 59"
  shows "validate_received_at s = Inr ()"
proof -
  obtain y0 y1 y2 y3 where y: "y = [y0, y1, y2, y3]" using four_bytes assms(2) by blast
  obtain m0 m1 where mo: "mo = [m0, m1]" using two_bytes assms(3) by blast
  obtain d0 d1 where d: "d = [d0, d1]" using two_bytes assms(4) by blast
  obtain h0 h1 where h: "h = [h0, h1]" using two_bytes assms(5) by blast
  obtain i0 i1 where mi: "mi = [i0, i1]" using two_bytes assms(6) by blast
  obtain s0 s1 where sec: "sec = [s0, s1]" using two_bytes assms(7) by blast
  obtain l0 l1 l2 where ms: "ms = [l0, l1, l2]" using three_bytes assms(8) by blast
  let ?bs = "utf8_bytes s"
  have bs: "?bs = [y0, y1, y2, y3, 45, m0, m1, 45, d0, d1, 84, h0, h1, 58, i0, i1, 58, s0, s1, 46, l0, l1, l2, 90]"
    using assms(1) by (simp add: y mo d h mi sec ms)
  have "received_shape ?bs"
    using assms(9-15) unfolding received_shape_def upt_24 bs y mo d h mi sec ms by simp
  moreover have "number_at ?bs 0 4 = byte_value y" "number_at ?bs 5 7 = byte_value mo"
    "number_at ?bs 8 10 = byte_value d" "number_at ?bs 11 13 = byte_value h"
    "number_at ?bs 14 16 = byte_value mi" "number_at ?bs 17 19 = byte_value sec"
    unfolding number_at_def byte_value_def bs y mo d h mi sec ms by simp_all
  ultimately show ?thesis using assms(16-21) by (simp add: validate_received_at_def Let_def)
qed

text \<open>
  Every timestamp the runtime can print is printed as the canonical text the reader of
  webhook events accepts: whatever \<open>to_rfc3339_utc\<close> returns passes \<open>validate_received_at\<close>
  (a valid calendar date, hours, minutes and seconds in range, 24 bytes).
\<close>

theorem rfc3339_accepted:
  assumes "to_rfc3339_utc t = Inr s"
  shows "validate_received_at s = Inr ()"
proof -
  define days dm where "days = t div 86400000" and "dm = t mod 86400000"
  obtain year month day where c: "civil_date_from_unix_days days = (year, month, day)"
    by (cases "civil_date_from_unix_days days") auto
  have t: "0 \<le> t" and y: "year \<le> 9999" and s: "s =
      pad_nat 4 (nat year) @ ''-'' @ pad_nat 2 (nat month) @ ''-'' @ pad_nat 2 (nat day) @ ''T'' @
      pad_nat 2 (nat (dm div 3600000)) @ '':'' @ pad_nat 2 (nat (dm mod 3600000 div 60000)) @ '':'' @
      pad_nat 2 (nat (dm mod 60000 div 1000)) @ ''.'' @ pad_nat 3 (nat (dm mod 1000)) @ ''Z''"
    using assms c by (auto simp: to_rfc3339_utc_def Let_def days_def dm_def split: if_splits)
  have "0 \<le> days" using t by (simp add: days_def)
  note date = civil_date_is_date[OF this c]
  have pos: "1970 \<le> nat year"
  proof (rule ccontr)
    assume "\<not> 1970 \<le> nat year"
    then have "year_start (Suc (nat year)) \<le> year_start 1970" by (intro year_start_mono) simp
    moreover have "day_number (nat year) (nat month) (nat day) < year_start (Suc (nat year))"
      using date by (intro day_number_before_next_year) simp
    ultimately have "int (day_number (nat year) (nat month) (nat day)) < int (year_start 1970)" by linarith
    then show False using date \<open>0 \<le> days\<close> by (simp add: day_number_def)
  qed
  have dm: "0 \<le> dm" "dm < 86400000" by (simp_all add: dm_def)
  have md: "month_days (nat year) (nat month) \<le> 31" by (simp add: month_days_def)
  note py = pad_bytes[of "nat year" 4]
  note pm = pad_bytes[of "nat month" 2]
  note pd = pad_bytes[of "nat day" 2]
  note ph = pad_bytes[of "nat (dm div 3600000)" 2]
  note pi = pad_bytes[of "nat (dm mod 3600000 div 60000)" 2]
  note ps = pad_bytes[of "nat (dm mod 60000 div 1000)" 2]
  note pl = pad_bytes[of "nat (dm mod 1000)" 3]
  have b: "nat year < 10 ^ 4" "nat month < 10 ^ 2" "nat day < 10 ^ 2" using y date md
    by (auto simp: valid_date_def)
  have bh: "nat (dm div 3600000) \<le> 23" using dm by linarith
  have bi: "nat (dm mod 3600000 div 60000) \<le> 59"
    using pos_mod_bound[of 3600000 dm] by linarith
  have bs: "nat (dm mod 60000 div 1000) \<le> 59" using pos_mod_bound[of 60000 dm] by linarith
  have bl: "nat (dm mod 1000) < 10 ^ 3" using pos_mod_bound[of 1000 dm] by simp
  have b2: "nat (dm div 3600000) < 10 ^ 2" "nat (dm mod 3600000 div 60000) < 10 ^ 2"
    "nat (dm mod 60000 div 1000) < 10 ^ 2"
    using bh bi bs unfolding power2_eq_square by linarith+
  have sep: "utf8_bytes ''-'' = [45]" "utf8_bytes ''T'' = [84]" "utf8_bytes '':'' = [58]"
    "utf8_bytes ''.'' = [46]" "utf8_bytes ''Z'' = [90]"
    by (simp_all add: utf8_bytes_def)
  have bytes: "utf8_bytes s = utf8_bytes (pad_nat 4 (nat year)) @ [45] @ utf8_bytes (pad_nat 2 (nat month)) @
      [45] @ utf8_bytes (pad_nat 2 (nat day)) @ [84] @ utf8_bytes (pad_nat 2 (nat (dm div 3600000))) @ [58] @
      utf8_bytes (pad_nat 2 (nat (dm mod 3600000 div 60000))) @ [58] @
      utf8_bytes (pad_nat 2 (nat (dm mod 60000 div 1000))) @ [46] @
      utf8_bytes (pad_nat 3 (nat (dm mod 1000))) @ [90]"
    unfolding s utf8_bytes_append sep ..
  have day: "0 < nat day" "nat day \<le> month_days (nat year) (nat month)"
    using date unfolding valid_date_def by linarith+
  show ?thesis
    by (rule validate_fields[OF bytes])
       (use b b2 bh bi bs bl py pm pd ph pi ps pl pos day in \<open>simp_all only: zero_less_numeral True_implies_equals\<close>)
qed

lemma leap_day_2024: "to_rfc3339_utc 1709164800000 = Inr ''2024-02-29T00:00:00.000Z''"
  by code_simp

theorem rfc3339_accepted_witness: "validate_received_at ''2024-02-29T00:00:00.000Z'' = Inr ()"
  by (rule rfc3339_accepted [of 1709164800000]) (rule leap_day_2024)

text \<open>
  \<open>civil_date_from_unix_days\<close> returns the date that lies \<open>days\<close> days after 1 January 1970
  in the calendar counted year by year and month by month: a valid month and day of the month,
  and the day number is that of the epoch plus \<open>days\<close>.
\<close>

theorem civil_date_correct:
  assumes "0 \<le> days" and "civil_date_from_unix_days days = (year, month, day)"
  shows "valid_date (nat year) (nat month) (nat day) \<and> 0 \<le> year
         \<and> int (day_number (nat year) (nat month) (nat day)) = int (day_number 1970 1 1) + days"
  using assms by (rule civil_date_is_date)

theorem civil_date_correct_witness:
  "valid_date 2024 2 29 \<and> int (day_number 2024 2 29) = int (day_number 1970 1 1) + 19782"
proof -
  have "civil_date_from_unix_days 19782 = (2024, 2, 29)" by code_simp
  from civil_date_correct [OF _ this] show ?thesis by simp
qed

end
