(* ===== verification/Store_Types.thy ===== *)
theory Store_Types
  imports Runtime_Model
begin

text \<open>
  The tables of the SQLite store (the migrations under \<open>runtime/migrations/\<close>) as lists of
  row records in rowid order, the payload types of \<open>runtime/store.rs\<close>, and the functions of
  other crates the store calls.

  A column restricted by a \<open>CHECK (c IN \<dots>)\<close> is a datatype, a nullable column an option. The
  pair of columns \<open>audience_kind\<close>, \<open>audience_address\<close> is one value of type \<open>audience\<close>
  (the round trip is \<open>encode_audience_ok\<close>), and the five delivery columns of an event or run
  are one \<open>delivery_route option\<close>: every statement of the code writes them together, all from
  a route or all null. JSON columns stay text.
\<close>

section \<open>Payloads and outcomes\<close>

record managed_artifact =
  ma_id :: artifact_id
  ma_path :: string
  ma_display_name :: string
  ma_media_type :: string
  ma_size :: nat
  ma_sha256 :: string
  ma_caption :: "string option"

record durable_tool_execution =
  de_observation :: string
  de_artifacts :: "managed_artifact list"

datatype outbox_payload = OpText string | OpFile managed_artifact | OpTerminalError string string
datatype final_payload = FpText string | FpFile managed_artifact | FpTerminalError string string
datatype attempt_outcome =
  AoSucceeded durable_tool_execution | AoFailedKnown string | AoCancelledKnown
datatype command_outcome =
  CoLinked actor_id | CoAlreadyLinked actor_id | CoInvalidOrExpired
  | CoRateLimited timestamp | CoIdentityConflict

record tool_capabilities =
  cap_retry_safe :: bool
  cap_idempotency_key :: bool
  cap_cancellable :: bool
  cap_outcome_probe :: bool
  cap_compensatable :: bool
  cap_requires_approval :: bool

definition conservative_capabilities :: tool_capabilities where
  "conservative_capabilities =
     \<lparr>cap_retry_safe = False, cap_idempotency_key = False, cap_cancellable = False,
      cap_outcome_probe = False, cap_compensatable = False, cap_requires_approval = False\<rparr>"

record manifest_entry =
  me_delivery :: delivery_id
  me_kind :: string
  me_bytes :: nat
  me_sha256 :: string
  me_chunks :: nat

record bundle_manifest =
  mf_entries :: "manifest_entry list"
  mf_sha256 :: string

record result_bundle =
  bu_id :: bundle_id
  bu_request :: request_id
  bu_state :: bundle_state
  bu_manifest :: bundle_manifest
  bu_deliveries :: "(delivery_id \<times> final_payload) list"

record actor_lease =
  ls_actor :: actor_id
  ls_owner :: string
  ls_generation :: int
  ls_expires :: timestamp

record attached_run =
  ar_lease :: actor_lease
  ar_work :: work_item_id
  ar_run :: run_id
  ar_observed :: int
  ar_sources :: "event_id list"
  ar_requests :: "request_id list"
  ar_audience :: audience
  ar_route :: "delivery_route option"
  ar_policy :: execution_policy
  ar_source :: "string option"
  ar_messages :: "message list"

record new_outbox_intent =
  ni_id :: outbox_id
  ni_key :: string
  ni_class :: string
  ni_audience :: audience
  ni_payload :: outbox_payload

section \<open>Rows\<close>

record actor_row =
  ac_id :: actor_id
  ac_enabled :: bool
  ac_tools :: string
  ac_next_seq :: int
  ac_created :: timestamp

record identity_row =
  id_provider :: string
  id_subject :: string
  id_actor :: actor_id
  id_username :: "string option"

datatype work_kind = WkInteractive | WkExternal

record work_item_row =
  wi_id :: work_item_id
  wi_actor :: actor_id
  wi_kind :: work_kind
  wi_audience :: audience
  wi_state :: work_item_state
  wi_failures :: nat
  wi_next_attempt :: "timestamp option"
  wi_last_error :: "string option"
  wi_cancel_at :: "timestamp option"
  wi_created :: timestamp
  wi_updated :: timestamp

record event_row =
  ev_id :: event_id
  ev_actor :: actor_id
  ev_work :: "work_item_id option"
  ev_seq :: int
  ev_gateway :: string
  ev_external :: string
  ev_kind :: event_kind
  ev_audience :: audience
  ev_payload :: string
  ev_state :: event_state
  ev_run :: "run_id option"
  ev_route :: "delivery_route option"
  ev_policy :: execution_policy
  ev_source :: "string option"
  ev_created :: timestamp
  ev_updated :: timestamp

record lease_row =
  al_actor :: actor_id
  al_generation :: int
  al_owner :: string
  al_expires :: timestamp

record run_row =
  rn_id :: run_id
  rn_actor :: actor_id
  rn_work :: work_item_id
  rn_state :: run_state
  rn_generation :: int
  rn_observed :: int
  rn_route :: "delivery_route option"
  rn_policy :: execution_policy
  rn_source :: "string option"
  rn_created :: timestamp
  rn_updated :: timestamp

record run_event_row =
  re_run :: run_id
  re_event :: event_id
  re_incorporated :: bool

record recent_row =
  rm_actor :: actor_id
  rm_work :: work_item_id
  rm_run :: run_id
  rm_audience :: audience
  rm_message :: string
  rm_created :: timestamp

record attempt_row =
  ta_id :: attempt_id
  ta_run :: run_id
  ta_call :: string
  ta_tool :: string
  ta_args :: string
  ta_caps :: string
  ta_state :: attempt_state
  ta_outcome :: "string option"
  ta_checkpointed :: bool
  ta_created :: timestamp
  ta_updated :: timestamp

datatype artifact_state = AfStaging | AfReferenced

record artifact_row =
  af_id :: artifact_id
  af_actor :: actor_id
  af_attempt :: "attempt_id option"
  af_state :: artifact_state
  af_path :: string
  af_display :: string
  af_media :: string
  af_size :: "int option"
  af_sha256 :: "string option"
  af_owner :: "string option"
  af_expires :: "timestamp option"
  af_created :: timestamp
  af_updated :: timestamp

record local_request_row =
  lr_id :: request_id
  lr_actor :: actor_id
  lr_event :: event_id
  lr_work :: "work_item_id option"
  lr_prompt :: string
  lr_state :: local_request_state
  lr_bundle :: "bundle_id option"
  lr_created :: timestamp
  lr_updated :: timestamp

record bundle_row =
  rb_id :: bundle_id
  rb_request :: request_id
  rb_count :: int
  rb_manifest :: string
  rb_state :: bundle_state
  rb_attempts :: int
  rb_next :: "timestamp option"
  rb_owner :: "string option"
  rb_expires :: "timestamp option"
  rb_error :: "string option"
  rb_created :: timestamp
  rb_updated :: timestamp

record outbox_row =
  ob_id :: outbox_id
  ob_key :: string
  ob_actor :: actor_id
  ob_work :: work_item_id
  ob_run :: run_id
  ob_class :: string
  ob_audience :: audience
  ob_payload :: string
  ob_created :: timestamp

record outbox_delivery_row =
  od_id :: delivery_id
  od_outbox :: outbox_id
  od_bundle :: bundle_id
  od_ordinal :: int
  od_address :: string
  od_created :: timestamp

record cancel_target_row =
  ct_cancel :: cancel_id
  ct_request :: request_id
  ct_created :: timestamp

record link_code_row =
  lc_actor :: actor_id
  lc_hash :: string
  lc_created :: timestamp
  lc_expires :: timestamp

record link_attempt_row =
  la_provider :: string
  la_subject :: string
  la_window :: timestamp
  la_failures :: int
  la_blocked :: "timestamp option"

record gateway_command_row =
  gc_gateway :: string
  gc_external :: string
  gc_kind :: string
  gc_outcome :: string
  gc_created :: timestamp

record gateway_delivery_row =
  gd_id :: string
  gd_key :: string
  gd_source :: "outbox_id option"
  gd_route :: delivery_route
  gd_ordinal :: int
  gd_payload :: string
  gd_state :: gateway_delivery_state
  gd_attempts :: int
  gd_next :: "timestamp option"
  gd_owner :: "string option"
  gd_expires :: "timestamp option"
  gd_remote :: "string option"
  gd_error_class :: "string option"
  gd_error :: "string option"
  gd_retry_safe :: bool
  gd_created :: timestamp
  gd_updated :: timestamp

datatype stream_state = StActive | StClosed | StFinalizing

record gateway_stream_row =
  gs_work :: work_item_id
  gs_gateway :: string
  gs_address :: string
  gs_remote :: string
  gs_state :: stream_state
  gs_updated :: timestamp

datatype receipt_kind = RkExplicit | RkAutomatic

record receipt_row =
  wr_endpoint :: string
  wr_kind :: receipt_kind
  wr_hash :: string
  wr_event :: event_id
  wr_accepted :: timestamp

record latest_route_row =
  tr_actor :: actor_id
  tr_gateway :: string
  tr_address :: string
  tr_max_text :: nat
  tr_max_caption :: nat
  tr_seq :: int
  tr_updated :: timestamp

datatype deferred_state = DwPending | DwReleased | DwSuperseded

record deferred_row =
  dw_outbox :: outbox_id
  dw_actor :: actor_id
  dw_seq :: int
  dw_state :: deferred_state
  dw_released :: "timestamp option"
  dw_created :: timestamp
  dw_updated :: timestamp

record deletion_row =
  dl_actor :: actor_id
  dl_requested :: timestamp

datatype legacy_entity = LeWorkItem | LeRun | LeEvent | LeToolAttempt

record quarantine_row =
  qr_kind :: legacy_entity
  qr_entity :: string
  qr_prior :: string
  qr_snapshot :: string
  qr_at :: timestamp

record archive_row =
  ax_id :: string
  ax_key :: string
  ax_actor :: actor_id
  ax_work :: work_item_id
  ax_run :: run_id
  ax_class :: string
  ax_audience :: audience
  ax_payload :: string
  ax_state :: string
  ax_created :: timestamp
  ax_updated :: timestamp

section \<open>The database\<close>

record db =
  actors :: "actor_row list"
  identities :: "identity_row list"
  work_items :: "work_item_row list"
  events :: "event_row list"
  leases :: "lease_row list"
  runs :: "run_row list"
  run_events :: "run_event_row list"
  recent :: "recent_row list"
  attempts :: "attempt_row list"
  artifacts :: "artifact_row list"
  local_requests :: "local_request_row list"
  bundles :: "bundle_row list"
  outbox :: "outbox_row list"
  outbox_deliveries :: "outbox_delivery_row list"
  cancel_targets :: "cancel_target_row list"
  link_codes :: "link_code_row list"
  link_attempts :: "link_attempt_row list"
  gateway_commands :: "gateway_command_row list"
  gateway_deliveries :: "gateway_delivery_row list"
  gateway_streams :: "gateway_stream_row list"
  receipts :: "receipt_row list"
  latest_routes :: "latest_route_row list"
  deferred :: "deferred_row list"
  actor_deletions :: "deletion_row list"
  quarantine :: "quarantine_row list"
  outbox_archive :: "archive_row list"

text \<open>
  A transaction returns an error, on which SQLite rolls the database back, or its result with
  the database it leaves. An early return without \<open>commit\<close> is a result with the database
  the transaction began with. \<open>commit_state\<close> is what the connection sees afterwards.
\<close>

type_synonym 'a tx = "error + ('a \<times> db)"

definition commit_state :: "db \<Rightarrow> 'a tx \<Rightarrow> db" where
  "commit_state d r = (case r of Inl e \<Rightarrow> d | Inr (x, d') \<Rightarrow> d')"

lemma commit_state_simps [simp]:
  "commit_state d (Inl e) = d" "commit_state d (Inr (x, d')) = d'"
  by (simp_all add: commit_state_def)

text \<open>\<open>map_err(|error| anyhow!("prefix: {error}"))\<close>.\<close>

definition wrap_err :: "string \<Rightarrow> error + 'a \<Rightarrow> error + 'a" where
  "wrap_err prefix r = (case r of Inl e \<Rightarrow> Inl (Bail (prefix @ '': '' @ err_text e)) | Inr x \<Rightarrow> Inr x)"

lemma wrap_err_eq_Inr [simp]: "wrap_err p r = Inr x \<longleftrightarrow> r = Inr x"
  by (cases r) (simp_all add: wrap_err_def)

lemma wrap_err_Inr [simp]: "wrap_err p (Inr x) = Inr x"
  by (simp add: wrap_err_def)

lemma commit_state_wrap_err [simp]: "commit_state d (wrap_err p r) = commit_state d r"
  by (cases r) (simp_all add: wrap_err_def)

definition empty_db :: db where
  "empty_db = \<lparr>actors = [], identities = [], work_items = [], events = [], leases = [], runs = [],
     run_events = [], recent = [], attempts = [], artifacts = [], local_requests = [], bundles = [],
     outbox = [], outbox_deliveries = [], cancel_targets = [], link_codes = [], link_attempts = [],
     gateway_commands = [], gateway_deliveries = [], gateway_streams = [], receipts = [],
     latest_routes = [], deferred = [], actor_deletions = [], quarantine = [], outbox_archive = []\<rparr>"

section \<open>Functions of other crates\<close>

text \<open>
  \<open>serde_json\<close> and the derived serializers, \<open>sha2\<close> and \<open>uuid\<close>, as parameters. The error
  of a reader is its message. A fresh identifier comes from a supply \<open>uid\<close> of strings, one
  position per call of \<open>new()\<close>.
\<close>

datatype json = JNull | JBool bool | JNumber string | JString string | JArray "json list"
  | JObject "(string \<times> json) list"

record attachment_event =
  ae_kind :: string
  ae_caption :: "string option"
  ae_attachment :: attachment

record ext =
  parse_json :: "string \<Rightarrow> string + json"
  render_json :: "json \<Rightarrow> string"
  read_attachment_event :: "string \<Rightarrow> string + attachment_event"
  write_message :: "message \<Rightarrow> string"
  read_message :: "string \<Rightarrow> string + message"
  write_payload :: "outbox_payload \<Rightarrow> string"
  read_payload :: "string \<Rightarrow> string + outbox_payload"
  write_outcome :: "attempt_outcome \<Rightarrow> string"
  read_outcome :: "string \<Rightarrow> string + attempt_outcome"
  write_capabilities :: "tool_capabilities \<Rightarrow> string"
  read_capabilities :: "string \<Rightarrow> string + tool_capabilities"
  write_tools :: "string list \<Rightarrow> string"
  read_tools :: "string \<Rightarrow> string + string list"
  write_command :: "command_outcome \<Rightarrow> string"
  read_command :: "string \<Rightarrow> string + command_outcome"
  write_cancel :: "request_id \<times> bool \<Rightarrow> string"
  read_cancel :: "string \<Rightarrow> string + (request_id \<times> bool)"
  write_final :: "final_payload \<Rightarrow> string"
  write_manifest :: "manifest_entry list \<Rightarrow> string"
  sha256_hex :: "string \<Rightarrow> string"
  parse_uuid :: "string \<Rightarrow> string option"

type_synonym id_supply = "nat list \<Rightarrow> string"

definition subsupply :: "id_supply \<Rightarrow> nat \<Rightarrow> id_supply" where
  "subsupply uid k = (\<lambda>p. uid (k # p))"

definition lift_read :: "string + 'a \<Rightarrow> error + 'a" where
  "lift_read r = (case r of Inl m \<Rightarrow> Inl (Bail m) | Inr x \<Rightarrow> Inr x)"

lemma lift_read_eq_Inr [simp]: "lift_read r = Inr x \<longleftrightarrow> r = Inr x"
  by (cases r) (simp_all add: lift_read_def)

lemma lift_read_Inr [simp]: "lift_read (Inr x) = Inr x"
  by (simp add: lift_read_def)

text \<open>The documented behaviour of a serializer and its reader.\<close>

definition payload_roundtrip :: "ext \<Rightarrow> bool" where
  "payload_roundtrip x \<longleftrightarrow> (\<forall>p. read_payload x (write_payload x p) = Inr p)"

definition outcome_roundtrip :: "ext \<Rightarrow> bool" where
  "outcome_roundtrip x \<longleftrightarrow> (\<forall>p. read_outcome x (write_outcome x p) = Inr p)"

definition cancel_roundtrip :: "ext \<Rightarrow> bool" where
  "cancel_roundtrip x \<longleftrightarrow> (\<forall>q. read_cancel x (write_cancel x q) = Inr q)"

definition command_roundtrip :: "ext \<Rightarrow> bool" where
  "command_roundtrip x \<longleftrightarrow> (\<forall>c. read_command x (write_command x c) = Inr c)"

end
