(* ===== verification/Idempotence.thy ===== *)
theory Idempotence
  imports Store_Types
begin

text \<open>
  The contract of a submission that carries a key: the first accepted one is recorded under the
  key, and while the record stands a submission with that key is answered as a duplicate and
  changes nothing. \<open>ingest\<close>, \<open>submit_for_actor\<close> and \<open>ingest_webhook\<close> interpret it.
\<close>

locale idempotent_submission =
  fixes submit :: "'c \<Rightarrow> timestamp \<Rightarrow> db \<Rightarrow> 'o tx"
    and valid :: "db \<Rightarrow> 'c \<Rightarrow> bool"
    and key :: "'c \<Rightarrow> 'k"
    and recorded :: "db \<Rightarrow> 'k \<Rightarrow> 'r option"
    and accepted :: "'o \<Rightarrow> 'r option"
    and duplicate :: "'r \<Rightarrow> 'o"
  assumes replayed: "valid d c \<Longrightarrow> recorded d (key c) = Some r \<Longrightarrow> submit c now d = Inr (duplicate r, d)"
    and records: "submit c now d = Inr (out, d') \<Longrightarrow> accepted out = Some r \<Longrightarrow> recorded d' (key c) = Some r"
begin

lemma submitted_twice:
  assumes "submit c now d = Inr (out, d')" and "accepted out = Some r" and "valid d' c'" and "key c' = key c"
  shows "submit c' later d' = Inr (duplicate r, d')"
  using replayed[OF assms(3), of r later] records[OF assms(1,2)] assms(4) by simp

lemma replay_keeps_db:
  assumes "valid d c" and "recorded d (key c) = Some r"
  shows "commit_state d (submit c now d) = d"
  using replayed[OF assms] by simp

text \<open>Steps that keep the record do not reopen the key.\<close>

lemma never_accepted_again:
  assumes "submit c now d = Inr (out, d1)" and "accepted out = Some r"
    and "recorded d2 (key c) = recorded d1 (key c)" and "valid d2 c'" and "key c' = key c"
  shows "submit c' later d2 = Inr (duplicate r, d2)"
  using replayed[OF assms(4), of r later] records[OF assms(1,2)] assms(3,5) by simp

end

end
