(* ===== verification/Ingress.thy ===== *)
theory Ingress
  imports Idempotence Event_Message
begin

text \<open>
  Inbound events: \<open>ingest\<close> and the release of deferred webhook results of
  \<open>runtime/sqlite/ingress.rs\<close>, and \<open>project_outbox_to_gateway\<close> of
  \<open>runtime/sqlite/gateway_projection.rs\<close>, which turns an outbox payload into the gateway
  deliveries of its chunks.
\<close>

section \<open>Projecting an outbox payload to its gateway\<close>

definition text_chunks :: "string \<Rightarrow> nat \<Rightarrow> error + outbox_payload list" where
  "text_chunks s m =
     ebind (from_option (Bail ''text chunk limit must be greater than zero'') (split_unicode s m)) (\<lambda>cs.
       Inr (map OpText cs))"

definition projected_payloads :: "outbox_payload \<Rightarrow> delivery_route \<Rightarrow> error + outbox_payload list" where
  "projected_payloads p route =
     (case p of
        OpText s \<Rightarrow> text_chunks s (dr_max_text route)
      | OpTerminalError code s \<Rightarrow> text_chunks s (dr_max_text route)
      | OpFile a \<Rightarrow>
          (case ma_caption a of
             Some c \<Rightarrow>
               if dr_max_caption route < length c
               then ebind (text_chunks c (dr_max_text route)) (\<lambda>cs. Inr (cs @ [OpFile (a\<lparr>ma_caption := None\<rparr>)]))
               else Inr [p]
           | None \<Rightarrow> Inr [p]))"

definition gateway_key :: "string \<Rightarrow> nat \<Rightarrow> string" where
  "gateway_key intent_key ordinal = ''gateway:'' @ intent_key @ '':'' @ show_nat ordinal"

definition new_gateway_delivery ::
    "string \<Rightarrow> string \<Rightarrow> outbox_id option \<Rightarrow> delivery_route \<Rightarrow> int \<Rightarrow> string \<Rightarrow> timestamp \<Rightarrow> gateway_delivery_row" where
  "new_gateway_delivery i key source route ordinal payload now =
     \<lparr>gd_id = i, gd_key = key, gd_source = source, gd_route = route, gd_ordinal = ordinal,
      gd_payload = payload, gd_state = GdPending, gd_attempts = 0, gd_next = None, gd_owner = None,
      gd_expires = None, gd_remote = None, gd_error_class = None, gd_error = None,
      gd_retry_safe = False, gd_created = now, gd_updated = now\<rparr>"

text \<open>The constraints of \<open>gateway_deliveries\<close> other than the key that \<open>ON CONFLICT\<close> names.
  A unique index does not compare null sources.\<close>

definition delivery_constraints :: "gateway_delivery_row \<Rightarrow> gateway_delivery_row list \<Rightarrow> bool" where
  "delivery_constraints r rows \<longleftrightarrow>
     gd_id r \<notin> gd_id ` set rows \<and> 0 < dr_max_text (gd_route r) \<and> 0 < dr_max_caption (gd_route r) \<and> 0 \<le> gd_ordinal r
     \<and> \<not> list_ex (\<lambda>s. gd_source s \<noteq> None \<and> gd_source s = gd_source r \<and> dr_gateway (gd_route s) = dr_gateway (gd_route r)
                 \<and> dr_address (gd_route s) = dr_address (gd_route r) \<and> gd_ordinal s = gd_ordinal r) rows"

definition insert_delivery_or_ignore :: "gateway_delivery_row \<Rightarrow> db \<Rightarrow> error + db" where
  "insert_delivery_or_ignore r d =
     (if gd_key r \<in> gd_key ` set (gateway_deliveries d) then Inr d
      else if delivery_constraints r (gateway_deliveries d)
      then Inr (d\<lparr>gateway_deliveries := gateway_deliveries d @ [r]\<rparr>)
      else Inl (Sql ''constraint failed''))"

definition project_outbox_to_gateway ::
    "ext \<Rightarrow> id_supply \<Rightarrow> string \<Rightarrow> outbox_id \<Rightarrow> outbox_payload \<Rightarrow> delivery_route \<Rightarrow> timestamp \<Rightarrow> db \<Rightarrow> error + db" where
  "project_outbox_to_gateway x uid key outbox_id p route now d =
     ebind (projected_payloads p route) (\<lambda>ps.
       efold (\<lambda>(k, q). insert_delivery_or_ignore
                (new_gateway_delivery (uid [k]) (gateway_key key k) (Some outbox_id) route (int k)
                   (write_payload x q) now))
         (enumerate 0 ps) d)"

section \<open>Recording the latest route\<close>

definition upsert_latest_route ::
    "actor_id \<Rightarrow> int \<Rightarrow> delivery_route \<Rightarrow> timestamp \<Rightarrow> latest_route_row list \<Rightarrow> error + latest_route_row list" where
  "upsert_latest_route a s route now rows =
     (let r = \<lparr>tr_actor = a, tr_gateway = dr_gateway route, tr_address = dr_address route,
               tr_max_text = dr_max_text route, tr_max_caption = dr_max_caption route,
               tr_seq = s, tr_updated = now\<rparr> in
      if dr_max_text route = 0 \<or> dr_max_caption route = 0 \<or> s \<le> 0 then Inl (Sql ''CHECK constraint failed'')
      else if a \<in> tr_actor ` set rows
      then Inr (update_where (\<lambda>v. tr_actor v = a \<and> tr_seq v < s) (\<lambda>_. r) rows)
      else Inr (rows @ [r]))"

definition pending_deferred :: "db \<Rightarrow> actor_id \<Rightarrow> (deferred_row \<times> outbox_row) list" where
  "pending_deferred d a =
     inner_join (\<lambda>w b. ob_id b = dw_outbox w)
       (filter (\<lambda>w. dw_actor w = a \<and> dw_state w = DwPending) (deferred d)) (outbox d)"

definition record_latest_route_and_release_deferred ::
    "ext \<Rightarrow> id_supply \<Rightarrow> actor_id \<Rightarrow> int \<Rightarrow> delivery_route \<Rightarrow> timestamp \<Rightarrow> db \<Rightarrow> error + db" where
  "record_latest_route_and_release_deferred x uid a s route now d =
     ebind (upsert_latest_route a s route now (latest_routes d)) (\<lambda>rs.
       let d1 = d\<lparr>latest_routes := rs\<rparr> in
       case last_by (\<lambda>(w, b). (dw_seq w, dw_outbox w)) (pending_deferred d1 a) of
         None \<Rightarrow> Inr d1
       | Some (w, b) \<Rightarrow>
           let d2 = d1\<lparr>deferred := update_where
                         (\<lambda>v. dw_actor v = a \<and> dw_state v = DwPending \<and> dw_outbox v \<noteq> dw_outbox w)
                         (\<lambda>v. v\<lparr>dw_state := DwSuperseded, dw_updated := now\<rparr>) (deferred d1)\<rparr> in
           ebind (lift_read (read_payload x (ob_payload b))) (\<lambda>p.
           ebind (project_outbox_to_gateway x uid (ob_key b) (dw_outbox w) p (route\<lparr>dr_reply_to := None\<rparr>) now d2) (\<lambda>d3.
             Inr (d3\<lparr>deferred := update_where (\<lambda>v. dw_outbox v = dw_outbox w \<and> dw_state v = DwPending)
                       (\<lambda>v. v\<lparr>dw_state := DwReleased, dw_released := Some now, dw_updated := now\<rparr>)
                       (deferred d3)\<rparr>))))"

section \<open>Ingest\<close>

datatype ingress_outcome =
  IoAccepted event_id work_item_id int | IoDuplicate event_id int | IoUnauthorized

fun outcome_sequence :: "ingress_outcome \<Rightarrow> int option" where
  "outcome_sequence (IoAccepted e w s) = Some s"
| "outcome_sequence (IoDuplicate e s) = Some s"
| "outcome_sequence IoUnauthorized = None"

fun outcome_work_item :: "ingress_outcome \<Rightarrow> work_item_id option" where
  "outcome_work_item (IoAccepted e w s) = Some w"
| "outcome_work_item (IoDuplicate e s) = None"
| "outcome_work_item IoUnauthorized = None"

definition find_event :: "db \<Rightarrow> string \<Rightarrow> string \<Rightarrow> event_row option" where
  "find_event d gateway external = List.find (\<lambda>e. ev_gateway e = gateway \<and> ev_external e = external) (events d)"

definition find_actor :: "db \<Rightarrow> actor_id \<Rightarrow> actor_row option" where
  "find_actor d a = List.find (\<lambda>r. ac_id r = a) (actors d)"

definition identity_actor :: "db \<Rightarrow> string \<Rightarrow> string \<Rightarrow> actor_row option" where
  "identity_actor d provider subject =
     Option.bind (List.find (\<lambda>i. id_provider i = provider \<and> id_subject i = subject) (identities d))
       (\<lambda>i. find_actor d (id_actor i))"

definition open_interactive :: "db \<Rightarrow> actor_id \<Rightarrow> audience \<Rightarrow> work_item_row list" where
  "open_interactive d a au =
     filter (\<lambda>w. wi_actor w = a \<and> wi_kind w = WkInteractive \<and> wi_audience w = au
                 \<and> (wi_state w = WiReady \<or> wi_state w = WiWaiting) \<and> wi_cancel_at w = None) (work_items d)"

definition choose_work_item :: "db \<Rightarrow> actor_id \<Rightarrow> audience \<Rightarrow> work_item_id \<Rightarrow> work_item_id" where
  "choose_work_item d a au fresh =
     (case first_by (\<lambda>w. (- wi_updated w, wi_id w)) (open_interactive d a au) of
        Some w \<Rightarrow> wi_id w | None \<Rightarrow> fresh)"

definition upsert_work_item ::
    "work_item_id \<Rightarrow> actor_id \<Rightarrow> audience \<Rightarrow> timestamp \<Rightarrow> work_item_row list \<Rightarrow> work_item_row list" where
  "upsert_work_item i a au now rows =
     (if i \<in> wi_id ` set rows
      then update_where (\<lambda>w. wi_id w = i)
             (\<lambda>w. w\<lparr>wi_state := (if wi_state w = WiWaiting then WiReady else wi_state w), wi_updated := now\<rparr>) rows
      else rows @ [\<lparr>wi_id = i, wi_actor = a, wi_kind = WkInteractive, wi_audience = au, wi_state = WiReady,
                    wi_failures = 0, wi_next_attempt = None, wi_last_error = None, wi_cancel_at = None,
                    wi_created = now, wi_updated = now\<rparr>])"

text \<open>\<open>UPDATE actors SET next_mailbox_sequence = next_mailbox_sequence + 1 \<dots> RETURNING\<close>.\<close>

definition next_sequence :: "actor_id \<Rightarrow> db \<Rightarrow> error + (int \<times> db)" where
  "next_sequence a d =
     (case find_actor d a of
        None \<Rightarrow> Inl (Sql ''Query returned no rows'')
      | Some r \<Rightarrow> Inr (ac_next_seq r + 1,
                       d\<lparr>actors := update_where (\<lambda>q. ac_id q = a) (\<lambda>q. q\<lparr>ac_next_seq := ac_next_seq q + 1\<rparr>) (actors d)\<rparr>))"

text \<open>The keys of \<open>events\<close>: \<open>id\<close>, \<open>(actor_id, mailbox_sequence)\<close> and \<open>(gateway, external_id)\<close>.\<close>

definition insert_event :: "event_row \<Rightarrow> db \<Rightarrow> error + db" where
  "insert_event e d =
     (if list_ex (\<lambda>r. ev_id r = ev_id e \<or> (ev_actor r = ev_actor e \<and> ev_seq r = ev_seq e)
                      \<or> (ev_gateway r = ev_gateway e \<and> ev_external r = ev_external e)) (events d)
      then Inl (Sql ''UNIQUE constraint failed'')
      else Inr (d\<lparr>events := events d @ [e]\<rparr>))"

definition inbound_row ::
    "event_id \<Rightarrow> actor_id \<Rightarrow> work_item_id \<Rightarrow> int \<Rightarrow> inbound_event \<Rightarrow> timestamp \<Rightarrow> event_row" where
  "inbound_row i a w s e now =
     \<lparr>ev_id = i, ev_actor = a, ev_work = Some w, ev_seq = s, ev_gateway = in_gateway e,
      ev_external = in_external e, ev_kind = in_kind e, ev_audience = in_audience e,
      ev_payload = in_payload e, ev_state = EvPending, ev_run = None, ev_route = in_route e,
      ev_policy = in_policy e, ev_source = None, ev_created = now, ev_updated = now\<rparr>"

definition ingest_tx :: "ext \<Rightarrow> id_supply \<Rightarrow> inbound_event \<Rightarrow> timestamp \<Rightarrow> db \<Rightarrow> ingress_outcome tx" where
  "ingest_tx x uid e now d =
     (case find_event d (in_gateway e) (in_external e) of
        Some r \<Rightarrow> Inr (IoDuplicate (ev_id r) (ev_seq r), d)
      | None \<Rightarrow>
          (case identity_actor d (in_provider e) (in_subject e) of
             None \<Rightarrow> Inr (IoUnauthorized, d)
           | Some a \<Rightarrow>
               if \<not> ac_enabled a then Inr (IoUnauthorized, d)
               else let w = choose_work_item d (ac_id a) (in_audience e) (uid [0]);
                        d1 = d\<lparr>work_items := upsert_work_item w (ac_id a) (in_audience e) now (work_items d)\<rparr> in
                    ebind (next_sequence (ac_id a) d1) (\<lambda>(s, d2).
                    ebind (insert_event (inbound_row (uid [1]) (ac_id a) w s e now) d2) (\<lambda>d3.
                    ebind (case (in_track_route e, in_route e) of
                             (True, Some route) \<Rightarrow>
                               record_latest_route_and_release_deferred x (subsupply uid 2) (ac_id a) s route now d3
                           | _ \<Rightarrow> Inr d3) (\<lambda>d4.
                      Inr (IoAccepted (uid [1]) w s, d4))))))"

definition ingest :: "ext \<Rightarrow> id_supply \<Rightarrow> inbound_event \<Rightarrow> timestamp \<Rightarrow> db \<Rightarrow> ingress_outcome tx" where
  "ingest x uid e now d =
     ebind (encode_audience (in_audience e)) (\<lambda>_.
       wrap_err ''failed to persist inbound event'' (ingest_tx x uid e now d))"

section \<open>The chunks of a projection\<close>

lemma text_chunks_Inr:
  "text_chunks s m = Inr ps \<longleftrightarrow> 0 < m \<and> ps = map OpText (split_loop m s [] [] 0)"
  by (auto simp: text_chunks_def split_unicode_def ebind_eq_Inr)

lemma gateway_key_inj [simp]: "gateway_key k i = gateway_key k j \<longleftrightarrow> i = j"
  by (simp add: gateway_key_def)

definition projection_rows ::
    "ext \<Rightarrow> id_supply \<Rightarrow> string \<Rightarrow> outbox_id \<Rightarrow> delivery_route \<Rightarrow> timestamp \<Rightarrow> nat \<Rightarrow> outbox_payload list
     \<Rightarrow> gateway_delivery_row list" where
  "projection_rows x uid key outbox_id route now n ps =
     map (\<lambda>(k, q). new_gateway_delivery (uid [k]) (gateway_key key k) (Some outbox_id) route (int k)
                     (write_payload x q) now) (enumerate n ps)"

lemma insert_fresh_deliveries:
  assumes "efold insert_delivery_or_ignore rows d = Inr d'"
    and "distinct (map gd_key rows)" and "set (map gd_key rows) \<inter> gd_key ` set (gateway_deliveries d) = {}"
  shows "d' = d\<lparr>gateway_deliveries := gateway_deliveries d @ rows\<rparr>"
  using assms
proof (induction rows arbitrary: d)
  case Nil
  then show ?case by simp
next
  case (Cons r rows)
  then obtain d1 where d1: "insert_delivery_or_ignore r d = Inr d1" "efold insert_delivery_or_ignore rows d1 = Inr d'"
    by (auto simp: ebind_eq_Inr)
  have "d1 = d\<lparr>gateway_deliveries := gateway_deliveries d @ [r]\<rparr>"
    using d1(1) Cons.prems(3) by (auto simp: insert_delivery_or_ignore_def split: if_splits)
  moreover have "set (map gd_key rows) \<inter> gd_key ` set (gateway_deliveries d1) = {}"
    using calculation Cons.prems(2,3) by auto
  ultimately show ?case using Cons.IH[OF d1(2)] Cons.prems(2) by simp
qed

lemma insert_known_deliveries:
  assumes "set (map gd_key rows) \<subseteq> gd_key ` set (gateway_deliveries d)"
  shows "efold insert_delivery_or_ignore rows d = Inr d"
  using assms by (induction rows) (auto simp: insert_delivery_or_ignore_def)

lemma efold_map: "efold f (map g xs) s = efold (\<lambda>x. f (g x)) xs s"
  by (induction xs arbitrary: s) (auto simp: ebind_def split: sum.splits)

lemma project_as_rows:
  "project_outbox_to_gateway x uid key outbox_id p route now d =
     ebind (projected_payloads p route) (\<lambda>ps.
       efold insert_delivery_or_ignore (projection_rows x uid key outbox_id route now 0 ps) d)"
  by (simp add: project_outbox_to_gateway_def projection_rows_def efold_map case_prod_unfold)

lemma projection_keys:
  "map gd_key (projection_rows x uid key outbox_id route now n ps) = map (gateway_key key) [n..<n + length ps]"
proof -
  have "map gd_key (projection_rows x uid key outbox_id route now n ps) =
      map (\<lambda>p. gateway_key key (fst p)) (enumerate n ps)"
    by (simp add: projection_rows_def new_gateway_delivery_def case_prod_unfold comp_def)
  also have "\<dots> = map (gateway_key key) (map fst (enumerate n ps))" by (simp only: map_map comp_def)
  finally show ?thesis by (simp only: map_fst_enumerate)
qed

lemma projection_keys_distinct:
  "distinct (map gd_key (projection_rows x uid key outbox_id route now n ps))"
  unfolding projection_keys by (simp add: distinct_map inj_on_def)

text \<open>
  A text is delivered whole and in order. Projecting a text payload whose keys are new
  appends one pending delivery per chunk, numbered from 0 under the outbox entry, each payload the
  text of a chunk within the route's limit, and the chunks in order make up the text.
\<close>

theorem projection_preserves_text:
  assumes "project_outbox_to_gateway x uid key outbox_id (OpText s) route now d = Inr d'"
    and "\<forall>i. gateway_key key i \<notin> gd_key ` set (gateway_deliveries d)"
  shows "\<exists>chunks rows. gateway_deliveries d' = gateway_deliveries d @ rows \<and> concat chunks = s
     \<and> (\<forall>c \<in> set chunks. c \<noteq> [] \<and> length c \<le> dr_max_text route)
     \<and> map gd_payload rows = map (\<lambda>c. write_payload x (OpText c)) chunks
     \<and> map gd_ordinal rows = map int [0..<length chunks]
     \<and> (\<forall>r \<in> set rows. gd_source r = Some outbox_id \<and> gd_route r = route \<and> gd_state r = GdPending)"
proof -
  let ?cs = "split_loop (dr_max_text route) s [] [] 0"
  let ?rows = "projection_rows x uid key outbox_id route now 0 (map OpText ?cs)"
  have m: "0 < dr_max_text route"
    and ins: "efold insert_delivery_or_ignore ?rows d = Inr d'"
    using assms(1) by (auto simp: project_as_rows projected_payloads_def ebind_eq_Inr text_chunks_Inr)
  have "set (map gd_key ?rows) \<inter> gd_key ` set (gateway_deliveries d) = {}"
    using assms(2) unfolding projection_keys by auto
  then have d': "d' = d\<lparr>gateway_deliveries := gateway_deliveries d @ ?rows\<rparr>"
    using ins projection_keys_distinct by (intro insert_fresh_deliveries)
  have "map gd_payload ?rows = map (\<lambda>q. write_payload x (snd q)) (enumerate 0 (map OpText ?cs))"
    by (simp add: projection_rows_def new_gateway_delivery_def case_prod_unfold comp_def)
  also have "\<dots> = map (write_payload x) (map snd (enumerate 0 (map OpText ?cs)))" by (simp only: map_map comp_def)
  finally have pay: "map gd_payload ?rows = map (\<lambda>c. write_payload x (OpText c)) ?cs"
    by (simp only: map_snd_enumerate map_map comp_def)
  have "map gd_ordinal ?rows = map (\<lambda>q. int (fst q)) (enumerate 0 (map OpText ?cs))"
    by (simp add: projection_rows_def new_gateway_delivery_def case_prod_unfold comp_def)
  also have "\<dots> = map int (map fst (enumerate 0 (map OpText ?cs)))" by (simp only: map_map comp_def)
  finally have ord: "map gd_ordinal ?rows = map int [0..<length ?cs]"
    by (simp only: map_fst_enumerate length_map add_0)
  have "\<forall>r \<in> set ?rows. gd_source r = Some outbox_id \<and> gd_route r = route \<and> gd_state r = GdPending"
    by (auto simp: projection_rows_def new_gateway_delivery_def)
  then show ?thesis
    using d' pay ord m split_loop_concat[of "dr_max_text route" s "[]" "[]" 0]
      split_loop_bound[of 0 "[]" "dr_max_text route" "[]" _ s]
    by (intro exI[of _ ?cs] exI[of _ ?rows]) auto
qed

text \<open>
  Projection is idempotent: projecting the same payload under the same key again, with other
  fresh identifiers and at another time, succeeds and leaves the database as it is.
\<close>

theorem projection_idempotent:
  assumes "project_outbox_to_gateway x uid key outbox_id p route now d = Inr d'"
  shows "project_outbox_to_gateway x uid' key outbox_id' p route now' d' = Inr d'"
proof -
  obtain ps where ps: "projected_payloads p route = Inr ps"
    and ins: "efold insert_delivery_or_ignore (projection_rows x uid key outbox_id route now 0 ps) d = Inr d'"
    using assms by (auto simp: project_as_rows ebind_eq_Inr)
  have keeps: "gd_key r \<in> gd_key ` set (gateway_deliveries d')"
    if "efold insert_delivery_or_ignore rows d = Inr d'" "r \<in> set rows" for rows d r
    using that
  proof (induction rows arbitrary: d)
    case (Cons q rows)
    then obtain d1 where d1: "insert_delivery_or_ignore q d = Inr d1" "efold insert_delivery_or_ignore rows d1 = Inr d'"
      by (auto simp: ebind_eq_Inr)
    have mono: "gd_key ` set (gateway_deliveries d1) \<subseteq> gd_key ` set (gateway_deliveries d')"
      by (rule efold_invariant[OF d1(2)])
         (auto simp: insert_delivery_or_ignore_def split: if_splits)
    have "gd_key q \<in> gd_key ` set (gateway_deliveries d1)"
      using d1(1) by (auto simp: insert_delivery_or_ignore_def split: if_splits)
    then show ?case using mono Cons.IH[OF d1(2)] Cons.prems(2) by auto
  qed simp
  have "set (map gd_key (projection_rows x uid key outbox_id route now 0 ps)) \<subseteq> gd_key ` set (gateway_deliveries d')"
    using keeps[OF ins] by auto
  then have "set (map gd_key (projection_rows x uid' key outbox_id' route now' 0 ps)) \<subseteq> gd_key ` set (gateway_deliveries d')"
    unfolding projection_keys .
  then show ?thesis using ps by (simp add: project_as_rows insert_known_deliveries)
qed

section \<open>What ingest does\<close>

lemma project_frame:
  assumes "project_outbox_to_gateway x uid key outbox_id p route now d = Inr d'"
  obtains gs where "d' = d\<lparr>gateway_deliveries := gs\<rparr>"
proof -
  obtain ps where "efold insert_delivery_or_ignore (projection_rows x uid key outbox_id route now 0 ps) d = Inr d'"
    using assms by (auto simp: project_as_rows ebind_eq_Inr)
  then have "\<exists>gs. d' = d\<lparr>gateway_deliveries := gs\<rparr>"
  proof (rule efold_invariant[where P = "\<lambda>d'. \<exists>gs. d' = d\<lparr>gateway_deliveries := gs\<rparr>"])
    show "\<exists>gs. d = d\<lparr>gateway_deliveries := gs\<rparr>" by (rule exI[of _ "gateway_deliveries d"]) simp
  next
    fix r s t
    assume "\<exists>gs. s = d\<lparr>gateway_deliveries := gs\<rparr>" and "insert_delivery_or_ignore r s = Inr t"
    then show "\<exists>gs. t = d\<lparr>gateway_deliveries := gs\<rparr>"
      by (auto simp: insert_delivery_or_ignore_def split: if_splits)
  qed
  then show ?thesis using that by blast
qed

lemma record_latest_frame:
  assumes "record_latest_route_and_release_deferred x uid a s route now d = Inr d'"
  obtains rs ws gs where "d' = d\<lparr>latest_routes := rs, deferred := ws, gateway_deliveries := gs\<rparr>"
proof -
  obtain rs where rs: "upsert_latest_route a s route now (latest_routes d) = Inr rs"
    using assms by (auto simp: record_latest_route_and_release_deferred_def ebind_eq_Inr)
  let ?d1 = "d\<lparr>latest_routes := rs\<rparr>"
  note r = assms[unfolded record_latest_route_and_release_deferred_def rs ebind_Inr Let_def]
  show ?thesis
  proof (cases "last_by (\<lambda>(w, b). (dw_seq w, dw_outbox w)) (pending_deferred ?d1 a)")
    case None
    then have "d' = ?d1" using r by simp
    then have "d' = d\<lparr>latest_routes := rs, deferred := deferred d, gateway_deliveries := gateway_deliveries d\<rparr>"
      by simp
    then show ?thesis by (rule that)
  next
    case (Some wb)
    obtain w b where wb: "wb = (w, b)" by (cases wb)
    obtain p d3 where d3: "project_outbox_to_gateway x uid (ob_key b) (dw_outbox w) p (route\<lparr>dr_reply_to := None\<rparr>) now
         (?d1\<lparr>deferred := update_where (\<lambda>v. dw_actor v = a \<and> dw_state v = DwPending \<and> dw_outbox v \<noteq> dw_outbox w)
                         (\<lambda>v. v\<lparr>dw_state := DwSuperseded, dw_updated := now\<rparr>) (deferred ?d1)\<rparr>) = Inr d3"
      and d': "d' = d3\<lparr>deferred := update_where (\<lambda>v. dw_outbox v = dw_outbox w \<and> dw_state v = DwPending)
                       (\<lambda>v. v\<lparr>dw_state := DwReleased, dw_released := Some now, dw_updated := now\<rparr>) (deferred d3)\<rparr>"
      using r by (auto simp: Some wb ebind_eq_Inr)
    obtain gs where "d3 = ?d1\<lparr>deferred := update_where (\<lambda>v. dw_actor v = a \<and> dw_state v = DwPending \<and> dw_outbox v \<noteq> dw_outbox w)
         (\<lambda>v. v\<lparr>dw_state := DwSuperseded, dw_updated := now\<rparr>) (deferred ?d1), gateway_deliveries := gs\<rparr>"
      using project_frame[OF d3] by auto
    then have "d' = d\<lparr>latest_routes := rs, deferred := deferred d', gateway_deliveries := gs\<rparr>"
      unfolding d' by simp
    then show ?thesis by (rule that)
  qed
qed

lemma insert_event_Inr: "insert_event e d = Inr d' \<Longrightarrow> d' = d\<lparr>events := events d @ [e]\<rparr>"
  by (auto simp: insert_event_def split: if_splits)

lemma next_sequence_Inr:
  assumes "next_sequence a d = Inr (s, d')"
  obtains r where "find_actor d a = Some r" "s = ac_next_seq r + 1"
    "d' = d\<lparr>actors := update_where (\<lambda>q. ac_id q = a) (\<lambda>q. q\<lparr>ac_next_seq := ac_next_seq q + 1\<rparr>) (actors d)\<rparr>"
  using assms by (auto simp: next_sequence_def split: option.splits)

lemma find_actor_id: "find_actor d a = Some r \<Longrightarrow> ac_id r = a"
  using find_Some_in[of "\<lambda>r. ac_id r = a" "actors d" r] by (simp add: find_actor_def)

lemma identity_actor_found: "identity_actor d p s = Some a \<Longrightarrow> find_actor d (ac_id a) = Some a"
  using find_actor_id by (fastforce simp: identity_actor_def bind_eq_Some_conv)

lemma ingest_accepted:
  assumes "ingest x uid e now d = Inr (IoAccepted i w s, d')"
  obtains a where "audience_ok (in_audience e)" "find_event d (in_gateway e) (in_external e) = None"
    "identity_actor d (in_provider e) (in_subject e) = Some a" "ac_enabled a"
    "w = choose_work_item d (ac_id a) (in_audience e) (uid [0])" "i = uid [1]"
    "s = ac_next_seq a + 1"
    "work_items d' = upsert_work_item w (ac_id a) (in_audience e) now (work_items d)"
    "actors d' = update_where (\<lambda>q. ac_id q = ac_id a) (\<lambda>q. q\<lparr>ac_next_seq := ac_next_seq q + 1\<rparr>) (actors d)"
    "events d' = events d @ [inbound_row i (ac_id a) w s e now]" "identities d' = identities d"
proof -
  have ok: "audience_ok (in_audience e)" and tx: "ingest_tx x uid e now d = Inr (IoAccepted i w s, d')"
    using assms by (auto simp: ingest_def ebind_eq_Inr audience_ok_def)
  have new: "find_event d (in_gateway e) (in_external e) = None"
    using tx by (auto simp: ingest_tx_def split: option.splits)
  note r1 = tx[unfolded ingest_tx_def new option.case]
  obtain a where a: "identity_actor d (in_provider e) (in_subject e) = Some a" "ac_enabled a"
    using r1 by (auto split: option.splits if_splits)
  have found: "find_actor d (ac_id a) = Some a"
    using a(1) by (rule identity_actor_found)
  let ?w = "choose_work_item d (ac_id a) (in_audience e) (uid [0])"
  let ?d1 = "d\<lparr>work_items := upsert_work_item ?w (ac_id a) (in_audience e) now (work_items d)\<rparr>"
  let ?d2 = "?d1\<lparr>actors := update_where (\<lambda>q. ac_id q = ac_id a) (\<lambda>q. q\<lparr>ac_next_seq := ac_next_seq q + 1\<rparr>) (actors d)\<rparr>"
  have seq: "next_sequence (ac_id a) ?d1 = Inr (ac_next_seq a + 1, ?d2)"
    using found by (simp add: next_sequence_def find_actor_def)
  let ?row = "inbound_row (uid [1]) (ac_id a) ?w (ac_next_seq a + 1) e now"
  note r2 = r1[unfolded a(1) option.case, simplified a(2) Let_def not_True_eq_False if_False seq ebind_Inr prod.case]
  obtain d3 d4 where d3: "insert_event ?row ?d2 = Inr d3"
    and d4: "(case (in_track_route e, in_route e) of (True, Some route) \<Rightarrow>
        record_latest_route_and_release_deferred x (subsupply uid 2) (ac_id a) (ac_next_seq a + 1) route now d3
      | _ \<Rightarrow> Inr d3) = Inr d4"
    and out: "i = uid [1]" "w = ?w" "s = ac_next_seq a + 1" "d' = d4"
    using r2 by (auto simp: ebind_eq_Inr)
  have d3': "d3 = ?d2\<lparr>events := events d @ [?row]\<rparr>"
    using d3 by (auto simp: insert_event_def split: if_splits)
  have frame: "events d4 = events d3" "actors d4 = actors d3" "work_items d4 = work_items d3" "identities d4 = identities d3"
    using d4 by (auto split: bool.splits option.splits elim!: record_latest_frame)
  show ?thesis
    by (rule that[OF ok new a]) (use out frame d3' in simp_all)
qed

lemma ingest_records:
  assumes "ingest x uid e now d = Inr (IoAccepted i w s, d')"
  shows "map_option (\<lambda>r. (ev_id r, ev_seq r)) (find_event d' (in_gateway e) (in_external e)) = Some (i, s)"
  by (rule ingest_accepted[OF assms]) (auto simp: find_event_def find_append inbound_row_def)

definition accepted_key :: "ingress_outcome \<Rightarrow> (event_id \<times> int) option" where
  "accepted_key out = (case out of IoAccepted i w s \<Rightarrow> Some (i, s) | _ \<Rightarrow> None)"

definition duplicate_of :: "event_id \<times> int \<Rightarrow> ingress_outcome" where
  "duplicate_of r = IoDuplicate (fst r) (snd r)"

text \<open>Ingest is an idempotent submission keyed by gateway and external identifier.\<close>

interpretation inbound: idempotent_submission
  "\<lambda>(uid, e) now d. ingest x uid e now d" "\<lambda>d (uid, e). audience_ok (in_audience e)"
  "\<lambda>(uid, e). (in_gateway e, in_external e)"
  "\<lambda>d k. map_option (\<lambda>r. (ev_id r, ev_seq r)) (find_event d (fst k) (snd k))"
  accepted_key duplicate_of for x
proof unfold_locales
  fix c :: "id_supply \<times> inbound_event" and d r now
  assume "case c of (uid, e) \<Rightarrow> audience_ok (in_audience e)"
    and "map_option (\<lambda>r. (ev_id r, ev_seq r))
      (find_event d (fst (case c of (uid, e) \<Rightarrow> (in_gateway e, in_external e)))
        (snd (case c of (uid, e) \<Rightarrow> (in_gateway e, in_external e)))) = Some r"
  then show "(case c of (uid, e) \<Rightarrow> ingest x uid e) now d = Inr (duplicate_of r, d)"
    by (cases c; cases "encode_audience (in_audience (snd c))")
       (auto simp: ingest_def ingest_tx_def audience_ok_def duplicate_of_def)
next
  fix c :: "id_supply \<times> inbound_event" and d r now out d'
  assume "(case c of (uid, e) \<Rightarrow> ingest x uid e) now d = Inr (out, d')" and "accepted_key out = Some r"
  then show "map_option (\<lambda>r. (ev_id r, ev_seq r))
      (find_event d' (fst (case c of (uid, e) \<Rightarrow> (in_gateway e, in_external e)))
        (snd (case c of (uid, e) \<Rightarrow> (in_gateway e, in_external e)))) = Some r"
    by (cases c) (auto simp: accepted_key_def dest: ingest_records split: ingress_outcome.splits)
qed

text \<open>
  C12. Ingest is exactly once. After an event was accepted, a later delivery with the same gateway
  and external identifier, whatever it contains, is answered with the identifier and sequence of
  the first and changes nothing, as long as the store still holds that event.
\<close>

theorem ingest_exactly_once:
  assumes "ingest x uid e now d = Inr (IoAccepted i w s, d1)"
    and "find_event d2 (in_gateway e) (in_external e) = find_event d1 (in_gateway e) (in_external e)"
    and "audience_ok (in_audience e')" and "in_gateway e' = in_gateway e" and "in_external e' = in_external e"
  shows "ingest x uid' e' later d2 = Inr (IoDuplicate i s, d2)"
  using inbound.never_accepted_again[of x "(uid, e)" now d "IoAccepted i w s" d1 "(i, s)" d2 "(uid', e')" later]
    assms by (simp add: accepted_key_def duplicate_of_def)

text \<open>
  What an accepted event leaves: the sender is linked to an enabled actor, the event is
  appended pending under the actor's next mailbox sequence, no other event changes, and its work
  item is open and ready for that actor and audience.
\<close>

theorem ingest_accepts:
  assumes "ingest x uid e now d = Inr (IoAccepted i w s, d')"
    and "uid [0] \<notin> wi_id ` set (work_items d)"
  shows "\<exists>a. identity_actor d (in_provider e) (in_subject e) = Some a \<and> ac_enabled a
     \<and> s = ac_next_seq a + 1 \<and> find_actor d' (ac_id a) = Some (a\<lparr>ac_next_seq := s\<rparr>)
     \<and> events d' = events d @ [inbound_row i (ac_id a) w s e now]
     \<and> (\<exists>r \<in> set (work_items d'). wi_id r = w \<and> wi_actor r = ac_id a \<and> wi_audience r = in_audience e
          \<and> wi_state r = WiReady \<and> wi_cancel_at r = None)"
proof -
  obtain a where "audience_ok (in_audience e)" "find_event d (in_gateway e) (in_external e) = None"
    and a: "identity_actor d (in_provider e) (in_subject e) = Some a" "ac_enabled a"
    "w = choose_work_item d (ac_id a) (in_audience e) (uid [0])" "i = uid [1]" "s = ac_next_seq a + 1"
    and ws: "work_items d' = upsert_work_item w (ac_id a) (in_audience e) now (work_items d)"
    and acs: "actors d' = update_where (\<lambda>q. ac_id q = ac_id a) (\<lambda>q. q\<lparr>ac_next_seq := ac_next_seq q + 1\<rparr>) (actors d)"
    and evs: "events d' = events d @ [inbound_row i (ac_id a) w s e now]" and "identities d' = identities d"
    using assms(1) by (rule ingest_accepted)
  have "find_actor d' (ac_id a) = Some (a\<lparr>ac_next_seq := s\<rparr>)"
    using identity_actor_found[OF a(1)] a(5) find_update_where[of ac_id _ "ac_id a" "ac_id a" "actors d"]
    by (simp add: find_actor_def acs)
  moreover have "\<exists>r \<in> set (work_items d'). wi_id r = w \<and> wi_actor r = ac_id a \<and> wi_audience r = in_audience e
          \<and> wi_state r = WiReady \<and> wi_cancel_at r = None"
  proof (cases "first_by (\<lambda>w. (- wi_updated w, wi_id w)) (open_interactive d (ac_id a) (in_audience e))")
    case None
    then show ?thesis using a(3) assms(2) by (simp add: choose_work_item_def ws upsert_work_item_def)
  next
    case (Some r)
    then have r: "r \<in> set (work_items d)" "wi_actor r = ac_id a" "wi_audience r = in_audience e"
      "wi_state r = WiReady \<or> wi_state r = WiWaiting" "wi_cancel_at r = None" "w = wi_id r"
      using first_by_Some_in[OF Some] a(3) by (auto simp: open_interactive_def choose_work_item_def)
    let ?f = "\<lambda>w. w\<lparr>wi_state := (if wi_state w = WiWaiting then WiReady else wi_state w), wi_updated := now\<rparr>"
    have "?f r \<in> set (work_items d')"
      using r(1,6) by (auto simp: ws upsert_work_item_def set_update_where image_iff intro!: bexI[of _ r])
    then show ?thesis using r by (intro bexI[of _ "?f r"]) auto
  qed
  ultimately show ?thesis using a evs by blast
qed

text \<open>
  Only the newest deferred webhook result is released. When an actor's route becomes known,
  of its pending deferred results the one with the largest event sequence is released and every
  other one is superseded; results of other actors and results already settled are untouched.
\<close>

theorem deferred_newest_released:
  assumes "record_latest_route_and_release_deferred x uid a s route now d = Inr d'"
    and "distinct (map dw_outbox (deferred d))" and "pending_deferred d a \<noteq> []"
  shows "\<exists>(w, b) \<in> set (pending_deferred d a). (\<forall>(v, c) \<in> set (pending_deferred d a). dw_seq v \<le> dw_seq w)
     \<and> deferred d' = map (\<lambda>v. if dw_actor v = a \<and> dw_state v = DwPending
          then if dw_outbox v = dw_outbox w
               then v\<lparr>dw_state := DwReleased, dw_released := Some now, dw_updated := now\<rparr>
               else v\<lparr>dw_state := DwSuperseded, dw_updated := now\<rparr>
          else v) (deferred d)"
proof -
  obtain rs where rs: "upsert_latest_route a s route now (latest_routes d) = Inr rs"
    using assms(1) by (auto simp: record_latest_route_and_release_deferred_def ebind_eq_Inr)
  let ?k = "\<lambda>(w :: deferred_row, b :: outbox_row). (dw_seq w, dw_outbox w)"
  have same: "pending_deferred (d\<lparr>latest_routes := rs\<rparr>) a = pending_deferred d a"
    by (simp add: pending_deferred_def)
  obtain w b where wb: "last_by ?k (pending_deferred d a) = Some (w, b)"
    using assms(3) by (cases "last_by ?k (pending_deferred d a)") auto
  note r = assms(1)[unfolded record_latest_route_and_release_deferred_def rs ebind_Inr Let_def same wb option.case prod.case]
  let ?sup = "update_where (\<lambda>v. dw_actor v = a \<and> dw_state v = DwPending \<and> dw_outbox v \<noteq> dw_outbox w)
                         (\<lambda>v. v\<lparr>dw_state := DwSuperseded, dw_updated := now\<rparr>) (deferred d)"
  obtain p d3 where d3: "project_outbox_to_gateway x uid (ob_key b) (dw_outbox w) p (route\<lparr>dr_reply_to := None\<rparr>) now
         (d\<lparr>latest_routes := rs, deferred := ?sup\<rparr>) = Inr d3"
    and d': "d' = d3\<lparr>deferred := update_where (\<lambda>v. dw_outbox v = dw_outbox w \<and> dw_state v = DwPending)
                       (\<lambda>v. v\<lparr>dw_state := DwReleased, dw_released := Some now, dw_updated := now\<rparr>) (deferred d3)\<rparr>"
    using r by (auto simp: ebind_eq_Inr)
  have sup: "deferred d3 = ?sup" by (rule project_frame[OF d3]) simp
  have w: "(w, b) \<in> set (pending_deferred d a)" by (rule last_by_Some_in[OF wb])
  then have wd: "w \<in> set (deferred d)" "dw_actor w = a" by (auto simp: pending_deferred_def)
  have own: "\<forall>v \<in> set (deferred d). dw_outbox v = dw_outbox w \<longrightarrow> dw_actor v = a"
    using distinct_key_eq[OF assms(2) _ wd(1)] wd(2) by blast
  have "deferred d' = map (\<lambda>v. if dw_actor v = a \<and> dw_state v = DwPending
          then if dw_outbox v = dw_outbox w
               then v\<lparr>dw_state := DwReleased, dw_released := Some now, dw_updated := now\<rparr>
               else v\<lparr>dw_state := DwSuperseded, dw_updated := now\<rparr>
          else v) (deferred d)"
  proof -
    have "(\<lambda>v. if dw_outbox v = dw_outbox w \<and> dw_state v = DwPending
             then v\<lparr>dw_state := DwReleased, dw_released := Some now, dw_updated := now\<rparr> else v)
           (if dw_actor v = a \<and> dw_state v = DwPending \<and> dw_outbox v \<noteq> dw_outbox w
            then v\<lparr>dw_state := DwSuperseded, dw_updated := now\<rparr> else v) =
        (if dw_actor v = a \<and> dw_state v = DwPending
         then if dw_outbox v = dw_outbox w
              then v\<lparr>dw_state := DwReleased, dw_released := Some now, dw_updated := now\<rparr>
              else v\<lparr>dw_state := DwSuperseded, dw_updated := now\<rparr>
         else v)" if "v \<in> set (deferred d)" for v
      using own that by (cases "dw_actor v = a"; cases "dw_state v = DwPending"; cases "dw_outbox v = dw_outbox w") auto
    then show ?thesis unfolding d' by (simp add: sup update_where_def)
  qed
  moreover have "dw_seq v \<le> dw_seq w" if "(v, c) \<in> set (pending_deferred d a)" for v c
    using last_by_max[OF wb that] by auto
  ultimately show ?thesis using w by blast
qed

section \<open>Witnesses\<close>

definition sample_route :: delivery_route where
  "sample_route = \<lparr>dr_gateway = ''telegram'', dr_address = ''7'', dr_reply_to = None, dr_max_text = 3, dr_max_caption = 3\<rparr>"

definition sample_inbound :: inbound_event where
  "sample_inbound = text_with_optional_route sample_ext ''telegram'' ''u1'' ''telegram'' ''7'' ActorPrivate None ''hi''"

definition sample_linked :: db where
  "sample_linked = empty_db\<lparr>
     actors := [\<lparr>ac_id = ''a'', ac_enabled = True, ac_tools = ''[]'', ac_next_seq = 4, ac_created = 0\<rparr>],
     identities := [\<lparr>id_provider = ''telegram'', id_subject = ''7'', id_actor = ''a'', id_username = None\<rparr>]\<rparr>"

definition sample_ids :: id_supply where
  "sample_ids p = ''id'' @ concat (map (\<lambda>k. CHR ''-'' # show_nat k) p)"

definition sample_deferred :: db where
  "sample_deferred = sample_linked\<lparr>
     deferred := [\<lparr>dw_outbox = ''o1'', dw_actor = ''a'', dw_seq = 1, dw_state = DwPending, dw_released = None, dw_created = 0, dw_updated = 0\<rparr>,
                  \<lparr>dw_outbox = ''o2'', dw_actor = ''a'', dw_seq = 2, dw_state = DwPending, dw_released = None, dw_created = 0, dw_updated = 0\<rparr>],
     outbox := map (\<lambda>o'. \<lparr>ob_id = o', ob_key = o', ob_actor = ''a'', ob_work = ''w'', ob_run = ''r'', ob_class = ''final'',
        ob_audience = ActorPrivate, ob_payload = ''Tabcd'', ob_created = 0\<rparr>) [''o1'', ''o2'']\<rparr>"

lemma isl_False: "\<not> isl r \<Longrightarrow> \<exists>y. r = Inr y"
  by (cases r) auto

theorem projection_preserves_text_witness:
  "\<exists>d' chunks. project_outbox_to_gateway sample_ext sample_ids ''k'' ''o'' (OpText ''abcdefg'') sample_route 5 empty_db = Inr d'
     \<and> concat chunks = ''abcdefg'' \<and> length (gateway_deliveries d') = length chunks"
proof -
  have "\<not> isl (project_outbox_to_gateway sample_ext sample_ids ''k'' ''o'' (OpText ''abcdefg'') sample_route 5 empty_db)"
    by code_simp
  then obtain d' where d': "project_outbox_to_gateway sample_ext sample_ids ''k'' ''o'' (OpText ''abcdefg'') sample_route 5 empty_db = Inr d'"
    using isl_False by blast
  have "\<forall>i. gateway_key ''k'' i \<notin> gd_key ` set (gateway_deliveries empty_db)" by (simp add: empty_db_def)
  from projection_preserves_text [OF d' this] obtain chunks rows where
    "gateway_deliveries d' = gateway_deliveries empty_db @ rows" "concat chunks = ''abcdefg''"
    "map gd_ordinal rows = map int [0..<length chunks]" by blast
  moreover from this(3) have "length rows = length chunks" by (metis length_map length_upt minus_nat.diff_0)
  ultimately show ?thesis using d' by (intro exI[of _ d'] exI[of _ chunks]) (simp add: empty_db_def)
qed

theorem projection_idempotent_witness:
  "\<exists>d'. project_outbox_to_gateway sample_ext sample_ids ''k'' ''o'' (OpText ''abcdefg'') sample_route 5 empty_db = Inr d'
     \<and> project_outbox_to_gateway sample_ext (subsupply sample_ids 9) ''k'' ''o'' (OpText ''abcdefg'') sample_route 6 d' = Inr d'"
proof -
  have "\<not> isl (project_outbox_to_gateway sample_ext sample_ids ''k'' ''o'' (OpText ''abcdefg'') sample_route 5 empty_db)"
    by code_simp
  then show ?thesis using projection_idempotent isl_False by metis
qed

lemma sample_ingest:
  obtains d' where "ingest sample_ext sample_ids sample_inbound 10 sample_linked = Inr (IoAccepted ''id-1'' ''id-0'' 5, d')"
proof -
  have "case ingest sample_ext sample_ids sample_inbound 10 sample_linked of
      Inr (out, d') \<Rightarrow> out = IoAccepted ''id-1'' ''id-0'' 5 | _ \<Rightarrow> False"
    by code_simp
  then show ?thesis using that by (auto split: sum.splits)
qed

theorem ingest_exactly_once_witness:
  "\<exists>d'. ingest sample_ext sample_ids sample_inbound 10 sample_linked = Inr (IoAccepted ''id-1'' ''id-0'' 5, d')
     \<and> ingest sample_ext (subsupply sample_ids 3) (sample_inbound\<lparr>in_payload := ''other''\<rparr>) 99 d' = Inr (IoDuplicate ''id-1'' 5, d')"
proof -
  obtain d' where d': "ingest sample_ext sample_ids sample_inbound 10 sample_linked = Inr (IoAccepted ''id-1'' ''id-0'' 5, d')"
    by (rule sample_ingest)
  have "audience_ok (in_audience (sample_inbound\<lparr>in_payload := ''other''\<rparr>))"
    by (simp add: audience_ok_def encode_audience_def sample_inbound_def text_with_optional_route_def)
  then show ?thesis
    using d' ingest_exactly_once [OF d', of d' "sample_inbound\<lparr>in_payload := ''other''\<rparr>"] by simp
qed

theorem ingest_accepts_witness:
  "\<exists>d' (a :: actor_row). ingest sample_ext sample_ids sample_inbound 10 sample_linked = Inr (IoAccepted ''id-1'' ''id-0'' 5, d')
     \<and> ac_enabled a \<and> 5 = ac_next_seq a + 1"
proof -
  obtain d' where d': "ingest sample_ext sample_ids sample_inbound 10 sample_linked = Inr (IoAccepted ''id-1'' ''id-0'' 5, d')"
    by (rule sample_ingest)
  have "sample_ids [0] \<notin> wi_id ` set (work_items sample_linked)" by (simp add: sample_linked_def empty_db_def)
  from ingest_accepts [OF d' this] obtain a :: actor_row where "ac_enabled a" "5 = ac_next_seq a + 1" by blast
  then show ?thesis using d' by (intro exI[of _ d'] exI[of _ a]) simp
qed

theorem deferred_newest_released_witness:
  "\<exists>d'. record_latest_route_and_release_deferred sample_ext sample_ids ''a'' 5 sample_route 9 sample_deferred = Inr d'
     \<and> (\<exists>(w, b) \<in> set (pending_deferred sample_deferred ''a''). \<forall>(v, c) \<in> set (pending_deferred sample_deferred ''a''). dw_seq v \<le> dw_seq w)"
proof -
  have "\<not> isl (record_latest_route_and_release_deferred sample_ext sample_ids ''a'' 5 sample_route 9 sample_deferred)"
    by code_simp
  then obtain d' where d': "record_latest_route_and_release_deferred sample_ext sample_ids ''a'' 5 sample_route 9 sample_deferred = Inr d'"
    using isl_False by blast
  have "distinct (map dw_outbox (deferred sample_deferred))" "pending_deferred sample_deferred ''a'' \<noteq> []"
    by code_simp+
  from deferred_newest_released [OF d' this] d' show ?thesis by blast
qed

end
