(* ===== verification/Webhook_Ingress.thy ===== *)
theory Webhook_Ingress
  imports Ingress
begin

text \<open>
  Generic webhooks: \<open>ingest_webhook\<close> of \<open>runtime/sqlite/webhook.rs\<close>. Receipts of explicit
  idempotency keys are kept, those of automatic ones for a day.
\<close>

definition AUTOMATIC_DEDUP_WINDOW_MILLIS :: int where "AUTOMATIC_DEDUP_WINDOW_MILLIS = 86400000"
definition RECEIPT_GC_BATCH :: nat where "RECEIPT_GC_BATCH = 256"

datatype webhook_idempotency = WhExplicit string | WhAutomatic string

record webhook_event =
  we_endpoint :: string
  we_actor :: actor_id
  we_idempotency :: webhook_idempotency
  we_payload :: string

datatype webhook_outcome =
  WoAccepted event_id work_item_id int bool | WoDuplicate event_id | WoActorUnavailable

fun receipt_kind_of :: "webhook_idempotency \<Rightarrow> receipt_kind" where
  "receipt_kind_of (WhExplicit h) = RkExplicit"
| "receipt_kind_of (WhAutomatic h) = RkAutomatic"

fun receipt_hash_of :: "webhook_idempotency \<Rightarrow> string" where
  "receipt_hash_of (WhExplicit h) = h"
| "receipt_hash_of (WhAutomatic h) = h"

text \<open>Expired automatic receipts, the oldest first, a batch at a time. The rows are distinct by
  their primary key, so a row stands for its rowid.\<close>

definition expired_receipts :: "timestamp \<Rightarrow> receipt_row list \<Rightarrow> receipt_row list" where
  "expired_receipts now rows =
     take RECEIPT_GC_BATCH (sort_key wr_accepted
       (filter (\<lambda>r. wr_kind r = RkAutomatic \<and> wr_accepted r < now - AUTOMATIC_DEDUP_WINDOW_MILLIS) rows))"

definition collect_receipts :: "timestamp \<Rightarrow> db \<Rightarrow> db" where
  "collect_receipts now d =
     d\<lparr>receipts := delete_where (\<lambda>r. r \<in> set (expired_receipts now (receipts d))) (receipts d)\<rparr>"

definition receipt_matches :: "webhook_event \<Rightarrow> timestamp \<Rightarrow> receipt_row \<Rightarrow> bool" where
  "receipt_matches e now r \<longleftrightarrow>
     wr_endpoint r = we_endpoint e \<and> wr_kind r = receipt_kind_of (we_idempotency e)
     \<and> wr_hash r = receipt_hash_of (we_idempotency e)
     \<and> (case we_idempotency e of WhExplicit h \<Rightarrow> True
        | WhAutomatic h \<Rightarrow> now - AUTOMATIC_DEDUP_WINDOW_MILLIS \<le> wr_accepted r)"

definition find_receipt :: "db \<Rightarrow> webhook_event \<Rightarrow> timestamp \<Rightarrow> receipt_row option" where
  "find_receipt d e now = first_by (\<lambda>r. - wr_accepted r) (filter (receipt_matches e now) (receipts d))"

text \<open>The primary key of \<open>webhook_receipts\<close> and the index \<open>webhook_explicit_identity\<close>.\<close>

definition insert_receipt :: "receipt_row \<Rightarrow> db \<Rightarrow> error + db" where
  "insert_receipt r d =
     (if list_ex (\<lambda>s. wr_endpoint s = wr_endpoint r \<and> wr_kind s = wr_kind r \<and> wr_hash s = wr_hash r
                      \<and> (wr_accepted s = wr_accepted r \<or> wr_kind r = RkExplicit)) (receipts d)
      then Inl (Sql ''UNIQUE constraint failed'')
      else Inr (d\<lparr>receipts := receipts d @ [r]\<rparr>))"

definition actor_latest_route :: "db \<Rightarrow> actor_id \<Rightarrow> latest_route_row option" where
  "actor_latest_route d a = List.find (\<lambda>r. tr_actor r = a) (latest_routes d)"

definition webhook_route :: "latest_route_row \<Rightarrow> delivery_route" where
  "webhook_route r = \<lparr>dr_gateway = tr_gateway r, dr_address = tr_address r, dr_reply_to = None,
     dr_max_text = tr_max_text r, dr_max_caption = tr_max_caption r\<rparr>"

definition webhook_row ::
    "event_id \<Rightarrow> work_item_id \<Rightarrow> int \<Rightarrow> latest_route_row option \<Rightarrow> webhook_event \<Rightarrow> timestamp \<Rightarrow> event_row" where
  "webhook_row i w s route e now =
     \<lparr>ev_id = i, ev_actor = we_actor e, ev_work = Some w, ev_seq = s,
      ev_gateway = ''webhook:'' @ we_endpoint e, ev_external = i, ev_kind = UserMessage,
      ev_audience = ActorPrivate, ev_payload = we_payload e, ev_state = EvPending, ev_run = None,
      ev_route = map_option webhook_route route, ev_policy = SkillsOnly,
      ev_source = Some (we_endpoint e), ev_created = now, ev_updated = now\<rparr>"

definition external_work_item :: "work_item_id \<Rightarrow> actor_id \<Rightarrow> timestamp \<Rightarrow> work_item_row" where
  "external_work_item i a now =
     \<lparr>wi_id = i, wi_actor = a, wi_kind = WkExternal, wi_audience = ActorPrivate, wi_state = WiReady,
      wi_failures = 0, wi_next_attempt = None, wi_last_error = None, wi_cancel_at = None,
      wi_created = now, wi_updated = now\<rparr>"

definition webhook_tx :: "id_supply \<Rightarrow> webhook_event \<Rightarrow> timestamp \<Rightarrow> db \<Rightarrow> webhook_outcome tx" where
  "webhook_tx uid e now d =
     (let d0 = collect_receipts now d in
      if map_option ac_enabled (find_actor d0 (we_actor e)) \<noteq> Some True then Inr (WoActorUnavailable, d)
      else case find_receipt d0 e now of
             Some r \<Rightarrow> Inr (WoDuplicate (wr_event r), d)
           | None \<Rightarrow>
               ebind (insert_unique wi_id (external_work_item (uid [0]) (we_actor e) now) (work_items d0)) (\<lambda>ws.
               ebind (next_sequence (we_actor e) (d0\<lparr>work_items := ws\<rparr>)) (\<lambda>(s, d1).
                 let route = actor_latest_route d1 (we_actor e) in
                 ebind (insert_event (webhook_row (uid [1]) (uid [0]) s route e now) d1) (\<lambda>d2.
                 ebind (insert_receipt \<lparr>wr_endpoint = we_endpoint e, wr_kind = receipt_kind_of (we_idempotency e),
                          wr_hash = receipt_hash_of (we_idempotency e), wr_event = uid [1], wr_accepted = now\<rparr> d2) (\<lambda>d3.
                   Inr (WoAccepted (uid [1]) (uid [0]) s (route \<noteq> None), d3))))))"

definition ingest_webhook :: "id_supply \<Rightarrow> webhook_event \<Rightarrow> timestamp \<Rightarrow> db \<Rightarrow> webhook_outcome tx" where
  "ingest_webhook uid e now d = wrap_err ''failed to persist webhook event'' (webhook_tx uid e now d)"

section \<open>What the transaction does\<close>

lemma collect_receipts_frame [simp]:
  "actors (collect_receipts now d) = actors d" "work_items (collect_receipts now d) = work_items d"
  "events (collect_receipts now d) = events d" "latest_routes (collect_receipts now d) = latest_routes d"
  "find_actor (collect_receipts now d) a = find_actor d a"
  by (simp_all add: collect_receipts_def find_actor_def)

text \<open>No receipt that can still match is collected.\<close>

lemma collect_keeps_matching: "filter (receipt_matches e now) (receipts (collect_receipts now d)) = filter (receipt_matches e now) (receipts d)"
proof -
  have "r \<notin> set (expired_receipts now (receipts d))" if "receipt_matches e now r" for r
  proof
    assume "r \<in> set (expired_receipts now (receipts d))"
    then have "r \<in> set (sort_key wr_accepted (filter (\<lambda>r. wr_kind r = RkAutomatic
        \<and> wr_accepted r < now - AUTOMATIC_DEDUP_WINDOW_MILLIS) (receipts d)))"
      unfolding expired_receipts_def by (rule in_set_takeD)
    then show False using that by (auto simp: receipt_matches_def split: webhook_idempotency.splits)
  qed
  then show ?thesis by (auto simp: collect_receipts_def delete_where_def intro: filter_cong)
qed

lemma find_receipt_collect: "find_receipt (collect_receipts now d) e now = find_receipt d e now"
  by (simp add: find_receipt_def collect_keeps_matching)

lemma webhook_accepted:
  assumes "ingest_webhook uid e now d = Inr (WoAccepted i w s b, d')"
  obtains a where "find_actor d (we_actor e) = Some a" "ac_enabled a" "find_receipt d e now = None"
    "s = ac_next_seq a + 1" "i = uid [1]" "w = uid [0]"
    "events d' = events d @ [webhook_row i w s (actor_latest_route d (we_actor e)) e now]"
    "work_items d' = work_items d @ [external_work_item w (we_actor e) now]"
    "receipts d' = receipts (collect_receipts now d) @
       [\<lparr>wr_endpoint = we_endpoint e, wr_kind = receipt_kind_of (we_idempotency e),
         wr_hash = receipt_hash_of (we_idempotency e), wr_event = i, wr_accepted = now\<rparr>]"
proof -
  have tx: "webhook_tx uid e now d = Inr (WoAccepted i w s b, d')" using assms by (simp add: ingest_webhook_def)
  obtain a where a: "find_actor d (we_actor e) = Some a" "ac_enabled a"
    using tx by (cases "find_actor d (we_actor e)") (auto simp: webhook_tx_def Let_def split: if_splits)
  have new: "find_receipt d e now = None"
    using tx by (cases "find_receipt d e now") (auto simp: webhook_tx_def Let_def find_receipt_collect a split: if_splits)
  obtain ws s1 d1 d2 d3 where
    ws: "insert_unique wi_id (external_work_item (uid [0]) (we_actor e) now) (work_items d) = Inr ws"
    and d1: "next_sequence (we_actor e) ((collect_receipts now d)\<lparr>work_items := ws\<rparr>) = Inr (s1, d1)"
    and d2: "insert_event (webhook_row (uid [1]) (uid [0]) s1 (actor_latest_route d1 (we_actor e)) e now) d1 = Inr d2"
    and d3: "insert_receipt \<lparr>wr_endpoint = we_endpoint e, wr_kind = receipt_kind_of (we_idempotency e),
               wr_hash = receipt_hash_of (we_idempotency e), wr_event = uid [1], wr_accepted = now\<rparr> d2 = Inr d3"
    and out: "i = uid [1]" "w = uid [0]" "s = s1" "d' = d3"
    using tx by (auto simp: webhook_tx_def Let_def find_receipt_collect a new ebind_eq_Inr)
  have d3': "d3 = d2\<lparr>receipts := receipts d2 @ [\<lparr>wr_endpoint = we_endpoint e, wr_kind = receipt_kind_of (we_idempotency e),
               wr_hash = receipt_hash_of (we_idempotency e), wr_event = uid [1], wr_accepted = now\<rparr>]\<rparr>"
    using d3 by (auto simp: insert_receipt_def split: if_splits)
  obtain r where r: "find_actor ((collect_receipts now d)\<lparr>work_items := ws\<rparr>) (we_actor e) = Some r" "s1 = ac_next_seq r + 1"
    "d1 = (collect_receipts now d)\<lparr>work_items := ws, actors := update_where (\<lambda>q. ac_id q = we_actor e)
             (\<lambda>q. q\<lparr>ac_next_seq := ac_next_seq q + 1\<rparr>) (actors d)\<rparr>"
    using d1 by (auto elim!: next_sequence_Inr)
  have "r = a" using r(1) a(1) by (simp add: find_actor_def)
  then show ?thesis
    using that[OF a new] out ws r(2,3) d3' insert_event_Inr[OF d2]
    by (simp add: insert_unique_eq_Inr actor_latest_route_def external_work_item_def)
qed

lemma find_receipt_spec:
  "find_receipt d e now = None \<longleftrightarrow> (\<forall>r \<in> set (receipts d). \<not> receipt_matches e now r)"
  by (simp add: find_receipt_def filter_empty_conv)

lemma duplicate_replies:
  assumes "find_actor d (we_actor e) = Some a" and "ac_enabled a" and "find_receipt d e now = Some r"
  shows "ingest_webhook uid e now d = Inr (WoDuplicate (wr_event r), d)"
  using assms by (simp add: ingest_webhook_def webhook_tx_def Let_def find_receipt_collect)

section \<open>Idempotence of explicit keys\<close>

definition explicit_receipt :: "db \<Rightarrow> string \<times> string \<Rightarrow> event_id option" where
  "explicit_receipt d k = map_option wr_event (first_by (\<lambda>r. - wr_accepted r)
     (filter (\<lambda>r. wr_endpoint r = fst k \<and> wr_kind r = RkExplicit \<and> wr_hash r = snd k) (receipts d)))"

record explicit_submission =
  es_ids :: id_supply
  es_endpoint :: string
  es_actor :: actor_id
  es_hash :: string
  es_payload :: string

definition explicit_event :: "explicit_submission \<Rightarrow> webhook_event" where
  "explicit_event c = \<lparr>we_endpoint = es_endpoint c, we_actor = es_actor c,
     we_idempotency = WhExplicit (es_hash c), we_payload = es_payload c\<rparr>"

definition actor_enabled_in :: "db \<Rightarrow> actor_id \<Rightarrow> bool" where
  "actor_enabled_in d a = (map_option ac_enabled (find_actor d a) = Some True)"

lemma explicit_find: "map_option wr_event (find_receipt d (explicit_event c) now) = explicit_receipt d (es_endpoint c, es_hash c)"
  by (simp add: find_receipt_def explicit_receipt_def receipt_matches_def explicit_event_def conj_commute cong: filter_cong)

definition webhook_accepted_event :: "webhook_outcome \<Rightarrow> event_id option" where
  "webhook_accepted_event out = (case out of WoAccepted i w s b \<Rightarrow> Some i | _ \<Rightarrow> None)"

lemma explicit_recorded:
  assumes "ingest_webhook uid (explicit_event c) now d = Inr (WoAccepted i w s b, d')"
  shows "explicit_receipt d' (es_endpoint c, es_hash c) = Some i"
proof -
  obtain a :: actor_row where new: "find_receipt d (explicit_event c) now = None"
    and rs: "receipts d' = receipts (collect_receipts now d) @
       [\<lparr>wr_endpoint = we_endpoint (explicit_event c), wr_kind = receipt_kind_of (we_idempotency (explicit_event c)),
         wr_hash = receipt_hash_of (we_idempotency (explicit_event c)), wr_event = i, wr_accepted = now\<rparr>]"
    by (rule webhook_accepted[OF assms]) blast
  let ?p = "\<lambda>r. wr_endpoint r = es_endpoint c \<and> wr_kind r = RkExplicit \<and> wr_hash r = es_hash c"
  have "filter ?p (receipts (collect_receipts now d)) = []"
    using new by (auto simp: find_receipt_spec receipt_matches_def explicit_event_def filter_empty_conv
        collect_receipts_def)
  then show ?thesis by (simp add: explicit_receipt_def rs explicit_event_def first_by_def)
qed

interpretation webhooks: idempotent_submission
  "\<lambda>c now d. ingest_webhook (es_ids c) (explicit_event c) now d" "\<lambda>d c. actor_enabled_in d (es_actor c)"
  "\<lambda>c. (es_endpoint c, es_hash c)" explicit_receipt webhook_accepted_event WoDuplicate
proof unfold_locales
  fix c :: explicit_submission and d r now
  assume en: "actor_enabled_in d (es_actor c)" and "explicit_receipt d (es_endpoint c, es_hash c) = Some r"
  then obtain q where "find_receipt d (explicit_event c) now = Some q" "wr_event q = r"
    using explicit_find[of d c now] by auto
  then show "ingest_webhook (es_ids c) (explicit_event c) now d = Inr (WoDuplicate r, d)"
    using en duplicate_replies[of d "explicit_event c"] by (auto simp: actor_enabled_in_def explicit_event_def)
next
  fix c :: explicit_submission and now d out d' r
  assume "ingest_webhook (es_ids c) (explicit_event c) now d = Inr (out, d')" "webhook_accepted_event out = Some r"
  then show "explicit_receipt d' (es_endpoint c, es_hash c) = Some r"
    using explicit_recorded by (auto simp: webhook_accepted_event_def split: webhook_outcome.splits)
qed

section \<open>What webhooks guarantee\<close>


text \<open>
  An automatic key protects exactly the window. A delivery whose automatic key was accepted at
  \<open>now\<close> is a duplicate of it up to and including 24 hours later, and after that it is not: the
  receipt no longer matches.
\<close>

theorem automatic_webhook_window:
  assumes "ingest_webhook uid e now d = Inr (WoAccepted i w s b, d1)" and "we_idempotency e = WhAutomatic h"
    and "actor_enabled_in d1 (we_actor e')" and "we_endpoint e' = we_endpoint e" and "we_idempotency e' = WhAutomatic h"
    and "\<forall>r \<in> set (receipts d). wr_accepted r \<le> now"
  shows "(later \<le> now + 86400000 \<longrightarrow> (\<exists>r. ingest_webhook uid' e' later d1 = Inr (WoDuplicate r, d1)))
     \<and> (now + 86400000 < later \<longrightarrow> find_receipt d1 e' later = None)"
proof -
  obtain a :: actor_row where new: "find_receipt d e now = None"
    and rs: "receipts d1 = receipts (collect_receipts now d) @
       [\<lparr>wr_endpoint = we_endpoint e, wr_kind = receipt_kind_of (we_idempotency e),
         wr_hash = receipt_hash_of (we_idempotency e), wr_event = i, wr_accepted = now\<rparr>]"
    by (rule webhook_accepted[OF assms(1)]) blast
  have "find_receipt d1 e' later \<noteq> None" if "later \<le> now + 86400000"
    using that assms(2,4,5)
    by (simp add: find_receipt_spec rs receipt_matches_def AUTOMATIC_DEDUP_WINDOW_MILLIS_def)
  moreover have "find_receipt d1 e' later = None" if "now + 86400000 < later"
  proof -
    have "wr_accepted r \<le> now" if "r \<in> set (receipts d1)" for r
      using that assms(6) by (auto simp: rs collect_receipts_def)
    then show ?thesis using that assms(5)
      by (fastforce simp: find_receipt_spec receipt_matches_def AUTOMATIC_DEDUP_WINDOW_MILLIS_def)
  qed
  moreover obtain q where "find_actor d1 (we_actor e') = Some q" "ac_enabled q"
    using assms(3) by (auto simp: actor_enabled_in_def)
  ultimately show ?thesis using duplicate_replies by (metis not_None_eq)
qed

text \<open>
  A webhook is confined. The event of an accepted webhook goes to the enabled actor it names,
  private to it, under the policy that allows only the two reading skills, tagged with its
  endpoint as source and without a message to reply to.
\<close>

theorem webhook_confined:
  assumes "ingest_webhook uid e now d = Inr (WoAccepted i w s b, d')"
  shows "actor_enabled_in d (we_actor e) \<and>
    (\<exists>v. events d' = events d @ [v] \<and> ev_id v = i \<and> ev_actor v = we_actor e \<and> ev_work v = Some w
       \<and> ev_audience v = ActorPrivate \<and> ev_source v = Some (we_endpoint e) \<and> ev_state v = EvPending
       \<and> (\<forall>name. policy_allows (ev_policy v) name \<longleftrightarrow> name = ''skills_list'' \<or> name = ''skills_read'')
       \<and> (\<forall>r. ev_route v = Some r \<longrightarrow> dr_reply_to r = None))"
proof -
  obtain a where "find_actor d (we_actor e) = Some a" "ac_enabled a"
    and "events d' = events d @ [webhook_row i w s (actor_latest_route d (we_actor e)) e now]"
    by (rule webhook_accepted[OF assms]) blast
  then show ?thesis
    by (auto simp: actor_enabled_in_def webhook_row_def policy_allows_def webhook_route_def)
qed

section \<open>Witnesses\<close>

definition sample_submission :: explicit_submission where
  "sample_submission = \<lparr>es_ids = sample_ids, es_endpoint = ''ci'', es_actor = ''a'', es_hash = ''h'', es_payload = ''p''\<rparr>"

definition sample_automatic :: webhook_event where
  "sample_automatic = \<lparr>we_endpoint = ''ci'', we_actor = ''a'', we_idempotency = WhAutomatic ''h'', we_payload = ''p''\<rparr>"

lemma sample_webhooks:
  obtains d1 d2 where "ingest_webhook sample_ids (explicit_event sample_submission) 10 sample_linked
      = Inr (WoAccepted ''id-1'' ''id-0'' 5 False, d1)" "actor_enabled_in d1 ''a''"
  "ingest_webhook sample_ids sample_automatic 10 sample_linked
      = Inr (WoAccepted ''id-1'' ''id-0'' 5 False, d2)" "actor_enabled_in d2 ''a''"
proof -
  have "case ingest_webhook sample_ids (explicit_event sample_submission) 10 sample_linked of
      Inr (out, d1) \<Rightarrow> out = WoAccepted ''id-1'' ''id-0'' 5 False \<and> actor_enabled_in d1 ''a'' | _ \<Rightarrow> False"
    "case ingest_webhook sample_ids sample_automatic 10 sample_linked of
      Inr (out, d1) \<Rightarrow> out = WoAccepted ''id-1'' ''id-0'' 5 False \<and> actor_enabled_in d1 ''a'' | _ \<Rightarrow> False"
    by code_simp+
  then show ?thesis using that by (auto split: sum.splits)
qed


theorem automatic_webhook_window_witness:
  "\<exists>d1. ingest_webhook sample_ids sample_automatic 10 sample_linked
      = Inr (WoAccepted ''id-1'' ''id-0'' 5 False, d1)
    \<and> (\<exists>r. ingest_webhook (subsupply sample_ids 3) sample_automatic 86400010 d1 = Inr (WoDuplicate r, d1))
    \<and> find_receipt d1 sample_automatic 86400011 = None"
proof -
  obtain d1 where d1: "ingest_webhook sample_ids sample_automatic 10 sample_linked
      = Inr (WoAccepted ''id-1'' ''id-0'' 5 False, d1)" "actor_enabled_in d1 ''a''"
    by (rule sample_webhooks) blast
  have r: "\<forall>r \<in> set (receipts sample_linked). wr_accepted r \<le> 10" by (simp add: sample_linked_def empty_db_def)
  have h: "we_idempotency sample_automatic = WhAutomatic ''h''" "we_actor sample_automatic = ''a''"
    by (simp_all add: sample_automatic_def)
  have w: "(t \<le> 10 + 86400000 \<longrightarrow> (\<exists>r. ingest_webhook u sample_automatic t d1 = Inr (WoDuplicate r, d1)))
     \<and> (10 + 86400000 < t \<longrightarrow> find_receipt d1 sample_automatic t = None)" for t u
    using automatic_webhook_window [OF d1(1) h(1) _ refl h(1) r] d1(2) h(2) by simp
  show ?thesis using d1(1) w[of 86400010] w[of 86400011] by auto
qed

theorem webhook_confined_witness:
  "\<exists>d1. ingest_webhook sample_ids sample_automatic 10 sample_linked = Inr (WoAccepted ''id-1'' ''id-0'' 5 False, d1)
     \<and> actor_enabled_in sample_linked (we_actor sample_automatic)"
proof -
  obtain d1 where d1: "ingest_webhook sample_ids sample_automatic 10 sample_linked
      = Inr (WoAccepted ''id-1'' ''id-0'' 5 False, d1)"
    by (rule sample_webhooks) blast
  then show ?thesis using webhook_confined [OF d1] by blast
qed

end
