(* ===== verification/Leases.thy ===== *)
theory Leases
  imports Store_Types
begin

text \<open>
  Actor leases: the lease half of \<open>DispatchStore\<close> in \<open>runtime/sqlite/dispatch.rs\<close>
  (\<open>acquire_ready_actor\<close>, \<open>acquire_ready_actor_for\<close>, \<open>renew_lease\<close>, \<open>release_lease\<close>,
  \<open>ensure_current_lease\<close>), and the contract of an operation that a lease guards.
\<close>

section \<open>Which actors have work\<close>

definition work_ready :: "db \<Rightarrow> timestamp \<Rightarrow> work_item_row \<Rightarrow> bool" where
  "work_ready d now w \<longleftrightarrow> wi_state w = WiReady \<and> due (wi_next_attempt w) now"

text \<open>A pending event of a ready, due work item; a cancelled item lets only cancellations through.\<close>

definition dispatchable_event :: "db \<Rightarrow> timestamp \<Rightarrow> actor_id \<Rightarrow> event_row \<Rightarrow> bool" where
  "dispatchable_event d now a e \<longleftrightarrow>
     ev_actor e = a \<and> ev_state e = EvPending \<and>
     list_ex (\<lambda>w. ev_work e = Some (wi_id w) \<and> work_ready d now w
                  \<and> (wi_cancel_at w = None \<or> ev_kind e = CancelRequested)) (work_items d)"

definition active_ready_run :: "db \<Rightarrow> timestamp \<Rightarrow> actor_id \<Rightarrow> run_row \<Rightarrow> bool" where
  "active_ready_run d now a r \<longleftrightarrow>
     rn_actor r = a \<and> rn_state r = RunActive \<and>
     list_ex (\<lambda>w. wi_id w = rn_work r \<and> work_ready d now w) (work_items d)"

definition unassigned_event :: "actor_id \<Rightarrow> event_row \<Rightarrow> bool" where
  "unassigned_event a e \<longleftrightarrow> ev_actor e = a \<and> ev_state e = EvPending \<and> ev_work e = None"

definition has_ready_work :: "db \<Rightarrow> timestamp \<Rightarrow> actor_id \<Rightarrow> bool" where
  "has_ready_work d now a \<longleftrightarrow>
     list_ex (dispatchable_event d now a) (events d)
     \<or> list_ex (active_ready_run d now a) (runs d)
     \<or> list_ex (unassigned_event a) (events d)"

definition lease_row_of :: "db \<Rightarrow> actor_id \<Rightarrow> lease_row option" where
  "lease_row_of d a = List.find (\<lambda>l. al_actor l = a) (leases d)"

definition lease_open :: "db \<Rightarrow> actor_id \<Rightarrow> string \<Rightarrow> timestamp \<Rightarrow> bool" where
  "lease_open d a owner now =
     (case lease_row_of d a of None \<Rightarrow> True
      | Some l \<Rightarrow> al_owner l = owner \<or> al_expires l \<le> now)"

text \<open>The sequences of the second \<open>COALESCE\<close> arm: the events of the actor's active runs.\<close>

definition active_run_sequences :: "db \<Rightarrow> actor_id \<Rightarrow> int list" where
  "active_run_sequences d a =
     map ev_seq (filter (\<lambda>e. list_ex (\<lambda>x. re_event x = ev_id e \<and>
        list_ex (\<lambda>r. rn_id r = re_run x \<and> rn_actor r = a \<and> rn_state r = RunActive \<and>
          list_ex (\<lambda>w. wi_id w = rn_work r \<and> wi_state w = WiReady) (work_items d)) (runs d))
        (run_events d)) (events d))"

definition actor_priority :: "db \<Rightarrow> timestamp \<Rightarrow> actor_id \<Rightarrow> int" where
  "actor_priority d now a =
     (case min_of (map ev_seq (filter (dispatchable_event d now a) (events d))) of
        Some s \<Rightarrow> s
      | None \<Rightarrow>
          (case min_of (active_run_sequences d a) of
             Some s \<Rightarrow> s
           | None \<Rightarrow>
               (case min_of (map ev_seq (filter (unassigned_event a) (events d))) of
                  Some s \<Rightarrow> s
                | None \<Rightarrow> i64_max)))"

section \<open>Acquiring, renewing and releasing\<close>

text \<open>
  The match on the current lease row, the same in both \<open>acquire\<close> operations: insert a first
  lease, extend the owner's own unexpired one, take an expired one over under the next
  generation, or give up.
\<close>

definition grant_lease ::
    "db \<Rightarrow> actor_id \<Rightarrow> string \<Rightarrow> timestamp \<Rightarrow> timestamp \<Rightarrow> (int \<times> db) option" where
  "grant_lease d a owner now until =
     (case lease_row_of d a of
        None \<Rightarrow> Some (1, d\<lparr>leases := leases d @
                  [\<lparr>al_actor = a, al_generation = 1, al_owner = owner, al_expires = until\<rparr>]\<rparr>)
      | Some l \<Rightarrow>
          if al_owner l = owner \<and> now < al_expires l then
            Some (al_generation l,
                  d\<lparr>leases := update_where (\<lambda>r. al_actor r = a) (\<lambda>r. r\<lparr>al_expires := until\<rparr>) (leases d)\<rparr>)
          else if al_expires l \<le> now then
            Some (al_generation l + 1,
                  d\<lparr>leases := update_where (\<lambda>r. al_actor r = a)
                     (\<lambda>r. r\<lparr>al_generation := al_generation l + 1, al_owner := owner, al_expires := until\<rparr>)
                     (leases d)\<rparr>)
          else None)"

definition lease_result ::
    "db \<Rightarrow> actor_id \<Rightarrow> string \<Rightarrow> timestamp \<Rightarrow> timestamp \<Rightarrow> (actor_lease option) tx" where
  "lease_result d a owner now until =
     (case grant_lease d a owner now until of
        None \<Rightarrow> Inr (None, d)
      | Some (generation, d') \<Rightarrow>
          Inr (Some \<lparr>ls_actor = a, ls_owner = owner, ls_generation = generation, ls_expires = until\<rparr>, d'))"

definition acquire_ready_actor ::
    "string \<Rightarrow> timestamp \<Rightarrow> timestamp \<Rightarrow> db \<Rightarrow> (actor_lease option) tx" where
  "acquire_ready_actor owner now until d =
     (if until \<le> now then Inl (Bail ''lease expiry must be after current time'')
      else case first_by (\<lambda>a. (actor_priority d now (ac_id a), ac_id a))
                  (filter (\<lambda>a. lease_open d (ac_id a) owner now \<and> has_ready_work d now (ac_id a)) (actors d)) of
             None \<Rightarrow> Inr (None, d)
           | Some a \<Rightarrow> lease_result d (ac_id a) owner now until)"

definition acquire_ready_actor_for ::
    "actor_id \<Rightarrow> string \<Rightarrow> timestamp \<Rightarrow> timestamp \<Rightarrow> db \<Rightarrow> (actor_lease option) tx" where
  "acquire_ready_actor_for actor owner now until d =
     (if until \<le> now then Inl (Bail ''lease expiry must be after current time'')
      else if list_ex (\<lambda>a. ac_id a = actor \<and> ac_enabled a) (actors d)
              \<and> lease_open d actor owner now \<and> has_ready_work d now actor
           then lease_result d actor owner now until
           else Inr (None, d))"

text \<open>The \<open>WHERE\<close> of every fenced statement on the lease table.\<close>

definition lease_matches :: "actor_lease \<Rightarrow> lease_row \<Rightarrow> bool" where
  "lease_matches ls l \<longleftrightarrow>
     al_actor l = ls_actor ls \<and> al_owner l = ls_owner ls \<and> al_generation l = ls_generation ls"

definition renew_lease :: "actor_lease \<Rightarrow> timestamp \<Rightarrow> timestamp \<Rightarrow> db \<Rightarrow> actor_lease tx" where
  "renew_lease ls now until d =
     (if until \<le> now then Inl (Bail ''lease expiry must be after current time'')
      else if changed (\<lambda>l. lease_matches ls l \<and> now < al_expires l) (leases d) \<noteq> 1 then Inl StaleLease
      else Inr (ls\<lparr>ls_expires := until\<rparr>,
                d\<lparr>leases := update_where (\<lambda>l. lease_matches ls l \<and> now < al_expires l)
                              (\<lambda>l. l\<lparr>al_expires := until\<rparr>) (leases d)\<rparr>))"

definition release_lease :: "actor_lease \<Rightarrow> db \<Rightarrow> unit tx" where
  "release_lease ls d = Inr ((), d\<lparr>leases := delete_where (lease_matches ls) (leases d)\<rparr>)"

definition lease_current :: "db \<Rightarrow> actor_lease \<Rightarrow> timestamp \<Rightarrow> bool" where
  "lease_current d ls now \<longleftrightarrow> list_ex (\<lambda>l. lease_matches ls l \<and> now < al_expires l) (leases d)"

definition ensure_current_lease :: "db \<Rightarrow> actor_lease \<Rightarrow> timestamp \<Rightarrow> error + unit" where
  "ensure_current_lease d ls now = require (lease_current d ls now) StaleLease"

section \<open>The lease table\<close>

text \<open>The primary key of \<open>actor_leases\<close>.\<close>

definition lease_keys :: "db \<Rightarrow> bool" where
  "lease_keys d \<longleftrightarrow> distinct (map al_actor (leases d))"

lemma lease_current_iff:
  "lease_current d ls now \<longleftrightarrow> (\<exists>l \<in> set (leases d). lease_matches ls l \<and> now < al_expires l)"
  by (simp add: lease_current_def list_ex_iff)

lemma lease_row_of_Some:
  "lease_row_of d a = Some l \<Longrightarrow> l \<in> set (leases d) \<and> al_actor l = a"
  using find_Some_in[of "\<lambda>l. al_actor l = a" "leases d" l] by (simp add: lease_row_of_def)

lemma lease_row_of_None: "lease_row_of d a = None \<longleftrightarrow> (\<forall>l \<in> set (leases d). al_actor l \<noteq> a)"
  by (simp add: lease_row_of_def find_None_all)

lemma lease_row_of_key:
  assumes "lease_keys d" and "l \<in> set (leases d)"
  shows "lease_row_of d (al_actor l) = Some l"
  using find_key[of al_actor "leases d" l] assms by (simp add: lease_row_of_def lease_keys_def)

lemma lease_current_row:
  assumes "lease_keys d"
  shows "lease_current d ls now \<longleftrightarrow>
    (\<exists>l. lease_row_of d (ls_actor ls) = Some l \<and> al_owner l = ls_owner ls
         \<and> al_generation l = ls_generation ls \<and> now < al_expires l)"
proof
  assume "lease_current d ls now"
  then obtain l where l: "l \<in> set (leases d)" "lease_matches ls l" "now < al_expires l"
    by (auto simp: lease_current_iff)
  then have "lease_row_of d (ls_actor ls) = Some l"
    using lease_row_of_key[OF assms l(1)] by (simp add: lease_matches_def)
  then show "\<exists>l. lease_row_of d (ls_actor ls) = Some l \<and> al_owner l = ls_owner ls
         \<and> al_generation l = ls_generation ls \<and> now < al_expires l"
    using l by (auto simp: lease_matches_def)
next
  assume "\<exists>l. lease_row_of d (ls_actor ls) = Some l \<and> al_owner l = ls_owner ls
         \<and> al_generation l = ls_generation ls \<and> now < al_expires l"
  then show "lease_current d ls now"
    using lease_row_of_Some by (auto simp: lease_current_iff lease_matches_def)
qed

lemma lease_row_of_after_update:
  assumes "\<And>r. al_actor (f r) = al_actor r"
  shows "lease_row_of (d\<lparr>leases := update_where (\<lambda>r. al_actor r = a) f (leases d)\<rparr>) b =
         map_option (if b = a then f else id) (lease_row_of d b)"
  using find_update_where[of al_actor f b a "leases d"] assms by (simp add: lease_row_of_def)

text \<open>The single current owner: two current leases of an actor are the same grant.\<close>

lemma current_lease_unique:
  assumes "lease_keys d" and "lease_current d x now" and "lease_current d y now'"
    and "ls_actor x = ls_actor y"
  shows "ls_owner x = ls_owner y \<and> ls_generation x = ls_generation y"
  using assms by (auto simp: lease_current_row)

lemma grant_lease_spec:
  assumes "lease_keys d" and "grant_lease d a owner now until = Some (g, d')"
  shows "lease_row_of d' a = Some \<lparr>al_actor = a, al_generation = g, al_owner = owner, al_expires = until\<rparr>"
    and "\<And>b. b \<noteq> a \<Longrightarrow> lease_row_of d' b = lease_row_of d b"
    and "lease_keys d'" and "d' = d\<lparr>leases := leases d'\<rparr>"
    and "\<And>l. lease_row_of d a = Some l \<Longrightarrow>
           (al_owner l = owner \<and> now < al_expires l \<and> g = al_generation l)
           \<or> (al_expires l \<le> now \<and> g = al_generation l + 1)"
proof -
  have keys: "lease_keys (d\<lparr>leases := update_where (\<lambda>r. al_actor r = a) f (leases d)\<rparr>)"
    if "\<And>r. al_actor (f r) = al_actor r" for f
    using assms(1) map_update_where[of "leases d" "\<lambda>r. al_actor r = a" al_actor f] that
    by (simp add: lease_keys_def)
  show row: "lease_row_of d' a = Some \<lparr>al_actor = a, al_generation = g, al_owner = owner, al_expires = until\<rparr>"
  proof (cases "lease_row_of d a")
    case None
    then show ?thesis using assms(2)
      by (auto simp: grant_lease_def lease_row_of_def find_append)
  next
    case (Some l)
    then have "al_actor l = a" using lease_row_of_Some by blast
    then show ?thesis using assms(2) Some
      by (cases l) (auto simp: grant_lease_def lease_row_of_after_update split: if_splits)
  qed
  show "lease_row_of d' b = lease_row_of d b" if "b \<noteq> a" for b
    using assms(2) that
    by (auto simp: grant_lease_def lease_row_of_after_update option.map_id split: option.splits if_splits)
       (auto simp: lease_row_of_def find_append option.case_eq_if)
  show "lease_keys d'"
    using assms keys
    by (auto simp: grant_lease_def split: option.splits if_splits)
       (auto simp: lease_row_of_None lease_keys_def)
  show "d' = d\<lparr>leases := leases d'\<rparr>"
    using assms(2) by (auto simp: grant_lease_def split: option.splits if_splits)
  show "(al_owner l = owner \<and> now < al_expires l \<and> g = al_generation l)
           \<or> (al_expires l \<le> now \<and> g = al_generation l + 1)" if "lease_row_of d a = Some l" for l
    using assms(2) that by (auto simp: grant_lease_def split: if_splits)
qed

text \<open>Both \<open>acquire\<close> operations end in \<open>lease_result\<close> for an actor whose lease is open.\<close>

lemma lease_result_cases:
  assumes "lease_result d a owner now until = Inr (r, d')"
  obtains (none) "r = None" "d' = d"
  | (some) g where "grant_lease d a owner now until = Some (g, d')"
      "r = Some \<lparr>ls_actor = a, ls_owner = owner, ls_generation = g, ls_expires = until\<rparr>"
  using assms by (auto simp: lease_result_def split: option.splits)

lemma acquire_ready_actor_cases:
  assumes "acquire_ready_actor owner now until d = Inr (r, d')"
  obtains (none) "r = None" "d' = d"
  | (some) a g where "now < until" "a \<in> set (actors d)" "lease_open d (ac_id a) owner now"
      "has_ready_work d now (ac_id a)" "grant_lease d (ac_id a) owner now until = Some (g, d')"
      "r = Some \<lparr>ls_actor = ac_id a, ls_owner = owner, ls_generation = g, ls_expires = until\<rparr>"
  using assms first_by_Some_in
  by (fastforce simp: acquire_ready_actor_def split: if_splits option.splits elim!: lease_result_cases)

lemma acquire_ready_actor_for_cases:
  assumes "acquire_ready_actor_for actor owner now until d = Inr (r, d')"
  obtains (none) "r = None" "d' = d"
  | (some) a g where "now < until" "a \<in> set (actors d)" "ac_id a = actor" "ac_enabled a"
      "lease_open d actor owner now" "has_ready_work d now actor"
      "grant_lease d actor owner now until = Some (g, d')"
      "r = Some \<lparr>ls_actor = actor, ls_owner = owner, ls_generation = g, ls_expires = until\<rparr>"
  using assms
  by (fastforce simp: acquire_ready_actor_for_def list_ex_iff split: if_splits elim!: lease_result_cases)

lemma grant_keeps_foreign:
  assumes "lease_keys d" and "grant_lease d a owner now until = Some (g, d')"
    and "lease_current d x now" and "ls_owner x \<noteq> owner"
  shows "a \<noteq> ls_actor x" and "lease_current d' x t = lease_current d x t"
proof -
  obtain l where l: "lease_row_of d (ls_actor x) = Some l" "al_owner l = ls_owner x" "now < al_expires l"
    using assms(1,3) by (auto simp: lease_current_row)
  show a: "a \<noteq> ls_actor x"
    using grant_lease_spec(5)[OF assms(1,2), of l] l assms(4) by auto
  show "lease_current d' x t = lease_current d x t"
    using grant_lease_spec(2,3)[OF assms(1,2)] a assms(1) by (simp add: lease_current_row)
qed

lemma grant_is_current:
  assumes "lease_keys d" and "grant_lease d a owner now until = Some (g, d')" and "ls_actor x = a"
  shows "lease_current d' x t \<longleftrightarrow> ls_owner x = owner \<and> ls_generation x = g \<and> t < until"
  using grant_lease_spec(1,3)[OF assms(1,2)] assms(3) by (auto simp: lease_current_row)

section \<open>Operations a lease guards\<close>

text \<open>
  The contract of an operation of the store that takes the holder's lease: it succeeds only
  under a lease that is current. What follows for every such operation: a superseded holder
  cannot change the database.
\<close>

locale lease_guarded =
  fixes operation :: "actor_lease \<Rightarrow> timestamp \<Rightarrow> db \<Rightarrow> 'a tx"
  assumes succeeds_current: "operation ls now d = Inr r \<Longrightarrow> lease_current d ls now"
begin

lemma stale_keeps_db: "\<not> lease_current d ls now \<Longrightarrow> commit_state d (operation ls now d) = d"
  using succeeds_current by (cases "operation ls now d") auto

lemma superseded_keeps_db:
  assumes "lease_keys d" and "grant_lease d a owner now until = Some (g, d')"
    and "ls_actor old = a" and "ls_owner old \<noteq> owner \<or> ls_generation old \<noteq> g"
  shows "commit_state d' (operation old t d') = d'"
  using grant_is_current[OF assms(1,2,3)] assms(4) by (intro stale_keeps_db) auto

lemma expired_keeps_db:
  assumes "lease_keys d" and "lease_row_of d (ls_actor ls) = Some l" and "al_expires l \<le> now"
  shows "commit_state d (operation ls now d) = d"
  using assms by (intro stale_keeps_db) (auto simp: lease_current_row)

end

lemma renew_lease_Inr:
  assumes "renew_lease ls now until d = Inr (r, d')"
  shows "lease_current d ls now"
  using assms by (auto simp: renew_lease_def lease_current_iff split: if_splits elim!: changed_oneE)

interpretation renew: lease_guarded "\<lambda>ls now d. renew_lease ls now until d" for until
  by unfold_locales (metis renew_lease_Inr surj_pair)

lemma lease_match_unique:
  assumes "lease_keys d" and "lease_current d ls now"
  shows "changed (\<lambda>l. lease_matches ls l \<and> now < al_expires l) (leases d) = 1"
proof -
  obtain l where "l \<in> set (leases d)" "lease_matches ls l" "now < al_expires l"
    using assms(2) by (auto simp: lease_current_iff)
  then have "changed (\<lambda>l. lease_matches ls l \<and> now < al_expires l) (leases d) = Suc 0"
    using assms(1) by (intro changed_key[where k = al_actor]) (auto simp: lease_keys_def lease_matches_def)
  then show ?thesis by simp
qed

lemma renew_lease_ok:
  assumes "lease_keys d" and "lease_current d ls now" and "now < until"
  shows "\<exists>d'. renew_lease ls now until d = Inr (ls\<lparr>ls_expires := until\<rparr>, d')
              \<and> lease_current d' (ls\<lparr>ls_expires := until\<rparr>) t = (t < until)"
proof -
  let ?p = "\<lambda>l. lease_matches ls l \<and> now < al_expires l"
  let ?d = "d\<lparr>leases := update_where ?p (\<lambda>l. l\<lparr>al_expires := until\<rparr>) (leases d)\<rparr>"
  obtain l where l: "lease_row_of d (ls_actor ls) = Some l" "?p l"
    using assms(1,2) lease_row_of_Some by (auto simp: lease_current_row lease_matches_def)
  have keys: "lease_keys ?d"
    using assms(1) map_update_where[of "leases d" ?p al_actor "\<lambda>l. l\<lparr>al_expires := until\<rparr>"]
    by (simp add: lease_keys_def)
  have "l\<lparr>al_expires := until\<rparr> \<in> set (leases ?d)"
    using lease_row_of_Some[OF l(1)] l(2) by (auto simp: set_update_where image_iff intro!: bexI[of _ l])
  then have "lease_row_of ?d (ls_actor ls) = Some (l\<lparr>al_expires := until\<rparr>)"
    using lease_row_of_key[OF keys] lease_row_of_Some[OF l(1)] by fastforce
  then have "lease_current ?d (ls\<lparr>ls_expires := until\<rparr>) t = (t < until)"
    using keys l(2) by (auto simp: lease_current_row lease_matches_def)
  then show ?thesis using assms(3) lease_match_unique[OF assms(1,2)] by (simp add: renew_lease_def)
qed

lemma grant_lease_open:
  assumes "lease_open d a owner now"
  obtains g d' where "grant_lease d a owner now until = Some (g, d')"
proof -
  have "grant_lease d a owner now until \<noteq> None"
    using assms by (auto simp: lease_open_def grant_lease_def split: option.splits)
  then show ?thesis using that by auto
qed

lemma release_lease_current:
  assumes "release_lease ls d = Inr (u, d')"
  shows "lease_current d' x t \<longleftrightarrow> lease_current d x t \<and>
     \<not> (ls_actor x = ls_actor ls \<and> ls_owner x = ls_owner ls \<and> ls_generation x = ls_generation ls)"
  using assms by (auto simp: release_lease_def lease_current_iff lease_matches_def)

section \<open>What the leases guarantee\<close>

text \<open>
  C1. A live lease is never taken away. While a lease of another owner is current, neither
  \<open>acquire_ready_actor\<close> nor \<open>acquire_ready_actor_for\<close> returns a lease on that actor, and the
  holder's lease stays current for exactly as long as it was.
\<close>

theorem live_lease_not_stolen:
  assumes "lease_keys d" and "lease_current d x now" and "ls_owner x \<noteq> owner"
    and "acquire_ready_actor owner now until d = Inr (r, d')
         \<or> acquire_ready_actor_for actor owner now until d = Inr (r, d')"
  shows "(\<forall>ls. r = Some ls \<longrightarrow> ls_actor ls \<noteq> ls_actor x) \<and> (\<forall>t. lease_current d' x t = lease_current d x t)"
  using assms(4) grant_keeps_foreign[OF assms(1) _ assms(2,3)]
  by (elim disjE acquire_ready_actor_cases acquire_ready_actor_for_cases) auto

text \<open>
  Fencing. After an acquire has returned a lease, the leases of that actor that are
  current at a time \<open>t\<close> are exactly those with the granted owner and generation, and only
  until the granted expiry: whoever held the actor before is stale at once, whatever its clock.
\<close>

theorem acquired_lease_fences:
  assumes "lease_keys d" and "ls_actor x = ls_actor ls"
    and "acquire_ready_actor owner now until d = Inr (Some ls, d')
         \<or> acquire_ready_actor_for actor owner now until d = Inr (Some ls, d')"
  shows "lease_current d' x t \<longleftrightarrow>
           ls_owner x = owner \<and> ls_generation x = ls_generation ls \<and> t < until"
  using assms(3,2) grant_is_current[OF assms(1)]
  by (elim disjE acquire_ready_actor_cases acquire_ready_actor_for_cases) auto

text \<open>
  \<open>acquire_ready_actor\<close> serves the actor whose oldest work comes first. If it returns a
  lease, the actor has work, its lease was open, and no other such actor has a smaller pair of
  oldest mailbox sequence and identifier; it returns none only when no actor is eligible.
\<close>

theorem acquire_serves_oldest:
  assumes "now < until"
  shows "\<exists>r d'. acquire_ready_actor owner now until d = Inr (r, d') \<and>
     (case r of
        None \<Rightarrow> d' = d \<and> \<not> (\<exists>a \<in> set (actors d). lease_open d (ac_id a) owner now \<and> has_ready_work d now (ac_id a))
      | Some ls \<Rightarrow> lease_open d (ls_actor ls) owner now \<and> has_ready_work d now (ls_actor ls) \<and>
          (\<forall>b \<in> set (actors d). lease_open d (ac_id b) owner now \<longrightarrow> has_ready_work d now (ac_id b) \<longrightarrow>
             (actor_priority d now (ls_actor ls), ls_actor ls) \<le> (actor_priority d now (ac_id b), ac_id b)))"
proof -
  let ?k = "\<lambda>a. (actor_priority d now (ac_id a), ac_id a)"
  let ?c = "filter (\<lambda>a. lease_open d (ac_id a) owner now \<and> has_ready_work d now (ac_id a)) (actors d)"
  show ?thesis
  proof (cases "first_by ?k ?c")
    case None
    then have "?c = []" by simp
    then have "\<not> (\<exists>a \<in> set (actors d). lease_open d (ac_id a) owner now \<and> has_ready_work d now (ac_id a))"
      by (simp add: filter_empty_conv)
    moreover have "acquire_ready_actor owner now until d = Inr (None, d)"
      using assms \<open>?c = []\<close> by (simp add: acquire_ready_actor_def first_by_def)
    ultimately show ?thesis by auto
  next
    case (Some a)
    then have a: "lease_open d (ac_id a) owner now" "has_ready_work d now (ac_id a)"
      using first_by_Some_in by fastforce+
    obtain g d' where "grant_lease d (ac_id a) owner now until = Some (g, d')"
      using a(1) by (rule grant_lease_open)
    then show ?thesis
      using assms Some a first_by_min[OF Some] by (simp add: acquire_ready_actor_def lease_result_def)
  qed
qed

section \<open>Witnesses\<close>

text \<open>A store with two actors, a live lease on the first and pending work for both.\<close>

definition sample_work :: "work_item_id \<Rightarrow> actor_id \<Rightarrow> work_item_row" where
  "sample_work w a = \<lparr>wi_id = w, wi_actor = a, wi_kind = WkInteractive, wi_audience = ActorPrivate,
     wi_state = WiReady, wi_failures = 0, wi_next_attempt = None, wi_last_error = None,
     wi_cancel_at = None, wi_created = 0, wi_updated = 0\<rparr>"

definition sample_event :: "event_id \<Rightarrow> actor_id \<Rightarrow> work_item_id option \<Rightarrow> int \<Rightarrow> event_row" where
  "sample_event e a w s = \<lparr>ev_id = e, ev_actor = a, ev_work = w, ev_seq = s, ev_gateway = ''g'',
     ev_external = e, ev_kind = UserMessage, ev_audience = ActorPrivate, ev_payload = ''t'',
     ev_state = EvPending, ev_run = None, ev_route = None, ev_policy = ActorTools, ev_source = None,
     ev_created = 0, ev_updated = 0\<rparr>"

definition sample_actor :: "actor_id \<Rightarrow> actor_row" where
  "sample_actor a = \<lparr>ac_id = a, ac_enabled = True, ac_tools = ''[]'', ac_next_seq = 3, ac_created = 0\<rparr>"

definition sample_db :: db where
  "sample_db = empty_db\<lparr>actors := [sample_actor ''a'', sample_actor ''b''],
     work_items := [sample_work ''w'' ''a'', sample_work ''v'' ''b''],
     events := [sample_event ''e'' ''a'' (Some ''w'') 1, sample_event ''f'' ''b'' (Some ''v'') 2],
     leases := [\<lparr>al_actor = ''a'', al_generation = 4, al_owner = ''p'', al_expires = 100\<rparr>]\<rparr>"

definition sample_lease :: "string \<Rightarrow> int \<Rightarrow> int \<Rightarrow> actor_lease" where
  "sample_lease p g t = \<lparr>ls_actor = ''a'', ls_owner = p, ls_generation = g, ls_expires = t\<rparr>"

lemma sample_acquires:
  "acquire_ready_actor_for ''a'' ''q'' 50 150 sample_db = Inr (None, sample_db)"
  "acquire_ready_actor_for ''a'' ''q'' 100 200 sample_db = Inr (Some (sample_lease ''q'' 5 200), sample_db
     \<lparr>leases := [\<lparr>al_actor = ''a'', al_generation = 5, al_owner = ''q'', al_expires = 200\<rparr>]\<rparr>)"
  by code_simp+

theorem live_lease_not_stolen_witness:
  "\<exists>r d'. acquire_ready_actor_for ''a'' ''q'' 50 150 sample_db = Inr (r, d')
     \<and> lease_current d' (sample_lease ''p'' 4 100) 99"
proof -
  obtain d' where r: "acquire_ready_actor_for ''a'' ''q'' 50 150 sample_db = Inr (None, d')"
    using sample_acquires(1) by blast
  have "lease_keys sample_db" "lease_current sample_db (sample_lease ''p'' 4 100) 50"
    "lease_current sample_db (sample_lease ''p'' 4 100) 99" "ls_owner (sample_lease ''p'' 4 100) \<noteq> ''q''"
    by code_simp+
  then show ?thesis using live_lease_not_stolen [OF _ _ _ disjI2 [OF r]] r by blast
qed

theorem acquired_lease_fences_witness:
  "\<exists>d'. acquire_ready_actor_for ''a'' ''q'' 100 200 sample_db = Inr (Some (sample_lease ''q'' 5 200), d')
     \<and> \<not> lease_current d' (sample_lease ''p'' 4 100) 0 \<and> lease_current d' (sample_lease ''q'' 5 200) 199"
proof -
  obtain d' where r: "acquire_ready_actor_for ''a'' ''q'' 100 200 sample_db = Inr (Some (sample_lease ''q'' 5 200), d')"
    using sample_acquires(2) by blast
  have k: "lease_keys sample_db" by code_simp
  have "\<not> lease_current d' (sample_lease ''p'' 4 100) 0" "lease_current d' (sample_lease ''q'' 5 200) 199"
    using acquired_lease_fences [OF k _ disjI2 [OF r]] by (simp_all add: sample_lease_def)
  then show ?thesis using r by blast
qed

theorem acquire_serves_oldest_witness:
  "\<exists>r d'. acquire_ready_actor ''q'' 100 200 sample_db = Inr (r, d') \<and> r \<noteq> None"
proof -
  have "\<exists>a \<in> set (actors sample_db). lease_open sample_db (ac_id a) ''q'' 100 \<and> has_ready_work sample_db 100 (ac_id a)"
    by code_simp
  then show ?thesis using acquire_serves_oldest [of 100 200 "''q''" sample_db] by (auto split: option.splits)
qed

end
