(* ===== verification/Attach_Run.thy ===== *)
theory Attach_Run
  imports Leases Event_Message
begin

text \<open>
  \<open>attach_next_run\<close> and \<open>newer_control_event\<close> of \<open>runtime/sqlite/dispatch.rs\<close>: choosing the
  run to continue or starting one, claiming the pending events it will process, and what a
  running quantum is told about newer input.
\<close>

section \<open>The steps of the transaction\<close>

definition kind_rank :: "event_kind \<Rightarrow> nat" where
  "kind_rank k = (case k of CancelRequested \<Rightarrow> 0 | UserMessage \<Rightarrow> 1 | ExternalCompletion \<Rightarrow> 2)"

record picked_run =
  pk_run :: run_id
  pk_work :: work_item_id
  pk_observed :: int
  pk_audience :: audience
  pk_policy :: execution_policy
  pk_source :: "string option"

text \<open>The active run of a ready, due work item that was updated longest ago.\<close>

definition active_candidates :: "db \<Rightarrow> actor_id \<Rightarrow> timestamp \<Rightarrow> (run_row \<times> work_item_row) list" where
  "active_candidates d a now =
     inner_join (\<lambda>r w. wi_id w = rn_work r \<and> work_ready d now w)
       (filter (\<lambda>r. rn_actor r = a \<and> rn_state r = RunActive) (runs d)) (work_items d)"

definition pick_active_run :: "db \<Rightarrow> actor_id \<Rightarrow> timestamp \<Rightarrow> picked_run option" where
  "pick_active_run d a now =
     map_option (\<lambda>(r, w). \<lparr>pk_run = rn_id r, pk_work = rn_work r, pk_observed = rn_observed r,
                           pk_audience = wi_audience w, pk_policy = rn_policy r, pk_source = rn_source r\<rparr>)
       (first_by (\<lambda>(r, w). (rn_updated r, rn_id r)) (active_candidates d a now))"

definition new_work_item ::
    "work_item_id \<Rightarrow> actor_id \<Rightarrow> work_kind \<Rightarrow> audience \<Rightarrow> timestamp \<Rightarrow> work_item_row" where
  "new_work_item i a k au now =
     \<lparr>wi_id = i, wi_actor = a, wi_kind = k, wi_audience = au, wi_state = WiReady, wi_failures = 0,
      wi_next_attempt = None, wi_last_error = None, wi_cancel_at = None, wi_created = now, wi_updated = now\<rparr>"

text \<open>The oldest pending event without a work item gets one.\<close>

definition assign_work_item :: "work_item_id \<Rightarrow> actor_id \<Rightarrow> timestamp \<Rightarrow> db \<Rightarrow> error + db" where
  "assign_work_item wid a now d =
     (case first_by ev_seq (filter (unassigned_event a) (events d)) of
        None \<Rightarrow> Inr d
      | Some e \<Rightarrow>
          let kind = (if ev_kind e = ExternalCompletion then WkExternal else WkInteractive) in
          ebind (insert_unique wi_id (new_work_item wid a kind (ev_audience e) now) (work_items d)) (\<lambda>ws.
            Inr (d\<lparr>work_items := ws,
                   events := update_where (\<lambda>r. ev_id r = ev_id e \<and> ev_work r = None)
                               (\<lambda>r. r\<lparr>ev_work := Some wid, ev_updated := now\<rparr>) (events d),
                   local_requests := update_where (\<lambda>r. lr_event r = ev_id e \<and> lr_work r = None)
                               (\<lambda>r. r\<lparr>lr_work := Some wid, lr_updated := now\<rparr>) (local_requests d)\<rparr>)))"

definition select_candidates :: "db \<Rightarrow> actor_id \<Rightarrow> timestamp \<Rightarrow> (event_row \<times> work_item_row) list" where
  "select_candidates d a now =
     inner_join (\<lambda>e w. ev_work e = Some (wi_id w) \<and> work_ready d now w
                        \<and> (wi_cancel_at w = None \<or> ev_kind e = CancelRequested))
       (filter (\<lambda>e. ev_actor e = a \<and> ev_state e = EvPending) (events d)) (work_items d)"

definition new_run :: "run_id \<Rightarrow> actor_id \<Rightarrow> work_item_id \<Rightarrow> int \<Rightarrow> timestamp \<Rightarrow> run_row" where
  "new_run i a w g now =
     \<lparr>rn_id = i, rn_actor = a, rn_work = w, rn_state = RunActive, rn_generation = g, rn_observed = 0,
      rn_route = None, rn_policy = ActorTools, rn_source = None, rn_created = now, rn_updated = now\<rparr>"

text \<open>The primary key of \<open>runs\<close> and the index \<open>one_active_run_per_work_item\<close>.\<close>

definition insert_run :: "run_row \<Rightarrow> run_row list \<Rightarrow> error + run_row list" where
  "insert_run r rows =
     (if list_ex (\<lambda>s. rn_work s = rn_work r \<and> rn_state s = RunActive) rows
      then Inl (Sql ''UNIQUE constraint failed'') else insert_unique rn_id r rows)"

definition start_run ::
    "id_supply \<Rightarrow> actor_lease \<Rightarrow> timestamp \<Rightarrow> db \<Rightarrow> (picked_run option) tx" where
  "start_run uid ls now d =
     ebind (assign_work_item (uid [0]) (ls_actor ls) now d) (\<lambda>d1.
       case first_by (\<lambda>(e, w). (kind_rank (ev_kind e), ev_seq e)) (select_candidates d1 (ls_actor ls) now) of
         None \<Rightarrow> Inr (None, d1)
       | Some (e, w) \<Rightarrow>
           ebind (insert_run (new_run (uid [1]) (ls_actor ls) (wi_id w) (ls_generation ls) now) (runs d1)) (\<lambda>rs.
             Inr (Some \<lparr>pk_run = uid [1], pk_work = wi_id w, pk_observed = 0,
                        pk_audience = wi_audience w, pk_policy = ActorTools, pk_source = None\<rparr>,
                  d1\<lparr>runs := rs\<rparr>)))"

definition run_event_count :: "db \<Rightarrow> run_id \<Rightarrow> nat" where
  "run_event_count d run = changed (\<lambda>x. re_run x = run) (run_events d)"

text \<open>Events the run may take: of its work item, not cancelled, and older than every pending
  cancellation of the actor.\<close>

definition first_cancel :: "db \<Rightarrow> actor_id \<Rightarrow> int" where
  "first_cancel d a =
     (case min_of (map ev_seq (filter (\<lambda>e. ev_actor e = a \<and> ev_state e = EvPending
                                           \<and> ev_kind e = CancelRequested) (events d))) of
        Some s \<Rightarrow> s | None \<Rightarrow> i64_max)"

definition claimable :: "db \<Rightarrow> actor_id \<Rightarrow> work_item_id \<Rightarrow> event_row \<Rightarrow> bool" where
  "claimable d a w e \<longleftrightarrow>
     ev_actor e = a \<and> ev_work e = Some w \<and> ev_state e = EvPending \<and> ev_kind e \<noteq> CancelRequested
     \<and> list_ex (\<lambda>r. wi_id r = w \<and> wi_cancel_at r = None) (work_items d)
     \<and> ev_seq e < first_cancel d a"

definition claim_list :: "db \<Rightarrow> actor_id \<Rightarrow> work_item_id \<Rightarrow> nat \<Rightarrow> event_id list" where
  "claim_list d a w n =
     map ev_id (take n (sort_key (\<lambda>e. (kind_rank (ev_kind e), ev_seq e)) (filter (claimable d a w) (events d))))"

definition claim_event :: "run_id \<Rightarrow> timestamp \<Rightarrow> event_id \<Rightarrow> db \<Rightarrow> error + db" where
  "claim_event run now e d =
     ebind (insert_unique re_event \<lparr>re_run = run, re_event = e, re_incorporated = False\<rparr> (run_events d)) (\<lambda>xs.
       Inr (d\<lparr>run_events := xs,
              events := update_where (\<lambda>r. ev_id r = e \<and> ev_state r = EvPending)
                (\<lambda>r. r\<lparr>ev_state := EvProcessing, ev_run := Some run, ev_updated := now\<rparr>) (events d)\<rparr>))"

definition claim_events :: "nat \<Rightarrow> actor_id \<Rightarrow> picked_run \<Rightarrow> timestamp \<Rightarrow> db \<Rightarrow> error + db" where
  "claim_events max_events a p now d =
     efold (claim_event (pk_run p) now)
       (claim_list d a (pk_work p) (max_events - run_event_count d (pk_run p))) d"

text \<open>\<open>load_run_events\<close>: the events of the run with their incorporated flag, in mailbox order.\<close>

definition load_run_events :: "db \<Rightarrow> run_id \<Rightarrow> (event_row \<times> bool) list" where
  "load_run_events d run =
     sort_key (\<lambda>p. ev_seq (fst p))
       (map (\<lambda>(e, y). (e, re_incorporated y))
         (inner_join (\<lambda>e y. re_event y = ev_id e \<and> re_run y = run) (events d) (run_events d)))"

definition merge_event ::
    "event_row \<Rightarrow> execution_policy \<times> string option \<Rightarrow> error + (execution_policy \<times> string option)" where
  "merge_event e s =
     (let policy = policy_intersect (fst s) (ev_policy e) in
      case (ev_source e, snd s) of
        (None, cur) \<Rightarrow> Inr (policy, cur)
      | (Some v, None) \<Rightarrow> Inr (policy, Some v)
      | (Some v, Some w) \<Rightarrow> if w \<noteq> v then Inl (Bail ''run contains conflicting ingress sources'')
                           else Inr (policy, Some w))"

definition run_request_ids :: "ext \<Rightarrow> db \<Rightarrow> run_id \<Rightarrow> error + request_id list" where
  "run_request_ids x d run =
     emap (\<lambda>q. from_option (Sql ''invalid request id'') (parse_uuid x (lr_id q)))
       (sort_key (\<lambda>q. (lr_created q, lr_id q))
         (map fst (inner_join (\<lambda>q y. re_event y = lr_event q \<and> re_run y = run)
                    (filter (\<lambda>q. lr_state q = LrActive) (local_requests d)) (run_events d))))"

definition diagnostic :: "ext \<Rightarrow> string \<Rightarrow> string \<Rightarrow> run_id \<Rightarrow> string" where
  "diagnostic x code msg run = render_json x (JObject [(''code'', JString code),
     (''message'', JString msg), (''run_id'', JString run)])"

text \<open>Both malformed branches: the work item is parked, the run fails, its events are blocked.\<close>

definition block_malformed :: "picked_run \<Rightarrow> string \<Rightarrow> timestamp \<Rightarrow> db \<Rightarrow> db" where
  "block_malformed p diag now d =
     d\<lparr>work_items := update_where (\<lambda>w. wi_id w = pk_work p)
         (\<lambda>w. w\<lparr>wi_state := WiBlockedMalformed, wi_next_attempt := None, wi_last_error := Some diag,
                wi_updated := now\<rparr>) (work_items d),
       events := update_where (\<lambda>e. list_ex (\<lambda>y. re_run y = pk_run p \<and> re_event y = ev_id e) (run_events d))
         (\<lambda>e. e\<lparr>ev_state := EvBlocked, ev_updated := now\<rparr>) (events d),
       runs := update_where (\<lambda>r. rn_id r = pk_run p)
         (\<lambda>r. r\<lparr>rn_state := RunFailedTerminal, rn_updated := now\<rparr>) (runs d)\<rparr>"

definition first_bad_checkpoint :: "ext \<Rightarrow> db \<Rightarrow> work_item_id \<Rightarrow> string option" where
  "first_bad_checkpoint x d w =
     (case List.find (\<lambda>m. isl (read_message x (rm_message m))) (filter (\<lambda>m. rm_work m = w) (recent d)) of
        None \<Rightarrow> None
      | Some m \<Rightarrow> (case read_message x (rm_message m) of Inl e \<Rightarrow> Some e | Inr _ \<Rightarrow> None))"

definition newest_route :: "db \<Rightarrow> run_id \<Rightarrow> error + delivery_route option" where
  "newest_route d run =
     (case first_by (\<lambda>e. - ev_seq e)
             (map fst (inner_join (\<lambda>e y. re_event y = ev_id e \<and> re_run y = run)
                (filter (\<lambda>e. ev_kind e = UserMessage \<and> ev_route e \<noteq> None) (events d)) (run_events d))) of
        None \<Rightarrow> Inr None
      | Some e \<Rightarrow>
          (case ev_route e of
             None \<Rightarrow> Inr None
           | Some r \<Rightarrow> ebind (delivery_route_new (dr_gateway r) (dr_address r) (dr_reply_to r)
                                (dr_max_text r) (dr_max_caption r)) (\<lambda>r'. Inr (Some r'))))"

definition record_run ::
    "picked_run \<Rightarrow> int \<Rightarrow> int \<Rightarrow> execution_policy \<Rightarrow> string option \<Rightarrow> delivery_route option
     \<Rightarrow> timestamp \<Rightarrow> db \<Rightarrow> db" where
  "record_run p g observed policy source route now d =
     d\<lparr>runs := update_where (\<lambda>r. rn_id r = pk_run p)
        (\<lambda>r. r\<lparr>rn_route := (case route of None \<Rightarrow> rn_route r | Some _ \<Rightarrow> route),
               rn_generation := g, rn_observed := observed, rn_policy := policy, rn_source := source,
               rn_updated := now\<rparr>) (runs d)\<rparr>"

definition finish_attach ::
    "ext \<Rightarrow> actor_lease \<Rightarrow> timestamp \<Rightarrow> picked_run \<Rightarrow> db \<Rightarrow> (attached_run option) tx" where
  "finish_attach x ls now p d =
     (let rows = load_run_events d (pk_run p) in
      ebind (efold (\<lambda>q. merge_event (fst q)) rows (pk_policy p, pk_source p)) (\<lambda>(policy, source).
      ebind (run_request_ids x d (pk_run p)) (\<lambda>requests.
        let observed = (case max_of (map (\<lambda>q. ev_seq (fst q)) rows) of Some m \<Rightarrow> m | None \<Rightarrow> pk_observed p) in
        case emap (\<lambda>q. event_message x (ev_payload (fst q))) (filter (\<lambda>q. \<not> snd q) rows) of
          Inl e \<Rightarrow> Inr (None, block_malformed p
                     (diagnostic x ''malformed_persisted_payload'' (err_text e) (pk_run p)) now d)
        | Inr messages \<Rightarrow>
            (case first_bad_checkpoint x d (pk_work p) of
               Some e \<Rightarrow> Inr (None, block_malformed p
                           (diagnostic x ''malformed_persisted_checkpoint'' e (pk_run p)) now d)
             | None \<Rightarrow>
                 ebind (newest_route d (pk_run p)) (\<lambda>route.
                   Inr (Some \<lparr>ar_lease = ls, ar_work = pk_work p, ar_run = pk_run p, ar_observed = observed,
                              ar_sources = map (\<lambda>q. ev_id (fst q)) rows, ar_requests = requests,
                              ar_audience = pk_audience p, ar_route = route, ar_policy = policy,
                              ar_source = source, ar_messages = messages\<rparr>,
                        record_run p (ls_generation ls) observed policy source route now d))))))"

definition attach_next_run ::
    "ext \<Rightarrow> id_supply \<Rightarrow> nat \<Rightarrow> actor_lease \<Rightarrow> timestamp \<Rightarrow> db \<Rightarrow> (attached_run option) tx" where
  "attach_next_run x uid max_events ls now d =
     (if max_events = 0 then Inl (Bail ''max_events must be greater than zero'')
      else ebind (ensure_current_lease d ls now) (\<lambda>_.
           ebind (case pick_active_run d (ls_actor ls) now of
                    Some p \<Rightarrow> Inr (Some p, d)
                  | None \<Rightarrow> start_run uid ls now d) (\<lambda>(p, d1).
             case p of
               None \<Rightarrow> Inr (None, d)
             | Some p \<Rightarrow> ebind (claim_events max_events (ls_actor ls) p now d1) (finish_attach x ls now p))))"

text \<open>\<open>newer_control_event\<close>: a newer cancellation, or else a newer user message, for a work item
  with an active run.\<close>

record control_event =
  cv_event :: event_id
  cv_seq :: int
  cv_kind :: event_kind

definition control_candidates :: "db \<Rightarrow> actor_id \<Rightarrow> int \<Rightarrow> event_row list" where
  "control_candidates d a observed =
     filter (\<lambda>e. ev_actor e = a \<and> ev_state e = EvPending \<and> observed < ev_seq e
        \<and> (ev_kind e = CancelRequested \<or> ev_kind e = UserMessage)
        \<and> list_ex (\<lambda>r. rn_actor r = ev_actor e \<and> rn_state r = RunActive \<and> ev_work e = Some (rn_work r)) (runs d))
       (events d)"

definition newer_control_event ::
    "actor_lease \<Rightarrow> int \<Rightarrow> timestamp \<Rightarrow> db \<Rightarrow> (control_event option) tx" where
  "newer_control_event ls observed now d =
     ebind (ensure_current_lease d ls now) (\<lambda>_.
       Inr (map_option (\<lambda>e. \<lparr>cv_event = ev_id e, cv_seq = ev_seq e, cv_kind = ev_kind e\<rparr>)
              (first_by (\<lambda>e. (if ev_kind e = CancelRequested then 0 else 1 :: nat, ev_seq e))
                 (control_candidates d (ls_actor ls) observed)), d))"

section \<open>Guarded by the lease\<close>

lemma ensure_current_lease_Inr [simp]: "ensure_current_lease d ls now = Inr u \<longleftrightarrow> lease_current d ls now"
  by (simp add: ensure_current_lease_def)

interpretation attach: lease_guarded "\<lambda>ls now d. attach_next_run x uid n ls now d" for x uid n
  by unfold_locales (auto simp: attach_next_run_def ebind_eq_Inr split: if_splits)

interpretation control: lease_guarded "\<lambda>ls now d. newer_control_event ls observed now d" for observed
  by unfold_locales (auto simp: newer_control_event_def ebind_eq_Inr)

lemma newer_control_event_reads: "newer_control_event ls observed now d = Inr (r, d') \<Longrightarrow> d' = d"
  by (auto simp: newer_control_event_def ebind_eq_Inr)

section \<open>What each step does\<close>

definition processed :: "run_id \<Rightarrow> timestamp \<Rightarrow> event_id set \<Rightarrow> event_row \<Rightarrow> event_row" where
  "processed run now ids e =
     (if ev_id e \<in> ids \<and> ev_state e = EvPending
      then e\<lparr>ev_state := EvProcessing, ev_run := Some run, ev_updated := now\<rparr> else e)"

lemma claim_event_Inr:
  "claim_event run now e d = Inr d' \<longleftrightarrow>
     e \<notin> re_event ` set (run_events d) \<and>
     d' = d\<lparr>run_events := run_events d @ [\<lparr>re_run = run, re_event = e, re_incorporated = False\<rparr>],
            events := map (processed run now {e}) (events d)\<rparr>"
  by (auto simp: claim_event_def ebind_eq_Inr insert_unique_eq_Inr update_where_def processed_def)

lemma processed_twice: "processed run now A (processed run now B e) = processed run now (A \<union> B) e"
  by (auto simp: processed_def)

lemma processed_none [simp]: "processed run now {} = id"
  by (auto simp: processed_def)

lemma claim_all_Inr:
  "efold (claim_event run now) ids d = Inr d' \<Longrightarrow>
     d' = d\<lparr>run_events := run_events d @ map (\<lambda>e. \<lparr>re_run = run, re_event = e, re_incorporated = False\<rparr>) ids,
            events := map (processed run now (set ids)) (events d)\<rparr>
     \<and> set ids \<inter> re_event ` set (run_events d) = {} \<and> distinct ids"
proof (induction ids arbitrary: d)
  case Nil
  then show ?case by simp
next
  case (Cons e ids)
  then obtain d1 where d1: "claim_event run now e d = Inr d1" "efold (claim_event run now) ids d1 = Inr d'"
    by (auto simp: ebind_eq_Inr)
  note step = d1(1)[unfolded claim_event_Inr]
  have comp: "processed run now (set ids) \<circ> processed run now {e} = processed run now (set (e # ids))"
    by (simp add: fun_eq_iff processed_twice Un_commute)
  have "d' = d1\<lparr>run_events := run_events d1 @ map (\<lambda>e. \<lparr>re_run = run, re_event = e, re_incorporated = False\<rparr>) ids,
            events := map (processed run now (set ids)) (events d1)\<rparr>"
    "set ids \<inter> re_event ` set (run_events d1) = {}" "distinct ids"
    using Cons.IH[OF d1(2)] by blast+
  then show ?case using step comp by auto
qed

lemma claim_events_Inr:
  assumes "claim_events n a p now d = Inr d'"
  obtains ids where "ids = claim_list d a (pk_work p) (n - run_event_count d (pk_run p))"
    "d' = d\<lparr>run_events := run_events d @ map (\<lambda>e. \<lparr>re_run = pk_run p, re_event = e, re_incorporated = False\<rparr>) ids,
            events := map (processed (pk_run p) now (set ids)) (events d)\<rparr>"
  using assms claim_all_Inr unfolding claim_events_def by blast

lemma claim_list_claimable:
  assumes "distinct (map ev_id (events d))" and "e \<in> set (events d)" and "ev_id e \<in> set (claim_list d a w n)"
  shows "claimable d a w e"
proof -
  let ?k = "\<lambda>e. (kind_rank (ev_kind e), ev_seq e)"
  obtain c where c: "c \<in> set (take n (sort_key ?k (filter (claimable d a w) (events d))))" "ev_id c = ev_id e"
    using assms(3) by (auto simp: claim_list_def)
  then have "c \<in> set (events d)" "claimable d a w c" using in_set_takeD[OF c(1)] by auto
  then show ?thesis using distinct_key_eq[OF assms(1)] assms(2) c(2) by blast
qed

lemma claim_list_length: "length (claim_list d a w n) \<le> n"
  by (simp add: claim_list_def)

lemma first_cancel_before:
  assumes "s < first_cancel d a" and "c \<in> set (events d)" and "ev_actor c = a"
    and "ev_state c = EvPending" and "ev_kind c = CancelRequested"
  shows "s < ev_seq c"
proof -
  let ?xs = "map ev_seq (filter (\<lambda>e. ev_actor e = a \<and> ev_state e = EvPending
                                     \<and> ev_kind e = CancelRequested) (events d))"
  have "ev_seq c \<in> set ?xs" using assms by auto
  from min_of_Some[OF this] obtain m where "min_of ?xs = Some m" "m \<le> ev_seq c" by blast
  then show ?thesis using assms(1) by (simp add: first_cancel_def)
qed

text \<open>Assigning a work item changes nothing of an event but its work item and its time.\<close>

lemma assign_work_item_events:
  assumes "assign_work_item wid a now d = Inr d1"
  shows "\<exists>f. events d1 = map f (events d) \<and>
     (\<forall>e. ev_id (f e) = ev_id e \<and> ev_actor (f e) = ev_actor e \<and> ev_seq (f e) = ev_seq e
        \<and> ev_kind (f e) = ev_kind e \<and> ev_state (f e) = ev_state e \<and> ev_policy (f e) = ev_policy e
        \<and> ev_source (f e) = ev_source e \<and> ev_payload (f e) = ev_payload e)"
    and "runs d1 = runs d" and "run_events d1 = run_events d" and "leases d1 = leases d"
proof -
  show "\<exists>f. events d1 = map f (events d) \<and>
     (\<forall>e. ev_id (f e) = ev_id e \<and> ev_actor (f e) = ev_actor e \<and> ev_seq (f e) = ev_seq e
        \<and> ev_kind (f e) = ev_kind e \<and> ev_state (f e) = ev_state e \<and> ev_policy (f e) = ev_policy e
        \<and> ev_source (f e) = ev_source e \<and> ev_payload (f e) = ev_payload e)"
  proof (cases "first_by ev_seq (filter (unassigned_event a) (events d))")
    case None
    then show ?thesis using assms by (intro exI[of _ id]) (simp add: assign_work_item_def)
  next
    case (Some e)
    show ?thesis
      using assms Some
      by (intro exI[of _ "\<lambda>r. if ev_id r = ev_id e \<and> ev_work r = None
                              then r\<lparr>ev_work := Some wid, ev_updated := now\<rparr> else r"])
         (auto simp: assign_work_item_def ebind_eq_Inr update_where_def Let_def)
  qed
  show "runs d1 = runs d" "run_events d1 = run_events d" "leases d1 = leases d"
    using assms by (auto simp: assign_work_item_def ebind_eq_Inr Let_def split: option.splits)
qed

lemma start_run_Some:
  assumes "start_run uid ls now d = Inr (Some p, d1)"
  obtains d0 e w where "assign_work_item (uid [0]) (ls_actor ls) now d = Inr d0"
    "(e, w) \<in> set (select_candidates d0 (ls_actor ls) now)" "pk_run p = uid [1]" "pk_work p = wi_id w"
    "pk_policy p = ActorTools" "pk_source p = None"
    "insert_run (new_run (uid [1]) (ls_actor ls) (wi_id w) (ls_generation ls) now) (runs d0) = Inr (runs d1)"
    "d1 = d0\<lparr>runs := runs d1\<rparr>"
proof -
  let ?k = "\<lambda>(e, w). (kind_rank (ev_kind e), ev_seq e)"
  obtain d0 where d0: "assign_work_item (uid [0]) (ls_actor ls) now d = Inr d0"
    and rest: "(case first_by ?k (select_candidates d0 (ls_actor ls) now) of
         None \<Rightarrow> Inr (None, d0)
       | Some (e, w) \<Rightarrow>
           ebind (insert_run (new_run (uid [1]) (ls_actor ls) (wi_id w) (ls_generation ls) now) (runs d0)) (\<lambda>rs.
             Inr (Some \<lparr>pk_run = uid [1], pk_work = wi_id w, pk_observed = 0,
                        pk_audience = wi_audience w, pk_policy = ActorTools, pk_source = None\<rparr>,
                  d0\<lparr>runs := rs\<rparr>))) = Inr (Some p, d1)"
    using assms unfolding start_run_def ebind_eq_Inr by blast
  from rest obtain e w where ew: "first_by ?k (select_candidates d0 (ls_actor ls) now) = Some (e, w)"
    by (cases "first_by ?k (select_candidates d0 (ls_actor ls) now)") auto
  show ?thesis
    using that[OF d0 first_by_Some_in[OF ew]] rest unfolding ew by (auto simp: ebind_eq_Inr)
qed

lemma pick_active_run_Some:
  assumes "pick_active_run d a now = Some p"
  obtains r w where "r \<in> set (runs d)" "rn_id r = pk_run p" "rn_actor r = a" "rn_state r = RunActive"
    "rn_work r = pk_work p" "rn_policy r = pk_policy p" "rn_source r = pk_source p"
    "w \<in> set (work_items d)" "wi_id w = pk_work p" "work_ready d now w"
  using assms by (auto simp: pick_active_run_def active_candidates_def dest!: first_by_Some_in)

text \<open>The two ways to the run that is attached, before events are claimed.\<close>

lemma attach_next_run_Some:
  assumes "attach_next_run x uid n ls now d = Inr (Some ar, d')"
  obtains p d1 d2 where "lease_current d ls now" "0 < n"
    "pick_active_run d (ls_actor ls) now = Some p \<and> d1 = d
     \<or> pick_active_run d (ls_actor ls) now = None \<and> start_run uid ls now d = Inr (Some p, d1)"
    "claim_events n (ls_actor ls) p now d1 = Inr d2"
    "finish_attach x ls now p d2 = Inr (Some ar, d')"
  using assms
  by (auto simp: attach_next_run_def ebind_eq_Inr split: if_splits option.splits prod.splits)

lemma finish_attach_Some:
  assumes "finish_attach x ls now p d = Inr (Some ar, d')"
  shows "efold (\<lambda>q. merge_event (fst q)) (load_run_events d (pk_run p)) (pk_policy p, pk_source p)
           = Inr (ar_policy ar, ar_source ar)"
    and "ar_run ar = pk_run p" and "ar_work ar = pk_work p" and "ar_lease ar = ls"
    and "ar_sources ar = map (\<lambda>q. ev_id (fst q)) (load_run_events d (pk_run p))"
    and "newest_route d (pk_run p) = Inr (ar_route ar)"
    and "run_request_ids x d (pk_run p) = Inr (ar_requests ar)"
    and "d' = record_run p (ls_generation ls) (ar_observed ar) (ar_policy ar) (ar_source ar) (ar_route ar) now d"
proof -
  let ?rows = "load_run_events d (pk_run p)"
  obtain policy source requests where
    merged: "efold (\<lambda>q. merge_event (fst q)) ?rows (pk_policy p, pk_source p) = Inr (policy, source)"
    and requests: "run_request_ids x d (pk_run p) = Inr requests"
    using assms by (auto simp: finish_attach_def ebind_eq_Inr Let_def)
  note r = assms[unfolded finish_attach_def Let_def merged requests ebind_Inr prod.case]
  obtain messages where messages:
    "emap (\<lambda>q. event_message x (ev_payload (fst q))) (filter (\<lambda>q. \<not> snd q) ?rows) = Inr messages"
    using r by (cases "emap (\<lambda>q. event_message x (ev_payload (fst q))) (filter (\<lambda>q. \<not> snd q) ?rows)") auto
  note r1 = r[unfolded messages sum.case]
  have good: "first_bad_checkpoint x d (pk_work p) = None"
    using r1 by (cases "first_bad_checkpoint x d (pk_work p)") auto
  obtain route where route: "newest_route d (pk_run p) = Inr route"
    using r1 unfolding good by (auto simp: ebind_eq_Inr)
  note r2 = r1[unfolded good option.case route ebind_Inr]
  show "efold (\<lambda>q. merge_event (fst q)) ?rows (pk_policy p, pk_source p) = Inr (ar_policy ar, ar_source ar)"
    and "ar_run ar = pk_run p" and "ar_work ar = pk_work p" and "ar_lease ar = ls"
    and "ar_sources ar = map (\<lambda>q. ev_id (fst q)) ?rows"
    and "newest_route d (pk_run p) = Inr (ar_route ar)"
    and "run_request_ids x d (pk_run p) = Inr (ar_requests ar)"
    and "d' = record_run p (ls_generation ls) (ar_observed ar) (ar_policy ar) (ar_source ar) (ar_route ar) now d"
    using r2 merged requests route by auto
qed

lemma record_run_frame [simp]:
  "events (record_run p g ob po so ro now d) = events d"
  "run_events (record_run p g ob po so ro now d) = run_events d"
  "work_items (record_run p g ob po so ro now d) = work_items d"
  "leases (record_run p g ob po so ro now d) = leases d"
  "local_requests (record_run p g ob po so ro now d) = local_requests d"
  by (simp_all add: record_run_def)

lemma in_load_run_events:
  "(e, b) \<in> set (load_run_events d run) \<longleftrightarrow>
     e \<in> set (events d) \<and> (\<exists>y \<in> set (run_events d). re_event y = ev_id e \<and> re_run y = run \<and> re_incorporated y = b)"
  by (auto simp: load_run_events_def image_iff Bex_def)

lemma load_run_events_length:
  "distinct (map ev_id (events d)) \<Longrightarrow> length (load_run_events d run) \<le> run_event_count d run"
  using length_inner_join_key[of ev_id "events d" "\<lambda>e y. re_event y = ev_id e \<and> re_run y = run"
      re_event "\<lambda>y. re_run y = run" "run_events d"]
  by (simp add: load_run_events_def run_event_count_def changed_def)

lemma merge_all:
  assumes "efold (\<lambda>q. merge_event (fst q)) rows s = Inr t"
  shows "fst t \<le> fst s" and "snd s = Some v \<Longrightarrow> snd t = Some v"
    and "\<And>q. q \<in> set rows \<Longrightarrow> fst t \<le> ev_policy (fst q)"
    and "\<And>q. q \<in> set rows \<Longrightarrow> ev_source (fst q) = Some w \<Longrightarrow> snd t = Some w"
proof -
  have step: "fst s' \<le> fst s \<and> fst s' \<le> ev_policy e \<and> (\<forall>v. snd s = Some v \<longrightarrow> snd s' = Some v)
      \<and> (\<forall>v. ev_source e = Some v \<longrightarrow> snd s' = Some v)" if "merge_event e s = Inr s'" for e s s'
    using that by (auto simp: merge_event_def policy_intersect_min Let_def split: option.splits if_splits)
  have "fst t \<le> fst s \<and> (\<forall>v. snd s = Some v \<longrightarrow> snd t = Some v)
    \<and> (\<forall>q \<in> set rows. fst t \<le> ev_policy (fst q) \<and> (\<forall>v. ev_source (fst q) = Some v \<longrightarrow> snd t = Some v))"
    using assms
  proof (induction rows arbitrary: s)
    case Nil
    then show ?case by simp
  next
    case (Cons q rows)
    then obtain s' where "merge_event (fst q) s = Inr s'" "efold (\<lambda>q. merge_event (fst q)) rows s' = Inr t"
      by (auto simp: ebind_eq_Inr)
    then show ?case using Cons.IH[of s'] step[of "fst q" s s'] by fastforce
  qed
  then show "fst t \<le> fst s" and "snd s = Some v \<Longrightarrow> snd t = Some v"
    and "\<And>q. q \<in> set rows \<Longrightarrow> fst t \<le> ev_policy (fst q)"
    and "\<And>q. q \<in> set rows \<Longrightarrow> ev_source (fst q) = Some w \<Longrightarrow> snd t = Some w" by auto
qed

text \<open>How the events of the store change over the whole of \<open>attach_next_run\<close>.\<close>

lemma attach_events:
  assumes "attach_next_run x uid n ls now d = Inr (Some ar, d')"
  obtains p :: picked_run and d1 f ids where
    "events d1 = map f (events d)" "events d' = map (processed (ar_run ar) now (set ids) \<circ> f) (events d)"
    "\<forall>e. ev_id (f e) = ev_id e \<and> ev_actor (f e) = ev_actor e \<and> ev_seq (f e) = ev_seq e
        \<and> ev_kind (f e) = ev_kind e \<and> ev_state (f e) = ev_state e"
    "ids = claim_list d1 (ls_actor ls) (ar_work ar) (n - run_event_count d (ar_run ar))"
    "run_events d' = run_events d @ map (\<lambda>e. \<lparr>re_run = ar_run ar, re_event = e, re_incorporated = False\<rparr>) ids"
    "efold (\<lambda>q. merge_event (fst q)) (load_run_events d' (ar_run ar)) (pk_policy p, pk_source p)
       = Inr (ar_policy ar, ar_source ar)"
    "ar_sources ar = map (\<lambda>q. ev_id (fst q)) (load_run_events d' (ar_run ar))"
proof -
  obtain p d1 d2 where start: "pick_active_run d (ls_actor ls) now = Some p \<and> d1 = d
     \<or> pick_active_run d (ls_actor ls) now = None \<and> start_run uid ls now d = Inr (Some p, d1)"
    and claims: "claim_events n (ls_actor ls) p now d1 = Inr d2"
    and fin: "finish_attach x ls now p d2 = Inr (Some ar, d')"
    using assms by (rule attach_next_run_Some)
  note f8 = finish_attach_Some[OF fin]
  obtain ids where ids: "ids = claim_list d1 (ls_actor ls) (pk_work p) (n - run_event_count d1 (pk_run p))"
    and d2: "d2 = d1\<lparr>run_events := run_events d1 @ map (\<lambda>e. \<lparr>re_run = pk_run p, re_event = e, re_incorporated = False\<rparr>) ids,
            events := map (processed (pk_run p) now (set ids)) (events d1)\<rparr>"
    using claims by (rule claim_events_Inr)
  have "\<exists>f. events d1 = map f (events d) \<and> (\<forall>e. ev_id (f e) = ev_id e \<and> ev_actor (f e) = ev_actor e
      \<and> ev_seq (f e) = ev_seq e \<and> ev_kind (f e) = ev_kind e \<and> ev_state (f e) = ev_state e)
      \<and> run_events d1 = run_events d"
    using start
  proof (elim disjE conjE)
    assume "start_run uid ls now d = Inr (Some p, d1)"
    then obtain d0 where d0: "assign_work_item (uid [0]) (ls_actor ls) now d = Inr d0"
        "d1 = d0\<lparr>runs := runs d1\<rparr>" by (elim start_run_Some)
    have "events d1 = events d0" "run_events d1 = run_events d0" by (subst d0(2), simp)+
    then show ?thesis using assign_work_item_events[OF d0(1)] by auto
  qed (auto intro!: exI[of _ id])
  then obtain f where f: "events d1 = map f (events d)" "run_events d1 = run_events d"
    "\<forall>e. ev_id (f e) = ev_id e \<and> ev_actor (f e) = ev_actor e \<and> ev_seq (f e) = ev_seq e
        \<and> ev_kind (f e) = ev_kind e \<and> ev_state (f e) = ev_state e" by blast
  have ev: "events d' = events d2" "run_events d' = run_events d2" using f8(8) by simp_all
  then have ld: "load_run_events d' r = load_run_events d2 r" for r by (simp add: load_run_events_def)
  show ?thesis
    by (rule that[of d1 f ids p]) (use f f8 ids d2 ev ld in \<open>simp_all add: run_event_count_def\<close>)
qed

section \<open>What attaching a run guarantees\<close>

text \<open>
  C11. Cancellation is a barrier. The only thing \<open>attach_next_run\<close> does to the state of an event
  is to move a pending one to processing in the attached run, and it does so only to events of
  the leased actor that are no cancellations and come before every pending cancellation.
\<close>

theorem attach_respects_cancellation:
  assumes "distinct (map ev_id (events d))"
    and "attach_next_run x uid n ls now d = Inr (Some ar, d')"
    and "e \<in> set (events d)" and "e' \<in> set (events d')" and "ev_id e' = ev_id e"
    and "ev_state e' \<noteq> ev_state e"
  shows "ev_state e = EvPending \<and> ev_state e' = EvProcessing \<and> ev_run e' = Some (ar_run ar)
     \<and> ev_work e' = Some (ar_work ar) \<and> ev_actor e = ls_actor ls \<and> ev_kind e \<noteq> CancelRequested
     \<and> (\<forall>c \<in> set (events d). ev_actor c = ls_actor ls \<and> ev_state c = EvPending
            \<and> ev_kind c = CancelRequested \<longrightarrow> ev_seq e < ev_seq c)"
proof -
  obtain p :: picked_run and d1 f ids where d1: "events d1 = map f (events d)"
    and d': "events d' = map (processed (ar_run ar) now (set ids) \<circ> f) (events d)"
    and f: "\<forall>e. ev_id (f e) = ev_id e \<and> ev_actor (f e) = ev_actor e \<and> ev_seq (f e) = ev_seq e
        \<and> ev_kind (f e) = ev_kind e \<and> ev_state (f e) = ev_state e"
    and ids: "ids = claim_list d1 (ls_actor ls) (ar_work ar) (n - run_event_count d (ar_run ar))"
    and re: "run_events d' = run_events d @ map (\<lambda>e. \<lparr>re_run = ar_run ar, re_event = e, re_incorporated = False\<rparr>) ids"
    and m: "efold (\<lambda>q. merge_event (fst q)) (load_run_events d' (ar_run ar)) (pk_policy p, pk_source p)
       = Inr (ar_policy ar, ar_source ar)"
    and src: "ar_sources ar = map (\<lambda>q. ev_id (fst q)) (load_run_events d' (ar_run ar))"
    using assms(2) by (rule attach_events)
  obtain e0 where "e0 \<in> set (events d)" "e' = processed (ar_run ar) now (set ids) (f e0)"
    using assms(4) d' by auto
  moreover from this have "ev_id e0 = ev_id e" using assms(5) f by (auto simp: processed_def split: if_splits)
  ultimately have e': "e' = processed (ar_run ar) now (set ids) (f e)"
    using distinct_key_eq[OF assms(1)] assms(3) by blast
  then have p: "ev_id (f e) \<in> set ids" "ev_state (f e) = EvPending"
    using assms(6) f by (auto simp: processed_def split: if_splits)
  have "map ev_id (events d1) = map ev_id (events d)" using f by (simp add: d1)
  then have "distinct (map ev_id (events d1))" using assms(1) by simp
  moreover have "f e \<in> set (events d1)" using assms(3) d1 by simp
  ultimately have "claimable d1 (ls_actor ls) (ar_work ar) (f e)"
    using p(1) ids claim_list_claimable by blast
  then have c: "ev_actor e = ls_actor ls" "ev_work (f e) = Some (ar_work ar)" "ev_kind e \<noteq> CancelRequested"
      "ev_seq e < first_cancel d1 (ls_actor ls)" using f by (auto simp: claimable_def)
  have "ev_seq e < ev_seq c" if "c \<in> set (events d)" "ev_actor c = ls_actor ls" "ev_state c = EvPending"
      "ev_kind c = CancelRequested" for c
    using first_cancel_before[OF c(4), of "f c"] that f d1 by auto
  then show ?thesis using e' p c f by (auto simp: processed_def)
qed

text \<open>
  \<open>max_events\<close> bounds a run: an attached run has at most \<open>max_events\<close> source events, or as
  many as it already had.
\<close>

theorem attach_bounded:
  assumes "distinct (map ev_id (events d))"
    and "attach_next_run x uid n ls now d = Inr (Some ar, d')"
  shows "length (ar_sources ar) \<le> max n (run_event_count d (ar_run ar))"
proof -
  obtain p :: picked_run and d1 f ids where d1: "events d1 = map f (events d)"
    and d': "events d' = map (processed (ar_run ar) now (set ids) \<circ> f) (events d)"
    and f: "\<forall>e. ev_id (f e) = ev_id e \<and> ev_actor (f e) = ev_actor e \<and> ev_seq (f e) = ev_seq e
        \<and> ev_kind (f e) = ev_kind e \<and> ev_state (f e) = ev_state e"
    and ids: "ids = claim_list d1 (ls_actor ls) (ar_work ar) (n - run_event_count d (ar_run ar))"
    and re: "run_events d' = run_events d @ map (\<lambda>e. \<lparr>re_run = ar_run ar, re_event = e, re_incorporated = False\<rparr>) ids"
    and m: "efold (\<lambda>q. merge_event (fst q)) (load_run_events d' (ar_run ar)) (pk_policy p, pk_source p)
       = Inr (ar_policy ar, ar_source ar)"
    and src: "ar_sources ar = map (\<lambda>q. ev_id (fst q)) (load_run_events d' (ar_run ar))"
    using assms(2) by (rule attach_events)
  have "map ev_id (events d') = map ev_id (events d)" using f by (auto simp: d' processed_def)
  then have "length (ar_sources ar) \<le> run_event_count d' (ar_run ar)"
    using load_run_events_length[of d' "ar_run ar"] assms(1) src by simp
  also have "\<dots> = run_event_count d (ar_run ar) + length ids"
    by (simp add: run_event_count_def re changed_def comp_def)
  also have "\<dots> \<le> max n (run_event_count d (ar_run ar))"
  proof -
    have "length ids \<le> n - run_event_count d (ar_run ar)" unfolding ids by (rule claim_list_length)
    then show ?thesis by (cases "run_event_count d (ar_run ar) \<le> n") auto
  qed
  finally show ?thesis .
qed

text \<open>
  Policies only narrow and sources do not mix: the policy of an attached run allows no more
  than that of any of its events, and an event with an ingress source makes it the run's source.
\<close>

theorem attach_policy_narrows:
  assumes "attach_next_run x uid n ls now d = Inr (Some ar, d')"
    and "e \<in> set (events d')" and "y \<in> set (run_events d')" and "re_run y = ar_run ar" and "re_event y = ev_id e"
  shows "(\<forall>name. policy_allows (ar_policy ar) name \<longrightarrow> policy_allows (ev_policy e) name)
         \<and> (\<forall>v. ev_source e = Some v \<longrightarrow> ar_source ar = Some v)"
proof -
  obtain p :: picked_run and d1 f ids where d1: "events d1 = map f (events d)"
    and d': "events d' = map (processed (ar_run ar) now (set ids) \<circ> f) (events d)"
    and f: "\<forall>e. ev_id (f e) = ev_id e \<and> ev_actor (f e) = ev_actor e \<and> ev_seq (f e) = ev_seq e
        \<and> ev_kind (f e) = ev_kind e \<and> ev_state (f e) = ev_state e"
    and ids: "ids = claim_list d1 (ls_actor ls) (ar_work ar) (n - run_event_count d (ar_run ar))"
    and re: "run_events d' = run_events d @ map (\<lambda>e. \<lparr>re_run = ar_run ar, re_event = e, re_incorporated = False\<rparr>) ids"
    and m: "efold (\<lambda>q. merge_event (fst q)) (load_run_events d' (ar_run ar)) (pk_policy p, pk_source p)
       = Inr (ar_policy ar, ar_source ar)"
    and src: "ar_sources ar = map (\<lambda>q. ev_id (fst q)) (load_run_events d' (ar_run ar))"
    using assms(1) by (rule attach_events)
  have "(e, re_incorporated y) \<in> set (load_run_events d' (ar_run ar))"
    using assms(2-5) by (auto simp: in_load_run_events)
  from merge_all(3)[OF m this] merge_all(4)[OF m this] show ?thesis
    using policy_allows_mono by auto
qed

text \<open>
  The attached run is on record: an active run of the work item, under the generation of the
  lease, with the observed sequence, policy and source the caller is given.
\<close>

theorem attach_records_run:
  assumes "attach_next_run x uid n ls now d = Inr (Some ar, d')"
  shows "lease_current d ls now \<and> ar_lease ar = ls \<and> leases d' = leases d \<and>
     (\<exists>r \<in> set (runs d'). rn_id r = ar_run ar \<and> rn_actor r = ls_actor ls \<and> rn_work r = ar_work ar
        \<and> rn_state r = RunActive \<and> rn_generation r = ls_generation ls \<and> rn_observed r = ar_observed ar
        \<and> rn_policy r = ar_policy ar \<and> rn_source r = ar_source ar)"
proof -
  obtain p d1 d2 where cur: "lease_current d ls now"
    and start: "pick_active_run d (ls_actor ls) now = Some p \<and> d1 = d
     \<or> pick_active_run d (ls_actor ls) now = None \<and> start_run uid ls now d = Inr (Some p, d1)"
    and claims: "claim_events n (ls_actor ls) p now d1 = Inr d2"
    and fin: "finish_attach x ls now p d2 = Inr (Some ar, d')"
    using assms by (rule attach_next_run_Some)
  note f8 = finish_attach_Some[OF fin]
  have d2: "runs d2 = runs d1" "leases d2 = leases d1" using claims by (auto elim!: claim_events_Inr)
  have "\<exists>r \<in> set (runs d1). rn_id r = pk_run p \<and> rn_actor r = ls_actor ls \<and> rn_work r = pk_work p
          \<and> rn_state r = RunActive \<and> leases d1 = leases d"
    using start
  proof (elim disjE conjE)
    assume "start_run uid ls now d = Inr (Some p, d1)"
    then obtain d0 e w where s: "assign_work_item (uid [0]) (ls_actor ls) now d = Inr d0"
      "(e, w) \<in> set (select_candidates d0 (ls_actor ls) now)" "pk_run p = uid [1]" "pk_work p = wi_id w"
      "pk_policy p = ActorTools" "pk_source p = None"
      "insert_run (new_run (uid [1]) (ls_actor ls) (wi_id w) (ls_generation ls) now) (runs d0) = Inr (runs d1)"
      "d1 = d0\<lparr>runs := runs d1\<rparr>"
      by (rule start_run_Some)
    have "leases d1 = leases d" using assign_work_item_events(4)[OF s(1)] by (subst s(8)) simp
    moreover have "new_run (uid [1]) (ls_actor ls) (wi_id w) (ls_generation ls) now \<in> set (runs d1)"
      using s(7) by (auto simp: insert_run_def insert_unique_eq_Inr split: if_splits)
    ultimately show ?thesis using s(3,4) by (auto simp: new_run_def intro!: bexI)
  qed (auto elim!: pick_active_run_Some)
  then obtain r where "r \<in> set (runs d2)" "rn_id r = pk_run p" "rn_actor r = ls_actor ls"
      "rn_work r = pk_work p" "rn_state r = RunActive" and l: "leases d1 = leases d" using d2 by auto
  let ?f = "\<lambda>r. r\<lparr>rn_route := (case ar_route ar of None \<Rightarrow> rn_route r | Some _ \<Rightarrow> ar_route ar),
               rn_generation := ls_generation ls, rn_observed := ar_observed ar, rn_policy := ar_policy ar,
               rn_source := ar_source ar, rn_updated := now\<rparr>"
  have "?f r \<in> set (runs d')"
    using \<open>r \<in> set (runs d2)\<close> \<open>rn_id r = pk_run p\<close>
    unfolding f8(8) record_run_def by (auto simp: set_update_where image_iff intro!: bexI[of _ r])
  moreover have "leases d' = leases d" using l d2 by (simp add: f8(8))
  ultimately show ?thesis
    using cur f8(2-4) \<open>rn_id r = pk_run p\<close> \<open>rn_actor r = ls_actor ls\<close> \<open>rn_work r = pk_work p\<close>
      \<open>rn_state r = RunActive\<close> by (intro conjI bexI[of _ "?f r"]) simp_all
qed

section \<open>Witnesses\<close>

definition sample_uid :: id_supply where
  "sample_uid p = ''id'' @ concat (map (\<lambda>k. CHR ''-'' # show_nat k) p)"

text \<open>One message before a cancellation, one after it, all pending.\<close>

definition sample_pending :: db where
  "sample_pending = sample_db\<lparr>events := [sample_event ''e'' ''a'' (Some ''w'') 1,
     (sample_event ''c'' ''a'' (Some ''w'') 2)\<lparr>ev_kind := CancelRequested\<rparr>,
     (sample_event ''f'' ''a'' (Some ''w'') 3)\<lparr>ev_policy := SkillsOnly\<rparr>]\<rparr>"

lemma sample_attach:
  obtains ar d' e' where
    "attach_next_run sample_ext sample_uid 5 (sample_lease ''p'' 4 100) 50 sample_pending = Inr (Some ar, d')"
    "ar_sources ar = [''e'']" "e' \<in> set (events d')" "ev_id e' = ''e''" "ev_state e' = EvProcessing"
    "run_events d' = [\<lparr>re_run = ar_run ar, re_event = ''e'', re_incorporated = False\<rparr>]"
proof -
  have "case attach_next_run sample_ext sample_uid 5 (sample_lease ''p'' 4 100) 50 sample_pending of
      Inr (Some ar, d') \<Rightarrow> ar_sources ar = [''e''] \<and>
        list_ex (\<lambda>e'. ev_id e' = ''e'' \<and> ev_state e' = EvProcessing) (events d') \<and>
        run_events d' = [\<lparr>re_run = ar_run ar, re_event = ''e'', re_incorporated = False\<rparr>]
    | _ \<Rightarrow> False"
    by code_simp
  then show ?thesis using that by (auto simp: list_ex_iff split: sum.splits option.splits)
qed

theorem attach_respects_cancellation_witness:
  "\<exists>e \<in> set (events sample_pending). \<exists>c \<in> set (events sample_pending).
     ev_kind c = CancelRequested \<and> ev_state e = EvPending \<and> ev_seq e < ev_seq c"
proof -
  obtain ar d' e' where a: "attach_next_run sample_ext sample_uid 5 (sample_lease ''p'' 4 100) 50 sample_pending = Inr (Some ar, d')"
    and e': "e' \<in> set (events d')" "ev_id e' = ''e''" "ev_state e' = EvProcessing"
    by (rule sample_attach)
  let ?e = "sample_event ''e'' ''a'' (Some ''w'') 1"
  let ?c = "(sample_event ''c'' ''a'' (Some ''w'') 2)\<lparr>ev_kind := CancelRequested\<rparr>"
  have d: "distinct (map ev_id (events sample_pending))" by code_simp
  have e: "?e \<in> set (events sample_pending)" and c: "?c \<in> set (events sample_pending)"
    by (simp_all add: sample_pending_def)
  have "ev_state ?e = EvPending \<and> (\<forall>c \<in> set (events sample_pending). ev_actor c = ls_actor (sample_lease ''p'' 4 100)
      \<and> ev_state c = EvPending \<and> ev_kind c = CancelRequested \<longrightarrow> ev_seq ?e < ev_seq c)"
    using attach_respects_cancellation [OF d a e e'(1)] e'(2,3) by (simp add: sample_event_def)
  then show ?thesis using e c by (intro bexI[of _ ?e] bexI[of _ ?c]) (simp_all add: sample_event_def sample_lease_def)
qed

theorem attach_bounded_witness:
  "\<exists>ar d'. attach_next_run sample_ext sample_uid 5 (sample_lease ''p'' 4 100) 50 sample_pending = Inr (Some ar, d')
     \<and> ar_sources ar = [''e''] \<and> length (ar_sources ar) \<le> max 5 (run_event_count sample_pending (ar_run ar))"
proof -
  obtain ar d' where a: "attach_next_run sample_ext sample_uid 5 (sample_lease ''p'' 4 100) 50 sample_pending = Inr (Some ar, d')"
    and s: "ar_sources ar = [''e'']" by (rule sample_attach)
  have "distinct (map ev_id (events sample_pending))" by code_simp
  then show ?thesis using attach_bounded [OF _ a] a s by blast
qed

theorem attach_policy_narrows_witness:
  "\<exists>ar d' e'. attach_next_run sample_ext sample_uid 5 (sample_lease ''p'' 4 100) 50 sample_pending = Inr (Some ar, d')
     \<and> e' \<in> set (events d') \<and> (\<forall>name. policy_allows (ar_policy ar) name \<longrightarrow> policy_allows (ev_policy e') name)"
proof -
  obtain ar d' e' where a: "attach_next_run sample_ext sample_uid 5 (sample_lease ''p'' 4 100) 50 sample_pending = Inr (Some ar, d')"
    and e: "e' \<in> set (events d')" "ev_id e' = ''e''"
    and y: "run_events d' = [\<lparr>re_run = ar_run ar, re_event = ''e'', re_incorporated = False\<rparr>]"
    by (rule sample_attach)
  then have "\<forall>name. policy_allows (ar_policy ar) name \<longrightarrow> policy_allows (ev_policy e') name"
    using attach_policy_narrows [OF a e(1), of "hd (run_events d')"] by simp
  then show ?thesis using a e by blast
qed

theorem attach_records_run_witness:
  "\<exists>ar d'. attach_next_run sample_ext sample_uid 5 (sample_lease ''p'' 4 100) 50 sample_pending = Inr (Some ar, d')
     \<and> lease_current sample_pending (sample_lease ''p'' 4 100) 50
     \<and> (\<exists>r \<in> set (runs d'). rn_id r = ar_run ar \<and> rn_state r = RunActive)"
proof -
  obtain ar d' where a: "attach_next_run sample_ext sample_uid 5 (sample_lease ''p'' 4 100) 50 sample_pending = Inr (Some ar, d')"
    by (rule sample_attach)
  then show ?thesis using attach_records_run [OF a] by blast
qed

end
