(* ===== verification/Local_Ingress.thy ===== *)
theory Local_Ingress
  imports Ingress Attach_Run "HOL-Library.Multiset"
begin

text \<open>
  \<open>runtime/sqlite/local_ingress.rs\<close>: the submissions and cancellations of the local command
  line, which name their actor themselves, and the lookup of a request.
\<close>

section \<open>Commands and answers\<close>

record local_submission =
  sub_request :: request_id
  sub_text :: string
  sub_prompt :: string

record local_cancel =
  can_cancel :: cancel_id
  can_request :: request_id

datatype local_submit_outcome =
  LoAccepted event_id work_item_id int
  | LoDuplicate event_id "work_item_id option" int
  | LoConflict
  | LoActorUnavailable

record cancel_outcome =
  co_cancel :: cancel_id
  co_affected :: "request_id list"
  co_terminal :: bool

record local_request_record =
  qr_request :: request_id
  qr_actor :: actor_id
  qr_event :: event_id
  qr_seq :: int
  qr_work :: "work_item_id option"
  qr_state :: local_request_state
  qr_bundle :: "bundle_id option"
  qr_bundle_state :: "bundle_state option"

definition LOCAL_SUBMIT_GATEWAY :: string where "LOCAL_SUBMIT_GATEWAY = ''local:submit''"
definition LOCAL_CANCEL_GATEWAY :: string where "LOCAL_CANCEL_GATEWAY = ''local:cancel''"

section \<open>Submit\<close>

definition actor_is_enabled :: "db \<Rightarrow> actor_id \<Rightarrow> bool" where
  "actor_is_enabled d a = (case find_actor d a of Some r \<Rightarrow> ac_enabled r | None \<Rightarrow> False)"

text \<open>A request and its event, by the key of the request.\<close>

definition find_request :: "db \<Rightarrow> request_id \<Rightarrow> (local_request_row \<times> event_row) option" where
  "find_request d q =
     (case inner_join (\<lambda>r e. ev_id e = lr_event r) (filter (\<lambda>r. lr_id r = q) (local_requests d)) (events d) of
        [] \<Rightarrow> None | p # _ \<Rightarrow> Some p)"

text \<open>The keys of \<open>local_requests\<close> and the check on the length of the prompt hash.\<close>

definition insert_request :: "local_request_row \<Rightarrow> db \<Rightarrow> error + db" where
  "insert_request r d =
     (if length (lr_prompt r) \<noteq> 64 then Inl (Sql ''CHECK constraint failed'')
      else if list_ex (\<lambda>q. lr_id q = lr_id r \<or> lr_event q = lr_event r) (local_requests d)
      then Inl (Sql ''UNIQUE constraint failed'')
      else Inr (d\<lparr>local_requests := local_requests d @ [r]\<rparr>))"

definition local_event ::
    "event_id \<Rightarrow> actor_id \<Rightarrow> work_item_id \<Rightarrow> int \<Rightarrow> string \<Rightarrow> string \<Rightarrow> event_kind \<Rightarrow> string
     \<Rightarrow> timestamp \<Rightarrow> event_row" where
  "local_event i a w s gateway external kind payload now =
     \<lparr>ev_id = i, ev_actor = a, ev_work = Some w, ev_seq = s, ev_gateway = gateway, ev_external = external,
      ev_kind = kind, ev_audience = ActorPrivate, ev_payload = payload, ev_state = EvPending,
      ev_run = None, ev_route = None, ev_policy = ActorTools, ev_source = None,
      ev_created = now, ev_updated = now\<rparr>"

definition new_request ::
    "local_submission \<Rightarrow> actor_id \<Rightarrow> event_id \<Rightarrow> work_item_id \<Rightarrow> timestamp \<Rightarrow> local_request_row" where
  "new_request c a i w now =
     \<lparr>lr_id = sub_request c, lr_actor = a, lr_event = i, lr_work = Some w, lr_prompt = sub_prompt c,
      lr_state = LrActive, lr_bundle = None, lr_created = now, lr_updated = now\<rparr>"

definition submit_for_actor ::
    "ext \<Rightarrow> id_supply \<Rightarrow> actor_id \<Rightarrow> local_submission \<Rightarrow> timestamp \<Rightarrow> db \<Rightarrow> local_submit_outcome tx" where
  "submit_for_actor x uid a c now d =
     (if \<not> actor_is_enabled d a then Inr (LoActorUnavailable, d)
      else case find_request d (sub_request c) of
        Some (r, e) \<Rightarrow>
          Inr (if lr_actor r = a \<and> lr_prompt r = sub_prompt c
               then LoDuplicate (ev_id e) (lr_work r) (ev_seq e) else LoConflict, d)
      | None \<Rightarrow>
          let w = choose_work_item d a ActorPrivate (uid [0]);
              d1 = d\<lparr>work_items := upsert_work_item w a ActorPrivate now (work_items d)\<rparr> in
          ebind (next_sequence a d1) (\<lambda>(s, d2).
          ebind (insert_event (local_event (uid [1]) a w s LOCAL_SUBMIT_GATEWAY (sub_request c) UserMessage
                   (text_payload x (sub_text c)) now) d2) (\<lambda>d3.
          ebind (insert_request (new_request c a (uid [1]) w now) d3) (\<lambda>d4.
            Inr (LoAccepted (uid [1]) w s, d4)))))"

section \<open>Cancel\<close>

definition load_cancel_targets :: "ext \<Rightarrow> db \<Rightarrow> cancel_id \<Rightarrow> error + request_id list" where
  "load_cancel_targets x d c =
     emap (\<lambda>t. from_option (Bail ''invalid request id'') (parse_uuid x (ct_request t)))
       (sort_key (\<lambda>t. (ct_created t, ct_request t)) (filter (\<lambda>t. ct_cancel t = c) (cancel_targets d)))"

definition replayed_cancel :: "ext \<Rightarrow> actor_id \<Rightarrow> local_cancel \<Rightarrow> event_row \<Rightarrow> db \<Rightarrow> error + cancel_outcome" where
  "replayed_cancel x a c e d =
     ebind (require (ev_actor e = a) (Bail ''cancel id belongs to another actor'')) (\<lambda>_.
     ebind (lift_read (read_cancel x (ev_payload e))) (\<lambda>(q, terminal).
     ebind (require (q = can_request c) (Bail ''cancel id was already used for another request'')) (\<lambda>_.
     ebind (load_cancel_targets x d (can_cancel c)) (\<lambda>targets.
       Inr \<lparr>co_cancel = can_cancel c, co_affected = targets, co_terminal = terminal\<rparr>))))"

text \<open>A request whose work item was taken away gets a new one, together with its pending event.\<close>

definition attach_detached ::
    "work_item_id \<Rightarrow> actor_id \<Rightarrow> request_id \<Rightarrow> timestamp \<Rightarrow> db \<Rightarrow> error + db" where
  "attach_detached w a q now d =
     ebind (insert_unique wi_id
              \<lparr>wi_id = w, wi_actor = a, wi_kind = WkInteractive, wi_audience = ActorPrivate, wi_state = WiReady,
               wi_failures = 0, wi_next_attempt = None, wi_last_error = None, wi_cancel_at = None,
               wi_created = now, wi_updated = now\<rparr> (work_items d)) (\<lambda>ws.
     let p = (\<lambda>r. lr_id r = q \<and> lr_work r = None \<and> lr_state r = LrActive) in
     ebind (require (changed p (local_requests d) = 1) (Bail ''detached local request changed during cancellation'')) (\<lambda>_.
       Inr (d\<lparr>work_items := ws,
              events := update_where
                (\<lambda>e. list_ex (\<lambda>r. lr_id r = q \<and> lr_event r = ev_id e) (local_requests d)
                     \<and> ev_work e = None \<and> ev_state e = EvPending)
                (\<lambda>e. e\<lparr>ev_work := Some w, ev_updated := now\<rparr>) (events d),
              local_requests := update_where p (\<lambda>r. r\<lparr>lr_work := Some w, lr_updated := now\<rparr>) (local_requests d)\<rparr>)))"

definition request_cancellation :: "work_item_id \<Rightarrow> timestamp \<Rightarrow> db \<Rightarrow> db" where
  "request_cancellation w now d =
     d\<lparr>work_items := update_where (\<lambda>r. wi_id r = w)
        (\<lambda>r. r\<lparr>wi_cancel_at := (case wi_cancel_at r of None \<Rightarrow> Some now | Some t \<Rightarrow> Some t),
               wi_updated := max (wi_updated r) now\<rparr>) (work_items d)\<rparr>"

definition affected_requests :: "ext \<Rightarrow> db \<Rightarrow> actor_id \<Rightarrow> work_item_id \<Rightarrow> error + request_id list" where
  "affected_requests x d a w =
     emap (\<lambda>r. from_option (Bail ''invalid request id'') (parse_uuid x (lr_id r)))
       (sort_key (\<lambda>r. (lr_created r, lr_id r))
         (filter (\<lambda>r. lr_actor r = a \<and> lr_work r = Some w \<and> lr_state r = LrActive) (local_requests d)))"

definition insert_target :: "cancel_id \<Rightarrow> timestamp \<Rightarrow> request_id \<Rightarrow> db \<Rightarrow> error + db" where
  "insert_target c now q d =
     ebind (insert_unique (\<lambda>t. (ct_cancel t, ct_request t))
              \<lparr>ct_cancel = c, ct_request = q, ct_created = now\<rparr> (cancel_targets d)) (\<lambda>ts.
       Inr (d\<lparr>cancel_targets := ts\<rparr>))"

definition record_cancel ::
    "ext \<Rightarrow> event_id \<Rightarrow> actor_id \<Rightarrow> local_cancel \<Rightarrow> work_item_id \<Rightarrow> timestamp \<Rightarrow> db \<Rightarrow> cancel_outcome tx" where
  "record_cancel x i a c w now d =
     (let d1 = request_cancellation w now d in
      ebind (affected_requests x d1 a w) (\<lambda>affected.
      ebind (next_sequence a d1) (\<lambda>(s, d2).
      ebind (insert_event (local_event i a w s LOCAL_CANCEL_GATEWAY (can_cancel c) CancelRequested
               (write_cancel x (can_request c, False)) now) d2) (\<lambda>d3.
      ebind (efold (insert_target (can_cancel c) now) affected d3) (\<lambda>d4.
        Inr (\<lparr>co_cancel = can_cancel c, co_affected = affected, co_terminal = False\<rparr>, d4))))))"

definition cancel_for_actor ::
    "ext \<Rightarrow> id_supply \<Rightarrow> actor_id \<Rightarrow> local_cancel \<Rightarrow> timestamp \<Rightarrow> db \<Rightarrow> cancel_outcome tx" where
  "cancel_for_actor x uid a c now d =
     (if \<not> actor_is_enabled d a then Inl (Bail ''local actor is unavailable'')
      else case find_event d LOCAL_CANCEL_GATEWAY (can_cancel c) of
        Some e \<Rightarrow> ebind (replayed_cancel x a c e d) (\<lambda>out. Inr (out, d))
      | None \<Rightarrow>
          ebind (from_option (Bail ''local request was not found for actor'')
                  (List.find (\<lambda>r. lr_id r = can_request c \<and> lr_actor r = a) (local_requests d))) (\<lambda>r.
            if lr_state r \<noteq> LrActive
            then Inr (\<lparr>co_cancel = can_cancel c, co_affected = [], co_terminal = True\<rparr>, d)
            else case lr_work r of
              Some w \<Rightarrow> record_cancel x (uid [1]) a c w now d
            | None \<Rightarrow> ebind (attach_detached (uid [0]) a (can_request c) now d)
                        (record_cancel x (uid [1]) a c (uid [0]) now)))"

section \<open>Lookup\<close>

definition resolve_local_request :: "ext \<Rightarrow> db \<Rightarrow> actor_id \<Rightarrow> request_id \<Rightarrow> error + local_request_record option" where
  "resolve_local_request x d a q =
     (case inner_join (\<lambda>r e. ev_id e = lr_event r)
             (filter (\<lambda>r. lr_id r = q \<and> lr_actor r = a) (local_requests d)) (events d) of
        [] \<Rightarrow> Inr None
      | (r, e) # _ \<Rightarrow>
          ebind (from_option (Bail ''invalid request id'') (parse_uuid x (lr_id r))) (\<lambda>i.
          ebind (case lr_bundle r of
                   None \<Rightarrow> Inr None
                 | Some b \<Rightarrow> ebind (from_option (Bail ''invalid bundle id'') (parse_uuid x b)) (\<lambda>b'. Inr (Some b'))) (\<lambda>b.
            Inr (Some \<lparr>qr_request = i, qr_actor = lr_actor r, qr_event = lr_event r, qr_seq = ev_seq e,
                       qr_work = lr_work r, qr_state = lr_state r, qr_bundle = b,
                       qr_bundle_state = Option.bind (lr_bundle r) (\<lambda>b.
                         map_option rb_state (List.find (\<lambda>s. rb_id s = b) (bundles d)))\<rparr>))))"

section \<open>Submissions\<close>

lemma insert_request_Inr:
  "insert_request r d = Inr d' \<Longrightarrow> d' = d\<lparr>local_requests := local_requests d @ [r]\<rparr>
     \<and> lr_id r \<notin> lr_id ` set (local_requests d)"
  by (auto simp: insert_request_def list_ex_iff split: if_splits)

lemma insert_event_new: "insert_event e d = Inr d' \<Longrightarrow> ev_id e \<notin> ev_id ` set (events d)"
  by (auto simp: insert_event_def list_ex_iff split: if_splits)

lemma insert_event_found:
  "insert_event e d = Inr d' \<Longrightarrow> find_event d' (ev_gateway e) (ev_external e) = Some e"
  by (auto simp: insert_event_def find_event_def find_append list_ex_iff find_None_all split: if_splits option.splits
      dest!: find_Some_in)

text \<open>An accepted submission, with everything it changes.\<close>

lemma submit_accepted:
  assumes "submit_for_actor x uid a c now d = Inr (LoAccepted i w s, d')"
  obtains acs where "actor_is_enabled d a" "find_request d (sub_request c) = None"
    "w = choose_work_item d a ActorPrivate (uid [0])" "i = uid [1]" "i \<notin> ev_id ` set (events d)"
    "sub_request c \<notin> lr_id ` set (local_requests d)"
    "d' = d\<lparr>actors := acs, work_items := upsert_work_item w a ActorPrivate now (work_items d),
       events := events d @ [local_event i a w s LOCAL_SUBMIT_GATEWAY (sub_request c) UserMessage
                               (text_payload x (sub_text c)) now],
       local_requests := local_requests d @ [new_request c a i w now]\<rparr>"
proof -
  have en: "actor_is_enabled d a" and new: "find_request d (sub_request c) = None"
    using assms by (auto simp: submit_for_actor_def split: if_splits option.splits)
  let ?w = "choose_work_item d a ActorPrivate (uid [0])"
  let ?d1 = "d\<lparr>work_items := upsert_work_item ?w a ActorPrivate now (work_items d)\<rparr>"
  note r = assms[unfolded submit_for_actor_def]
  obtain s' d2 d3 d4 where n: "next_sequence a ?d1 = Inr (s', d2)"
    and e: "insert_event (local_event (uid [1]) a ?w s' LOCAL_SUBMIT_GATEWAY (sub_request c) UserMessage
              (text_payload x (sub_text c)) now) d2 = Inr d3"
    and q: "insert_request (new_request c a (uid [1]) ?w now) d3 = Inr d4"
    and out: "i = uid [1]" "w = ?w" "s = s'" "d' = d4"
    using r en new by (auto simp: ebind_eq_Inr Let_def)
  obtain acs where "d2 = ?d1\<lparr>actors := acs\<rparr>" using n by (rule next_sequence_Inr) blast
  then have d3: "d3 = ?d1\<lparr>actors := acs, events := events d @ [local_event i a w s LOCAL_SUBMIT_GATEWAY
      (sub_request c) UserMessage (text_payload x (sub_text c)) now]\<rparr>" "i \<notin> ev_id ` set (events d)"
    using insert_event_Inr[OF e] insert_event_new[OF e] out by (simp_all add: local_event_def)
  then show ?thesis using insert_request_Inr[OF q] out
    by (intro that[of acs] en new) (simp_all add: new_request_def)
qed

definition submitted :: "db \<Rightarrow> actor_id \<times> request_id \<times> string \<Rightarrow> (event_id \<times> work_item_id option \<times> int) option" where
  "submitted d k =
     (case find_request d (fst (snd k)) of
        Some (r, e) \<Rightarrow> if lr_actor r = fst k \<and> lr_prompt r = snd (snd k)
                       then Some (ev_id e, lr_work r, ev_seq e) else None
      | None \<Rightarrow> None)"

definition submit_accepted_as :: "local_submit_outcome \<Rightarrow> (event_id \<times> work_item_id option \<times> int) option" where
  "submit_accepted_as out = (case out of LoAccepted i w s \<Rightarrow> Some (i, Some w, s) | _ \<Rightarrow> None)"

definition submit_duplicate :: "event_id \<times> work_item_id option \<times> int \<Rightarrow> local_submit_outcome" where
  "submit_duplicate r = LoDuplicate (fst r) (fst (snd r)) (snd (snd r))"

lemma find_request_submitted:
  assumes "submit_for_actor x uid a c now d = Inr (LoAccepted i w s, d')"
  shows "find_request d' (sub_request c) = Some (new_request c a i w now,
     local_event i a w s LOCAL_SUBMIT_GATEWAY (sub_request c) UserMessage (text_payload x (sub_text c)) now)"
proof -
  obtain acs where i: "i \<notin> ev_id ` set (events d)" and q: "sub_request c \<notin> lr_id ` set (local_requests d)"
    and d': "d' = d\<lparr>actors := acs, work_items := upsert_work_item w a ActorPrivate now (work_items d),
       events := events d @ [local_event i a w s LOCAL_SUBMIT_GATEWAY (sub_request c) UserMessage
                               (text_payload x (sub_text c)) now],
       local_requests := local_requests d @ [new_request c a i w now]\<rparr>"
    using assms by (rule submit_accepted)
  have "filter (\<lambda>r. lr_id r = sub_request c) (local_requests d) = []"
    "filter (\<lambda>e. ev_id e = i) (events d) = []"
    using i q by (auto simp: filter_empty_conv image_iff)
  then show ?thesis
    by (simp add: find_request_def inner_join_def d' new_request_def local_event_def)
qed

interpretation submissions: idempotent_submission
  "\<lambda>(uid, a, c) now d. submit_for_actor x uid a c now d" "\<lambda>d (uid, a, c). actor_is_enabled d a"
  "\<lambda>(uid, a, c). (a, sub_request c, sub_prompt c)" submitted submit_accepted_as submit_duplicate for x
proof unfold_locales
  fix c :: "id_supply \<times> actor_id \<times> local_submission" and d r now
  assume "case c of (uid, a, c) \<Rightarrow> actor_is_enabled d a"
    and "submitted d (case c of (uid, a, c) \<Rightarrow> (a, sub_request c, sub_prompt c)) = Some r"
  then show "(case c of (uid, a, c) \<Rightarrow> submit_for_actor x uid a c) now d = Inr (submit_duplicate r, d)"
    by (cases c) (auto simp: submitted_def submit_for_actor_def submit_duplicate_def
        split: option.splits if_splits)
next
  fix c :: "id_supply \<times> actor_id \<times> local_submission" and d r now out d'
  assume "(case c of (uid, a, c) \<Rightarrow> submit_for_actor x uid a c) now d = Inr (out, d')"
    and "submit_accepted_as out = Some r"
  then show "submitted d' (case c of (uid, a, c) \<Rightarrow> (a, sub_request c, sub_prompt c)) = Some r"
    by (cases c) (auto simp: submitted_def submit_accepted_as_def new_request_def local_event_def
        dest!: find_request_submitted split: local_submit_outcome.splits)
qed

section \<open>Cancellations\<close>

lemma request_cancellation_marks:
  assumes "r \<in> set (work_items (request_cancellation w now d))" and "wi_id r = w"
  shows "wi_cancel_at r \<noteq> None"
proof -
  let ?f = "\<lambda>r. r\<lparr>wi_cancel_at := (case wi_cancel_at r of None \<Rightarrow> Some now | Some t \<Rightarrow> Some t),
                 wi_updated := max (wi_updated r) now\<rparr>"
  have "r \<in> set (update_where (\<lambda>r. wi_id r = w) ?f (work_items d))"
    using assms(1) by (simp add: request_cancellation_def)
  then obtain r0 where "r = (if wi_id r0 = w then ?f r0 else r0)" by (rule in_update_whereE)
  then show ?thesis using assms(2) by (cases "wi_id r0 = w"; cases "wi_cancel_at r0") simp_all
qed

lemma insert_targets:
  "efold (insert_target c now) qs d = Inr d' \<Longrightarrow>
     d' = d\<lparr>cancel_targets := cancel_targets d @ map (\<lambda>q. \<lparr>ct_cancel = c, ct_request = q, ct_created = now\<rparr>) qs\<rparr>"
proof (induction qs arbitrary: d)
  case Nil
  then show ?case by simp
next
  case (Cons q qs)
  then obtain d1 where d1: "insert_target c now q d = Inr d1" "efold (insert_target c now) qs d1 = Inr d'"
    by (auto simp: ebind_eq_Inr)
  have "d1 = d\<lparr>cancel_targets := cancel_targets d @ [\<lparr>ct_cancel = c, ct_request = q, ct_created = now\<rparr>]\<rparr>"
    using d1(1) by (auto simp: insert_target_def ebind_eq_Inr insert_unique_eq_Inr)
  then show ?case using Cons.IH[OF d1(2)] by simp
qed

lemma record_cancel_Inr:
  assumes "record_cancel x i a c w now d = Inr (out, d')"
  obtains acs s where "affected_requests x d a w = Inr (co_affected out)"
    "find_event d' LOCAL_CANCEL_GATEWAY (can_cancel c) = Some (local_event i a w s LOCAL_CANCEL_GATEWAY
       (can_cancel c) CancelRequested (write_cancel x (can_request c, False)) now)"
    "actor_is_enabled d' a = actor_is_enabled d a"
    "out = \<lparr>co_cancel = can_cancel c, co_affected = co_affected out, co_terminal = False\<rparr>"
    "d' = (request_cancellation w now d)\<lparr>actors := acs,
       events := events d @ [local_event i a w s LOCAL_CANCEL_GATEWAY (can_cancel c) CancelRequested
                               (write_cancel x (can_request c, False)) now],
       cancel_targets := cancel_targets d @ map (\<lambda>q. \<lparr>ct_cancel = can_cancel c, ct_request = q, ct_created = now\<rparr>)
                                              (co_affected out)\<rparr>"
proof -
  let ?d1 = "request_cancellation w now d"
  note r = assms[unfolded record_cancel_def Let_def]
  obtain affected s d2 d3 d4 where aff: "affected_requests x ?d1 a w = Inr affected"
    and n: "next_sequence a ?d1 = Inr (s, d2)"
    and e: "insert_event (local_event i a w s LOCAL_CANCEL_GATEWAY (can_cancel c) CancelRequested
              (write_cancel x (can_request c, False)) now) d2 = Inr d3"
    and t: "efold (insert_target (can_cancel c) now) affected d3 = Inr d4"
    and out: "out = \<lparr>co_cancel = can_cancel c, co_affected = affected, co_terminal = False\<rparr>" "d' = d4"
    using r by (auto simp: ebind_eq_Inr)
  obtain acs where d2: "d2 = ?d1\<lparr>actors := acs\<rparr>"
    and acs: "acs = update_where (\<lambda>q. ac_id q = a) (\<lambda>q. q\<lparr>ac_next_seq := ac_next_seq q + 1\<rparr>) (actors ?d1)"
    using n by (rule next_sequence_Inr) blast
  then have d': "d' = ?d1\<lparr>actors := acs,
       events := events d @ [local_event i a w s LOCAL_CANCEL_GATEWAY (can_cancel c) CancelRequested
                               (write_cancel x (can_request c, False)) now],
       cancel_targets := cancel_targets d @ map (\<lambda>q. \<lparr>ct_cancel = can_cancel c, ct_request = q, ct_created = now\<rparr>)
                                              affected\<rparr>"
    using insert_event_Inr[OF e] insert_targets[OF t] out(2) by (simp add: request_cancellation_def)
  moreover have "affected_requests x d a w = Inr affected"
    using aff by (simp add: affected_requests_def request_cancellation_def)
  moreover have "find_event d' LOCAL_CANCEL_GATEWAY (can_cancel c) = Some (local_event i a w s LOCAL_CANCEL_GATEWAY
       (can_cancel c) CancelRequested (write_cancel x (can_request c, False)) now)"
    using insert_event_found[OF e] insert_targets[OF t] out(2) by (simp add: local_event_def find_event_def)
  moreover have "actor_is_enabled d' a = actor_is_enabled d a"
    using find_update_where[of ac_id "\<lambda>q. q\<lparr>ac_next_seq := ac_next_seq q + 1\<rparr>" a a "actors d"]
    by (auto simp: actor_is_enabled_def find_actor_def d' acs request_cancellation_def split: option.splits)
  ultimately show ?thesis using out(1) by (intro that[of s acs]) simp_all
qed

text \<open>A new cancellation of an active request; \<open>d0\<close> is the database after the request got a work item.\<close>

lemma cancel_new:
  assumes "cancel_for_actor x uid a c now d = Inr (out, d')" and "\<not> co_terminal out"
    and "find_event d LOCAL_CANCEL_GATEWAY (can_cancel c) = None"
  obtains w d0 where "actor_is_enabled d0 a" "record_cancel x (uid [1]) a c w now d0 = Inr (out, d')"
    "cancel_targets d0 = cancel_targets d"
    "\<exists>r \<in> set (local_requests d0). lr_id r = can_request c \<and> lr_work r = Some w"
proof -
  note r = assms(1)[unfolded cancel_for_actor_def]
  have en: "actor_is_enabled d a" using r by (auto split: if_splits)
  obtain q where q: "List.find (\<lambda>r. lr_id r = can_request c \<and> lr_actor r = a) (local_requests d) = Some q"
    using r en assms(3) by (auto simp: ebind_eq_Inr)
  then have mem: "q \<in> set (local_requests d)" "lr_id q = can_request c"
    using find_Some_in[OF q] by simp_all
  have act: "lr_state q = LrActive" using r en assms(2,3) q by (auto split: if_splits)
  show ?thesis
  proof (cases "lr_work q")
    case (Some w)
    then have "record_cancel x (uid [1]) a c w now d = Inr (out, d')" using r en assms(3) q act by simp
    then show ?thesis using that[of d w] en mem Some by blast
  next
    case None
    then obtain d0 where d0: "attach_detached (uid [0]) a (can_request c) now d = Inr d0"
      "record_cancel x (uid [1]) a c (uid [0]) now d0 = Inr (out, d')"
      using r en assms(3) q act by (auto simp: ebind_eq_Inr)
    let ?f = "\<lambda>r. if lr_id r = can_request c \<and> lr_work r = None \<and> lr_state r = LrActive
                  then r\<lparr>lr_work := Some (uid [0]), lr_updated := now\<rparr> else r"
    have rows: "local_requests d0 = map ?f (local_requests d)" "cancel_targets d0 = cancel_targets d" "actors d0 = actors d"
      using d0(1) by (auto simp: attach_detached_def ebind_eq_Inr Let_def update_where_def)
    have "?f q \<in> set (local_requests d0)" using mem by (simp add: rows)
    then have "\<exists>r \<in> set (local_requests d0). lr_id r = can_request c \<and> lr_work r = Some (uid [0])"
      using mem act None by (intro bexI[of _ "?f q"]) simp_all
    then show ?thesis using that[OF _ d0(2)] rows en by (simp add: actor_is_enabled_def find_actor_def)
  qed
qed

section \<open>What local commands guarantee\<close>

text \<open>
  A local submission is accepted once. Once accepted, sending the request again with the same
  prompt for the same actor names the first event, sending it with another prompt or for another
  actor is a conflict, and neither changes anything, while the store keeps the request.
\<close>

theorem local_submit_once:
  assumes "submit_for_actor x uid a c now d = Inr (LoAccepted i w s, d1)"
    and "find_request d2 (sub_request c) = find_request d1 (sub_request c)"
    and "actor_is_enabled d2 a'" and "sub_request c' = sub_request c"
  shows "submit_for_actor x uid' a' c' later d2 =
     Inr (if a' = a \<and> sub_prompt c' = sub_prompt c then LoDuplicate i (Some w) s else LoConflict, d2)"
proof (cases "a' = a \<and> sub_prompt c' = sub_prompt c")
  case True
  have "submitted d2 (a, sub_request c, sub_prompt c) = submitted d1 (a, sub_request c, sub_prompt c)"
    using assms(2) by (simp add: submitted_def)
  then show ?thesis
    using submissions.never_accepted_again[of x "(uid, a, c)" now d "LoAccepted i w s" d1 "(i, Some w, s)" d2 "(uid', a', c')" later]
      assms(1,3,4) True by (simp add: submit_accepted_as_def submit_duplicate_def)
next
  case False
  then show ?thesis
    using assms find_request_submitted[OF assms(1)] by (auto simp: submit_for_actor_def new_request_def)
qed

text \<open>The documented behaviour of \<open>Uuid::parse_str\<close>: it reads what \<open>to_string\<close> printed back as it is.\<close>

definition uuid_canonical :: "ext \<Rightarrow> bool" where
  "uuid_canonical x \<longleftrightarrow> (\<forall>s u. parse_uuid x s = Some u \<longrightarrow> parse_uuid x u = Some u)"

lemma parsed_again:
  assumes "uuid_canonical x" and "emap (\<lambda>r. from_option e (parse_uuid x (k r))) rs = Inr us" and "u \<in> set us"
  shows "parse_uuid x u = Some u"
  using assms by (auto simp: emap_eq_Inr uuid_canonical_def list_all2_conv_all_nth in_set_conv_nth)

text \<open>
  A cancellation can be retried. The retry of a cancellation that took effect reports the
  requests that were affected the first time, whatever happened to them since, and changes nothing.
\<close>

theorem cancel_replayed:
  assumes "cancel_for_actor x uid a c now d = Inr (out, d1)" and "\<not> co_terminal out"
    and "find_event d LOCAL_CANCEL_GATEWAY (can_cancel c) = None"
    and "\<forall>t \<in> set (cancel_targets d). ct_cancel t \<noteq> can_cancel c"
    and "cancel_roundtrip x" and "uuid_canonical x"
    and "find_event d2 LOCAL_CANCEL_GATEWAY (can_cancel c) = find_event d1 LOCAL_CANCEL_GATEWAY (can_cancel c)"
    and "filter (\<lambda>t. ct_cancel t = can_cancel c) (cancel_targets d2)
         = filter (\<lambda>t. ct_cancel t = can_cancel c) (cancel_targets d1)"
    and "actor_is_enabled d2 a"
  shows "\<exists>out'. cancel_for_actor x uid' a c later d2 = Inr (out', d2)
     \<and> \<not> co_terminal out' \<and> mset (co_affected out') = mset (co_affected out)"
proof -
  obtain w d0 where d0: "record_cancel x (uid [1]) a c w now d0 = Inr (out, d1)" "cancel_targets d0 = cancel_targets d"
    by (rule cancel_new[OF assms(1-3)]) blast
  let ?ts = "map (\<lambda>q. \<lparr>ct_cancel = can_cancel c, ct_request = q, ct_created = now\<rparr>) (co_affected out)"
  let ?sorted = "sort_key (\<lambda>t. (ct_created t, ct_request t)) ?ts"
  obtain acs s where aff: "affected_requests x d0 a w = Inr (co_affected out)"
    and ev: "find_event d1 LOCAL_CANCEL_GATEWAY (can_cancel c) = Some (local_event (uid [1]) a w s LOCAL_CANCEL_GATEWAY
       (can_cancel c) CancelRequested (write_cancel x (can_request c, False)) now)"
    and ts: "cancel_targets d1 = cancel_targets d @ ?ts"
    using d0(1) by (rule record_cancel_Inr) (use d0(2) in \<open>simp add: request_cancellation_def\<close>)
  have "filter (\<lambda>t. ct_cancel t = can_cancel c) (cancel_targets d2) = ?ts"
    using assms(4,8) by (simp add: ts filter_empty_conv filter_map o_def)
  then have "load_cancel_targets x d2 (can_cancel c) =
      emap (\<lambda>t. from_option (Bail ''invalid request id'') (parse_uuid x (ct_request t))) ?sorted"
    by (simp add: load_cancel_targets_def)
  also have "\<dots> = Inr (map ct_request ?sorted)"
    using parsed_again[OF assms(6) aff[unfolded affected_requests_def]] by (intro emap_Inr) auto
  finally have "replayed_cancel x a c (local_event (uid [1]) a w s LOCAL_CANCEL_GATEWAY (can_cancel c) CancelRequested
        (write_cancel x (can_request c, False)) now) d2
      = Inr \<lparr>co_cancel = can_cancel c, co_affected = map ct_request ?sorted, co_terminal = False\<rparr>"
    using assms(5) by (simp add: replayed_cancel_def local_event_def cancel_roundtrip_def)
  moreover have "mset (map ct_request ?sorted) = mset (co_affected out)" by (simp add: multiset.map_comp o_def)
  ultimately show ?thesis using assms(7,9) ev by (simp add: cancel_for_actor_def)
qed

text \<open>
  C38. A cancellation takes effect at once. When it succeeds on an active request, the work item of
  that request can have no further event claimed by any run, later messages go to another work
  item, and the pending cancellation is in the actor's mailbox.
\<close>

theorem cancel_freezes_work:
  assumes "cancel_for_actor x uid a c now d = Inr (out, d1)" and "\<not> co_terminal out"
    and "find_event d LOCAL_CANCEL_GATEWAY (can_cancel c) = None"
  shows "\<exists>w. (\<exists>r \<in> set (local_requests d1). lr_id r = can_request c \<and> lr_work r = Some w)
     \<and> (\<forall>a' e. \<not> claimable d1 a' w e)
     \<and> (\<forall>a' au fresh. fresh \<noteq> w \<longrightarrow> choose_work_item d1 a' au fresh \<noteq> w)
     \<and> (\<exists>v \<in> set (events d1). ev_actor v = a \<and> ev_work v = Some w \<and> ev_kind v = CancelRequested \<and> ev_state v = EvPending)"
proof -
  obtain w d0 where d0: "record_cancel x (uid [1]) a c w now d0 = Inr (out, d1)"
    "\<exists>r \<in> set (local_requests d0). lr_id r = can_request c \<and> lr_work r = Some w"
    by (rule cancel_new[OF assms]) blast
  obtain acs s where d1: "d1 = (request_cancellation w now d0)\<lparr>actors := acs,
       events := events d0 @ [local_event (uid [1]) a w s LOCAL_CANCEL_GATEWAY (can_cancel c) CancelRequested
                               (write_cancel x (can_request c, False)) now],
       cancel_targets := cancel_targets d0 @ map (\<lambda>q. \<lparr>ct_cancel = can_cancel c, ct_request = q, ct_created = now\<rparr>)
                                              (co_affected out)\<rparr>"
    using d0(1) by (rule record_cancel_Inr)
  have wis: "work_items d1 = work_items (request_cancellation w now d0)" by (simp add: d1)
  have cancelled: "wi_cancel_at r \<noteq> None" if "r \<in> set (work_items d1)" "wi_id r = w" for r
    using that request_cancellation_marks unfolding wis by blast
  have other: "choose_work_item d1 a' au fresh \<noteq> w" if "fresh \<noteq> w" for a' au fresh
  proof (cases "first_by (\<lambda>w. (- wi_updated w, wi_id w)) (open_interactive d1 a' au)")
    case None
    then show ?thesis using that by (simp add: choose_work_item_def)
  next
    case (Some r)
    then have "r \<in> set (work_items d1)" "wi_cancel_at r = None"
      using first_by_Some_in[OF Some] by (simp_all add: open_interactive_def)
    then show ?thesis using Some cancelled[of r] by (auto simp: choose_work_item_def)
  qed
  have "\<exists>r \<in> set (local_requests d1). lr_id r = can_request c \<and> lr_work r = Some w"
    using d0(2) by (simp add: d1 request_cancellation_def)
  moreover have "\<not> claimable d1 a' w e" for a' e
    using cancelled by (auto simp: claimable_def list_ex_iff)
  moreover have "\<exists>v \<in> set (events d1). ev_actor v = a \<and> ev_work v = Some w \<and> ev_kind v = CancelRequested \<and> ev_state v = EvPending"
    by (rule bexI[of _ "local_event (uid [1]) a w s LOCAL_CANCEL_GATEWAY (can_cancel c) CancelRequested
      (write_cancel x (can_request c, False)) now"]) (simp_all add: d1 local_event_def)
  ultimately show ?thesis using other by blast
qed

section \<open>Witnesses\<close>

definition sample_local :: local_submission where
  "sample_local = \<lparr>sub_request = ''q1'', sub_text = ''hi'', sub_prompt = replicate 64 CHR ''0''\<rparr>"

definition sample_cancel :: local_cancel where
  "sample_cancel = \<lparr>can_cancel = ''c1'', can_request = ''q1''\<rparr>"

text \<open>Two active requests of one work item, the one created first with the larger identifier.\<close>

definition sample_requests :: db where
  "sample_requests = sample_linked\<lparr>
     work_items := [new_work_item ''w'' ''a'' WkInteractive ActorPrivate 0],
     events := [local_event ''e2'' ''a'' ''w'' 1 LOCAL_SUBMIT_GATEWAY ''q2'' UserMessage ''t'' 1,
                local_event ''e1'' ''a'' ''w'' 2 LOCAL_SUBMIT_GATEWAY ''q1'' UserMessage ''t'' 2],
     local_requests := [new_request (sample_local\<lparr>sub_request := ''q2''\<rparr>) ''a'' ''e2'' ''w'' 1,
                        new_request sample_local ''a'' ''e1'' ''w'' 2]\<rparr>"

lemma sample_submitted:
  obtains d' where "submit_for_actor sample_ext sample_ids ''a'' sample_local 10 sample_linked
    = Inr (LoAccepted ''id-1'' ''id-0'' 5, d')" "actor_is_enabled d' ''a''"
proof -
  have "case submit_for_actor sample_ext sample_ids ''a'' sample_local 10 sample_linked of
      Inr (out, d') \<Rightarrow> out = LoAccepted ''id-1'' ''id-0'' 5 \<and> actor_is_enabled d' ''a'' | _ \<Rightarrow> False"
    by code_simp
  then show ?thesis using that by (auto split: sum.splits)
qed

lemma sample_cancelled:
  obtains d' where "cancel_for_actor sample_ext sample_ids ''a'' sample_cancel 10 sample_requests
    = Inr (\<lparr>co_cancel = ''c1'', co_affected = [''q2'', ''q1''], co_terminal = False\<rparr>, d')" "actor_is_enabled d' ''a''"
    "find_event sample_requests LOCAL_CANCEL_GATEWAY (can_cancel sample_cancel) = None"
    "\<forall>t \<in> set (cancel_targets sample_requests). ct_cancel t \<noteq> can_cancel sample_cancel"
proof -
  have "case cancel_for_actor sample_ext sample_ids ''a'' sample_cancel 10 sample_requests of
      Inr (out, d') \<Rightarrow> out = \<lparr>co_cancel = ''c1'', co_affected = [''q2'', ''q1''], co_terminal = False\<rparr>
        \<and> actor_is_enabled d' ''a'' | _ \<Rightarrow> False"
    "find_event sample_requests LOCAL_CANCEL_GATEWAY (can_cancel sample_cancel) = None"
    "\<forall>t \<in> set (cancel_targets sample_requests). ct_cancel t \<noteq> can_cancel sample_cancel"
    by code_simp+
  then show ?thesis using that by (auto split: sum.splits)
qed

theorem local_submit_once_witness:
  "\<exists>d'. submit_for_actor sample_ext sample_ids ''a'' sample_local 10 sample_linked
      = Inr (LoAccepted ''id-1'' ''id-0'' 5, d')
    \<and> submit_for_actor sample_ext (subsupply sample_ids 7) ''a'' sample_local 20 d'
      = Inr (LoDuplicate ''id-1'' (Some ''id-0'') 5, d')"
proof -
  obtain d' where d': "submit_for_actor sample_ext sample_ids ''a'' sample_local 10 sample_linked
    = Inr (LoAccepted ''id-1'' ''id-0'' 5, d')" "actor_is_enabled d' ''a''"
    by (rule sample_submitted)
  then show ?thesis using local_submit_once [OF d'(1) refl d'(2) refl] by simp
qed

theorem cancel_replayed_witness:
  "\<exists>d' out. cancel_for_actor sample_ext sample_ids ''a'' sample_cancel 10 sample_requests
      = Inr (\<lparr>co_cancel = ''c1'', co_affected = [''q2'', ''q1''], co_terminal = False\<rparr>, d')
    \<and> cancel_for_actor sample_ext (subsupply sample_ids 7) ''a'' sample_cancel 20 d' = Inr (out, d')
    \<and> mset (co_affected out) = {#''q2'', ''q1''#}"
proof -
  obtain d' where d': "cancel_for_actor sample_ext sample_ids ''a'' sample_cancel 10 sample_requests
    = Inr (\<lparr>co_cancel = ''c1'', co_affected = [''q2'', ''q1''], co_terminal = False\<rparr>, d')" "actor_is_enabled d' ''a''"
    and f: "find_event sample_requests LOCAL_CANCEL_GATEWAY (can_cancel sample_cancel) = None"
    and t: "\<forall>t \<in> set (cancel_targets sample_requests). ct_cancel t \<noteq> can_cancel sample_cancel"
    by (rule sample_cancelled)
  have x: "cancel_roundtrip sample_ext" "uuid_canonical sample_ext"
    by (auto simp: cancel_roundtrip_def uuid_canonical_def sample_ext_def)
  show ?thesis using cancel_replayed [OF d'(1) _ f t x refl refl d'(2)] d'(1) by auto
qed

theorem cancel_freezes_work_witness:
  "\<exists>d' w. cancel_for_actor sample_ext sample_ids ''a'' sample_cancel 10 sample_requests
      = Inr (\<lparr>co_cancel = ''c1'', co_affected = [''q2'', ''q1''], co_terminal = False\<rparr>, d')
    \<and> (\<forall>e. \<not> claimable d' ''a'' w e)"
proof -
  obtain d' where d': "cancel_for_actor sample_ext sample_ids ''a'' sample_cancel 10 sample_requests
    = Inr (\<lparr>co_cancel = ''c1'', co_affected = [''q2'', ''q1''], co_terminal = False\<rparr>, d')"
    and f: "find_event sample_requests LOCAL_CANCEL_GATEWAY (can_cancel sample_cancel) = None"
    by (rule sample_cancelled)
  show ?thesis using cancel_freezes_work [OF d' _ f] d' by auto
qed

text \<open>
  The retry reports the affected requests in another order than the first answer: they are stored
  with one time and read back ordered by identifier.
\<close>

lemma cancel_retry_reorders:
  "case cancel_for_actor sample_ext sample_ids ''a'' sample_cancel 10 sample_requests of
     Inr (out, d') \<Rightarrow> co_affected out = [''q2'', ''q1''] \<and>
       (case cancel_for_actor sample_ext sample_ids ''a'' sample_cancel 20 d' of
          Inr (out', d'') \<Rightarrow> co_affected out' = [''q1'', ''q2''] | _ \<Rightarrow> False)
   | _ \<Rightarrow> False"
  by code_simp

end
