(* ===== verification/Fencing.thy ===== *)
theory Fencing
  imports Leases
begin

text \<open>
  The contract of an operation made under a token, a lease or a claim that somebody else may have
  taken over: without the token it changes nothing. The operations under actor leases, bundle
  claims and gateway delivery claims meet it.
\<close>

locale fenced =
  fixes operation :: "'c \<Rightarrow> timestamp \<Rightarrow> db \<Rightarrow> 'o tx"
    and held :: "db \<Rightarrow> 'c \<Rightarrow> timestamp \<Rightarrow> bool"
  assumes without_token: "\<not> held d c now \<Longrightarrow> commit_state d (operation c now d) = d"
begin

lemma effect_needs_token: "commit_state d (operation c now d) \<noteq> d \<Longrightarrow> held d c now"
  using without_token by blast

lemma only_holder_acts:
  assumes "\<And>c'. held d c' now \<Longrightarrow> c' = holder" and "c \<noteq> holder"
  shows "commit_state d (operation c now d) = d"
  using assms by (intro without_token) blast

text \<open>A sequence of operations under tokens nobody holds is no step at all.\<close>

lemma many_without_token:
  assumes "\<And>c now. (c, now) \<in> set calls \<Longrightarrow> \<not> held d c now"
  shows "foldl (\<lambda>s (c, now). commit_state s (operation c now s)) d calls = d"
  using assms by (induction calls) (auto simp: without_token)

end

text \<open>A transaction known to succeed, with its result and the database it leaves.\<close>

lemma tx_succeeds:
  assumes "case r of Inr (out, d') \<Rightarrow> P out | Inl e \<Rightarrow> False"
  obtains out where "r = Inr (out, commit_state d r)" and "P out"
  using assms by (cases r) auto

sublocale lease_guarded \<subseteq> token: fenced operation lease_current
  by unfold_locales (rule stale_keeps_db)

end
