(* ===== verification/Attempts.thy ===== *)
theory Attempts
  imports Fencing Event_Message
begin

text \<open>
  Tool attempts, from \<open>runtime/sqlite/checkpoint.rs\<close>: the check of an attached run that guards
  every statement of a quantum, and the life of a tool invocation from its preparation to a known
  or unknown outcome.
\<close>

lemma ebind_to_Inl: "(\<And>y. k y = Inl e) \<Longrightarrow> \<exists>e. ebind m k = Inl e"
  by (cases m) auto

section \<open>The run a statement is made for\<close>

text \<open>The active run of that identifier with its work item.\<close>

definition active_run :: "db \<Rightarrow> run_id \<Rightarrow> (run_row \<times> work_item_row) option" where
  "active_run d i =
     (case inner_join (\<lambda>r w. wi_id w = rn_work r) (filter (\<lambda>r. rn_id r = i \<and> rn_state r = RunActive) (runs d)) (work_items d) of
        [] \<Rightarrow> None | p # _ \<Rightarrow> Some p)"

definition validate_run :: "attached_run \<Rightarrow> timestamp \<Rightarrow> db \<Rightarrow> error + unit" where
  "validate_run run now d =
     ebind (ensure_current_lease d (ar_lease run) now) (\<lambda>_.
     ebind (from_option (Bail ''run is not active'') (active_run d (ar_run run))) (\<lambda>(r, w).
     ebind (encode_audience (ar_audience run)) (\<lambda>_.
       require (rn_actor r = ls_actor (ar_lease run) \<and> rn_work r = ar_work run
                \<and> rn_generation r = ls_generation (ar_lease run) \<and> wi_audience w = ar_audience run
                \<and> rn_policy r = ar_policy run \<and> rn_source r = ar_source run)
         (Bail ''attached run does not match durable run state''))))"

section \<open>Attempts\<close>

record new_tool_attempt =
  na_id :: attempt_id
  na_call :: string
  na_tool :: string
  na_args :: string
  na_caps :: tool_capabilities

record tool_attempt =
  at_attempt :: attempt_id
  at_call :: string
  at_tool :: string
  at_args :: string
  at_caps :: tool_capabilities
  at_state :: attempt_state

datatype attempt_recovery = ArMayInvoke | ArOutcomeUnknown | ArTerminal attempt_outcome

definition decode_attempt :: "ext \<Rightarrow> attempt_row \<Rightarrow> error + tool_attempt" where
  "decode_attempt x r =
     ebind (lift_read (read_capabilities x (ta_caps r))) (\<lambda>caps.
       Inr \<lparr>at_attempt = ta_id r, at_call = ta_call r, at_tool = ta_tool r, at_args = ta_args r,
            at_caps = caps, at_state = ta_state r\<rparr>)"

definition load_attempt_by_call :: "ext \<Rightarrow> db \<Rightarrow> run_id \<Rightarrow> string \<Rightarrow> error + tool_attempt" where
  "load_attempt_by_call x d run call =
     ebind (from_option (Sql ''Query returned no rows'')
              (List.find (\<lambda>r. ta_run r = run \<and> ta_call r = call) (attempts d)))
       (decode_attempt x)"

definition new_attempt_row :: "ext \<Rightarrow> run_id \<Rightarrow> new_tool_attempt \<Rightarrow> timestamp \<Rightarrow> attempt_row" where
  "new_attempt_row x run a now =
     \<lparr>ta_id = na_id a, ta_run = run, ta_call = na_call a, ta_tool = na_tool a, ta_args = na_args a,
      ta_caps = write_capabilities x (na_caps a), ta_state = AtPrepared, ta_outcome = None,
      ta_checkpointed = False, ta_created = now, ta_updated = now\<rparr>"

text \<open>\<open>INSERT \<dots> ON CONFLICT(run_id, tool_call_id) DO NOTHING\<close>.\<close>

definition insert_attempt_or_ignore :: "attempt_row \<Rightarrow> db \<Rightarrow> error + db" where
  "insert_attempt_or_ignore r d =
     (if list_ex (\<lambda>s. ta_run s = ta_run r \<and> ta_call s = ta_call r) (attempts d) then Inr d
      else ebind (insert_unique ta_id r (attempts d)) (\<lambda>rows. Inr (d\<lparr>attempts := rows\<rparr>)))"

definition prepare_attempt ::
    "ext \<Rightarrow> attached_run \<Rightarrow> new_tool_attempt \<Rightarrow> timestamp \<Rightarrow> db \<Rightarrow> tool_attempt tx" where
  "prepare_attempt x run a now d =
     ebind (validate_run run now d) (\<lambda>_.
     ebind (insert_attempt_or_ignore (new_attempt_row x (ar_run run) a now) d) (\<lambda>d1.
     ebind (load_attempt_by_call x d1 (ar_run run) (na_call a)) (\<lambda>stored.
     ebind (require (at_tool stored = na_tool a \<and> at_args stored = na_args a \<and> at_caps stored = na_caps a)
              (Bail ''tool call id was reused with different attempt data'')) (\<lambda>_.
       Inr (stored, d1)))))"

definition transition_attempt ::
    "attached_run \<Rightarrow> attempt_id \<Rightarrow> attempt_state \<Rightarrow> attempt_state \<Rightarrow> string option \<Rightarrow> timestamp \<Rightarrow> db \<Rightarrow> unit tx" where
  "transition_attempt run i expected next outcome now d =
     ebind (validate_run run now d) (\<lambda>_.
     let p = (\<lambda>r. ta_id r = i \<and> ta_run r = ar_run run \<and> ta_state r = expected) in
     ebind (require (changed p (attempts d) = 1) (Bail ''attempt is not in expected state'')) (\<lambda>_.
       Inr ((), d\<lparr>attempts := update_where p
                  (\<lambda>r. r\<lparr>ta_state := next, ta_outcome := outcome, ta_updated := now\<rparr>) (attempts d)\<rparr>)))"

definition mark_attempt_running :: "attached_run \<Rightarrow> attempt_id \<Rightarrow> timestamp \<Rightarrow> db \<Rightarrow> unit tx" where
  "mark_attempt_running run i now d = transition_attempt run i AtPrepared AtRunning None now d"

fun outcome_state :: "attempt_outcome \<Rightarrow> attempt_state" where
  "outcome_state (AoSucceeded e) = AtSucceeded"
| "outcome_state (AoFailedKnown m) = AtFailedKnown"
| "outcome_state AoCancelledKnown = AtCancelledKnown"

definition reject_prepared_attempt ::
    "ext \<Rightarrow> attached_run \<Rightarrow> attempt_id \<Rightarrow> attempt_outcome \<Rightarrow> timestamp \<Rightarrow> db \<Rightarrow> unit tx" where
  "reject_prepared_attempt x run i out now d =
     (if outcome_state out = AtSucceeded then Inl (Bail ''rejected attempt cannot succeed'')
      else transition_attempt run i AtPrepared (outcome_state out) (Some (write_outcome x out)) now d)"

definition finish_attempt ::
    "ext \<Rightarrow> attached_run \<Rightarrow> attempt_id \<Rightarrow> attempt_outcome \<Rightarrow> timestamp \<Rightarrow> db \<Rightarrow> unit tx" where
  "finish_attempt x run i out now d =
     transition_attempt run i AtRunning (outcome_state out) (Some (write_outcome x out)) now d"

text \<open>After a restart: may the tool be called, and if it was, how did it end? \<open>updated_at\<close> stays.\<close>

definition recover_attempt :: "ext \<Rightarrow> attempt_id \<Rightarrow> db \<Rightarrow> attempt_recovery tx" where
  "recover_attempt x i d =
     ebind (from_option (Sql ''Query returned no rows'') (List.find (\<lambda>r. ta_id r = i) (attempts d))) (\<lambda>r.
       case ta_state r of
         AtPrepared \<Rightarrow> Inr (ArMayInvoke, d)
       | AtRunning \<Rightarrow>
           (let p = (\<lambda>r. ta_id r = i \<and> ta_state r = AtRunning) in
            if changed p (attempts d) \<noteq> 1 then Inl (Bail ''attempt changed during recovery'')
            else Inr (ArOutcomeUnknown, d\<lparr>attempts := update_where p (\<lambda>r. r\<lparr>ta_state := AtOutcomeUnknown\<rparr>) (attempts d)\<rparr>))
       | AtOutcomeUnknown \<Rightarrow> Inr (ArOutcomeUnknown, d)
       | AtWaitingForDecision \<Rightarrow> Inr (ArOutcomeUnknown, d)
       | _ \<Rightarrow>
           ebind (from_option (Bail ''terminal attempt is missing its outcome'') (ta_outcome r)) (\<lambda>s.
           ebind (lift_read (read_outcome x s)) (\<lambda>out. Inr (ArTerminal out, d))))"

definition block_unknown_attempt :: "attached_run \<Rightarrow> attempt_id \<Rightarrow> timestamp \<Rightarrow> db \<Rightarrow> unit tx" where
  "block_unknown_attempt run i now d =
     ebind (validate_run run now d) (\<lambda>_.
     let p = (\<lambda>r. ta_id r = i \<and> ta_run r = ar_run run \<and> ta_state r = AtOutcomeUnknown) in
     ebind (require (changed p (attempts d) = 1) (Bail ''attempt is not outcome_unknown'')) (\<lambda>_.
       Inr ((), d\<lparr>attempts := update_where p (\<lambda>r. r\<lparr>ta_state := AtWaitingForDecision, ta_updated := now\<rparr>) (attempts d),
                  work_items := update_where (\<lambda>w. wi_id w = ar_work run)
                    (\<lambda>w. w\<lparr>wi_state := WiWaitingForDecision, wi_updated := now\<rparr>) (work_items d)\<rparr>)))"

text \<open>Reading is allowed under an expired lease, as long as nobody has taken it over.\<close>

definition ensure_matching_lease :: "attached_run \<Rightarrow> db \<Rightarrow> error + unit" where
  "ensure_matching_lease run d =
     require (list_ex (\<lambda>l. al_actor l = ls_actor (ar_lease run) \<and> al_owner l = ls_owner (ar_lease run)
                  \<and> al_generation l = ls_generation (ar_lease run)
                  \<and> list_ex (\<lambda>r. rn_id r = ar_run run \<and> rn_state r = RunActive \<and> rn_actor r = al_actor l
                        \<and> rn_generation r = ls_generation (ar_lease run)) (runs d)) (leases d)) StaleLease"

definition unresolved :: "attempt_row \<Rightarrow> bool" where
  "unresolved r \<longleftrightarrow> ta_state r \<in> {AtPrepared, AtRunning, AtOutcomeUnknown, AtWaitingForDecision} \<or> \<not> ta_checkpointed r"

definition unresolved_attempts :: "ext \<Rightarrow> attached_run \<Rightarrow> db \<Rightarrow> error + tool_attempt list" where
  "unresolved_attempts x run d =
     ebind (ensure_matching_lease run d) (\<lambda>_.
       emap (decode_attempt x)
         (sort_key (\<lambda>r. (ta_created r, ta_id r)) (filter (\<lambda>r. ta_run r = ar_run run \<and> unresolved r) (attempts d))))"

section \<open>Guarded by the run\<close>

definition run_current :: "db \<Rightarrow> attached_run \<Rightarrow> timestamp \<Rightarrow> bool" where
  "run_current d run now \<longleftrightarrow> validate_run run now d = Inr ()"

lemma run_current_lease: "run_current d run now \<Longrightarrow> lease_current d (ar_lease run) now"
  by (auto simp: run_current_def validate_run_def ebind_eq_Inr ensure_current_lease_def)

lemma not_run_current: "\<not> run_current d run now \<Longrightarrow> \<exists>e. validate_run run now d = Inl e"
  by (cases "validate_run run now d") (auto simp: run_current_def)

lemma validate_run_Inr [simp]: "validate_run run now d = Inr u \<longleftrightarrow> run_current d run now"
  by (simp add: run_current_def)

interpretation preparing: fenced "\<lambda>run now d. prepare_attempt x run a now d" run_current for x a
  by unfold_locales (auto simp: prepare_attempt_def dest: not_run_current)

interpretation transition: fenced "\<lambda>run now d. transition_attempt run i expected next out now d" run_current
  for i expected "next" out
  by unfold_locales (auto simp: transition_attempt_def dest: not_run_current)

interpretation blocking: fenced "\<lambda>run now d. block_unknown_attempt run i now d" run_current for i
  by unfold_locales (auto simp: block_unknown_attempt_def dest: not_run_current)

section \<open>The life of an attempt\<close>

text \<open>The order in which the states of an attempt follow each other.\<close>

fun attempt_rank :: "attempt_state \<Rightarrow> nat" where
  "attempt_rank AtPrepared = 0"
| "attempt_rank AtRunning = 1"
| "attempt_rank AtOutcomeUnknown = 2"
| "attempt_rank AtWaitingForDecision = 3"
| "attempt_rank s = 4"

inductive attempt_edge :: "attempt_state \<Rightarrow> attempt_state \<Rightarrow> bool" where
  "attempt_edge AtPrepared AtRunning"
| "attempt_edge AtPrepared AtFailedKnown"
| "attempt_edge AtPrepared AtCancelledKnown"
| "attempt_edge AtRunning AtSucceeded"
| "attempt_edge AtRunning AtFailedKnown"
| "attempt_edge AtRunning AtCancelledKnown"
| "attempt_edge AtRunning AtOutcomeUnknown"
| "attempt_edge AtOutcomeUnknown AtWaitingForDecision"

inductive_cases attempt_edgeE: "attempt_edge s t"

lemma attempt_edge_rank: "attempt_edge s t \<Longrightarrow> attempt_rank s < attempt_rank t"
  by (induction rule: attempt_edge.induct) auto

text \<open>What a step may do to the row of an attempt: nothing, or one edge, keeping what identifies it.\<close>

definition same_attempt :: "attempt_row \<Rightarrow> attempt_row \<Rightarrow> bool" where
  "same_attempt r r' \<longleftrightarrow> ta_id r' = ta_id r \<and> ta_run r' = ta_run r \<and> ta_call r' = ta_call r \<and> ta_tool r' = ta_tool r
     \<and> ta_args r' = ta_args r \<and> ta_caps r' = ta_caps r"

definition attempt_move :: "attempt_row \<Rightarrow> attempt_row \<Rightarrow> bool" where
  "attempt_move r r' \<longleftrightarrow> same_attempt r r' \<and> attempt_edge\<^sup>*\<^sup>* (ta_state r) (ta_state r')"

text \<open>The table after a step: the old attempts, moved, and then new ones.\<close>

definition attempts_grow :: "db \<Rightarrow> db \<Rightarrow> bool" where
  "attempts_grow d d' \<longleftrightarrow>
     (\<exists>olds new. attempts d' = olds @ new \<and> list_all2 attempt_move (attempts d) olds)
     \<and> (distinct (map ta_id (attempts d)) \<longrightarrow> distinct (map ta_id (attempts d')))"

lemma attempt_move_refl [simp]: "attempt_move r r"
  by (simp add: attempt_move_def same_attempt_def)

lemma attempt_move_trans: "attempt_move r s \<Longrightarrow> attempt_move s t \<Longrightarrow> attempt_move r t"
  by (auto simp: attempt_move_def same_attempt_def)

lemma attempts_grow_same [simp]: "attempts d' = attempts d \<Longrightarrow> attempts_grow d d'"
  unfolding attempts_grow_def
  by (intro conjI exI[of _ "attempts d"] exI[of _ "[]"]) (simp_all add: list_all2_refl)

lemma attempts_grow_update:
  assumes "attempts d' = update_where p f (attempts d)" and "\<And>r. p r \<Longrightarrow> attempt_move r (f r)"
  shows "attempts_grow d d'"
proof -
  have "map ta_id (attempts d') = map ta_id (attempts d)"
    unfolding assms(1) by (rule map_update_where) (use assms(2) in \<open>simp add: attempt_move_def same_attempt_def\<close>)
  moreover have "list_all2 attempt_move (attempts d) (attempts d')"
    unfolding assms(1) update_where_def list_all2_map2 by (rule list_all2_refl) (use assms(2) in simp)
  ultimately show ?thesis by (auto simp: attempts_grow_def intro: exI[of _ "[]"])
qed

lemma attempts_grow_trans:
  assumes "attempts_grow d d1" and "attempts_grow d1 d2"
  shows "attempts_grow d d2"
proof -
  obtain o1 n1 o2 n2 where 1: "attempts d1 = o1 @ n1" "list_all2 attempt_move (attempts d) o1"
    and 2: "attempts d2 = o2 @ n2" "list_all2 attempt_move (attempts d1) o2"
    using assms unfolding attempts_grow_def by blast
  obtain us vs where o2: "o2 = us @ vs" "list_all2 attempt_move o1 us"
    using 2(2) unfolding 1(1) list_all2_append1 by blast
  have "list_all2 attempt_move (attempts d) us"
    by (rule list_all2_trans[OF attempt_move_trans 1(2) o2(2)])
  then have "\<exists>olds new. attempts d2 = olds @ new \<and> list_all2 attempt_move (attempts d) olds"
    using 2(1) o2(1) by (metis append.assoc)
  then show ?thesis using assms by (simp add: attempts_grow_def)
qed

inductive attempt_step :: "ext \<Rightarrow> db \<Rightarrow> db \<Rightarrow> bool" for x where
  prepare: "prepare_attempt x run a now d = Inr (out, d') \<Longrightarrow> attempt_step x d d'"
| start: "mark_attempt_running run i now d = Inr (u, d') \<Longrightarrow> attempt_step x d d'"
| reject: "reject_prepared_attempt x run i outcome now d = Inr (u, d') \<Longrightarrow> attempt_step x d d'"
| finish: "finish_attempt x run i outcome now d = Inr (u, d') \<Longrightarrow> attempt_step x d d'"
| recover: "recover_attempt x i d = Inr (r, d') \<Longrightarrow> attempt_step x d d'"
| block: "block_unknown_attempt run i now d = Inr (u, d') \<Longrightarrow> attempt_step x d d'"

lemma attempt_move_edge:
  "attempt_edge (ta_state r) (ta_state r') \<Longrightarrow> same_attempt r r' \<Longrightarrow> attempt_move r r'"
  by (simp add: attempt_move_def)

lemma transition_grows:
  assumes "transition_attempt run i s t out now d = Inr (u, d')" and "attempt_edge s t"
  shows "attempts_grow d d'"
proof (rule attempts_grow_update)
  show "attempts d' = update_where (\<lambda>r. ta_id r = i \<and> ta_run r = ar_run run \<and> ta_state r = s)
      (\<lambda>r. r\<lparr>ta_state := t, ta_outcome := out, ta_updated := now\<rparr>) (attempts d)"
    using assms(1) by (auto simp: transition_attempt_def ebind_eq_Inr Let_def)
qed (use assms(2) in \<open>auto intro!: attempt_move_edge simp: same_attempt_def\<close>)

lemma prepare_grows:
  assumes "prepare_attempt x run a now d = Inr (out, d')"
  shows "attempts_grow d d'"
proof -
  have "attempts d' = attempts d \<or> (\<exists>r. attempts d' = attempts d @ [r] \<and> ta_id r \<notin> ta_id ` set (attempts d))"
    using assms by (auto simp: prepare_attempt_def ebind_eq_Inr insert_attempt_or_ignore_def insert_unique_eq_Inr split: if_splits)
  then show ?thesis
  proof (elim disjE exE conjE)
    fix r
    assume "attempts d' = attempts d @ [r]" "ta_id r \<notin> ta_id ` set (attempts d)"
    moreover have "list_all2 attempt_move (attempts d) (attempts d)" by (rule list_all2_refl) simp
    ultimately show ?thesis by (auto simp: attempts_grow_def)
  qed simp
qed

lemma recover_grows:
  assumes "recover_attempt x i d = Inr (r, d')"
  shows "attempts_grow d d'"
proof -
  have "attempts d' = attempts d \<or> (attempts d' = update_where (\<lambda>r. ta_id r = i \<and> ta_state r = AtRunning)
           (\<lambda>r. r\<lparr>ta_state := AtOutcomeUnknown\<rparr>) (attempts d))"
  proof -
    obtain row where row: "List.find (\<lambda>r. ta_id r = i) (attempts d) = Some row"
      using assms by (auto simp: recover_attempt_def ebind_eq_Inr)
    show ?thesis using assms row
      by (cases "ta_state row") (auto simp: recover_attempt_def ebind_eq_Inr Let_def split: if_split_asm)
  qed
  then show ?thesis
  proof
    assume u: "attempts d' = update_where (\<lambda>r. ta_id r = i \<and> ta_state r = AtRunning)
           (\<lambda>r. r\<lparr>ta_state := AtOutcomeUnknown\<rparr>) (attempts d)"
    show ?thesis
      by (rule attempts_grow_update[OF u]) (auto intro!: attempt_move_edge attempt_edge.intros simp: same_attempt_def)
  qed simp
qed

lemma block_grows:
  assumes "block_unknown_attempt run i now d = Inr (u, d')"
  shows "attempts_grow d d'"
proof (rule attempts_grow_update)
  show "attempts d' = update_where (\<lambda>r. ta_id r = i \<and> ta_run r = ar_run run \<and> ta_state r = AtOutcomeUnknown)
      (\<lambda>r. r\<lparr>ta_state := AtWaitingForDecision, ta_updated := now\<rparr>) (attempts d)"
    using assms by (auto simp: block_unknown_attempt_def ebind_eq_Inr Let_def)
qed (auto intro!: attempt_move_edge attempt_edge.intros simp: same_attempt_def)

lemma attempt_step_grows: "attempt_step x d d' \<Longrightarrow> attempts_grow d d'"
proof (induction rule: attempt_step.induct)
  case (start run i now d u d')
  then show ?case using transition_grows attempt_edge.intros(1) by (auto simp: mark_attempt_running_def)
next
  case (reject run i outcome now d u d')
  then show ?case using transition_grows[of run i AtPrepared "outcome_state outcome"]
    by (cases outcome) (auto simp: reject_prepared_attempt_def attempt_edge.intros)
next
  case (finish run i outcome now d u d')
  then show ?case using transition_grows[of run i AtRunning "outcome_state outcome"]
    by (cases outcome) (auto simp: finish_attempt_def attempt_edge.intros)
qed (auto intro: prepare_grows recover_grows block_grows)

lemma attempt_steps_grow: "(attempt_step x)\<^sup>*\<^sup>* d d' \<Longrightarrow> attempts_grow d d'"
  by (induction rule: rtranclp_induct) (auto intro: attempts_grow_trans attempt_step_grows)

lemma attempts_grow_row:
  assumes "attempts_grow d d'" and "r \<in> set (attempts d)"
  obtains r' where "r' \<in> set (attempts d')" and "attempt_move r r'"
proof -
  obtain olds new where "attempts d' = olds @ new" "list_all2 attempt_move (attempts d) olds"
    using assms(1) unfolding attempts_grow_def by blast
  then obtain r' where "r' \<in> set olds" "attempt_move r r'"
    using assms(2) by (metis in_set_conv_nth list_all2_conv_all_nth)
  then show ?thesis using that[of r'] \<open>attempts d' = olds @ new\<close> by simp
qed

lemma attempts_grow_find:
  assumes "attempts_grow d d'" and "List.find (\<lambda>r. ta_run r = run \<and> ta_call r = c) (attempts d) = Some r"
  obtains r' where "List.find (\<lambda>r. ta_run r = run \<and> ta_call r = c) (attempts d') = Some r'" and "attempt_move r r'"
proof -
  obtain olds new where on: "attempts d' = olds @ new" "list_all2 attempt_move (attempts d) olds"
    using assms(1) unfolding attempts_grow_def by blast
  let ?p = "\<lambda>r. ta_run r = run \<and> ta_call r = c"
  have "\<exists>r'. List.find ?p olds = Some r' \<and> attempt_move r r'" if "List.find ?p rs = Some r" "list_all2 attempt_move rs olds" for rs
    using that(2,1) by (induction rule: list_all2_induct) (auto simp: attempt_move_def same_attempt_def split: if_splits)
  then obtain r' where "List.find ?p olds = Some r'" "attempt_move r r'" using assms(2) on(2) by blast
  then show ?thesis using that on(1) by (simp add: find_append)
qed

lemma edges_rank: "attempt_edge\<^sup>*\<^sup>* s t \<Longrightarrow> attempt_rank s \<le> attempt_rank t"
  by (induction rule: rtranclp_induct) (auto dest: attempt_edge_rank)

lemma not_prepared_again:
  assumes "attempts_grow d d'" and "distinct (map ta_id (attempts d))" and "r \<in> set (attempts d)"
    and "ta_state r \<noteq> AtPrepared" and "r' \<in> set (attempts d')" and "ta_id r' = ta_id r"
  shows "ta_state r' \<noteq> AtPrepared"
proof -
  obtain s where s: "s \<in> set (attempts d')" "attempt_move r s" by (rule attempts_grow_row[OF assms(1,3)])
  have "s = r'" using assms(1,2,5,6) s distinct_key_eq[of ta_id "attempts d'" s r']
    by (auto simp: attempts_grow_def attempt_move_def same_attempt_def)
  then show ?thesis using edges_rank[of "ta_state r" "ta_state s"] s(2) assms(4)
    by (cases "ta_state r") (auto simp: attempt_move_def)
qed

section \<open>What the attempt store guarantees\<close>

text \<open>
  C34. An attempt lives once, forward. Over any operations of the store no attempt disappears or
  changes what it calls, and its state only follows the edges of the lifecycle, on each of which
  the rank grows.
\<close>

theorem attempt_store_refines_lifecycle:
  assumes "(attempt_step x)\<^sup>*\<^sup>* d d'" and "r \<in> set (attempts d)"
  shows "\<exists>r' \<in> set (attempts d'). ta_id r' = ta_id r \<and> ta_run r' = ta_run r \<and> ta_call r' = ta_call r
     \<and> ta_tool r' = ta_tool r \<and> ta_args r' = ta_args r \<and> ta_caps r' = ta_caps r
     \<and> attempt_edge\<^sup>*\<^sup>* (ta_state r) (ta_state r') \<and> attempt_rank (ta_state r) \<le> attempt_rank (ta_state r')"
proof -
  obtain r' where "r' \<in> set (attempts d')" "attempt_move r r'"
    by (rule attempts_grow_row[OF attempt_steps_grow[OF assms(1)] assms(2)])
  then show ?thesis using edges_rank by (intro bexI[of _ r']) (simp_all add: attempt_move_def same_attempt_def)
qed

text \<open>
  C40. Preparing is idempotent. Preparing the same call of a run again, whatever happened in
  between, creates nothing: it returns the attempt of the first call in its present state when the
  tool, arguments and capabilities agree, and is an error when they do not.
\<close>

theorem prepare_idempotent:
  assumes "prepare_attempt x run a now d = Inr (stored, d1)" and "(attempt_step x)\<^sup>*\<^sup>* d1 d2"
    and "run_current d2 run' later" and "ar_run run' = ar_run run" and "na_call a' = na_call a"
  shows "if na_tool a' = na_tool a \<and> na_args a' = na_args a \<and> na_caps a' = na_caps a
         then \<exists>s. prepare_attempt x run' a' later d2 = Inr (stored\<lparr>at_state := s\<rparr>, d2)
         else prepare_attempt x run' a' later d2 = Inl (Bail ''tool call id was reused with different attempt data'')"
proof -
  obtain r caps where r: "List.find (\<lambda>r. ta_run r = ar_run run \<and> ta_call r = na_call a) (attempts d1) = Some r"
    and caps: "read_capabilities x (ta_caps r) = Inr caps"
    and st: "stored = \<lparr>at_attempt = ta_id r, at_call = ta_call r, at_tool = ta_tool r, at_args = ta_args r,
            at_caps = caps, at_state = ta_state r\<rparr>"
    and same: "ta_tool r = na_tool a" "ta_args r = na_args a" "caps = na_caps a"
    using assms(1) by (auto simp: prepare_attempt_def load_attempt_by_call_def decode_attempt_def ebind_eq_Inr)
  obtain r' where r': "List.find (\<lambda>r. ta_run r = ar_run run \<and> ta_call r = na_call a) (attempts d2) = Some r'"
    "attempt_move r r'"
    by (rule attempts_grow_find[OF attempt_steps_grow[OF assms(2)] r])
  have "list_ex (\<lambda>s. ta_run s = ar_run run \<and> ta_call s = na_call a) (attempts d2)"
    using find_Some_in[OF r'(1)] by (auto simp: list_ex_iff)
  then have ins: "insert_attempt_or_ignore (new_attempt_row x (ar_run run') a' later) d2 = Inr d2"
    using assms(4,5) by (simp add: insert_attempt_or_ignore_def new_attempt_row_def)
  have load: "load_attempt_by_call x d2 (ar_run run') (na_call a') = Inr (stored\<lparr>at_state := ta_state r'\<rparr>)"
    using r' caps assms(4,5) st by (simp add: load_attempt_by_call_def decode_attempt_def attempt_move_def same_attempt_def)
  have "prepare_attempt x run' a' later d2 =
     ebind (require (at_tool stored = na_tool a' \<and> at_args stored = na_args a' \<and> at_caps stored = na_caps a')
              (Bail ''tool call id was reused with different attempt data'')) (\<lambda>_. Inr (stored\<lparr>at_state := ta_state r'\<rparr>, d2))"
    by (simp add: prepare_attempt_def assms(3)[unfolded run_current_def] ins load)
  then show ?thesis using same st by (auto simp: require_def)
qed

section \<open>Witnesses\<close>

definition sample_run :: attached_run where
  "sample_run = \<lparr>ar_lease = sample_lease ''p'' 4 100, ar_work = ''w'', ar_run = ''r'', ar_observed = 1, ar_sources = [''e''],
     ar_requests = [], ar_audience = ActorPrivate, ar_route = None, ar_policy = ActorTools, ar_source = None,
     ar_messages = []\<rparr>"

text \<open>The run is active and has incorporated its event; one attempt is prepared.\<close>

definition sample_active :: db where
  "sample_active = sample_db\<lparr>
     events := [(sample_event ''e'' ''a'' (Some ''w'') 1)\<lparr>ev_state := EvProcessing, ev_run := Some ''r''\<rparr>],
     runs := [\<lparr>rn_id = ''r'', rn_actor = ''a'', rn_work = ''w'', rn_state = RunActive, rn_generation = 4, rn_observed = 1,
       rn_route = None, rn_policy = ActorTools, rn_source = None, rn_created = 0, rn_updated = 0\<rparr>],
     run_events := [\<lparr>re_run = ''r'', re_event = ''e'', re_incorporated = True\<rparr>]\<rparr>"

definition sample_new_attempt :: new_tool_attempt where
  "sample_new_attempt = \<lparr>na_id = ''t1'', na_call = ''c1'', na_tool = ''bash'', na_args = ''{}'', na_caps = conservative_capabilities\<rparr>"

definition sample_prepared :: db where
  "sample_prepared = commit_state sample_active (prepare_attempt sample_ext sample_run sample_new_attempt 50 sample_active)"

definition sample_running :: db where
  "sample_running = commit_state sample_prepared (mark_attempt_running sample_run ''t1'' 51 sample_prepared)"

lemma sample_attempts:
  obtains out where "prepare_attempt sample_ext sample_run sample_new_attempt 50 sample_active = Inr (out, sample_prepared)"
    "mark_attempt_running sample_run ''t1'' 51 sample_prepared = Inr ((), sample_running)"
    "at_attempt out = ''t1''"
proof -
  have p: "case prepare_attempt sample_ext sample_run sample_new_attempt 50 sample_active of
      Inr (out, d') \<Rightarrow> at_attempt out = ''t1'' | Inl e \<Rightarrow> False"
    and m: "case mark_attempt_running sample_run ''t1'' 51 sample_prepared of Inr (out, d') \<Rightarrow> True | Inl e \<Rightarrow> False"
    by code_simp+
  obtain out where "prepare_attempt sample_ext sample_run sample_new_attempt 50 sample_active = Inr (out, sample_prepared)"
    "at_attempt out = ''t1''"
    using tx_succeeds[OF p, of sample_active] unfolding sample_prepared_def by blast
  moreover have "mark_attempt_running sample_run ''t1'' 51 sample_prepared = Inr ((), sample_running)"
    using tx_succeeds[OF m, of sample_prepared] unfolding sample_running_def by auto
  ultimately show ?thesis using that by blast
qed

lemma sample_attempt_keys:
  "distinct (map ta_id (attempts sample_prepared))" "run_current sample_running sample_run 60"
  "map ta_state (attempts sample_prepared) = [AtPrepared]"
  unfolding run_current_def by code_simp+

theorem attempt_store_refines_lifecycle_witness:
  "\<exists>r' \<in> set (attempts sample_running). attempt_edge\<^sup>*\<^sup>* AtPrepared (ta_state r')"
proof -
  obtain out where m: "mark_attempt_running sample_run ''t1'' 51 sample_prepared = Inr ((), sample_running)"
    by (rule sample_attempts)
  have s: "(attempt_step sample_ext)\<^sup>*\<^sup>* sample_prepared sample_running"
    using attempt_step.start[OF m, of sample_ext] by (rule r_into_rtranclp)
  obtain r where "r \<in> set (attempts sample_prepared)" "ta_state r = AtPrepared" using sample_attempt_keys(3) by auto
  then show ?thesis using attempt_store_refines_lifecycle [OF s, of r] by auto
qed

theorem prepare_idempotent_witness:
  "\<exists>out. prepare_attempt sample_ext sample_run (sample_new_attempt\<lparr>na_id := ''t2''\<rparr>) 60 sample_running = Inr (out, sample_running)
     \<and> at_attempt out = ''t1''"
proof -
  obtain out where p: "prepare_attempt sample_ext sample_run sample_new_attempt 50 sample_active = Inr (out, sample_prepared)"
    and m: "mark_attempt_running sample_run ''t1'' 51 sample_prepared = Inr ((), sample_running)" and o': "at_attempt out = ''t1''"
    by (rule sample_attempts)
  have s: "(attempt_step sample_ext)\<^sup>*\<^sup>* sample_prepared sample_running"
    using attempt_step.start[OF m, of sample_ext] by (rule r_into_rtranclp)
  show ?thesis
    using prepare_idempotent [OF p s sample_attempt_keys(2), of "sample_new_attempt\<lparr>na_id := ''t2''\<rparr>"] o' by auto
qed

end
