(* ===== verification/Bundles.thy ===== *)
theory Bundles
  imports Fencing Event_Message
begin

text \<open>
  \<open>runtime/sqlite/bundles.rs\<close>: result bundles, the ordered deliveries of a finished local
  request. A bundle is claimed by one connection at a time, loaded against its immutable
  manifest, and acknowledged or failed; the lifecycle of its row is the state machine of the last
  sections.
\<close>

section \<open>Manifests\<close>

definition usize_max :: nat where "usize_max = 2 ^ 64 - 1"

fun payload_from_outbox :: "outbox_payload \<Rightarrow> final_payload" where
  "payload_from_outbox (OpText t) = FpText t"
| "payload_from_outbox (OpFile a) = FpFile a"
| "payload_from_outbox (OpTerminalError c m) = FpTerminalError c m"

fun payload_kind :: "final_payload \<Rightarrow> string" where
  "payload_kind (FpText t) = ''text''"
| "payload_kind (FpFile a) = ''file''"
| "payload_kind (FpTerminalError c m) = ''terminal_error''"

definition div_ceil :: "nat \<Rightarrow> nat \<Rightarrow> nat" where
  "div_ceil n m = (n + m - 1) div m"

definition manifest_entry_for :: "ext \<Rightarrow> delivery_id \<times> final_payload \<Rightarrow> manifest_entry" where
  "manifest_entry_for x p =
     (let encoded = write_final x (snd p) in
      \<lparr>me_delivery = fst p, me_kind = payload_kind (snd p), me_bytes = length encoded,
       me_sha256 = sha256_hex x encoded, me_chunks = div_ceil (length encoded) MAX_FINAL_CHUNK_BYTES\<rparr>)"

definition checked_add :: "nat \<Rightarrow> nat \<Rightarrow> error + nat" where
  "checked_add n acc =
     (if usize_max < acc + n then Inl (Bail ''bundle decoded byte count overflow'') else Inr (acc + n))"

definition validate_bundle_bytes :: "nat \<Rightarrow> error + unit" where
  "validate_bundle_bytes n = require (n \<le> MAX_BUNDLE_BYTES) (Bail ''bundle exceeds 16777216 decoded bytes'')"

definition validate_manifest_bytes :: "nat \<Rightarrow> error + unit" where
  "validate_manifest_bytes n = require (n \<le> MAX_MANIFEST_BYTES) (Bail ''bundle manifest exceeds 262144 bytes'')"

definition manifest_for :: "ext \<Rightarrow> (delivery_id \<times> final_payload) list \<Rightarrow> error + bundle_manifest" where
  "manifest_for x ds =
     (if ds = [] \<or> MAX_BUNDLE_DELIVERIES < length ds
      then Inl (Bail ''bundle delivery count is outside 1..=1024'')
      else let entries = map (manifest_entry_for x) ds in
           ebind (efold checked_add (map me_bytes entries) 0) (\<lambda>bytes.
           ebind (validate_bundle_bytes bytes) (\<lambda>_.
           let canonical = write_manifest x entries in
           ebind (validate_manifest_bytes (length canonical)) (\<lambda>_.
             Inr \<lparr>mf_entries = entries, mf_sha256 = sha256_hex x canonical\<rparr>))))"

text \<open>The limits as integer comparisons, to evaluate them.\<close>

lemma checked_add_code [code]:
  "checked_add n acc = (if 18446744073709551615 < int acc + int n then Inl (Bail ''bundle decoded byte count overflow'')
     else Inr (acc + n))"
  by (auto simp: checked_add_def usize_max_def)

lemma validate_bundle_bytes_code [code]:
  "validate_bundle_bytes n = require (int n \<le> 16777216) (Bail ''bundle exceeds 16777216 decoded bytes'')"
  by (simp add: validate_bundle_bytes_def MAX_BUNDLE_BYTES_def)

lemma validate_manifest_bytes_code [code]:
  "validate_manifest_bytes n = require (int n \<le> 262144) (Bail ''bundle manifest exceeds 262144 bytes'')"
  by (simp add: validate_manifest_bytes_def MAX_MANIFEST_BYTES_def)

lemma manifest_entry_for_code [code]:
  "manifest_entry_for x p =
     (let encoded = write_final x (snd p) in
      \<lparr>me_delivery = fst p, me_kind = payload_kind (snd p), me_bytes = length encoded,
       me_sha256 = sha256_hex x encoded, me_chunks = nat ((int (length encoded) + 196607) div 196608)\<rparr>)"
proof -
  have "div_ceil n 196608 = nat ((int n + 196607) div 196608)" for n
  proof -
    have "int (div_ceil n 196608) = (int n + 196607) div 196608" by (simp add: div_ceil_def zdiv_int)
    then show ?thesis by linarith
  qed
  then show ?thesis by (simp add: manifest_entry_for_def Let_def MAX_FINAL_CHUNK_BYTES_def)
qed

section \<open>Reading a bundle\<close>

definition parse_id :: "ext \<Rightarrow> string \<Rightarrow> error + string" where
  "parse_id x s = from_option (Bail ''invalid uuid'') (parse_uuid x s)"

definition find_bundle :: "db \<Rightarrow> bundle_id \<Rightarrow> bundle_row option" where
  "find_bundle d b = List.find (\<lambda>r. rb_id r = b) (bundles d)"

definition bundle_request :: "db \<Rightarrow> bundle_row \<Rightarrow> local_request_row option" where
  "bundle_request d r = List.find (\<lambda>q. lr_id q = rb_request r) (local_requests d)"

definition memberships :: "db \<Rightarrow> bundle_id \<Rightarrow> (outbox_delivery_row \<times> outbox_row) list" where
  "memberships d b =
     sort_key (\<lambda>p. od_ordinal (fst p))
       (inner_join (\<lambda>m s. ob_id s = od_outbox m) (filter (\<lambda>m. od_bundle m = b) (outbox_deliveries d)) (outbox d))"

definition read_membership ::
    "ext \<Rightarrow> request_id \<Rightarrow> nat \<times> (outbox_delivery_row \<times> outbox_row) \<Rightarrow> error + (delivery_id \<times> final_payload)" where
  "read_membership x q = (\<lambda>(expected, m, s).
     ebind (require (od_ordinal m = int expected) (Bail ''bundle membership ordinals are not contiguous'')) (\<lambda>_.
     ebind (require (od_address m = q) (Bail ''bundle membership route does not belong to its request'')) (\<lambda>_.
     ebind (lift_read (read_payload x (ob_payload s))) (\<lambda>payload.
     ebind (parse_id x (od_id m)) (\<lambda>i. Inr (i, payload_from_outbox payload))))))"

definition load_bundle_row :: "ext \<Rightarrow> db \<Rightarrow> bundle_id \<Rightarrow> error + result_bundle" where
  "load_bundle_row x d b =
     ebind (from_option (Bail ''bundle was not found'') (find_bundle d b)) (\<lambda>r.
     let rows = memberships d b in
     ebind (require (int (length rows) = rb_count r \<and> length rows \<le> MAX_BUNDLE_DELIVERIES)
              (Bail ''bundle delivery count does not match its immutable memberships'')) (\<lambda>_.
     ebind (emap (read_membership x (rb_request r)) (zip [0..<length rows] rows)) (\<lambda>ds.
     ebind (manifest_for x ds) (\<lambda>m.
     ebind (require (mf_sha256 m = rb_manifest r)
              (Bail ''bundle manifest hash does not match immutable memberships'')) (\<lambda>_.
     ebind (parse_id x b) (\<lambda>i.
     ebind (parse_id x (rb_request r)) (\<lambda>q.
       Inr \<lparr>bu_id = i, bu_request = q, bu_state = rb_state r, bu_manifest = m, bu_deliveries = ds\<rparr>)))))))"

definition load_bundle :: "ext \<Rightarrow> db \<Rightarrow> bundle_id \<Rightarrow> error + result_bundle" where
  "load_bundle x d b = load_bundle_row x d b"

definition load_bundle_state :: "db \<Rightarrow> bundle_id \<Rightarrow> error + bundle_state" where
  "load_bundle_state d b =
     ebind (from_option (Sql ''Query returned no rows'') (find_bundle d b)) (\<lambda>r. Inr (rb_state r))"

section \<open>Claims\<close>

record bundle_claim =
  bc_bundle :: bundle_id
  bc_owner :: string
  bc_expires :: timestamp

record claimed_bundle_ref =
  cb_claim :: bundle_claim
  cb_request :: request_id
  cb_attempts :: int

record claimed_bundle =
  cl_claim :: bundle_claim
  cl_bundle :: result_bundle
  cl_attempts :: int

datatype claimed_bundle_load = BlLoaded result_bundle | BlFailedTerminal | BlDelivered | BlFenced
datatype claim_renewal = CrRenewed bundle_claim | CrFenced
datatype claim_transition = CtApplied | CtFenced

text \<open>The \<open>WHERE\<close> clause that fences every statement made under a claim.\<close>

definition holds_claim :: "bundle_claim \<Rightarrow> timestamp \<Rightarrow> bundle_row \<Rightarrow> bool" where
  "holds_claim c now r \<longleftrightarrow> rb_id r = bc_bundle c \<and> rb_state r = BnDelivering \<and> rb_owner r = Some (bc_owner c)
     \<and> rb_expires r = Some (bc_expires c) \<and> now < bc_expires c"

definition deliverable :: "timestamp \<Rightarrow> bundle_row \<Rightarrow> bool" where
  "deliverable now r \<longleftrightarrow> rb_state r = BnPending \<or> (rb_state r = BnFailedRetryable \<and> due (rb_next r) now)"

definition fail_row :: "bundle_state \<Rightarrow> timestamp option \<Rightarrow> string \<Rightarrow> timestamp \<Rightarrow> bundle_row \<Rightarrow> bundle_row" where
  "fail_row s next err now r =
     r\<lparr>rb_state := s, rb_owner := None, rb_expires := None, rb_next := next, rb_error := Some err,
       rb_updated := now\<rparr>"

definition claim_expired :: "timestamp \<Rightarrow> bundle_row \<Rightarrow> bool" where
  "claim_expired now r \<longleftrightarrow> rb_state r = BnDelivering \<and> (case rb_expires r of None \<Rightarrow> False | Some t \<Rightarrow> t \<le> now)"

definition expire_claims :: "timestamp \<Rightarrow> db \<Rightarrow> db" where
  "expire_claims now d =
     d\<lparr>bundles := update_where (claim_expired now)
        (fail_row BnFailedRetryable (Some now) ''bundle claim expired before acknowledgement'' now) (bundles d)\<rparr>"

definition claim_row :: "string \<Rightarrow> timestamp \<Rightarrow> timestamp \<Rightarrow> bundle_row \<Rightarrow> bundle_row" where
  "claim_row owner now until r =
     r\<lparr>rb_state := BnDelivering, rb_attempts := rb_attempts r + 1, rb_owner := Some owner,
       rb_expires := Some until, rb_next := None, rb_error := None, rb_updated := now\<rparr>"

definition claim_candidate ::
    "ext \<Rightarrow> string \<Rightarrow> request_id list \<Rightarrow> timestamp \<Rightarrow> timestamp \<Rightarrow> nat \<Rightarrow> bundle_id \<times> request_id
     \<Rightarrow> claimed_bundle_ref list \<times> db \<Rightarrow> error + (claimed_bundle_ref list \<times> db)" where
  "claim_candidate x owner requested now until limit = (\<lambda>(b, q) (claimed, d).
     if limit \<le> length claimed \<or> q \<notin> set requested then Inr (claimed, d)
     else let p = (\<lambda>r. rb_id r = b \<and> deliverable now r);
              d' = d\<lparr>bundles := update_where p (claim_row owner now until) (bundles d)\<rparr> in
          if changed p (bundles d) \<noteq> 1 then Inr (claimed, d')
          else ebind (from_option (Sql ''Query returned no rows'') (find_bundle d' b)) (\<lambda>r.
               ebind (parse_id x b) (\<lambda>i.
               ebind (parse_id x q) (\<lambda>q'.
                 Inr (claimed @ [\<lparr>cb_claim = \<lparr>bc_bundle = i, bc_owner = owner, bc_expires = until\<rparr>,
                                  cb_request = q', cb_attempts = rb_attempts r\<rparr>], d')))))"

definition claim_ready_bundle_refs ::
    "ext \<Rightarrow> string \<Rightarrow> request_id list \<Rightarrow> timestamp \<Rightarrow> timestamp \<Rightarrow> nat \<Rightarrow> db \<Rightarrow> (claimed_bundle_ref list) tx" where
  "claim_ready_bundle_refs x owner requested now until limit d =
     (if blank owner \<or> until \<le> now then Inl (Bail ''bundle claim requires an owner and a future expiry'')
      else let d1 = expire_claims now d;
               candidates = map (\<lambda>r. (rb_id r, rb_request r))
                 (sort_key (\<lambda>r. (rb_created r, rb_id r)) (filter (deliverable now) (bundles d1))) in
           efold (claim_candidate x owner requested now until (min limit 32)) candidates ([], d1))"

definition renew_bundle :: "bundle_claim \<Rightarrow> timestamp \<Rightarrow> timestamp \<Rightarrow> db \<Rightarrow> claim_renewal tx" where
  "renew_bundle c now until d =
     (if until \<le> now then Inl (Bail ''renewed bundle expiry must be in the future'')
      else Inr (if changed (holds_claim c now) (bundles d) \<noteq> 1 then CrFenced
                else CrRenewed (c\<lparr>bc_expires := until\<rparr>),
                d\<lparr>bundles := update_where (holds_claim c now)
                   (\<lambda>r. r\<lparr>rb_expires := Some until, rb_updated := now\<rparr>) (bundles d)\<rparr>))"

text \<open>A bundle whose content cannot be read fails terminally; an error of SQLite is passed on.\<close>

definition fail_unreadable :: "bundle_claim \<Rightarrow> error \<Rightarrow> timestamp \<Rightarrow> db \<Rightarrow> claimed_bundle_load tx" where
  "fail_unreadable c e now d =
     (case e of
        Sql m \<Rightarrow> Inl e
      | _ \<Rightarrow> if changed (holds_claim c now) (bundles d) \<noteq> 1 then Inl (Bail ''bundle claim is stale'')
             else Inr (BlFailedTerminal, d\<lparr>bundles := update_where (holds_claim c now)
                    (fail_row BnFailedTerminal None (err_text e) now) (bundles d)\<rparr>))"

definition load_claimed_bundle :: "ext \<Rightarrow> bundle_claim \<Rightarrow> timestamp \<Rightarrow> db \<Rightarrow> claimed_bundle_load tx" where
  "load_claimed_bundle x c now d =
     (case find_bundle d (bc_bundle c) of
        None \<Rightarrow> Inr (BlFenced, d)
      | Some r \<Rightarrow>
          if rb_state r = BnDelivered then Inr (BlDelivered, d)
          else if rb_state r \<noteq> BnDelivering \<or> rb_owner r \<noteq> Some (bc_owner c)
                  \<or> rb_expires r \<noteq> Some (bc_expires c) \<or> bc_expires c \<le> now then Inr (BlFenced, d)
          else if Option.bind (bundle_request d r) lr_bundle \<noteq> Some (bc_bundle c)
          then Inr (BlFailedTerminal, d\<lparr>bundles := update_where (\<lambda>r. rb_id r = bc_bundle c)
                 (fail_row BnFailedTerminal None ''request does not reciprocally own claimed bundle'' now) (bundles d)\<rparr>)
          else case load_bundle_row x d (bc_bundle c) of
                 Inr b \<Rightarrow> Inr (BlLoaded b, d)
               | Inl e \<Rightarrow> fail_unreadable c e now d)"

text \<open>Every claim is loaded in a transaction of its own; one that cannot be loaded is left out.\<close>

fun load_claims ::
    "ext \<Rightarrow> timestamp \<Rightarrow> claimed_bundle_ref list \<Rightarrow> db \<Rightarrow> db \<times> (error + claimed_bundle list)" where
  "load_claims x now [] d = (d, Inr [])"
| "load_claims x now (c # cs) d =
     (case load_claimed_bundle x (cb_claim c) now d of
        Inl e \<Rightarrow> (d, Inl e)
      | Inr (out, d1) \<Rightarrow>
          (case load_claims x now cs d1 of
             (d2, Inl e) \<Rightarrow> (d2, Inl e)
           | (d2, Inr bs) \<Rightarrow>
               (d2, Inr (case out of
                  BlLoaded b \<Rightarrow> \<lparr>cl_claim = cb_claim c, cl_bundle = b, cl_attempts = cb_attempts c\<rparr> # bs
                | _ \<Rightarrow> bs))))"

definition claim_ready_bundles ::
    "ext \<Rightarrow> string \<Rightarrow> request_id list \<Rightarrow> timestamp \<Rightarrow> timestamp \<Rightarrow> nat \<Rightarrow> db
     \<Rightarrow> db \<times> (error + claimed_bundle list)" where
  "claim_ready_bundles x owner requested now until limit d =
     (case claim_ready_bundle_refs x owner requested now until limit d of
        Inl e \<Rightarrow> (d, Inl e)
      | Inr (claims, d1) \<Rightarrow> load_claims x now claims d1)"

definition fail_bundle_retryable ::
    "bundle_claim \<Rightarrow> string \<Rightarrow> timestamp \<Rightarrow> timestamp \<Rightarrow> db \<Rightarrow> claim_transition tx" where
  "fail_bundle_retryable c err next now d =
     Inr (if changed (holds_claim c now) (bundles d) \<noteq> 1 then CtFenced else CtApplied,
          d\<lparr>bundles := update_where (holds_claim c now) (fail_row BnFailedRetryable (Some next) err now) (bundles d)\<rparr>)"

definition fail_bundle_terminal :: "bundle_claim \<Rightarrow> string \<Rightarrow> timestamp \<Rightarrow> db \<Rightarrow> unit tx" where
  "fail_bundle_terminal c err now d =
     (if changed (holds_claim c now) (bundles d) \<noteq> 1 then Inl (Bail ''bundle claim is stale'')
      else Inr ((), d\<lparr>bundles := update_where (holds_claim c now)
                       (fail_row BnFailedTerminal None err now) (bundles d)\<rparr>))"

section \<open>Acknowledgement and replay\<close>

record bundle_ack =
  ak_actor :: actor_id
  ak_request :: request_id
  ak_bundle :: bundle_id
  ak_deliveries :: "delivery_id list"

datatype ack_outcome = AkDelivered | AkAlreadyDelivered

record replay_bundle_ref =
  rp_actor :: actor_id
  rp_request :: request_id
  rp_bundle :: bundle_id

definition ack_deliveries_match :: "result_bundle \<Rightarrow> nat \<Rightarrow> delivery_id list \<Rightarrow> bool" where
  "ack_deliveries_match b durable supplied \<longleftrightarrow>
     (let expected = set (map me_delivery (mf_entries (bu_manifest b))) in
      card expected = durable \<and> card (set supplied) = length supplied \<and> expected = set supplied)"

definition ack_transition :: "bundle_id \<Rightarrow> bundle_state \<Rightarrow> timestamp \<Rightarrow> db \<Rightarrow> ack_outcome tx" where
  "ack_transition b s now d =
     (let p = (\<lambda>r. rb_id r = b \<and> (rb_state r = BnDelivering \<or> rb_state r = BnFailedRetryable)) in
      case s of
        BnDelivered \<Rightarrow> Inr (AkAlreadyDelivered, d)
      | BnPending \<Rightarrow> Inl (AckRejected ''pending bundle cannot be acknowledged'')
      | BnFailedTerminal \<Rightarrow> Inl (AckRejected ''terminally failed bundle cannot be acknowledged'')
      | _ \<Rightarrow> if changed p (bundles d) \<noteq> 1 then Inl (AckRejected ''bundle changed during ACK'')
             else Inr (AkDelivered, d\<lparr>bundles := update_where p
                    (\<lambda>r. r\<lparr>rb_state := BnDelivered, rb_owner := None, rb_expires := None, rb_next := None,
                           rb_error := None, rb_updated := now\<rparr>) (bundles d)\<rparr>))"

definition acknowledge_bundle :: "ext \<Rightarrow> bundle_ack \<Rightarrow> timestamp \<Rightarrow> db \<Rightarrow> ack_outcome tx" where
  "acknowledge_bundle x a now d =
     ebind (from_option (AckRejected ''bundle was not found'')
              (Option.bind (find_bundle d (ak_bundle a)) (\<lambda>r. map_option (Pair r) (bundle_request d r)))) (\<lambda>(r, q).
     ebind (require (rb_request r = ak_request a) (AckRejected ''bundle does not belong to request'')) (\<lambda>_.
     ebind (require (lr_actor q = ak_actor a) (AckRejected ''bundle does not belong to actor'')) (\<lambda>_.
     ebind (require (lr_bundle q = Some (ak_bundle a))
              (AckRejected ''request does not reciprocally own the acknowledged bundle'')) (\<lambda>_.
     ebind (load_bundle_row x d (ak_bundle a)) (\<lambda>b.
     let durable = memberships d (ak_bundle a) in
     ebind (require (\<forall>(m, s) \<in> set durable. od_address m = ak_request a \<and> ob_actor s = ak_actor a)
              (AckRejected ''bundle route does not belong to request'')) (\<lambda>_.
     ebind (require (ack_deliveries_match b (length durable) (ak_deliveries a))
              (AckRejected ''ACK delivery IDs do not exactly match the bundle manifest'')) (\<lambda>_.
       ack_transition (ak_bundle a) (rb_state r) now d)))))))"

definition resolve_replay_bundle :: "ext \<Rightarrow> actor_id \<Rightarrow> request_id \<Rightarrow> db \<Rightarrow> error + replay_bundle_ref option" where
  "resolve_replay_bundle x a q d =
     (case inner_join (\<lambda>r s. lr_id s = rb_request r)
             (filter (\<lambda>r. rb_request r = q \<and> rb_state r = BnDelivered) (bundles d))
             (filter (\<lambda>s. lr_actor s = a) (local_requests d)) of
        [] \<Rightarrow> Inr None
      | (r, s) # _ \<Rightarrow> ebind (parse_id x (rb_id r)) (\<lambda>b.
          Inr (Some \<lparr>rp_actor = a, rp_request = q, rp_bundle = b\<rparr>)))"

definition load_replay_bundle :: "ext \<Rightarrow> replay_bundle_ref \<Rightarrow> db \<Rightarrow> error + result_bundle" where
  "load_replay_bundle x p d =
     ebind (require (list_ex (\<lambda>r. rb_id r = rp_bundle p \<and> rb_request r = rp_request p \<and> rb_state r = BnDelivered
              \<and> list_ex (\<lambda>s. lr_id s = rb_request r \<and> lr_actor s = rp_actor p \<and> lr_bundle s = Some (rb_id r))
                  (local_requests d)) (bundles d))
              (Bail ''replay reference no longer has actor-scoped bundle authority'')) (\<lambda>_.
     ebind (require (\<forall>(m, s) \<in> set (memberships d (rp_bundle p)). ob_actor s = rp_actor p)
              (Bail ''replay bundle contains delivery payloads owned by another actor'')) (\<lambda>_.
       load_bundle_row x d (rp_bundle p)))"

section \<open>The lifecycle of a bundle\<close>

text \<open>What one statement may do to the row of a bundle.\<close>

inductive row_move :: "bundle_row \<Rightarrow> bundle_row \<Rightarrow> bool" where
  stay: "row_move r r"
| claim: "deliverable now r \<Longrightarrow> row_move r (claim_row owner now until r)"
| renew: "rb_state r = BnDelivering \<Longrightarrow> rb_expires r \<noteq> None \<Longrightarrow> rb_owner r \<noteq> None \<Longrightarrow>
    row_move r (r\<lparr>rb_expires := Some until, rb_updated := now\<rparr>)"
| fail: "rb_state r = BnDelivering \<Longrightarrow> s = BnFailedRetryable \<or> s = BnFailedTerminal \<Longrightarrow>
    row_move r (fail_row s next err now r)"
| deliver: "rb_state r = BnDelivering \<or> rb_state r = BnFailedRetryable \<Longrightarrow>
    row_move r (r\<lparr>rb_state := BnDelivered, rb_owner := None, rb_expires := None, rb_next := None,
                   rb_error := None, rb_updated := now\<rparr>)"

inductive_cases row_moveE: "row_move r r'"

abbreviation row_moves :: "bundle_row \<Rightarrow> bundle_row \<Rightarrow> bool" where
  "row_moves \<equiv> row_move\<^sup>*\<^sup>*"

text \<open>An operation of the bundle store touches no other table, and its rows only by moves.\<close>

definition moves_bundles :: "db \<Rightarrow> db \<Rightarrow> bool" where
  "moves_bundles d d' \<longleftrightarrow> d' = d\<lparr>bundles := bundles d'\<rparr> \<and> list_all2 row_moves (bundles d) (bundles d')"

lemma moves_bundles_refl [simp]: "moves_bundles d d"
  by (simp add: moves_bundles_def list_all2_refl)

lemma moves_bundles_trans:
  assumes "moves_bundles d d1" and "moves_bundles d1 d2"
  shows "moves_bundles d d2"
proof -
  have "list_all2 row_moves (bundles d) (bundles d2)"
    by (rule list_all2_trans[OF _ assms(1)[unfolded moves_bundles_def, THEN conjunct2]
          assms(2)[unfolded moves_bundles_def, THEN conjunct2]]) simp
  moreover have "d2 = d1\<lparr>bundles := bundles d2\<rparr>" "d1 = d\<lparr>bundles := bundles d1\<rparr>"
    using assms by (simp_all add: moves_bundles_def)
  ultimately show ?thesis by (metis db.surjective db.update_convs(12) moves_bundles_def)
qed

lemma moves_update:
  assumes "\<And>r. p r \<Longrightarrow> row_move r (f r)"
  shows "moves_bundles d (d\<lparr>bundles := update_where p f (bundles d)\<rparr>)"
  using assms by (auto simp: moves_bundles_def update_where_def list_all2_map2 intro!: list_all2_refl)

lemma holds_claim_row: "holds_claim c now r \<Longrightarrow> rb_state r = BnDelivering \<and> rb_expires r \<noteq> None \<and> rb_owner r \<noteq> None"
  by (simp add: holds_claim_def)

lemma expire_claims_moves: "moves_bundles d (expire_claims now d)"
  unfolding expire_claims_def by (rule moves_update) (auto simp: claim_expired_def intro: row_move.fail)

lemma claim_candidate_moves:
  assumes "claim_candidate x owner requested now until limit c s = Inr s'"
  shows "moves_bundles (snd s) (snd s')"
proof -
  obtain b q claimed d where s: "c = (b, q)" "s = (claimed, d)" by (metis surj_pair)
  let ?p = "\<lambda>r. rb_id r = b \<and> deliverable now r"
  have "moves_bundles d (d\<lparr>bundles := update_where ?p (claim_row owner now until) (bundles d)\<rparr>)"
    by (rule moves_update) (auto intro: row_move.claim)
  then show ?thesis using assms
    by (auto simp: claim_candidate_def s Let_def ebind_eq_Inr split: if_splits)
qed

lemma claim_ready_moves:
  assumes "claim_ready_bundle_refs x owner requested now until limit d = Inr (claims, d')"
  shows "moves_bundles d d'"
proof -
  let ?d1 = "expire_claims now d"
  obtain cands where f: "efold (claim_candidate x owner requested now until (min limit 32)) cands ([], ?d1) = Inr (claims, d')"
    using assms by (auto simp: claim_ready_bundle_refs_def Let_def split: if_splits)
  have "moves_bundles ?d1 (snd (claims, d'))"
    by (rule efold_invariant[OF f, of "\<lambda>s. moves_bundles ?d1 (snd s)"])
       (auto intro: moves_bundles_trans dest: claim_candidate_moves)
  then show ?thesis using moves_bundles_trans[OF expire_claims_moves] by simp
qed

lemma renew_moves: "renew_bundle c now until d = Inr (out, d') \<Longrightarrow> moves_bundles d d'"
  by (auto simp: renew_bundle_def split: if_splits intro!: moves_update dest: holds_claim_row intro: row_move.renew)

lemma fail_retryable_moves: "fail_bundle_retryable c err next now d = Inr (out, d') \<Longrightarrow> moves_bundles d d'"
  by (auto simp: fail_bundle_retryable_def intro!: moves_update dest: holds_claim_row intro: row_move.fail)

lemma fail_terminal_moves: "fail_bundle_terminal c err now d = Inr (out, d') \<Longrightarrow> moves_bundles d d'"
  by (auto simp: fail_bundle_terminal_def split: if_splits intro!: moves_update dest: holds_claim_row intro: row_move.fail)

lemma fail_unreadable_moves: "fail_unreadable c e now d = Inr (out, d') \<Longrightarrow> moves_bundles d d'"
  by (cases e) (auto simp: fail_unreadable_def split: if_splits intro!: moves_update dest: holds_claim_row intro: row_move.fail)

lemma ack_transition_moves: "ack_transition b s now d = Inr (out, d') \<Longrightarrow> moves_bundles d d'"
  by (auto simp: ack_transition_def Let_def split: bundle_state.splits if_splits intro!: moves_update intro: row_move.deliver)

lemma acknowledge_moves: "acknowledge_bundle x a now d = Inr (out, d') \<Longrightarrow> moves_bundles d d'"
  by (auto simp: acknowledge_bundle_def ebind_eq_Inr Let_def dest: ack_transition_moves)

lemma find_bundle_Some:
  assumes "find_bundle d b = Some r"
  shows "r \<in> set (bundles d)" and "rb_id r = b"
  using find_Some_in[OF assms[unfolded find_bundle_def]] by simp_all

lemma load_claimed_moves:
  assumes "load_claimed_bundle x c now d = Inr (out, d')" and "distinct (map rb_id (bundles d))"
  shows "moves_bundles d d'"
proof (cases "find_bundle d (bc_bundle c)")
  case None
  then show ?thesis using assms(1) by (simp add: load_claimed_bundle_def)
next
  case (Some r)
  let ?fail = "fail_row BnFailedTerminal None ''request does not reciprocally own claimed bundle'' now"
  let ?d = "d\<lparr>bundles := update_where (\<lambda>r. rb_id r = bc_bundle c) ?fail (bundles d)\<rparr>"
  have same: "s = r" if "s \<in> set (bundles d)" "rb_id s = bc_bundle c" for s
    using distinct_key_eq[OF assms(2) that(1) find_bundle_Some(1)[OF Some]] that(2) find_bundle_Some(2)[OF Some] by simp
  have "moves_bundles d ?d" if "rb_state r = BnDelivering"
  proof -
    have "list_all2 row_moves (bundles d) (update_where (\<lambda>r. rb_id r = bc_bundle c) ?fail (bundles d))"
      unfolding update_where_def list_all2_map2
      by (rule list_all2_same[THEN iffD2]) (use same that in \<open>auto intro: row_move.fail\<close>)
    then show ?thesis by (simp add: moves_bundles_def)
  qed
  moreover have "d' = d \<or> (d' = ?d \<and> rb_state r = BnDelivering) \<or> (\<exists>e. fail_unreadable c e now d = Inr (out, d'))"
    using assms(1)[unfolded load_claimed_bundle_def Some option.case]
    by (cases "load_bundle_row x d (bc_bundle c)") (auto split: if_split_asm)
  ultimately show ?thesis using fail_unreadable_moves by auto
qed

text \<open>The steps of the bundle store. Reading a bundle is no step: it leaves the database as it is.\<close>

inductive bundle_step :: "ext \<Rightarrow> db \<Rightarrow> db \<Rightarrow> bool" for x where
  claim: "claim_ready_bundle_refs x owner requested now until limit d = Inr (claims, d') \<Longrightarrow> bundle_step x d d'"
| renew: "renew_bundle c now until d = Inr (renewal, d') \<Longrightarrow> bundle_step x d d'"
| load: "load_claimed_bundle x c now d = Inr (loaded, d') \<Longrightarrow> bundle_step x d d'"
| acknowledge: "acknowledge_bundle x a now d = Inr (acked, d') \<Longrightarrow> bundle_step x d d'"
| fail_retryable: "fail_bundle_retryable c err next now d = Inr (failed, d') \<Longrightarrow> bundle_step x d d'"
| fail_terminal: "fail_bundle_terminal c err now d = Inr (u, d') \<Longrightarrow> bundle_step x d d'"

lemma bundle_step_moves:
  "bundle_step x d d' \<Longrightarrow> distinct (map rb_id (bundles d)) \<Longrightarrow> moves_bundles d d'"
  by (induction rule: bundle_step.induct)
     (auto intro: claim_ready_moves renew_moves load_claimed_moves acknowledge_moves
        fail_retryable_moves fail_terminal_moves)

lemma row_move_keeps: "row_move r r' \<Longrightarrow> rb_id r' = rb_id r \<and> rb_request r' = rb_request r \<and>
    rb_count r' = rb_count r \<and> rb_manifest r' = rb_manifest r \<and> rb_created r' = rb_created r \<and> rb_attempts r \<le> rb_attempts r'"
  by (auto elim!: row_moveE simp: claim_row_def fail_row_def)

lemma row_moves_keeps: "row_moves r r' \<Longrightarrow> rb_id r' = rb_id r \<and> rb_request r' = rb_request r \<and>
    rb_count r' = rb_count r \<and> rb_manifest r' = rb_manifest r \<and> rb_created r' = rb_created r \<and> rb_attempts r \<le> rb_attempts r'"
proof (induction rule: rtranclp_induct)
  case base
  then show ?case by simp
next
  case (step y z)
  then show ?case using row_move_keeps[OF step(2)] by auto
qed

lemma moves_bundles_keys: "moves_bundles d d' \<Longrightarrow> map rb_id (bundles d') = map rb_id (bundles d)"
  by (auto simp: moves_bundles_def list_all2_conv_all_nth row_moves_keeps intro!: nth_equalityI)

lemma bundle_steps_move:
  assumes "(bundle_step x)\<^sup>*\<^sup>* d d'" and "distinct (map rb_id (bundles d))"
  shows "moves_bundles d d'"
  using assms
proof (induction rule: rtranclp_induct)
  case base
  then show ?case by simp
next
  case (step d1 d2)
  then have "distinct (map rb_id (bundles d1))" using moves_bundles_keys by simp
  then show ?case using step bundle_step_moves moves_bundles_trans by blast
qed

text \<open>The lifecycle the design describes, on states alone.\<close>

inductive lifecycle :: "bundle_state \<Rightarrow> bundle_state \<Rightarrow> bool" where
  "lifecycle BnPending BnDelivering"
| "lifecycle BnFailedRetryable BnDelivering"
| "lifecycle BnDelivering BnFailedRetryable"
| "lifecycle BnDelivering BnFailedTerminal"
| "lifecycle BnDelivering BnDelivered"
| "lifecycle BnFailedRetryable BnDelivered"

inductive_simps lifecycle_from_final [simp]: "lifecycle BnDelivered s" "lifecycle BnFailedTerminal s"

lemma row_move_lifecycle: "row_move r r' \<Longrightarrow> lifecycle\<^sup>=\<^sup>= (rb_state r) (rb_state r')"
  by (auto elim!: row_moveE simp: claim_row_def fail_row_def deliverable_def lifecycle.intros)

lemma row_moves_lifecycle: "row_moves r r' \<Longrightarrow> lifecycle\<^sup>*\<^sup>* (rb_state r) (rb_state r')"
proof (induction rule: rtranclp_induct)
  case base
  then show ?case by simp
next
  case (step y z)
  then show ?case using row_move_lifecycle[OF step(2)] by auto
qed

definition final_row :: "bundle_row \<Rightarrow> bool" where
  "final_row r \<longleftrightarrow> rb_state r = BnDelivered \<or> rb_state r = BnFailedTerminal"

lemma final_row_stays: "row_moves r r' \<Longrightarrow> final_row r \<Longrightarrow> r' = r"
proof (induction rule: rtranclp_induct)
  case base
  then show ?case by simp
next
  case (step y z)
  then show ?case by (auto elim!: row_moveE simp: final_row_def deliverable_def)
qed

definition claim_fields_ok :: "bundle_row \<Rightarrow> bool" where
  "claim_fields_ok r \<longleftrightarrow> (rb_owner r \<noteq> None) = (rb_state r = BnDelivering) \<and> (rb_expires r \<noteq> None) = (rb_state r = BnDelivering)"

lemma claim_fields_move: "row_moves r r' \<Longrightarrow> claim_fields_ok r \<Longrightarrow> claim_fields_ok r'"
proof (induction rule: rtranclp_induct)
  case base
  then show ?case by simp
next
  case (step y z)
  then show ?case
    by (auto elim!: row_moveE simp: claim_fields_ok_def claim_row_def fail_row_def deliverable_def)
qed

section \<open>Claims fence\<close>

definition claim_held :: "db \<Rightarrow> bundle_claim \<Rightarrow> timestamp \<Rightarrow> bool" where
  "claim_held d c now = list_ex (holds_claim c now) (bundles d)"

lemma not_held:
  assumes "\<not> claim_held d c now"
  shows "update_where (holds_claim c now) f (bundles d) = bundles d" and "changed (holds_claim c now) (bundles d) = 0"
  using assms by (auto simp: claim_held_def list_ex_iff changed_eq_0 intro: update_where_id)

interpretation renewal: fenced "\<lambda>c now d. renew_bundle c now until d" claim_held for until
  by unfold_locales (auto simp: renew_bundle_def not_held)

interpretation retryable: fenced "\<lambda>c now d. fail_bundle_retryable c err next now d" claim_held for err "next"
  by unfold_locales (auto simp: fail_bundle_retryable_def not_held)

interpretation terminal: fenced "\<lambda>c now d. fail_bundle_terminal c err now d" claim_held for err
  by unfold_locales (auto simp: fail_bundle_terminal_def not_held)

interpretation loading: fenced "\<lambda>c now d. load_claimed_bundle x c now d" claim_held for x
proof unfold_locales
  fix d c now
  assume n: "\<not> claim_held d c now"
  show "commit_state d (load_claimed_bundle x c now d) = d"
  proof (cases "find_bundle d (bc_bundle c)")
    case None
    then show ?thesis by (simp add: load_claimed_bundle_def)
  next
    case (Some r)
    have "\<not> holds_claim c now r" using n find_bundle_Some[OF Some] by (auto simp: claim_held_def list_ex_iff)
    then show ?thesis using Some find_bundle_Some[OF Some] by (auto simp: load_claimed_bundle_def holds_claim_def)
  qed
qed

lemma claim_unique:
  assumes "distinct (map rb_id (bundles d))" and "claim_held d c now" and "claim_held d c' t" and "bc_bundle c' = bc_bundle c"
  shows "c' = c"
proof -
  obtain r r' where r: "r \<in> set (bundles d)" "holds_claim c now r" "r' \<in> set (bundles d)" "holds_claim c' t r'"
    using assms(2,3) by (auto simp: claim_held_def list_ex_iff)
  have "r' = r" using distinct_key_eq[OF assms(1) r(3,1)] r(2,4) assms(4) by (simp add: holds_claim_def)
  then show ?thesis using r assms(4) by (simp add: holds_claim_def)
qed

definition claims_granted ::
    "string \<Rightarrow> request_id list \<Rightarrow> timestamp \<Rightarrow> timestamp \<Rightarrow> nat \<Rightarrow> claimed_bundle_ref list \<times> db \<Rightarrow> bool" where
  "claims_granted owner requested now until limit = (\<lambda>(claims, d). length claims \<le> limit \<and>
     (\<forall>ref \<in> set claims. bc_owner (cb_claim ref) = owner \<and> bc_expires (cb_claim ref) = until
        \<and> (\<exists>r \<in> set (bundles d). holds_claim (cb_claim ref) now r \<and> rb_request r \<in> set requested)))"

lemma claim_candidate_grants:
  assumes "claim_candidate x owner requested now until limit (b, q) s = Inr s'"
    and "claims_granted owner requested now until limit s" and "now < until"
    and "distinct (map rb_id (bundles (snd s)))" and "parse_uuid x b = Some b"
    and "\<And>r. r \<in> set (bundles (snd s)) \<Longrightarrow> rb_id r = b \<Longrightarrow> rb_request r = q"
  shows "claims_granted owner requested now until limit s'"
proof -
  obtain claimed d where s: "s = (claimed, d)" by (metis surj_pair)
  let ?p = "\<lambda>r. rb_id r = b \<and> deliverable now r"
  let ?d = "d\<lparr>bundles := update_where ?p (claim_row owner now until) (bundles d)\<rparr>"
  have kept: "r \<in> set (bundles ?d)" if "r \<in> set (bundles d)" "holds_claim c now r" for r c
    using that by (auto simp: set_update_where holds_claim_def deliverable_def image_iff intro!: bexI[of _ r])
  have old: "claims_granted owner requested now until limit (claimed, ?d)"
    using assms(2) kept unfolding s claims_granted_def by fast
  show ?thesis
  proof (cases "limit \<le> length claimed \<or> q \<notin> set requested \<or> changed ?p (bundles d) \<noteq> 1")
    case True
    then show ?thesis using assms(1,2) old by (auto simp: s claim_candidate_def Let_def split: if_splits)
  next
    case False
    then have q: "q \<in> set requested" and ch: "changed ?p (bundles d) = Suc 0" and lim: "length claimed < limit" by auto
    then obtain r where r: "find_bundle ?d b = Some r"
      and s': "\<exists>q'. s' = (claimed @ [\<lparr>cb_claim = \<lparr>bc_bundle = b, bc_owner = owner, bc_expires = until\<rparr>,
                                  cb_request = q', cb_attempts = rb_attempts r\<rparr>], ?d)"
      using assms(1,5) by (auto simp: s claim_candidate_def Let_def ebind_eq_Inr parse_id_def)
    obtain r0 where r0: "r0 \<in> set (bundles d)" "?p r0" using ch by (rule changed_oneE)
    have "claim_row owner now until r0 \<in> set (bundles ?d)"
      using r0 by (auto simp: set_update_where image_iff intro!: bexI[of _ r0])
    moreover have "holds_claim \<lparr>bc_bundle = b, bc_owner = owner, bc_expires = until\<rparr> now (claim_row owner now until r0)"
      using r0 assms(3) by (simp add: holds_claim_def claim_row_def)
    moreover have "rb_request (claim_row owner now until r0) = q"
      using assms(6)[of r0] r0 by (simp add: s claim_row_def)
    ultimately have new: "\<exists>r \<in> set (bundles ?d). holds_claim \<lparr>bc_bundle = b, bc_owner = owner, bc_expires = until\<rparr> now r
        \<and> rb_request r \<in> set requested" using q by blast
    obtain q' where "s' = (claimed @ [\<lparr>cb_claim = \<lparr>bc_bundle = b, bc_owner = owner, bc_expires = until\<rparr>,
                                  cb_request = q', cb_attempts = rb_attempts r\<rparr>], ?d)" using s' by blast
    then show ?thesis using old new lim by (auto simp: claims_granted_def)
  qed
qed

lemma moves_bundles_row:
  assumes "moves_bundles d d'" and "r' \<in> set (bundles d')"
  obtains r where "r \<in> set (bundles d)" and "row_moves r r'"
proof -
  obtain i where "i < length (bundles d')" "r' = bundles d' ! i" using assms(2) by (auto simp: in_set_conv_nth)
  then have "bundles d ! i \<in> set (bundles d)" "row_moves (bundles d ! i) r'"
    using assms(1) by (auto simp: moves_bundles_def list_all2_conv_all_nth)
  then show ?thesis by (rule that)
qed

lemma parsed_ids_move:
  assumes "moves_bundles d d'" and "\<forall>r \<in> set (bundles d). parse_uuid x (rb_id r) = Some (rb_id r)"
  shows "\<forall>r \<in> set (bundles d'). parse_uuid x (rb_id r) = Some (rb_id r)"
  using assms(2) moves_bundles_keys[OF assms(1)] by (metis (mono_tags, lifting) image_iff list.set_map)

lemma claim_ready_grants:
  assumes "claim_ready_bundle_refs x owner requested now until limit d = Inr (claims, d')"
    and "distinct (map rb_id (bundles d))" and "\<forall>r \<in> set (bundles d). parse_uuid x (rb_id r) = Some (rb_id r)"
  shows "claims_granted owner requested now until (min limit 32) (claims, d')"
proof -
  let ?d1 = "expire_claims now d"
  let ?cands = "map (\<lambda>r. (rb_id r, rb_request r)) (sort_key (\<lambda>r. (rb_created r, rb_id r)) (filter (deliverable now) (bundles ?d1)))"
  have f: "efold (claim_candidate x owner requested now until (min limit 32)) ?cands ([], ?d1) = Inr (claims, d')" and t: "now < until"
    using assms(1) by (auto simp: claim_ready_bundle_refs_def Let_def split: if_splits)
  note d1 = expire_claims_moves[of d now]
  have keys: "distinct (map rb_id (bundles ?d1))" using assms(2) moves_bundles_keys[OF d1] by simp
  note ids = parsed_ids_move[OF d1 assms(3)]
  let ?I = "\<lambda>s. claims_granted owner requested now until (min limit 32) s \<and> moves_bundles ?d1 (snd s)"
  have "?I (claims, d')"
  proof (rule efold_invariant[OF f, of ?I])
    show "?I ([], ?d1)" by (simp add: claims_granted_def)
  next
    fix c s s'
    assume c: "c \<in> set ?cands" and I: "?I s" and step: "claim_candidate x owner requested now until (min limit 32) c s = Inr s'"
    obtain r0 where r0: "r0 \<in> set (bundles ?d1)" "c = (rb_id r0, rb_request r0)" using c by auto
    have same: "rb_request r = rb_request r0" if mem: "r \<in> set (bundles (snd s))" "rb_id r = rb_id r0" for r
    proof -
      obtain r1 where r1: "r1 \<in> set (bundles ?d1)" "row_moves r1 r"
        by (rule moves_bundles_row[OF conjunct2[OF I] mem(1)])
      then have "r1 = r0" using distinct_key_eq[OF keys r1(1) r0(1)] row_moves_keeps mem(2) by simp
      then show ?thesis using row_moves_keeps[OF r1(2)] by simp
    qed
    have "claims_granted owner requested now until (min limit 32) s'"
      by (rule claim_candidate_grants[OF step[unfolded r0(2)]])
         (use I t ids r0 same keys moves_bundles_keys[of ?d1 "snd s"] in auto)
    then show "?I s'" using I claim_candidate_moves[OF step] moves_bundles_trans by blast
  qed
  then show ?thesis by blast
qed

text \<open>Only a bundle that is due is claimed, whoever asks.\<close>

lemma claim_ready_due:
  assumes "claim_ready_bundle_refs x owner requested now until limit d = Inr (claims, d')" and "ref \<in> set claims"
    and "\<forall>r \<in> set (bundles d). parse_uuid x (rb_id r) = Some (rb_id r)"
  shows "\<exists>r \<in> set (bundles (expire_claims now d)). rb_id r = bc_bundle (cb_claim ref) \<and> deliverable now r"
proof -
  let ?d1 = "expire_claims now d"
  let ?cands = "map (\<lambda>r. (rb_id r, rb_request r)) (sort_key (\<lambda>r. (rb_created r, rb_id r)) (filter (deliverable now) (bundles ?d1)))"
  let ?I = "\<lambda>s. \<forall>ref \<in> set (fst s). \<exists>r \<in> set (bundles ?d1). rb_id r = bc_bundle (cb_claim ref) \<and> deliverable now r"
  have f: "efold (claim_candidate x owner requested now until (min limit 32)) ?cands ([], ?d1) = Inr (claims, d')"
    using assms(1) by (auto simp: claim_ready_bundle_refs_def Let_def split: if_splits)
  note ids = parsed_ids_move[OF expire_claims_moves assms(3)]
  have "?I (claims, d')"
  proof (rule efold_invariant[OF f, of ?I])
    fix c s s'
    assume c: "c \<in> set ?cands" and I: "?I s" and step: "claim_candidate x owner requested now until (min limit 32) c s = Inr s'"
    obtain r0 where r0: "r0 \<in> set (bundles ?d1)" "deliverable now r0" "c = (rb_id r0, rb_request r0)" using c by auto
    have "parse_uuid x (rb_id r0) = Some (rb_id r0)" using ids r0(1) by blast
    then have "fst s' = fst s \<or> (\<exists>ref. fst s' = fst s @ [ref] \<and> bc_bundle (cb_claim ref) = rb_id r0)"
      using step unfolding r0(3) by (cases s) (auto simp: claim_candidate_def Let_def ebind_eq_Inr parse_id_def from_option_def split: if_splits)
    then show "?I s'" using I r0(1,2) by (elim disjE exE) (simp, simp, blast)
  qed simp
  then show ?thesis using assms(2) by simp
qed

lemma held_not_due:
  assumes "claim_held d c t" and "distinct (map rb_id (bundles d))" and "r \<in> set (bundles (expire_claims t d))" and "rb_id r = bc_bundle c"
  shows "\<not> deliverable t r"
proof -
  obtain r0 where r0: "r0 \<in> set (bundles d)" "holds_claim c t r0" using assms(1) by (auto simp: claim_held_def list_ex_iff)
  obtain r1 where r1: "r1 \<in> set (bundles d)"
    "r = (if claim_expired t r1 then fail_row BnFailedRetryable (Some t) ''bundle claim expired before acknowledgement'' t r1 else r1)"
    using assms(3) by (auto simp: expire_claims_def elim!: in_update_whereE)
  have "rb_id r1 = rb_id r0" using r1(2) r0(2) assms(4) by (auto simp: fail_row_def holds_claim_def split: if_splits)
  then have "r1 = r0" using distinct_key_eq[OF assms(2) r1(1) r0(1)] by simp
  then show ?thesis using r0(2) r1(2) by (auto simp: holds_claim_def claim_expired_def deliverable_def)
qed

section \<open>What the bundle store guarantees\<close>


text \<open>
  C32. The store refines the lifecycle. Over any sequence of operations of the bundle store no
  other table changes, no bundle is added, removed or given another request or content, and the
  state of each follows the edges of the lifecycle.
\<close>

theorem bundle_store_refines_lifecycle:
  assumes "(bundle_step x)\<^sup>*\<^sup>* d d'" and "distinct (map rb_id (bundles d))"
  shows "d' = d\<lparr>bundles := bundles d'\<rparr>
     \<and> list_all2 (\<lambda>r r'. rb_id r' = rb_id r \<and> rb_request r' = rb_request r \<and> rb_count r' = rb_count r
          \<and> rb_manifest r' = rb_manifest r \<and> rb_attempts r \<le> rb_attempts r'
          \<and> lifecycle\<^sup>*\<^sup>* (rb_state r) (rb_state r')) (bundles d) (bundles d')"
proof -
  have m: "moves_bundles d d'" by (rule bundle_steps_move[OF assms])
  show ?thesis
    using m list_all2_mono[OF m[unfolded moves_bundles_def, THEN conjunct2]] row_moves_keeps row_moves_lifecycle
    by (auto simp: moves_bundles_def)
qed

text \<open>
  Delivered is final, and so is a terminal failure: no sequence of operations changes such a
  bundle again in any column.
\<close>

lemma bundle_outcome_is_final:
  assumes "(bundle_step x)\<^sup>*\<^sup>* d d'" and "distinct (map rb_id (bundles d))"
    and "r \<in> set (bundles d)" and "rb_state r = BnDelivered \<or> rb_state r = BnFailedTerminal"
  shows "\<forall>r' \<in> set (bundles d'). rb_id r' = rb_id r \<longrightarrow> r' = r"
proof (intro ballI impI)
  fix r'
  assume r': "r' \<in> set (bundles d')" "rb_id r' = rb_id r"
  obtain r0 where r0: "r0 \<in> set (bundles d)" "row_moves r0 r'"
    using moves_bundles_row[OF bundle_steps_move[OF assms(1,2)] r'(1)] .
  then have "r0 = r" using distinct_key_eq[OF assms(2) r0(1) assms(3)] row_moves_keeps[OF r0(2)] r'(2) by simp
  then show "r' = r" using final_row_stays r0(2) assms(4) by (simp add: final_row_def)
qed

text \<open>
  A bundle has an owner and an expiry exactly while it is being delivered: every operation
  keeps this of every bundle.
\<close>

lemma bundle_claim_fields_invariant:
  assumes "(bundle_step x)\<^sup>*\<^sup>* d d'" and "distinct (map rb_id (bundles d))"
    and "\<forall>r \<in> set (bundles d). (rb_owner r \<noteq> None) = (rb_state r = BnDelivering)
                                \<and> (rb_expires r \<noteq> None) = (rb_state r = BnDelivering)"
  shows "\<forall>r \<in> set (bundles d'). (rb_owner r \<noteq> None) = (rb_state r = BnDelivering)
                                \<and> (rb_expires r \<noteq> None) = (rb_state r = BnDelivering)"
proof
  fix r'
  assume "r' \<in> set (bundles d')"
  then obtain r0 where r0: "r0 \<in> set (bundles d)" "row_moves r0 r'"
    by (rule moves_bundles_row[OF bundle_steps_move[OF assms(1,2)]])
  then show "(rb_owner r' \<noteq> None) = (rb_state r' = BnDelivering) \<and> (rb_expires r' \<noteq> None) = (rb_state r' = BnDelivering)"
    using claim_fields_move[OF r0(2)] assms(3) by (auto simp: claim_fields_ok_def)
qed

section \<open>Acknowledgements\<close>

lemma find_bundle_moves:
  assumes "moves_bundles d d'"
  shows "rel_option row_moves (find_bundle d b) (find_bundle d' b)"
proof -
  have "rel_option row_moves (List.find (\<lambda>r. rb_id r = b) rs) (List.find (\<lambda>r. rb_id r = b) rs')"
    if "list_all2 row_moves rs rs'" for rs rs'
    using that by (induction rule: list_all2_induct) (auto dest: row_moves_keeps)
  then show ?thesis using assms by (simp add: moves_bundles_def find_bundle_def)
qed

lemma load_bundle_row_moves:
  assumes "load_bundle_row x d b = Inr bu" and "moves_bundles d d'" and "find_bundle d' b = Some r'"
  shows "load_bundle_row x d' b = Inr (bu\<lparr>bu_state := rb_state r'\<rparr>)"
proof -
  obtain r where r: "find_bundle d b = Some r" "row_moves r r'"
    using find_bundle_moves[OF assms(2), of b] assms(3) by (auto elim: option.rel_cases)
  have "d' = d\<lparr>bundles := bundles d'\<rparr>" using assms(2) by (simp add: moves_bundles_def)
  then have "memberships d' b = memberships d b" by (metis memberships_def db.select_convs(13,14) db.surjective db.update_convs(12))
  then show ?thesis using assms(1,3) r row_moves_keeps[OF r(2)]
    by (auto simp: load_bundle_row_def ebind_eq_Inr Let_def)
qed

lemma emap_memberships: "emap (read_membership x q) ps = Inr ds \<Longrightarrow> length ds = length ps"
  by (auto simp: emap_eq_Inr dest: list_all2_lengthD)

lemma manifest_for_Inr:
  assumes "manifest_for x ds = Inr m"
  shows "mf_entries m = map (manifest_entry_for x) ds" and "0 < length ds" and "length ds \<le> MAX_BUNDLE_DELIVERIES"
  using assms by (auto simp: manifest_for_def Let_def ebind_eq_Inr split: if_splits)

lemma load_bundle_row_Inr:
  assumes "load_bundle_row x d b = Inr bu"
  obtains r where "find_bundle d b = Some r" "bu_state bu = rb_state r"
    "length (bu_deliveries bu) = length (memberships d b)"
    "map me_delivery (mf_entries (bu_manifest bu)) = map fst (bu_deliveries bu)"
proof -
  obtain r ds m where r: "find_bundle d b = Some r"
    and ds: "emap (read_membership x (rb_request r)) (zip [0..<length (memberships d b)] (memberships d b)) = Inr ds"
    and m: "manifest_for x ds = Inr m" and bu: "bu_state bu = rb_state r" "bu_deliveries bu = ds" "bu_manifest bu = m"
    using assms by (auto simp: load_bundle_row_def ebind_eq_Inr Let_def)
  have "map me_delivery (mf_entries m) = map fst ds"
    by (simp add: manifest_for_Inr(1)[OF m] manifest_entry_for_def Let_def)
  then show ?thesis using that[OF r] bu emap_memberships[OF ds] by simp
qed

text \<open>What an accepted acknowledgement says and does.\<close>

lemma acknowledgement_delivers:
  assumes "acknowledge_bundle x a now d = Inr (out, d')" and "distinct (map rb_id (bundles d))"
  shows "(\<exists>b. load_bundle_row x d (ak_bundle a) = Inr b \<and> distinct (ak_deliveries a)
            \<and> set (ak_deliveries a) = set (map fst (bu_deliveries b)) \<and> distinct (map fst (bu_deliveries b)))
     \<and> (\<exists>r. find_bundle d' (ak_bundle a) = Some r \<and> rb_state r = BnDelivered \<and> rb_request r = ak_request a)
     \<and> acknowledge_bundle x a later d' = Inr (AkAlreadyDelivered, d')"
proof -
  obtain r q b where f: "find_bundle d (ak_bundle a) = Some r" "bundle_request d r = Some q"
    and q: "rb_request r = ak_request a" "lr_actor q = ak_actor a" "lr_bundle q = Some (ak_bundle a)"
    and b: "load_bundle_row x d (ak_bundle a) = Inr b"
    and dur: "\<forall>(m, s) \<in> set (memberships d (ak_bundle a)). od_address m = ak_request a \<and> ob_actor s = ak_actor a"
    and mt: "ack_deliveries_match b (length (memberships d (ak_bundle a))) (ak_deliveries a)"
    and t: "ack_transition (ak_bundle a) (rb_state r) now d = Inr (out, d')"
    using assms(1) by (auto simp: acknowledge_bundle_def ebind_eq_Inr Let_def bind_eq_Some_conv)
  note m = ack_transition_moves[OF t]
  obtain r' where r': "find_bundle d' (ak_bundle a) = Some r'" "row_moves r r'"
    using find_bundle_moves[OF m, of "ak_bundle a"] f(1) by (auto elim: option.rel_cases)
  have frame: "d' = d\<lparr>bundles := bundles d'\<rparr>" using m by (simp add: moves_bundles_def)
  have mem: "r' \<in> set (bundles d')" "rb_id r' = ak_bundle a" using find_bundle_Some[OF r'(1)] by simp_all
  have st: "rb_state r' = BnDelivered"
  proof (cases "rb_state r = BnDelivered")
    case True
    then show ?thesis using final_row_stays[OF r'(2)] by (simp add: final_row_def)
  next
    case False
    let ?p = "\<lambda>r. rb_id r = ak_bundle a \<and> (rb_state r = BnDelivering \<or> rb_state r = BnFailedRetryable)"
    have s: "rb_state r = BnDelivering \<or> rb_state r = BnFailedRetryable"
      using False t by (cases "rb_state r") (auto simp: ack_transition_def)
    have d': "bundles d' = update_where ?p (\<lambda>r. r\<lparr>rb_state := BnDelivered, rb_owner := None, rb_expires := None,
        rb_next := None, rb_error := None, rb_updated := now\<rparr>) (bundles d)"
      using s t by (auto simp: ack_transition_def Let_def split: if_splits)
    obtain r1 where r1: "r1 \<in> set (bundles d)" "r' = (if ?p r1 then r1\<lparr>rb_state := BnDelivered, rb_owner := None,
        rb_expires := None, rb_next := None, rb_error := None, rb_updated := now\<rparr> else r1)"
      using mem(1) unfolding d' by (rule in_update_whereE)
    have "r1 = r" using distinct_key_eq[OF assms(2) r1(1) find_bundle_Some(1)[OF f(1)]] mem(2) r1(2) find_bundle_Some(2)[OF f(1)]
      by (auto split: if_splits)
    then show ?thesis using r1(2) s find_bundle_Some(2)[OF f(1)] by simp
  qed
  have mems: "memberships d' (ak_bundle a) = memberships d (ak_bundle a)" "bundle_request d' r' = bundle_request d r"
    by (subst frame; simp add: memberships_def bundle_request_def row_moves_keeps[OF r'(2)])+
  note load' = load_bundle_row_moves[OF b m r'(1)]
  have mt': "ack_deliveries_match (b\<lparr>bu_state := rb_state r'\<rparr>) (length (memberships d (ak_bundle a))) (ak_deliveries a)"
  proof -
    have "bu_manifest (b\<lparr>bu_state := rb_state r'\<rparr>) = bu_manifest b" by simp
    then show ?thesis using mt by (simp only: ack_deliveries_match_def)
  qed
  have again: "acknowledge_bundle x a later d' = Inr (AkAlreadyDelivered, d')"
    using q f(2) dur mt' st row_moves_keeps[OF r'(2)]
    by (simp add: acknowledge_bundle_def r'(1) mems load' ack_transition_def Let_def case_prod_beta)
  obtain len: "length (bu_deliveries b) = length (memberships d (ak_bundle a))"
    and ids: "map me_delivery (mf_entries (bu_manifest b)) = map fst (bu_deliveries b)"
    by (rule load_bundle_row_Inr[OF b])
  have "distinct (ak_deliveries a)" "set (ak_deliveries a) = set (map fst (bu_deliveries b))" "distinct (map fst (bu_deliveries b))"
    using mt[unfolded ack_deliveries_match_def Let_def ids] len by (auto intro: card_distinct)
  moreover have "rb_request r' = ak_request a" using q(1) row_moves_keeps[OF r'(2)] by simp
  ultimately show ?thesis using b r'(1) st again by blast
qed

text \<open>
  C36. An acknowledgement is exact and repeatable. It is accepted only for the request and actor
  of a readable bundle and only with each delivery of its manifest named once; afterwards the
  bundle is delivered, and acknowledging it again reports so and changes nothing.
\<close>

theorem acknowledgement_exact:
  assumes "acknowledge_bundle x a now d = Inr (out, d')" and "distinct (map rb_id (bundles d))"
  shows "(\<exists>b. load_bundle_row x d (ak_bundle a) = Inr b \<and> distinct (ak_deliveries a)
            \<and> set (ak_deliveries a) = set (map fst (bu_deliveries b)) \<and> distinct (map fst (bu_deliveries b)))
     \<and> (\<exists>r. find_bundle d' (ak_bundle a) = Some r \<and> rb_state r = BnDelivered \<and> rb_request r = ak_request a)
     \<and> acknowledge_bundle x a later d' = Inr (AkAlreadyDelivered, d')"
  using acknowledgement_delivers[OF assms] .

section \<open>Bounds of a manifest\<close>

lemma checked_sum: "efold checked_add ns a = (if a + sum_list ns \<le> usize_max then Inr (a + sum_list ns)
    else Inl (Bail ''bundle decoded byte count overflow''))" if "a \<le> usize_max"
  using that by (induction ns arbitrary: a) (auto simp: checked_add_def)

lemma div_ceil_bounds: "n \<le> div_ceil n m * m \<and> (0 < n \<longrightarrow> (div_ceil n m - 1) * m < n)" if "0 < m"
proof -
  have "div_ceil n m * m + (n + m - 1) mod m = n + m - 1" "(n + m - 1) mod m < m"
    using div_mult_mod_eq[of "n + m - 1" m] mod_less_divisor[OF that, of "n + m - 1"] by (simp_all add: div_ceil_def)
  then have "n \<le> div_ceil n m * m" by linarith
  moreover have "(div_ceil n m - 1) * m < n" if "0 < n"
  proof -
    have "div_ceil n m * m \<le> n + m - 1" by (simp add: div_ceil_def)
    then show ?thesis using \<open>0 < m\<close> that by (simp add: diff_mult_distrib)
  qed
  ultimately show ?thesis by blast
qed

text \<open>
  A manifest exists exactly within the limits: between 1 and 1024 deliveries, at most 16 MiB
  of encoded payloads and at most 256 KiB of canonical manifest. It lists the deliveries in order,
  and an entry's chunk count is the least number of 192 KiB chunks that hold its payload.
\<close>

theorem manifest_bounds:
  "(\<exists>m. manifest_for x ds = Inr m) = (0 < length ds \<and> length ds \<le> 1024
       \<and> (\<Sum>p\<leftarrow>ds. length (write_final x (snd p))) \<le> 16777216
       \<and> length (write_manifest x (map (manifest_entry_for x) ds)) \<le> 262144)
   \<and> (\<forall>m. manifest_for x ds = Inr m \<longrightarrow> map me_delivery (mf_entries m) = map fst ds
       \<and> mf_sha256 m = sha256_hex x (write_manifest x (mf_entries m))
       \<and> (\<forall>e \<in> set (mf_entries m). me_bytes e \<le> me_chunks e * 196608
            \<and> (0 < me_bytes e \<longrightarrow> (me_chunks e - 1) * 196608 < me_bytes e)))"
proof -
  have bytes: "sum_list (map me_bytes (map (manifest_entry_for x) ds)) = (\<Sum>p\<leftarrow>ds. length (write_final x (snd p)))"
    by (simp add: manifest_entry_for_def Let_def o_def)
  have limit: "(16777216 :: nat) \<le> usize_max" by (simp add: usize_max_def)
  have sum: "efold checked_add (map me_bytes (map (manifest_entry_for x) ds)) 0 =
      (if (\<Sum>p\<leftarrow>ds. length (write_final x (snd p))) \<le> usize_max then Inr (\<Sum>p\<leftarrow>ds. length (write_final x (snd p)))
       else Inl (Bail ''bundle decoded byte count overflow''))"
    using checked_sum[of 0 "map me_bytes (map (manifest_entry_for x) ds)"] bytes by simp
  have shape: "manifest_for x ds = (if ds = [] \<or> 1024 < length ds then Inl (Bail ''bundle delivery count is outside 1..=1024'')
      else ebind (efold checked_add (map me_bytes (map (manifest_entry_for x) ds)) 0) (\<lambda>n.
           ebind (validate_bundle_bytes n) (\<lambda>_.
           ebind (validate_manifest_bytes (length (write_manifest x (map (manifest_entry_for x) ds)))) (\<lambda>_.
             Inr \<lparr>mf_entries = map (manifest_entry_for x) ds,
                  mf_sha256 = sha256_hex x (write_manifest x (map (manifest_entry_for x) ds))\<rparr>))))"
    by (simp add: manifest_for_def Let_def MAX_BUNDLE_DELIVERIES_def)
  have iff: "(\<exists>m. manifest_for x ds = Inr m) = (0 < length ds \<and> length ds \<le> 1024
       \<and> (\<Sum>p\<leftarrow>ds. length (write_final x (snd p))) \<le> 16777216
       \<and> length (write_manifest x (map (manifest_entry_for x) ds)) \<le> 262144)"
    using limit unfolding shape sum
    by (auto simp: ebind_eq_Inr validate_bundle_bytes_def validate_manifest_bytes_def MAX_BUNDLE_BYTES_def MAX_MANIFEST_BYTES_def)
  have chunks: "me_bytes e \<le> me_chunks e * 196608 \<and> (0 < me_bytes e \<longrightarrow> (me_chunks e - 1) * 196608 < me_bytes e)"
    if "e \<in> manifest_entry_for x ` set ds" for e
    using that div_ceil_bounds[of 196608] by (auto simp: manifest_entry_for_def Let_def MAX_FINAL_CHUNK_BYTES_def)
  have "map me_delivery (mf_entries m) = map fst ds \<and> mf_sha256 m = sha256_hex x (write_manifest x (mf_entries m))"
    and "mf_entries m = map (manifest_entry_for x) ds" if "manifest_for x ds = Inr m" for m
    using that manifest_for_Inr(1)[OF that] unfolding shape
    by (auto simp: ebind_eq_Inr manifest_entry_for_def Let_def split: if_splits)
  then show ?thesis using iff chunks by auto
qed

section \<open>Witnesses\<close>

definition sample_bundle :: bundle_row where
  "sample_bundle = \<lparr>rb_id = ''b'', rb_request = ''q1'', rb_count = 1, rb_manifest = replicate 64 CHR ''0'',
     rb_state = BnPending, rb_attempts = 0, rb_next = None, rb_owner = None, rb_expires = None,
     rb_error = None, rb_created = 1, rb_updated = 1\<rparr>"

definition sample_bundles :: db where
  "sample_bundles = empty_db\<lparr>bundles := [sample_bundle],
     local_requests := [\<lparr>lr_id = ''q1'', lr_actor = ''a'', lr_event = ''e'', lr_work = Some ''w'', lr_prompt = ''p'',
        lr_state = LrCompleted, lr_bundle = Some ''b'', lr_created = 0, lr_updated = 1\<rparr>],
     outbox := [\<lparr>ob_id = ''o'', ob_key = ''k'', ob_actor = ''a'', ob_work = ''w'', ob_run = ''r'', ob_class = ''final'',
        ob_audience = ActorPrivate, ob_payload = ''Thi'', ob_created = 1\<rparr>],
     outbox_deliveries := [\<lparr>od_id = ''d'', od_outbox = ''o'', od_bundle = ''b'', od_ordinal = 0, od_address = ''q1'', od_created = 1\<rparr>]\<rparr>"

definition sample_claim :: bundle_claim where
  "sample_claim = \<lparr>bc_bundle = ''b'', bc_owner = ''p'', bc_expires = 100\<rparr>"

definition sample_ack :: bundle_ack where
  "sample_ack = \<lparr>ak_actor = ''a'', ak_request = ''q1'', ak_bundle = ''b'', ak_deliveries = [''d'']\<rparr>"

lemma sample_bundles_ok:
  "distinct (map rb_id (bundles sample_bundles))"
  "\<forall>r \<in> set (bundles sample_bundles). parse_uuid sample_ext (rb_id r) = Some (rb_id r)"
  "\<forall>r \<in> set (bundles sample_bundles). (rb_owner r \<noteq> None) = (rb_state r = BnDelivering)
      \<and> (rb_expires r \<noteq> None) = (rb_state r = BnDelivering)"
  by code_simp+

text \<open>The bundle is claimed until 100 and acknowledged at 60.\<close>

definition sample_claimed :: db where
  "sample_claimed = commit_state sample_bundles (claim_ready_bundle_refs sample_ext ''p'' [''q1''] 50 100 8 sample_bundles)"

definition sample_acked :: db where
  "sample_acked = commit_state sample_claimed (acknowledge_bundle sample_ext sample_ack 60 sample_claimed)"

lemma sample_claim_granted:
  obtains ref where "claim_ready_bundle_refs sample_ext ''p'' [''q1''] 50 100 8 sample_bundles = Inr ([ref], sample_claimed)"
    "cb_claim ref = sample_claim"
proof -
  have "case claim_ready_bundle_refs sample_ext ''p'' [''q1''] 50 100 8 sample_bundles of
      Inr (refs, d1) \<Rightarrow> map cb_claim refs = [sample_claim] | Inl e \<Rightarrow> False"
    by code_simp
  from tx_succeeds[OF this, of sample_bundles] obtain refs where
    "claim_ready_bundle_refs sample_ext ''p'' [''q1''] 50 100 8 sample_bundles = Inr (refs, sample_claimed)"
    "map cb_claim refs = [sample_claim]" by (auto simp: sample_claimed_def)
  then show ?thesis using that by auto
qed

lemma sample_claim_again:
  obtains d1 where "claim_ready_bundle_refs sample_ext ''p2'' [''q1''] 60 200 8 sample_claimed = Inr ([], d1)"
proof -
  have "case claim_ready_bundle_refs sample_ext ''p2'' [''q1''] 60 200 8 sample_claimed of
      Inr (refs, d1) \<Rightarrow> refs = [] | Inl e \<Rightarrow> False"
    by code_simp
  from tx_succeeds[OF this] show ?thesis using that by metis
qed

lemma sample_manifest:
  "manifest_for sample_ext [(''d'', FpText ''hi'')] = Inr \<lparr>mf_entries =
      [\<lparr>me_delivery = ''d'', me_kind = ''text'', me_bytes = 3, me_sha256 = replicate 64 CHR ''0'', me_chunks = 1\<rparr>],
     mf_sha256 = replicate 64 CHR ''0''\<rparr>"
  by (simp add: manifest_for_def manifest_entry_for_def Let_def checked_add_def usize_max_def validate_bundle_bytes_def
      validate_manifest_bytes_def MAX_BUNDLE_BYTES_def MAX_MANIFEST_BYTES_def MAX_FINAL_CHUNK_BYTES_def
      MAX_BUNDLE_DELIVERIES_def div_ceil_def sample_ext_def)

lemma sample_claimed_state:
  "find_bundle sample_claimed ''b'' = Some (sample_bundle\<lparr>rb_state := BnDelivering, rb_attempts := 1,
     rb_owner := Some ''p'', rb_expires := Some 100, rb_updated := 50\<rparr>)"
  "memberships sample_claimed ''b'' = [(hd (outbox_deliveries sample_bundles), hd (outbox sample_bundles))]"
  "local_requests sample_claimed = local_requests sample_bundles"
  "map rb_id (bundles sample_claimed) = [''b''] \<and> map rb_state (bundles sample_claimed) = [BnDelivering]"
  by code_simp+

lemma sample_loaded:
  "load_bundle_row sample_ext sample_claimed ''b'' = Inr \<lparr>bu_id = ''b'', bu_request = ''q1'', bu_state = BnDelivering,
     bu_manifest = \<lparr>mf_entries =
       [\<lparr>me_delivery = ''d'', me_kind = ''text'', me_bytes = 3, me_sha256 = replicate 64 CHR ''0'', me_chunks = 1\<rparr>],
       mf_sha256 = replicate 64 CHR ''0''\<rparr>,
     bu_deliveries = [(''d'', FpText ''hi'')]\<rparr>"
proof -
  have m: "read_membership sample_ext ''q1'' (0, hd (outbox_deliveries sample_bundles), hd (outbox sample_bundles))
      = Inr (''d'', FpText ''hi'')"
    by code_simp
  show ?thesis
    by (simp add: load_bundle_row_def sample_claimed_state(1,2) sample_bundle_def Let_def m sample_manifest
        MAX_BUNDLE_DELIVERIES_def) (simp add: parse_id_def sample_ext_def)
qed

lemma sample_claim_acked:
  "acknowledge_bundle sample_ext sample_ack 60 sample_claimed = Inr (AkDelivered, sample_acked)"
proof -
  have req: "bundle_request sample_claimed (sample_bundle\<lparr>rb_state := BnDelivering, rb_attempts := 1,
     rb_owner := Some ''p'', rb_expires := Some 100, rb_updated := 50\<rparr>) = Some (hd (local_requests sample_bundles))"
    by (simp add: bundle_request_def sample_claimed_state(3) sample_bundles_def sample_bundle_def)
  obtain r where "bundles sample_claimed = [r]" "rb_id r = ''b''" "rb_state r = BnDelivering"
    using sample_claimed_state(4) by auto
  then have t: "\<exists>d'. ack_transition ''b'' BnDelivering 60 sample_claimed = Inr (AkDelivered, d')"
    by (simp add: ack_transition_def Let_def)
  have "\<exists>d'. acknowledge_bundle sample_ext sample_ack 60 sample_claimed = Inr (AkDelivered, d')"
    using t by (simp add: acknowledge_bundle_def sample_ack_def sample_claimed_state(1,2) req sample_loaded Let_def
        ack_deliveries_match_def) (simp add: sample_bundle_def sample_bundles_def)
  then show ?thesis by (auto simp: sample_acked_def)
qed

lemma sample_states:
  "map rb_state (bundles sample_acked) = [BnDelivered]" "distinct (map rb_id (bundles sample_claimed))"
proof -
  show keys: "distinct (map rb_id (bundles sample_claimed))" using sample_claimed_state(4) by simp
  have "map rb_id (bundles sample_acked) = [''b'']"
    using moves_bundles_keys[OF acknowledge_moves[OF sample_claim_acked]] sample_claimed_state(4) by simp
  then obtain r' where r': "bundles sample_acked = [r']" "rb_id r' = ''b''" by auto
  obtain r where "find_bundle sample_acked (ak_bundle sample_ack) = Some r" "rb_state r = BnDelivered"
    using acknowledgement_delivers[OF sample_claim_acked keys] by blast
  then have "r' = r" "rb_state r = BnDelivered" using r' by (auto simp: find_bundle_def split: if_splits)
  then show "map rb_state (bundles sample_acked) = [BnDelivered]" using r' by simp
qed

lemma sample_delivery: "(bundle_step sample_ext)\<^sup>*\<^sup>* sample_bundles sample_acked"
proof -
  obtain ref where "claim_ready_bundle_refs sample_ext ''p'' [''q1''] 50 100 8 sample_bundles = Inr ([ref], sample_claimed)"
    by (rule sample_claim_granted)
  then show ?thesis using bundle_step.claim bundle_step.acknowledge[OF sample_claim_acked]
    by (meson converse_rtranclp_into_rtranclp r_into_rtranclp)
qed


theorem bundle_store_refines_lifecycle_witness:
  "lifecycle\<^sup>*\<^sup>* BnPending (rb_state (hd (bundles sample_acked)))"
  using bundle_store_refines_lifecycle [OF sample_delivery sample_bundles_ok(1)]
  by (auto simp: sample_bundles_def sample_bundle_def list_all2_Cons1)

lemma bundle_outcome_is_final_sample:
  "\<exists>r \<in> set (bundles sample_acked). rb_state r = BnDelivered
     \<and> {r' \<in> set (bundles sample_acked). rb_id r' = rb_id r} = {r}"
proof -
  obtain r where r: "bundles sample_acked = [r]" "rb_state r = BnDelivered" using sample_states(1) by auto
  then show ?thesis using bundle_outcome_is_final [of sample_ext sample_acked sample_acked r] by auto
qed

lemma bundle_claim_fields_sample:
  "rb_state (hd (bundles sample_acked)) = BnDelivered \<and> rb_owner (hd (bundles sample_acked)) = None"
proof -
  obtain r where r: "bundles sample_acked = [r]" "rb_state r = BnDelivered" using sample_states(1) by auto
  then show ?thesis using bundle_claim_fields_invariant [OF sample_delivery sample_bundles_ok(1,3)] by simp
qed

theorem acknowledgement_exact_witness:
  "acknowledge_bundle sample_ext sample_ack 70 sample_acked = Inr (AkAlreadyDelivered, sample_acked)"
  using acknowledgement_exact [OF sample_claim_acked sample_states(2)] by blast

theorem manifest_bounds_witness:
  "\<exists>m. manifest_for sample_ext [(''d'', FpText ''hi'')] = Inr m \<and> map me_delivery (mf_entries m) = [''d'']"
proof -
  have "0 < length [(''d'', FpText ''hi'')] \<and> length [(''d'', FpText ''hi'')] \<le> 1024
       \<and> (\<Sum>p\<leftarrow>[(''d'', FpText ''hi'')]. length (write_final sample_ext (snd p))) \<le> 16777216
       \<and> length (write_manifest sample_ext (map (manifest_entry_for sample_ext) [(''d'', FpText ''hi'')])) \<le> 262144"
    by (simp add: sample_ext_def manifest_entry_for_def Let_def)
  then show ?thesis using manifest_bounds [of sample_ext "[(''d'', FpText ''hi'')]"] by auto
qed

end
