(* ===== verification/Payload_Codec.thy ===== *)
theory Payload_Codec
  imports Event_Message
begin

text \<open>
  An instance of the serializers for which the round trip holds, with which the witnesses of the
  theorems that assume it are evaluated: every text is written after its length.
\<close>

definition enc_text :: "string \<Rightarrow> string" where
  "enc_text s = show_nat (length s) @ CHR '':'' # s"

definition dec_text :: "string \<Rightarrow> string \<times> string" where
  "dec_text t =
     (let n = read_nat (takeWhile is_digit t); r = drop 1 (dropWhile is_digit t) in (take n r, drop n r))"

lemma colon_no_digit: "\<not> is_digit (CHR '':'')"
  by (simp add: is_digit_def)

lemma dec_enc_text [simp]: "dec_text (enc_text s @ r) = (s, r)"
  using show_nat_digits[of "length s"] colon_no_digit
  by (simp add: dec_text_def enc_text_def takeWhile_append dropWhile_append Let_def)

fun enc_caption :: "string option \<Rightarrow> string" where
  "enc_caption None = ''-''"
| "enc_caption (Some c) = CHR ''+'' # enc_text c"

definition dec_caption :: "string \<Rightarrow> string option" where
  "dec_caption t = (if take 1 t = ''-'' then None else Some (fst (dec_text (tl t))))"

definition enc_artifact :: "managed_artifact \<Rightarrow> string" where
  "enc_artifact a = enc_text (ma_id a) @ enc_text (ma_path a) @ enc_text (ma_display_name a) @ enc_text (ma_media_type a)
     @ enc_text (show_nat (ma_size a)) @ enc_text (ma_sha256 a) @ enc_caption (ma_caption a)"

definition dec_artifact :: "string \<Rightarrow> managed_artifact" where
  "dec_artifact t =
     (let (i, t) = dec_text t; (p, t) = dec_text t; (n, t) = dec_text t; (m, t) = dec_text t;
          (s, t) = dec_text t; (h, t) = dec_text t in
      \<lparr>ma_id = i, ma_path = p, ma_display_name = n, ma_media_type = m, ma_size = read_nat s, ma_sha256 = h,
       ma_caption = dec_caption t\<rparr>)"

lemma dec_enc_caption [simp]: "dec_caption (enc_caption c) = c"
  using dec_enc_text[of "the c" "[]"] by (cases c) (simp_all add: dec_caption_def del: dec_enc_text)

lemma dec_enc_artifact [simp]: "dec_artifact (enc_artifact a) = a"
  by (simp add: dec_artifact_def enc_artifact_def)

fun enc_payload :: "outbox_payload \<Rightarrow> string" where
  "enc_payload (OpText t) = CHR ''T'' # enc_text t"
| "enc_payload (OpFile a) = CHR ''F'' # enc_artifact a"
| "enc_payload (OpTerminalError c m) = CHR ''E'' # enc_text c @ enc_text m"

definition dec_payload :: "string \<Rightarrow> string + outbox_payload" where
  "dec_payload t =
     (if take 1 t = ''T'' then Inr (OpText (fst (dec_text (tl t))))
      else if take 1 t = ''F'' then Inr (OpFile (dec_artifact (tl t)))
      else if take 1 t = ''E'' then (let (c, r) = dec_text (tl t) in Inr (OpTerminalError c (fst (dec_text r))))
      else Inl ''expected value'')"

lemma dec_enc_payload [simp]: "dec_payload (enc_payload p) = Inr p"
proof -
  have "fst (dec_text (enc_text s)) = s" for s using dec_enc_text[of s "[]"] by (simp del: dec_enc_text)
  then show ?thesis by (cases p) (simp_all add: dec_payload_def)
qed

fun dec_texts :: "nat \<Rightarrow> string \<Rightarrow> string list" where
  "dec_texts 0 t = []"
| "dec_texts (Suc n) t = (case dec_text t of (s, rest) \<Rightarrow> s # dec_texts n rest)"

lemma dec_enc_texts: "dec_texts (length ts) (concat (map enc_text ts)) = ts"
  by (induction ts) simp_all

fun enc_outcome :: "attempt_outcome \<Rightarrow> string" where
  "enc_outcome (AoSucceeded e) = CHR ''S'' # enc_text (de_observation e) @ enc_text (show_nat (length (de_artifacts e)))
     @ concat (map enc_text (map enc_artifact (de_artifacts e)))"
| "enc_outcome (AoFailedKnown m) = CHR ''F'' # enc_text m"
| "enc_outcome AoCancelledKnown = ''C''"

definition dec_outcome :: "string \<Rightarrow> string + attempt_outcome" where
  "dec_outcome t =
     (if take 1 t = ''S''
      then (let (ob, r) = dec_text (tl t); (n, r) = dec_text r in
            Inr (AoSucceeded \<lparr>de_observation = ob, de_artifacts = map dec_artifact (dec_texts (read_nat n) r)\<rparr>))
      else if take 1 t = ''F'' then Inr (AoFailedKnown (fst (dec_text (tl t))))
      else if take 1 t = ''C'' then Inr AoCancelledKnown
      else Inl ''expected value'')"

lemma dec_enc_outcome [simp]: "dec_outcome (enc_outcome out) = Inr out"
proof (cases out)
  case (AoSucceeded e)
  have "dec_texts (length (de_artifacts e)) (concat (map enc_text (map enc_artifact (de_artifacts e)))) = map enc_artifact (de_artifacts e)"
    using dec_enc_texts[of "map enc_artifact (de_artifacts e)"] by simp
  then show ?thesis by (simp add: AoSucceeded dec_outcome_def comp_def)
next
  case (AoFailedKnown m)
  have "fst (dec_text (enc_text m)) = m" using dec_enc_text[of m "[]"] by (simp del: dec_enc_text)
  then show ?thesis by (simp add: AoFailedKnown dec_outcome_def)
qed (simp add: dec_outcome_def)

definition codec_ext :: ext where
  "codec_ext = sample_ext\<lparr>write_payload := enc_payload, read_payload := dec_payload,
     write_outcome := enc_outcome, read_outcome := dec_outcome\<rparr>"

lemma codec_roundtrip: "payload_roundtrip codec_ext"
  by (simp add: payload_roundtrip_def codec_ext_def)

lemma codec_outcomes: "outcome_roundtrip codec_ext"
  by (simp add: outcome_roundtrip_def codec_ext_def)

end
