(* ===== verification/Checkpoint.thy ===== *)
theory Checkpoint
  imports Attempts Bundles Attach_Run Ingress Payload_Codec
begin

text \<open>
  Checkpoints and the end of a run, from \<open>runtime/sqlite/checkpoint.rs\<close>: \<open>checkpoint_run\<close>,
  \<open>finalize_run\<close>, \<open>cancel_run\<close> and the creation of the terminal bundles of a run, with the
  outbox, the gateway deliveries, the deferred webhook results and the result bundles they leave.
\<close>

section \<open>Checkpoints\<close>

record checkpoint_command =
  ck_run :: attached_run
  ck_events :: "event_id list"
  ck_attempts :: "attempt_id list"
  ck_messages :: "message list"

definition require_unique_ids :: "event_id list \<Rightarrow> error + unit" where
  "require_unique_ids ids = require (distinct ids) (Bail ''event ids must be unique'')"

definition incorporate_event :: "run_id \<Rightarrow> event_id \<Rightarrow> db \<Rightarrow> error + db" where
  "incorporate_event run e d =
     (let p = (\<lambda>y. re_run y = run \<and> re_event y = e) in
      ebind (require (changed p (run_events d) = 1) (Bail (''event is not attached to run: '' @ e))) (\<lambda>_.
        Inr (d\<lparr>run_events := update_where p (\<lambda>y. y\<lparr>re_incorporated := True\<rparr>) (run_events d)\<rparr>)))"

definition incorporate_events :: "attached_run \<Rightarrow> event_id list \<Rightarrow> db \<Rightarrow> error + db" where
  "incorporate_events run ids d =
     ebind (require_unique_ids ids) (\<lambda>_. efold (incorporate_event (ar_run run)) ids d)"

definition checkpoint_attempt :: "run_id \<Rightarrow> attempt_id \<Rightarrow> db \<Rightarrow> error + db" where
  "checkpoint_attempt run i d =
     (let p = (\<lambda>r. ta_id r = i \<and> ta_run r = run \<and> ta_state r \<in> {AtSucceeded, AtFailedKnown, AtCancelledKnown}) in
      ebind (require (changed p (attempts d) = 1) (Bail (''attempt is not attached to run: '' @ i))) (\<lambda>_.
        Inr (d\<lparr>attempts := update_where p (\<lambda>r. r\<lparr>ta_checkpointed := True\<rparr>) (attempts d)\<rparr>)))"

definition checkpoint_attempts :: "attached_run \<Rightarrow> attempt_id list \<Rightarrow> db \<Rightarrow> error + db" where
  "checkpoint_attempts run ids d = efold (checkpoint_attempt (ar_run run)) ids d"

definition message_row :: "ext \<Rightarrow> attached_run \<Rightarrow> timestamp \<Rightarrow> message \<Rightarrow> recent_row" where
  "message_row x run now m =
     \<lparr>rm_actor = ls_actor (ar_lease run), rm_work = ar_work run, rm_run = ar_run run,
      rm_audience = ar_audience run, rm_message = write_message x m, rm_created = now\<rparr>"

definition insert_messages :: "ext \<Rightarrow> attached_run \<Rightarrow> message list \<Rightarrow> timestamp \<Rightarrow> db \<Rightarrow> error + db" where
  "insert_messages x run ms now d =
     ebind (encode_audience (ar_audience run)) (\<lambda>_.
       Inr (d\<lparr>recent := recent d @ map (message_row x run now) ms\<rparr>))"

definition checkpoint_run :: "ext \<Rightarrow> checkpoint_command \<Rightarrow> timestamp \<Rightarrow> db \<Rightarrow> unit tx" where
  "checkpoint_run x c now d =
     ebind (validate_run (ck_run c) now d) (\<lambda>_.
     ebind (incorporate_events (ck_run c) (ck_events c) d) (\<lambda>d1.
     ebind (checkpoint_attempts (ck_run c) (ck_attempts c) d1) (\<lambda>d2.
     ebind (insert_messages x (ck_run c) (ck_messages c) now d2) (\<lambda>d3. Inr ((), d3)))))"

text \<open>\<open>load_recent_context\<close>: what an audience may see of the actor's recent messages, newest last.\<close>

fun visible_to :: "audience \<Rightarrow> audience \<Rightarrow> bool" where
  "visible_to ActorPrivate a = (a = ActorPrivate \<or> a = Shareable)"
| "visible_to Shareable a = (a = Shareable)"
| "visible_to (ConversationScoped c) a = (a = Shareable \<or> a = ConversationScoped c)"

definition load_recent_context :: "ext \<Rightarrow> actor_id \<Rightarrow> audience \<Rightarrow> nat \<Rightarrow> db \<Rightarrow> error + message list" where
  "load_recent_context x a au limit d =
     ebind (encode_audience au) (\<lambda>_.
       emap (\<lambda>m. lift_read (read_message x (rm_message m)))
         (rev (take limit (rev (filter (\<lambda>m. rm_actor m = a \<and> visible_to au (rm_audience m)) (recent d))))))"

section \<open>The outbox\<close>

record terminal_context =
  tc_actor :: actor_id
  tc_work :: work_item_id
  tc_run :: run_id
  tc_audience :: audience
  tc_route :: "delivery_route option"
  tc_policy :: execution_policy
  tc_source :: "string option"

definition context_of :: "attached_run \<Rightarrow> terminal_context" where
  "context_of run = \<lparr>tc_actor = ls_actor (ar_lease run), tc_work = ar_work run, tc_run = ar_run run,
     tc_audience = ar_audience run, tc_route = ar_route run, tc_policy = ar_policy run, tc_source = ar_source run\<rparr>"

definition outbox_of :: "ext \<Rightarrow> terminal_context \<Rightarrow> new_outbox_intent \<Rightarrow> timestamp \<Rightarrow> outbox_row" where
  "outbox_of x c n now =
     \<lparr>ob_id = ni_id n, ob_key = ni_key n, ob_actor = tc_actor c, ob_work = tc_work c, ob_run = tc_run c,
      ob_class = ni_class n, ob_audience = ni_audience n, ob_payload = write_payload x (ni_payload n), ob_created = now\<rparr>"

text \<open>\<open>INSERT \<dots> ON CONFLICT(intent_key) DO NOTHING\<close>, then the stored row must agree.\<close>

definition insert_outbox :: "ext \<Rightarrow> terminal_context \<Rightarrow> timestamp \<Rightarrow> new_outbox_intent \<Rightarrow> db \<Rightarrow> error + (outbox_id \<times> db)" where
  "insert_outbox x c now n d =
     ebind (require (ni_audience n = tc_audience c) (Bail ''outbox audience must match the finalized run'')) (\<lambda>_.
     ebind (encode_audience (ni_audience n)) (\<lambda>_.
     ebind (if ni_key n \<in> ob_key ` set (outbox d) then Inr (outbox d)
            else insert_unique ob_id (outbox_of x c n now) (outbox d)) (\<lambda>rows.
     ebind (from_option (Sql ''Query returned no rows'') (List.find (\<lambda>r. ob_key r = ni_key n) rows)) (\<lambda>r.
     ebind (require (ob_actor r = tc_actor c \<and> ob_work r = tc_work c \<and> ob_run r = tc_run c \<and> ob_class r = ni_class n
                     \<and> ob_audience r = ni_audience n \<and> ob_payload r = write_payload x (ni_payload n))
              (Bail ''outbox intent key was reused with different immutable data'')) (\<lambda>_.
       Inr (ob_id r, d\<lparr>outbox := rows\<rparr>))))))"

fun insert_outboxes ::
    "ext \<Rightarrow> terminal_context \<Rightarrow> timestamp \<Rightarrow> new_outbox_intent list \<Rightarrow> db \<Rightarrow> error + (outbox_id list \<times> db)" where
  "insert_outboxes x c now [] d = Inr ([], d)"
| "insert_outboxes x c now (n # ns) d =
     ebind (insert_outbox x c now n d) (\<lambda>(i, d1).
     ebind (insert_outboxes x c now ns d1) (\<lambda>(is, d2). Inr (i # is, d2)))"

text \<open>Intents with one key must agree; the first stands.\<close>

definition merge_intent :: "new_outbox_intent \<Rightarrow> new_outbox_intent list \<Rightarrow> error + new_outbox_intent list" where
  "merge_intent n acc =
     (case List.find (\<lambda>m. ni_key m = ni_key n) acc of
        Some m \<Rightarrow> if ni_class m \<noteq> ni_class n \<or> ni_audience m \<noteq> ni_audience n \<or> ni_payload m \<noteq> ni_payload n
                  then Inl (Bail ''outbox intent key was reused with different immutable data'') else Inr acc
      | None \<Rightarrow> Inr (acc @ [n]))"

definition unique_intents :: "new_outbox_intent list \<Rightarrow> error + new_outbox_intent list" where
  "unique_intents ns = efold merge_intent ns []"

definition deliveries_for :: "id_supply \<Rightarrow> new_outbox_intent list \<Rightarrow> (delivery_id \<times> final_payload) list" where
  "deliveries_for uid ns = map (\<lambda>(k, n). (uid [k], payload_from_outbox (ni_payload n))) (zip [0..<length ns] ns)"

definition validate_intents :: "ext \<Rightarrow> id_supply \<Rightarrow> new_outbox_intent list \<Rightarrow> error + unit" where
  "validate_intents x uid ns = ebind (manifest_for x (deliveries_for uid ns)) (\<lambda>_. Inr ())"

definition payload_error_intent :: "id_supply \<Rightarrow> terminal_context \<Rightarrow> error \<Rightarrow> new_outbox_intent" where
  "payload_error_intent uid c e =
     \<lparr>ni_id = uid [0], ni_key = ''run:'' @ tc_run c @ '':terminal-payload-error'', ni_class = ''terminal_error'',
      ni_audience = tc_audience c, ni_payload = OpTerminalError ''invalid_final_payload'' (err_text e)\<rparr>"

text \<open>Payloads that cannot be bundled are replaced by one error, and the run fails.\<close>

definition effective_intents ::
    "ext \<Rightarrow> id_supply \<Rightarrow> terminal_context \<Rightarrow> new_outbox_intent list \<Rightarrow> local_request_state
     \<Rightarrow> error + (new_outbox_intent list \<times> local_request_state)" where
  "effective_intents x uid c ns requested =
     (case validate_intents x (subsupply uid 0) ns of
        Inr _ \<Rightarrow> Inr (ns, requested)
      | Inl e \<Rightarrow>
          let replacement = [payload_error_intent (subsupply uid 1) c e] in
          ebind (validate_intents x (subsupply uid 2) replacement) (\<lambda>_. Inr (replacement, LrFailedTerminal)))"

record bundle_plan =
  bp_id :: bundle_id
  bp_request :: request_id
  bp_deliveries :: "(delivery_id \<times> final_payload) list"
  bp_manifest :: string

definition build_plan :: "ext \<Rightarrow> id_supply \<Rightarrow> new_outbox_intent list \<Rightarrow> nat \<times> request_id \<Rightarrow> error + bundle_plan" where
  "build_plan x uid ns = (\<lambda>(k, q).
     let ds = deliveries_for (subsupply uid k) ns in
     ebind (manifest_for x ds) (\<lambda>m.
       Inr \<lparr>bp_id = subsupply uid k [length ns], bp_request = q, bp_deliveries = ds, bp_manifest = mf_sha256 m\<rparr>))"

definition build_plans :: "ext \<Rightarrow> id_supply \<Rightarrow> new_outbox_intent list \<Rightarrow> request_id list \<Rightarrow> error + bundle_plan list" where
  "build_plans x uid ns qs = emap (build_plan x uid ns) (zip [0..<length qs] qs)"

section \<open>Terminal bundles\<close>

text \<open>The route of the run, or, for a run a webhook started, the deferred results.\<close>

definition project_intents ::
    "ext \<Rightarrow> id_supply \<Rightarrow> delivery_route \<Rightarrow> timestamp \<Rightarrow> (new_outbox_intent \<times> outbox_id) list \<Rightarrow> db \<Rightarrow> error + db" where
  "project_intents x uid route now ps d =
     efold (\<lambda>(k, n, i). project_outbox_to_gateway x (subsupply uid k) (ni_key n) i (ni_payload n) route now)
       (zip [0..<length ps] ps) d"

definition source_sequence :: "db \<Rightarrow> run_id \<Rightarrow> int option" where
  "source_sequence d run =
     (let rows = inner_join (\<lambda>e y. re_event y = ev_id e \<and> re_run y = run) (events d) (run_events d) in
      case max_of (map (\<lambda>p. ev_seq (fst p)) (filter (\<lambda>p. re_incorporated (snd p)) rows)) of
        Some s \<Rightarrow> Some s
      | None \<Rightarrow> max_of (map (\<lambda>p. ev_seq (fst p)) rows))"

definition defer_result :: "actor_id \<Rightarrow> int \<Rightarrow> timestamp \<Rightarrow> outbox_id \<Rightarrow> db \<Rightarrow> db" where
  "defer_result a s now i d =
     (if i \<in> dw_outbox ` set (deferred d) then d
      else d\<lparr>deferred := deferred d @ [\<lparr>dw_outbox = i, dw_actor = a, dw_seq = s, dw_state = DwPending,
                                       dw_released = None, dw_created = now, dw_updated = now\<rparr>]\<rparr>)"

definition route_intents ::
    "ext \<Rightarrow> id_supply \<Rightarrow> terminal_context \<Rightarrow> (new_outbox_intent \<times> outbox_id) list \<Rightarrow> timestamp \<Rightarrow> db \<Rightarrow> error + db" where
  "route_intents x uid c ps now d =
     (case tc_route c of
        Some route \<Rightarrow> project_intents x uid route now ps d
      | None \<Rightarrow>
          if tc_source c \<noteq> None \<and> tc_policy c = SkillsOnly
          then ebind (from_option (Bail ''webhook run has no source event sequence'') (source_sequence d (tc_run c))) (\<lambda>s.
                 Inr (fold (\<lambda>p. defer_result (tc_actor c) s now (snd p)) ps d))
          else Inr d)"

definition insert_bundle :: "bundle_plan \<Rightarrow> timestamp \<Rightarrow> db \<Rightarrow> error + db" where
  "insert_bundle p now d =
     (let n = length (bp_deliveries p) in
      if n < 1 \<or> 1024 < n \<or> length (bp_manifest p) \<noteq> 64 then Inl (Sql ''CHECK constraint failed'')
      else if list_ex (\<lambda>r. rb_id r = bp_id p \<or> rb_request r = bp_request p) (bundles d)
      then Inl (Sql ''UNIQUE constraint failed'')
      else Inr (d\<lparr>bundles := bundles d @ [\<lparr>rb_id = bp_id p, rb_request = bp_request p, rb_count = int n,
                    rb_manifest = bp_manifest p, rb_state = BnPending, rb_attempts = 0, rb_next = None,
                    rb_owner = None, rb_expires = None, rb_error = None, rb_created = now, rb_updated = now\<rparr>]\<rparr>))"

definition insert_membership :: "outbox_delivery_row \<Rightarrow> db \<Rightarrow> error + db" where
  "insert_membership m d =
     (if list_ex (\<lambda>r. od_id r = od_id m \<or> (od_outbox r = od_outbox m \<and> od_address r = od_address m)
                      \<or> (od_bundle r = od_bundle m \<and> od_ordinal r = od_ordinal m)) (outbox_deliveries d)
      then Inl (Sql ''UNIQUE constraint failed'')
      else Inr (d\<lparr>outbox_deliveries := outbox_deliveries d @ [m]\<rparr>))"

definition plan_memberships :: "bundle_plan \<Rightarrow> outbox_id list \<Rightarrow> timestamp \<Rightarrow> outbox_delivery_row list" where
  "plan_memberships p outs now =
     map (\<lambda>(k, q, i). \<lparr>od_id = fst q, od_outbox = i, od_bundle = bp_id p, od_ordinal = int k,
                        od_address = bp_request p, od_created = now\<rparr>)
       (zip [0..<length (zip (bp_deliveries p) outs)] (zip (bp_deliveries p) outs))"

definition close_request :: "bundle_plan \<Rightarrow> local_request_state \<Rightarrow> timestamp \<Rightarrow> db \<Rightarrow> error + db" where
  "close_request p s now d =
     (let sel = (\<lambda>r. lr_id r = bp_request p \<and> lr_state r = LrActive \<and> lr_bundle r = None) in
      ebind (require (changed sel (local_requests d) = 1) (Bail ''local request changed during terminal bundle creation'')) (\<lambda>_.
        Inr (d\<lparr>local_requests := update_where sel
                 (\<lambda>r. r\<lparr>lr_state := s, lr_bundle := Some (bp_id p), lr_updated := now\<rparr>) (local_requests d)\<rparr>)))"

definition execute_plan :: "outbox_id list \<Rightarrow> local_request_state \<Rightarrow> timestamp \<Rightarrow> bundle_plan \<Rightarrow> db \<Rightarrow> error + db" where
  "execute_plan outs s now p d =
     ebind (insert_bundle p now d) (\<lambda>d1.
     ebind (efold insert_membership (plan_memberships p outs now) d1) (\<lambda>d2. close_request p s now d2))"

definition create_terminal_bundles ::
    "ext \<Rightarrow> id_supply \<Rightarrow> terminal_context \<Rightarrow> request_id list \<Rightarrow> new_outbox_intent list \<Rightarrow> local_request_state
     \<Rightarrow> timestamp \<Rightarrow> db \<Rightarrow> local_request_state tx" where
  "create_terminal_bundles x uid c requests intents requested now d =
     ebind (unique_intents intents) (\<lambda>unique.
     ebind (effective_intents x (subsupply uid 0) c unique requested) (\<lambda>(ns, effective).
     ebind (build_plans x (subsupply uid 1) ns requests) (\<lambda>plans.
     ebind (insert_outboxes x c now ns d) (\<lambda>(outs, d1).
     ebind (route_intents x (subsupply uid 2) c (zip ns outs) now d1) (\<lambda>d2.
     ebind (efold (execute_plan outs effective now) plans d2) (\<lambda>d3. Inr (effective, d3)))))))"

section \<open>Finalizing a run\<close>

record finalize_command =
  fz_run :: attached_run
  fz_events :: "event_id list"
  fz_messages :: "message list"
  fz_outbox :: "new_outbox_intent list"

datatype finalize_outcome = FoCompleted | FoPreempted int

text \<open>The newest pending message or cancellation of the same audience that the run has not observed.\<close>

definition newest_compatible_input :: "db \<Rightarrow> attached_run \<Rightarrow> int \<Rightarrow> error + int option" where
  "newest_compatible_input d run observed =
     ebind (encode_audience (ar_audience run)) (\<lambda>_.
       Inr (max_of (map ev_seq (filter (\<lambda>e. ev_actor e = ls_actor (ar_lease run) \<and> ev_state e = EvPending
              \<and> observed < ev_seq e \<and> (ev_kind e = CancelRequested \<or> ev_kind e = UserMessage)
              \<and> ev_audience e = ar_audience run) (events d)))))"

definition require_all_events_incorporated :: "db \<Rightarrow> attached_run \<Rightarrow> event_id list \<Rightarrow> error + unit" where
  "require_all_events_incorporated d run ids =
     ebind (require_unique_ids ids) (\<lambda>_.
       let durable = filter (\<lambda>y. re_run y = ar_run run) (run_events d) in
       require (length durable = card (set ids) \<and> (\<forall>y \<in> set durable. re_incorporated y \<and> re_event y \<in> set ids))
         (Bail ''all attached source events must be incorporated before finalization''))"

definition parse_requests :: "ext \<Rightarrow> local_request_row list \<Rightarrow> error + request_id list" where
  "parse_requests x rs = emap (\<lambda>r. parse_id x (lr_id r)) (sort_key (\<lambda>r. (lr_created r, lr_id r)) rs)"

definition incorporated_local_requests :: "ext \<Rightarrow> db \<Rightarrow> run_id \<Rightarrow> error + request_id list" where
  "incorporated_local_requests x d run =
     parse_requests x
       (map fst (inner_join (\<lambda>r y. re_event y = lr_event r \<and> re_run y = run \<and> re_incorporated y)
          (filter (\<lambda>r. lr_state r = LrActive) (local_requests d)) (run_events d)))"

definition cancellation_target_requests :: "ext \<Rightarrow> db \<Rightarrow> attached_run \<Rightarrow> control_event \<Rightarrow> error + request_id list" where
  "cancellation_target_requests x d run c =
     parse_requests x
       (map snd (inner_join (\<lambda>p r. lr_id r = ct_request (snd p) \<and> lr_work r = Some (ar_work run)
                     \<and> lr_actor r = ls_actor (ar_lease run) \<and> lr_state r = LrActive)
          (inner_join (\<lambda>e t. ct_cancel t = ev_external e)
             (filter (\<lambda>e. ev_id e = cv_event c \<and> ev_gateway e = ''local:cancel'') (events d)) (cancel_targets d))
          (local_requests d)))"

definition artifact_intent :: "id_supply \<Rightarrow> attached_run \<Rightarrow> nat \<times> managed_artifact \<Rightarrow> new_outbox_intent" where
  "artifact_intent uid run = (\<lambda>(k, a).
     \<lparr>ni_id = uid [k], ni_key = ''run:'' @ ar_run run @ '':artifact:'' @ ma_id a, ni_class = ''interactive_file'',
      ni_audience = ar_audience run, ni_payload = OpFile a\<rparr>)"

definition read_execution :: "ext \<Rightarrow> attempt_row \<Rightarrow> error + managed_artifact list" where
  "read_execution x r =
     ebind (from_option (Sql ''Invalid column type Null'') (ta_outcome r)) (\<lambda>s.
     ebind (lift_read (read_outcome x s)) (\<lambda>out.
       case out of AoSucceeded e \<Rightarrow> Inr (de_artifacts e)
       | _ \<Rightarrow> Inl (Bail ''succeeded tool attempt has a non-success outcome'')))"

definition append_managed_artifact_intents ::
    "ext \<Rightarrow> id_supply \<Rightarrow> db \<Rightarrow> attached_run \<Rightarrow> new_outbox_intent list \<Rightarrow> error + new_outbox_intent list" where
  "append_managed_artifact_intents x uid d run ns =
     ebind (emap (read_execution x)
              (sort_key (\<lambda>r. (ta_created r, ta_id r))
                (filter (\<lambda>r. ta_run r = ar_run run \<and> ta_state r = AtSucceeded \<and> ta_checkpointed r) (attempts d)))) (\<lambda>artss.
       let arts = concat artss in
       Inr (ns @ map (artifact_intent uid run) (zip [0..<length arts] arts)))"

text \<open>\<open>terminal_state_name\<close> as the states of the three tables it is written to; it panics on an active request.\<close>

fun terminal_states :: "local_request_state \<Rightarrow> error + (event_state \<times> run_state \<times> work_item_state)" where
  "terminal_states LrCompleted = Inr (EvCompleted, RunCompleted, WiCompleted)"
| "terminal_states LrCancelled = Inr (EvCancelled, RunCancelled, WiCancelled)"
| "terminal_states LrFailedTerminal = Inr (EvFailedTerminal, RunFailedTerminal, WiFailedTerminal)"
| "terminal_states LrActive = Inl (Bail ''active is not terminal'')"

definition close_run :: "attached_run \<Rightarrow> event_state \<times> run_state \<times> work_item_state \<Rightarrow> timestamp \<Rightarrow> db \<Rightarrow> db" where
  "close_run run = (\<lambda>(es, rs, ws) now d.
     d\<lparr>events := update_where (\<lambda>e. list_ex (\<lambda>y. re_run y = ar_run run \<and> re_incorporated y \<and> re_event y = ev_id e) (run_events d))
         (\<lambda>e. e\<lparr>ev_state := es, ev_updated := now\<rparr>) (events d),
       runs := update_where (\<lambda>r. rn_id r = ar_run run \<and> rn_state r = RunActive)
         (\<lambda>r. r\<lparr>rn_state := rs, rn_updated := now\<rparr>) (runs d),
       work_items := update_where (\<lambda>w. wi_id w = ar_work run)
         (\<lambda>w. w\<lparr>wi_state := ws, wi_updated := now\<rparr>) (work_items d)\<rparr>)"

definition complete_run ::
    "ext \<Rightarrow> id_supply \<Rightarrow> finalize_command \<Rightarrow> timestamp \<Rightarrow> db \<Rightarrow> finalize_outcome tx" where
  "complete_run x uid c now d =
     ebind (require_all_events_incorporated d (fz_run c) (fz_events c)) (\<lambda>_.
     ebind (insert_messages x (fz_run c) (fz_messages c) now d) (\<lambda>d1.
     ebind (append_managed_artifact_intents x (subsupply uid 0) d1 (fz_run c) (fz_outbox c)) (\<lambda>intents.
     ebind (incorporated_local_requests x d1 (ar_run (fz_run c))) (\<lambda>requests.
     ebind (create_terminal_bundles x (subsupply uid 1) (context_of (fz_run c)) requests intents LrCompleted now d1) (\<lambda>(effective, d2).
     ebind (terminal_states effective) (\<lambda>states.
       Inr (FoCompleted, close_run (fz_run c) states now d2)))))))"

definition finalize_run :: "ext \<Rightarrow> id_supply \<Rightarrow> finalize_command \<Rightarrow> timestamp \<Rightarrow> db \<Rightarrow> finalize_outcome tx" where
  "finalize_run x uid c now d =
     ebind (validate_run (fz_run c) now d) (\<lambda>_.
     ebind (newest_compatible_input d (fz_run c) (ar_observed (fz_run c))) (\<lambda>newest.
       case newest of
         Some s \<Rightarrow> Inr (FoPreempted s, d)
       | None \<Rightarrow> complete_run x uid c now d))"

section \<open>Cancelling a run\<close>

definition cancellation_intent :: "id_supply \<Rightarrow> attached_run \<Rightarrow> new_outbox_intent" where
  "cancellation_intent uid run =
     \<lparr>ni_id = uid [0], ni_key = ''run:'' @ ar_run run @ '':cancelled'', ni_class = ''terminal_error'',
      ni_audience = ar_audience run, ni_payload = OpTerminalError ''cancelled'' ''request was cancelled''\<rparr>"

definition accept_cancellation :: "attached_run \<Rightarrow> control_event \<Rightarrow> timestamp \<Rightarrow> db \<Rightarrow> error + db" where
  "accept_cancellation run c now d =
     (let p = (\<lambda>e. ev_id e = cv_event c \<and> ev_actor e = ls_actor (ar_lease run) \<and> ev_state e = EvPending
                   \<and> ev_kind e = CancelRequested) in
      ebind (require (changed p (events d) = 1) (Bail ''cancellation event is no longer pending'')) (\<lambda>_.
        Inr (d\<lparr>events := update_where p (\<lambda>e. e\<lparr>ev_state := EvCancelled, ev_updated := now\<rparr>) (events d),
               attempts := update_where (\<lambda>r. ta_run r = ar_run run \<and> ta_state r = AtRunning)
                 (\<lambda>r. r\<lparr>ta_state := AtOutcomeUnknown, ta_updated := now\<rparr>) (attempts d)\<rparr>)))"

definition abandon_run :: "attached_run \<Rightarrow> timestamp \<Rightarrow> db \<Rightarrow> db" where
  "abandon_run run now d =
     d\<lparr>events := update_where (\<lambda>e. ev_work e = Some (ar_work run) \<and> (ev_state e = EvPending \<or> ev_state e = EvProcessing))
         (\<lambda>e. e\<lparr>ev_state := EvCancelled, ev_updated := now\<rparr>) (events d),
       runs := update_where (\<lambda>r. rn_id r = ar_run run) (\<lambda>r. r\<lparr>rn_state := RunCancelled, rn_updated := now\<rparr>) (runs d),
       work_items := update_where (\<lambda>w. wi_id w = ar_work run)
         (\<lambda>w. w\<lparr>wi_state := WiCancelled, wi_updated := now\<rparr>) (work_items d)\<rparr>"

definition cancel_run :: "ext \<Rightarrow> id_supply \<Rightarrow> attached_run \<Rightarrow> control_event \<Rightarrow> timestamp \<Rightarrow> db \<Rightarrow> unit tx" where
  "cancel_run x uid run c now d =
     ebind (validate_run run now d) (\<lambda>_.
     ebind (accept_cancellation run c now d) (\<lambda>d1.
     ebind (cancellation_target_requests x d1 run c) (\<lambda>requests.
     ebind (if requests = [] then Inr d1
            else ebind (create_terminal_bundles x (subsupply uid 1) (context_of run) requests
                          [cancellation_intent uid run] LrCancelled now d1) (\<lambda>(_, d2). Inr d2)) (\<lambda>d2.
       Inr ((), abandon_run run now d2)))))"

section \<open>The run guards every statement\<close>

interpretation checkpointing: fenced "\<lambda>c now d. checkpoint_run x c now d" "\<lambda>d c now. run_current d (ck_run c) now" for x
  by unfold_locales (auto simp: checkpoint_run_def dest: not_run_current)

interpretation finalizing: fenced "\<lambda>c now d. finalize_run x uid c now d" "\<lambda>d c now. run_current d (fz_run c) now" for x uid
  by unfold_locales (auto simp: finalize_run_def dest: not_run_current)

interpretation cancelling: fenced "\<lambda>run now d. cancel_run x uid run c now d" run_current for x uid c
  by unfold_locales (auto simp: cancel_run_def dest: not_run_current)

section \<open>What terminal bundles leave alone\<close>

text \<open>The database without the tables that the creation of terminal bundles writes.\<close>

definition core :: "db \<Rightarrow> db" where
  "core d = d\<lparr>outbox := [], gateway_deliveries := [], deferred := [], bundles := [], outbox_deliveries := [],
              local_requests := []\<rparr>"

lemma core_tables:
  assumes "core d' = core d"
  shows "events d' = events d" "runs d' = runs d" "work_items d' = work_items d" "run_events d' = run_events d"
    "attempts d' = attempts d" "leases d' = leases d" "actors d' = actors d" "cancel_targets d' = cancel_targets d"
  using arg_cong[OF assms, of events] arg_cong[OF assms, of runs] arg_cong[OF assms, of work_items]
    arg_cong[OF assms, of run_events] arg_cong[OF assms, of attempts] arg_cong[OF assms, of leases]
    arg_cong[OF assms, of actors] arg_cong[OF assms, of cancel_targets]
  by (simp_all add: core_def)

lemma core_efold:
  assumes "efold f xs d = Inr d'" and "\<And>x d d'. f x d = Inr d' \<Longrightarrow> core d' = core d"
  shows "core d' = core d"
  by (rule efold_invariant[OF assms(1), of "\<lambda>s. core s = core d"]) (use assms(2) in auto)

lemma insert_outbox_Inr:
  assumes "insert_outbox x c now n d = Inr (i, d')"
  obtains rows r where "r \<in> set rows" "ob_id r = i" "ob_payload r = write_payload x (ni_payload n)" "ob_actor r = tc_actor c"
    "d' = d\<lparr>outbox := rows\<rparr>" "rows = outbox d \<or> (\<exists>r. rows = outbox d @ [r] \<and> ob_id r \<notin> ob_id ` set (outbox d))"
proof -
  obtain rows r where rows: "(if ni_key n \<in> ob_key ` set (outbox d) then Inr (outbox d)
            else insert_unique ob_id (outbox_of x c n now) (outbox d)) = Inr rows"
    and r: "List.find (\<lambda>r. ob_key r = ni_key n) rows = Some r" "ob_actor r = tc_actor c" "ob_payload r = write_payload x (ni_payload n)"
    and out: "i = ob_id r" "d' = d\<lparr>outbox := rows\<rparr>"
    using assms by (auto simp: insert_outbox_def ebind_eq_Inr)
  have "rows = outbox d \<or> (\<exists>r. rows = outbox d @ [r] \<and> ob_id r \<notin> ob_id ` set (outbox d))"
    using rows by (auto simp: insert_unique_eq_Inr split: if_splits)
  then show ?thesis using find_Some_in[OF r(1)] r(2,3) out by (intro that[of r rows]) simp_all
qed

lemma core_insert_outboxes: "insert_outboxes x c now ns d = Inr (is, d') \<Longrightarrow> core d' = core d"
proof (induction ns arbitrary: d "is")
  case Nil
  then show ?case by simp
next
  case (Cons n ns)
  then obtain i d1 js where a: "insert_outbox x c now n d = Inr (i, d1)" "insert_outboxes x c now ns d1 = Inr (js, d')"
    by (auto simp: ebind_eq_Inr)
  obtain rows where "d1 = d\<lparr>outbox := rows\<rparr>" by (rule insert_outbox_Inr[OF a(1)])
  then have "core d1 = core d" by (simp add: core_def)
  then show ?case using Cons.IH[OF a(2)] by simp
qed

lemma core_project:
  assumes "project_outbox_to_gateway x uid key i p route now d = Inr d'"
  shows "core d' = core d"
proof -
  obtain gs where "d' = d\<lparr>gateway_deliveries := gs\<rparr>" by (rule project_frame[OF assms])
  then show ?thesis by (simp add: core_def)
qed

lemma core_defer: "core (fold (\<lambda>p. defer_result a s now (snd p)) ps d) = core d"
  by (induction ps arbitrary: d) (simp_all add: defer_result_def core_def)

lemma core_route_intents: "route_intents x uid c ps now d = Inr d' \<Longrightarrow> core d' = core d"
  by (auto simp: route_intents_def project_intents_def ebind_eq_Inr core_defer split: option.splits if_splits
      elim!: core_efold dest!: core_project)

lemma insert_bundle_Inr:
  assumes "insert_bundle p now d = Inr d'"
  obtains r where "d' = d\<lparr>bundles := bundles d @ [r]\<rparr>" "rb_id r = bp_id p" "rb_request r = bp_request p"
    "rb_count r = int (length (bp_deliveries p))" "rb_manifest r = bp_manifest p" "rb_state r = BnPending"
    "bp_id p \<notin> rb_id ` set (bundles d)"
proof -
  let ?r = "\<lparr>rb_id = bp_id p, rb_request = bp_request p, rb_count = int (length (bp_deliveries p)),
     rb_manifest = bp_manifest p, rb_state = BnPending, rb_attempts = 0, rb_next = None,
     rb_owner = None, rb_expires = None, rb_error = None, rb_created = now, rb_updated = now\<rparr>"
  have "d' = d\<lparr>bundles := bundles d @ [?r]\<rparr>" "bp_id p \<notin> rb_id ` set (bundles d)"
    using assms by (auto simp: insert_bundle_def Let_def list_ex_iff split: if_splits)
  then show ?thesis using that[of ?r] by simp
qed

lemma insert_memberships_Inr:
  "efold insert_membership ms d = Inr d' \<Longrightarrow> d' = d\<lparr>outbox_deliveries := outbox_deliveries d @ ms\<rparr>"
proof (induction ms arbitrary: d)
  case Nil
  then show ?case by simp
next
  case (Cons m ms)
  then obtain d1 where d1: "insert_membership m d = Inr d1" "efold insert_membership ms d1 = Inr d'"
    by (auto simp: ebind_eq_Inr)
  have "d1 = d\<lparr>outbox_deliveries := outbox_deliveries d @ [m]\<rparr>"
    using d1(1) by (auto simp: insert_membership_def split: if_splits)
  then show ?case using Cons.IH[OF d1(2)] by simp
qed

lemma close_request_Inr:
  assumes "close_request p s now d = Inr d'"
  obtains r where "r \<in> set (local_requests d)" "lr_id r = bp_request p" "lr_state r = LrActive"
    "d' = d\<lparr>local_requests := update_where (\<lambda>r. lr_id r = bp_request p \<and> lr_state r = LrActive \<and> lr_bundle r = None)
         (\<lambda>r. r\<lparr>lr_state := s, lr_bundle := Some (bp_id p), lr_updated := now\<rparr>) (local_requests d)\<rparr>"
    "lr_bundle r = None"
  using assms by (auto simp: close_request_def Let_def ebind_eq_Inr elim!: changed_oneE)

text \<open>One plan: its bundle, its memberships, its request.\<close>

lemma execute_plan_Inr:
  assumes "execute_plan outs s now p d = Inr d'"
  obtains r q where "rb_id r = bp_id p" "rb_request r = bp_request p" "rb_count r = int (length (bp_deliveries p))"
    "rb_manifest r = bp_manifest p" "rb_state r = BnPending" "bp_id p \<notin> rb_id ` set (bundles d)"
    "q \<in> set (local_requests d)" "lr_id q = bp_request p" "lr_state q = LrActive" "lr_bundle q = None"
    "d' = d\<lparr>bundles := bundles d @ [r], outbox_deliveries := outbox_deliveries d @ plan_memberships p outs now,
       local_requests := update_where (\<lambda>r. lr_id r = bp_request p \<and> lr_state r = LrActive \<and> lr_bundle r = None)
         (\<lambda>r. r\<lparr>lr_state := s, lr_bundle := Some (bp_id p), lr_updated := now\<rparr>) (local_requests d)\<rparr>"
proof -
  obtain d1 d2 where d1: "insert_bundle p now d = Inr d1"
    and d2: "efold insert_membership (plan_memberships p outs now) d1 = Inr d2" and d3: "close_request p s now d2 = Inr d'"
    using assms by (auto simp: execute_plan_def ebind_eq_Inr)
  obtain r where r: "d1 = d\<lparr>bundles := bundles d @ [r]\<rparr>" "rb_id r = bp_id p" "rb_request r = bp_request p"
    "rb_count r = int (length (bp_deliveries p))" "rb_manifest r = bp_manifest p" "rb_state r = BnPending"
    "bp_id p \<notin> rb_id ` set (bundles d)"
    by (rule insert_bundle_Inr[OF d1])
  obtain q where q: "q \<in> set (local_requests d2)" "lr_id q = bp_request p" "lr_state q = LrActive"
    "d' = d2\<lparr>local_requests := update_where (\<lambda>r. lr_id r = bp_request p \<and> lr_state r = LrActive \<and> lr_bundle r = None)
         (\<lambda>r. r\<lparr>lr_state := s, lr_bundle := Some (bp_id p), lr_updated := now\<rparr>) (local_requests d2)\<rparr>" "lr_bundle q = None"
    by (rule close_request_Inr[OF d3])
  show ?thesis using that[of r q] r q insert_memberships_Inr[OF d2] by simp
qed

lemma core_execute_plan:
  assumes "execute_plan outs s now p d = Inr d'"
  shows "core d' = core d"
  by (rule execute_plan_Inr[OF assms]) (simp add: core_def)

text \<open>The stages of a successful creation.\<close>

lemma create_terminal_bundles_Inr:
  assumes "create_terminal_bundles x uid c requests intents requested now d = Inr (eff, d')"
  obtains unique ns plans outs d1 d2 where "unique_intents intents = Inr unique"
    "effective_intents x (subsupply uid 0) c unique requested = Inr (ns, eff)"
    "build_plans x (subsupply uid 1) ns requests = Inr plans" "insert_outboxes x c now ns d = Inr (outs, d1)"
    "route_intents x (subsupply uid 2) c (zip ns outs) now d1 = Inr d2" "efold (execute_plan outs eff now) plans d2 = Inr d'"
  using assms by (auto simp: create_terminal_bundles_def ebind_eq_Inr)

lemma create_terminal_bundles_core:
  assumes "create_terminal_bundles x uid c requests intents requested now d = Inr (eff, d')"
  shows "core d' = core d"
proof -
  obtain unique ns plans outs d1 d2 where "insert_outboxes x c now ns d = Inr (outs, d1)"
    "route_intents x (subsupply uid 2) c (zip ns outs) now d1 = Inr d2" "efold (execute_plan outs eff now) plans d2 = Inr d'"
    by (rule create_terminal_bundles_Inr[OF assms])
  then show ?thesis using core_insert_outboxes core_route_intents core_efold[of _ plans d2 d'] core_execute_plan by metis
qed

lemma effective_state:
  assumes "effective_intents x uid c ns requested = Inr (ms, eff)"
  shows "(eff = requested \<and> ms = ns \<and> validate_intents x (subsupply uid 0) ns = Inr ())
     \<or> (eff = LrFailedTerminal \<and> (\<exists>e. validate_intents x (subsupply uid 0) ns = Inl e \<and> ms = [payload_error_intent (subsupply uid 1) c e]))"
  using assms by (auto simp: effective_intents_def Let_def ebind_eq_Inr split: sum.splits)

section \<open>The requests a run answers\<close>

definition closed_with :: "local_request_state \<Rightarrow> bundle_plan \<Rightarrow> db \<Rightarrow> bool" where
  "closed_with s p d \<longleftrightarrow> (\<exists>r \<in> set (local_requests d). lr_id r = bp_request p \<and> lr_state r = s \<and> lr_bundle r = Some (bp_id p))"

lemma execute_plan_closes:
  assumes "execute_plan outs s now p d = Inr d'"
  shows "closed_with s p d'" and "closed_with s q d \<Longrightarrow> closed_with s q d'"
    and "map lr_id (local_requests d') = map lr_id (local_requests d)"
proof -
  let ?p = "\<lambda>r. lr_id r = bp_request p \<and> lr_state r = LrActive \<and> lr_bundle r = None"
  let ?f = "\<lambda>r. r\<lparr>lr_state := s, lr_bundle := Some (bp_id p), lr_updated := now\<rparr>"
  obtain q0 where q0: "q0 \<in> set (local_requests d)" "lr_id q0 = bp_request p" "lr_state q0 = LrActive" "lr_bundle q0 = None"
    and d': "local_requests d' = update_where ?p ?f (local_requests d)"
    by (rule execute_plan_Inr[OF assms]) simp
  have "?f q0 \<in> set (local_requests d')" using q0 by (auto simp: d' set_update_where image_iff intro!: bexI[of _ q0])
  then show "closed_with s p d'" unfolding closed_with_def by (rule bexI[rotated]) (simp add: q0)
  show "map lr_id (local_requests d') = map lr_id (local_requests d)" by (simp add: d' map_update_where)
  show "closed_with s q d'" if closed: "closed_with s q d"
  proof -
    obtain r where r: "r \<in> set (local_requests d)" "lr_id r = bp_request q" "lr_state r = s" "lr_bundle r = Some (bp_id q)"
      using closed unfolding closed_with_def by blast
    then have "r \<in> set (local_requests d')" by (auto simp: d' set_update_where image_iff intro!: bexI[of _ r])
    then show ?thesis using r by (auto simp: closed_with_def)
  qed
qed

lemma execute_plans_close:
  assumes "efold (execute_plan outs s now) plans d = Inr d'"
  shows "\<forall>p \<in> set plans. closed_with s p d'" and "map lr_id (local_requests d') = map lr_id (local_requests d)"
proof -
  have "(\<forall>p \<in> set plans. closed_with s p d') \<and> map lr_id (local_requests d') = map lr_id (local_requests d)
      \<and> (\<forall>q. closed_with s q d \<longrightarrow> closed_with s q d')"
    using assms
  proof (induction plans arbitrary: d)
    case Nil
    then show ?case by simp
  next
    case (Cons p ps)
    then obtain d1 where d1: "execute_plan outs s now p d = Inr d1" "efold (execute_plan outs s now) ps d1 = Inr d'"
      by (auto simp: ebind_eq_Inr)
    show ?case using Cons.IH[OF d1(2)] execute_plan_closes[OF d1(1)] by auto
  qed
  then show "\<forall>p \<in> set plans. closed_with s p d'" and "map lr_id (local_requests d') = map lr_id (local_requests d)"
    by blast+
qed

section \<open>The bundles that are written can be read\<close>

lemma insert_outboxes_Inr:
  assumes "insert_outboxes x c now ns d = Inr (outs, d')" and "distinct (map ob_id (outbox d))"
  shows "\<exists>rows. d' = d\<lparr>outbox := rows\<rparr> \<and> set (outbox d) \<subseteq> set rows \<and> distinct (map ob_id rows)
     \<and> list_all2 (\<lambda>n i. \<exists>r \<in> set rows. ob_id r = i \<and> ob_payload r = write_payload x (ni_payload n)) ns outs"
  using assms
proof (induction ns arbitrary: d outs)
  case Nil
  then show ?case by (auto intro!: exI[of _ "outbox d"])
next
  case (Cons n ns)
  then obtain i d1 js where a: "insert_outbox x c now n d = Inr (i, d1)" "insert_outboxes x c now ns d1 = Inr (js, d')"
    and outs: "outs = i # js"
    by (auto simp: ebind_eq_Inr)
  obtain rows1 r where r: "r \<in> set rows1" "ob_id r = i" "ob_payload r = write_payload x (ni_payload n)"
    and d1: "d1 = d\<lparr>outbox := rows1\<rparr>" "rows1 = outbox d \<or> (\<exists>r. rows1 = outbox d @ [r] \<and> ob_id r \<notin> ob_id ` set (outbox d))"
    by (rule insert_outbox_Inr[OF a(1)])
  have k: "distinct (map ob_id (outbox d1))" "set (outbox d) \<subseteq> set rows1" using d1 Cons.prems(2) by auto
  obtain rows where rows: "d' = d1\<lparr>outbox := rows\<rparr>" "set (outbox d1) \<subseteq> set rows" "distinct (map ob_id rows)"
    "list_all2 (\<lambda>n i. \<exists>r \<in> set rows. ob_id r = i \<and> ob_payload r = write_payload x (ni_payload n)) ns js"
    using Cons.IH[OF a(2) k(1)] by blast
  have "r \<in> set rows" using r(1) rows(2) by (auto simp: d1(1))
  then have "list_all2 (\<lambda>n i. \<exists>r \<in> set rows. ob_id r = i \<and> ob_payload r = write_payload x (ni_payload n)) (n # ns) outs"
    using rows(4) r(2,3) outs by auto
  moreover have "d' = d\<lparr>outbox := rows\<rparr>" "set (outbox d) \<subseteq> set rows" using rows(1,2) k(2) by (auto simp: d1(1))
  ultimately show ?case using rows(3) by blast
qed

definition bundle_of_plan :: "bundle_plan \<Rightarrow> bundle_row \<Rightarrow> bool" where
  "bundle_of_plan p r \<longleftrightarrow> rb_id r = bp_id p \<and> rb_request r = bp_request p \<and> rb_count r = int (length (bp_deliveries p))
     \<and> rb_manifest r = bp_manifest p \<and> rb_state r = BnPending"

lemma execute_plans_effect:
  "efold (execute_plan outs s now) plans d = Inr d' \<Longrightarrow>
     outbox d' = outbox d
     \<and> outbox_deliveries d' = outbox_deliveries d @ concat (map (\<lambda>p. plan_memberships p outs now) plans)
     \<and> distinct (map bp_id plans) \<and> set (map bp_id plans) \<inter> rb_id ` set (bundles d) = {}
     \<and> (\<exists>rs. bundles d' = bundles d @ rs \<and> list_all2 bundle_of_plan plans rs)"
proof (induction plans arbitrary: d)
  case Nil
  then show ?case by simp
next
  case (Cons p ps)
  then obtain d1 where d1: "execute_plan outs s now p d = Inr d1" "efold (execute_plan outs s now) ps d1 = Inr d'"
    by (auto simp: ebind_eq_Inr)
  obtain r where r: "bundle_of_plan p r" "bp_id p \<notin> rb_id ` set (bundles d)" "bundles d1 = bundles d @ [r]"
    "outbox_deliveries d1 = outbox_deliveries d @ plan_memberships p outs now" "outbox d1 = outbox d"
    by (rule execute_plan_Inr[OF d1(1)]) (simp add: bundle_of_plan_def)
  obtain rs where rs: "bundles d' = bundles d1 @ rs" "list_all2 bundle_of_plan ps rs" using Cons.IH[OF d1(2)] by blast
  have "bundles d' = bundles d @ (r # rs)" "list_all2 bundle_of_plan (p # ps) (r # rs)" using rs r by simp_all
  moreover have "bp_id p \<notin> set (map bp_id ps)" using Cons.IH[OF d1(2)] r(1,3) by (auto simp: bundle_of_plan_def)
  ultimately show ?case using Cons.IH[OF d1(2)] r by auto
qed

lemma deliveries_for_payloads: "map snd (deliveries_for uid ns) = map (\<lambda>n. payload_from_outbox (ni_payload n)) ns"
  by (intro nth_equalityI) (simp_all add: deliveries_for_def)

lemma inner_join_single:
  assumes "\<And>m. m \<in> set ms \<Longrightarrow> filter (on m) rows = [f m]"
  shows "inner_join on ms rows = map (\<lambda>m. (m, f m)) ms"
  using assms by (induction ms) (auto simp: inner_join_def)

lemma length_deliveries_for [simp]: "length (deliveries_for uid ns) = length ns"
  by (simp add: deliveries_for_def)

lemma deliveries_for_nth: "k < length ns \<Longrightarrow> deliveries_for uid ns ! k = (uid [k], payload_from_outbox (ni_payload (ns ! k)))"
  by (simp add: deliveries_for_def)

lemma build_plan_Inr:
  assumes "build_plan x uid ns (k, q) = Inr p"
  shows "bp_request p = q \<and> bp_id p = subsupply uid k [length ns] \<and> bp_deliveries p = deliveries_for (subsupply uid k) ns
     \<and> (\<exists>m. manifest_for x (bp_deliveries p) = Inr m \<and> bp_manifest p = mf_sha256 m)"
  using assms by (auto simp: build_plan_def Let_def ebind_eq_Inr)

lemma build_plans_Inr:
  assumes "build_plans x uid ns qs = Inr plans"
  shows "map bp_request plans = qs"
    and "p \<in> set plans \<Longrightarrow> \<exists>k m. k < length qs \<and> bp_id p = uid [k, length ns] \<and> bp_deliveries p = deliveries_for (subsupply uid k) ns
           \<and> manifest_for x (bp_deliveries p) = Inr m \<and> bp_manifest p = mf_sha256 m"
proof -
  have l: "list_all2 (\<lambda>kq p. build_plan x uid ns kq = Inr p) (zip [0..<length qs] qs) plans"
    using assms by (simp add: build_plans_def emap_eq_Inr)
  then have n: "length plans = length qs" using list_all2_lengthD by fastforce
  have each: "build_plan x uid ns (k, qs ! k) = Inr (plans ! k)" if "k < length qs" for k
    using list_all2_nthD[OF l, of k] that by simp
  then have "bp_request (plans ! k) = qs ! k" if "k < length qs" for k
    using build_plan_Inr[OF each[OF that]] by blast
  then show "map bp_request plans = qs"
    by (intro nth_equalityI) (simp_all add: n)
  assume "p \<in> set plans"
  then obtain k where "k < length qs" "plans ! k = p" using n by (auto simp: in_set_conv_nth)
  then show "\<exists>k m. k < length qs \<and> bp_id p = uid [k, length ns] \<and> bp_deliveries p = deliveries_for (subsupply uid k) ns
           \<and> manifest_for x (bp_deliveries p) = Inr m \<and> bp_manifest p = mf_sha256 m"
    using build_plan_Inr[OF each[of k]] by (intro exI[of _ k]) (auto simp: subsupply_def)
qed

lemma filter_no_group:
  "(\<And>q m. q \<in> set ps \<Longrightarrow> m \<in> set (g q) \<Longrightarrow> key m \<noteq> a) \<Longrightarrow> filter (\<lambda>m. key m = a) (concat (map g ps)) = []"
  by (auto simp: filter_empty_conv)

lemma filter_groups:
  assumes "distinct (map k ps)" and "p \<in> set ps" and "\<And>q m. q \<in> set ps \<Longrightarrow> m \<in> set (g q) \<Longrightarrow> key m = k q"
  shows "filter (\<lambda>m. key m = k p) (concat (map g ps)) = g p"
proof -
  obtain us vs where ps: "ps = us @ p # vs" using assms(2) by (auto simp: in_set_conv_decomp)
  have "k q \<noteq> k p" if "q \<in> set us \<union> set vs" for q using assms(1) that by (auto simp: ps image_iff)
  then have "key m \<noteq> k p" if "q \<in> set us \<union> set vs" "m \<in> set (g q)" for q m
    using that assms(3)[of q m] by (auto simp: ps)
  then have "filter (\<lambda>m. key m = k p) (concat (map g us)) = []" "filter (\<lambda>m. key m = k p) (concat (map g vs)) = []"
    by (blast intro: filter_no_group)+
  moreover have "filter (\<lambda>m. key m = k p) (g p) = g p" using assms(2,3) by (intro filter_True) blast
  ultimately show ?thesis by (simp add: ps)
qed

text \<open>The memberships of one plan, read back from the tables.\<close>

lemma memberships_of_plan:
  assumes "efold (execute_plan outs s now) plans d = Inr d'" and "p \<in> set plans"
    and "\<forall>m \<in> set (outbox_deliveries d). od_bundle m \<in> rb_id ` set (bundles d)"
    and "distinct (map ob_id (outbox d))" and "\<forall>i \<in> set outs. i \<in> ob_id ` set (outbox d)"
  shows "memberships d' (bp_id p) = map (\<lambda>m. (m, the (List.find (\<lambda>r. ob_id r = od_outbox m) (outbox d)))) (plan_memberships p outs now)"
proof -
  note e = execute_plans_effect[OF assms(1)]
  have old: "filter (\<lambda>m. od_bundle m = bp_id p) (outbox_deliveries d) = []"
    using e assms(2,3) by (auto simp: filter_empty_conv)
  have "filter (\<lambda>m. od_bundle m = bp_id p) (concat (map (\<lambda>p. plan_memberships p outs now) plans)) = plan_memberships p outs now"
    by (rule filter_groups) (use e assms(2) in \<open>auto simp: plan_memberships_def\<close>)
  then have ms: "filter (\<lambda>m. od_bundle m = bp_id p) (outbox_deliveries d') = plan_memberships p outs now"
    using e old assms(2) by simp
  let ?f = "\<lambda>m. the (List.find (\<lambda>r. ob_id r = od_outbox m) (outbox d))"
  have "filter (\<lambda>r. ob_id r = od_outbox m) (outbox d) = [?f m]" if m: "m \<in> set (plan_memberships p outs now)" for m
  proof -
    have "od_outbox m \<in> set outs" using m by (auto simp: plan_memberships_def dest!: set_zip_rightD)
    then obtain r where "r \<in> set (outbox d)" "ob_id r = od_outbox m" using assms(5) by fastforce
    then show ?thesis using filter_key_single[OF assms(4), of r "\<lambda>r. ob_id r = od_outbox m"] find_key[OF assms(4), of r] by simp
  qed
  then have j: "inner_join (\<lambda>m s. ob_id s = od_outbox m) (plan_memberships p outs now) (outbox d) = map (\<lambda>m. (m, ?f m)) (plan_memberships p outs now)"
    by (rule inner_join_single)
  have "sorted (map (\<lambda>q. od_ordinal (fst q)) (map (\<lambda>m. (m, ?f m)) (plan_memberships p outs now)))"
    by (auto simp: sorted_iff_nth_mono plan_memberships_def)
  then show ?thesis using e ms j by (simp add: memberships_def sort_key_id_if_sorted)
qed

lemma length_plan_memberships:
  "length (plan_memberships p outs now) = min (length (bp_deliveries p)) (length outs)"
  by (simp add: plan_memberships_def)

lemma plan_membership_nth:
  assumes "k < length (bp_deliveries p)" and "k < length outs"
  shows "plan_memberships p outs now ! k = \<lparr>od_id = fst (bp_deliveries p ! k), od_outbox = outs ! k, od_bundle = bp_id p,
     od_ordinal = int k, od_address = bp_request p, od_created = now\<rparr>"
  using assms by (simp add: plan_memberships_def)

lemma plan_reads_back:
  assumes "payload_roundtrip x" and "bp_deliveries p = deliveries_for uid ns" and "\<forall>k. parse_uuid x (uid [k]) = Some (uid [k])"
    and "distinct (map ob_id rows)"
    and "list_all2 (\<lambda>n i. \<exists>r \<in> set rows. ob_id r = i \<and> ob_payload r = write_payload x (ni_payload n)) ns outs"
    and "rs = map (\<lambda>m. (m, the (List.find (\<lambda>r. ob_id r = od_outbox m) rows))) (plan_memberships p outs now)"
  shows "emap (read_membership x (bp_request p)) (zip [0..<length rs] rs) = Inr (bp_deliveries p)" and "length rs = length ns"
proof -
  have n: "length outs = length ns" using list_all2_lengthD[OF assms(5)] by simp
  then show len: "length rs = length ns" using assms(2,6) by (simp add: length_plan_memberships)
  have each: "read_membership x (bp_request p) (k, rs ! k) = Inr (bp_deliveries p ! k)" if k: "k < length ns" for k
  proof -
    obtain r where r: "r \<in> set rows" "ob_id r = outs ! k" "ob_payload r = write_payload x (ni_payload (ns ! k))"
      using list_all2_nthD[OF assms(5) k] by blast
    have m: "plan_memberships p outs now ! k = \<lparr>od_id = uid [k], od_outbox = outs ! k, od_bundle = bp_id p,
        od_ordinal = int k, od_address = bp_request p, od_created = now\<rparr>"
      using k n assms(2) by (simp add: plan_membership_nth deliveries_for_nth)
    have "k < length (plan_memberships p outs now)" using k n assms(2) by (simp add: length_plan_memberships)
    then have "rs ! k = (plan_memberships p outs now ! k, r)"
      using find_key[OF assms(4) r(1)] r(2) m by (simp add: assms(6))
    then show ?thesis using r(3) m k assms(1,3)
      by (simp add: read_membership_def parse_id_def payload_roundtrip_def assms(2) deliveries_for_nth)
  qed
  then show "emap (read_membership x (bp_request p)) (zip [0..<length rs] rs) = Inr (bp_deliveries p)"
    unfolding emap_eq_Inr by (intro list_all2_all_nthI) (simp_all add: len assms(2))
qed

lemma route_intents_outbox:
  assumes "route_intents x uid c ps now d = Inr d'"
  shows "outbox d' = outbox d \<and> bundles d' = bundles d \<and> outbox_deliveries d' = outbox_deliveries d \<and> local_requests d' = local_requests d"
proof -
  let ?P = "\<lambda>d'. outbox d' = outbox d \<and> bundles d' = bundles d \<and> outbox_deliveries d' = outbox_deliveries d \<and> local_requests d' = local_requests d"
  have deferred: "?P (fold (\<lambda>p. defer_result a s now (snd p)) ps d)" for a s
    by (induction ps arbitrary: d) (simp_all add: defer_result_def)
  show ?thesis
  proof (cases "tc_route c")
    case None
    then show ?thesis using assms deferred by (auto simp: route_intents_def ebind_eq_Inr split: if_splits)
  next
    case (Some route)
    then have "project_intents x uid route now ps d = Inr d'" using assms by (simp add: route_intents_def)
    then show ?thesis unfolding project_intents_def
      by (rule efold_invariant[where P = ?P]) (auto elim!: project_frame)
  qed
qed

text \<open>
  C16. A result that is written can be read. After the bundles of a run were created, the request
  of each is closed and owns a pending bundle that loads, with one delivery for each intent, in
  order and with the intent's payload. The intents are those of the run with repeated keys merged,
  when a manifest can be made of them; otherwise there is one, the payload error with the reason
  the manifest was refused for, and the requests have failed.
\<close>

theorem terminal_bundles_load:
  assumes "create_terminal_bundles x uid c qs intents s now d = Inr (eff, d')"
    and "payload_roundtrip x" and "\<forall>p. parse_uuid x (uid p) = Some (uid p)" and "\<forall>q \<in> set qs. parse_uuid x q = Some q"
    and "distinct (map ob_id (outbox d))" and "distinct (map rb_id (bundles d))"
    and "\<forall>m \<in> set (outbox_deliveries d). od_bundle m \<in> rb_id ` set (bundles d)"
  shows "\<exists>unique ns. unique_intents intents = Inr unique
     \<and> (case manifest_for x (deliveries_for (subsupply (subsupply uid 0) 0) unique) of
          Inr m \<Rightarrow> eff = s \<and> ns = unique
        | Inl e \<Rightarrow> eff = LrFailedTerminal \<and> map ni_payload ns = [OpTerminalError ''invalid_final_payload'' (err_text e)]) \<and>
    (\<forall>q \<in> set qs. \<exists>b bu. (\<exists>r \<in> set (local_requests d'). lr_id r = q \<and> lr_state r = eff \<and> lr_bundle r = Some b)
       \<and> load_bundle_row x d' b = Inr bu \<and> bu_request bu = q \<and> bu_state bu = BnPending
       \<and> map snd (bu_deliveries bu) = map (\<lambda>n. payload_from_outbox (ni_payload n)) ns)"
proof -
  obtain unique ns plans outs d1 d2 where u: "unique_intents intents = Inr unique"
    and eff: "effective_intents x (subsupply uid 0) c unique s = Inr (ns, eff)"
    and plans: "build_plans x (subsupply uid 1) ns qs = Inr plans" and outs: "insert_outboxes x c now ns d = Inr (outs, d1)"
    and r: "route_intents x (subsupply uid 2) c (zip ns outs) now d1 = Inr d2" and e: "efold (execute_plan outs eff now) plans d2 = Inr d'"
    by (rule create_terminal_bundles_Inr[OF assms(1)])
  obtain rows where rows: "d1 = d\<lparr>outbox := rows\<rparr>" "distinct (map ob_id rows)"
    "list_all2 (\<lambda>n i. \<exists>r \<in> set rows. ob_id r = i \<and> ob_payload r = write_payload x (ni_payload n)) ns outs"
    using insert_outboxes_Inr[OF outs assms(5)] by blast
  have d2: "outbox d2 = rows" "bundles d2 = bundles d" "outbox_deliveries d2 = outbox_deliveries d"
    using route_intents_outbox[OF r] by (simp_all add: rows(1))
  have in_rows: "\<forall>i \<in> set outs. i \<in> ob_id ` set (outbox d2)"
  proof
    fix i
    assume "i \<in> set outs"
    then obtain k where "k < length outs" "outs ! k = i" by (auto simp: in_set_conv_nth)
    then obtain r where "r \<in> set rows" "ob_id r = i" using rows(3) by (auto simp: list_all2_conv_all_nth)
    then show "i \<in> ob_id ` set (outbox d2)" by (auto simp: d2)
  qed
  note effect = execute_plans_effect[OF e]
  obtain rs where bd: "bundles d' = bundles d @ rs" "list_all2 bundle_of_plan plans rs" using effect by (auto simp: d2)
  have ids: "map rb_id rs = map bp_id plans"
    using bd(2) by (auto simp: list_all2_conv_all_nth bundle_of_plan_def intro!: nth_equalityI)
  have keys: "distinct (map rb_id (bundles d'))"
    using effect assms(6) ids by (auto simp: bd(1) d2 simp flip: set_map)
  have loads: "\<exists>bu. load_bundle_row x d' (bp_id p) = Inr bu \<and> bu_request bu = bp_request p \<and> bu_state bu = BnPending
       \<and> map snd (bu_deliveries bu) = map (\<lambda>n. payload_from_outbox (ni_payload n)) ns" if p: "p \<in> set plans" for p
  proof -
    obtain k m where k: "bp_id p = uid [1, k, length ns]" "bp_deliveries p = deliveries_for (subsupply (subsupply uid 1) k) ns"
      and m: "manifest_for x (bp_deliveries p) = Inr m" "bp_manifest p = mf_sha256 m"
      using build_plans_Inr(2)[OF plans p] by (auto simp: subsupply_def)
    obtain b where b: "b \<in> set (bundles d')" "bundle_of_plan p b"
      using bd p by (metis (no_types, lifting) UnCI in_set_conv_nth list_all2_conv_all_nth set_append)
    have f: "find_bundle d' (bp_id p) = Some b"
      using find_key[OF keys b(1)] b(2) by (simp add: find_bundle_def bundle_of_plan_def)
    have mem: "memberships d' (bp_id p) = map (\<lambda>m. (m, the (List.find (\<lambda>r. ob_id r = od_outbox m) rows))) (plan_memberships p outs now)"
      using memberships_of_plan[OF e p _ _ in_rows] assms(7) rows(2) by (simp add: d2)
    have sup: "\<forall>j. parse_uuid x (subsupply (subsupply uid 1) k [j]) = Some (subsupply (subsupply uid 1) k [j])"
      using assms(3) by (simp add: subsupply_def)
    note rd = plan_reads_back[OF assms(2) k(2) sup rows(2,3) mem]
    have pid: "parse_uuid x (bp_id p) = Some (bp_id p)" using assms(3) k(1) by simp
    have q: "parse_uuid x (bp_request p) = Some (bp_request p)"
      using assms(4) build_plans_Inr(1)[OF plans] p by auto
    have n: "length ns \<le> MAX_BUNDLE_DELIVERIES" "length (bp_deliveries p) = length ns" using manifest_for_Inr(3)[OF m(1)] k(2) by simp_all
    have "load_bundle_row x d' (bp_id p) = Inr \<lparr>bu_id = bp_id p, bu_request = bp_request p, bu_state = BnPending,
        bu_manifest = m, bu_deliveries = bp_deliveries p\<rparr>"
      using b(2) rd n m q pid by (simp add: load_bundle_row_def f Let_def bundle_of_plan_def parse_id_def)
    then show ?thesis by (simp add: k(2) deliveries_for_payloads)
  qed
  have closed: "\<forall>p \<in> set plans. closed_with eff p d'" by (rule execute_plans_close(1)[OF e])
  have "\<exists>b bu. (\<exists>r \<in> set (local_requests d'). lr_id r = q \<and> lr_state r = eff \<and> lr_bundle r = Some b)
       \<and> load_bundle_row x d' b = Inr bu \<and> bu_request bu = q \<and> bu_state bu = BnPending
       \<and> map snd (bu_deliveries bu) = map (\<lambda>n. payload_from_outbox (ni_payload n)) ns" if mem: "q \<in> set qs" for q
  proof -
    obtain p where p: "p \<in> set plans" "bp_request p = q" using mem build_plans_Inr(1)[OF plans] by auto
    then show ?thesis using loads[OF p(1)] closed unfolding closed_with_def by blast
  qed
  moreover have "case manifest_for x (deliveries_for (subsupply (subsupply uid 0) 0) unique) of
          Inr m \<Rightarrow> eff = s \<and> ns = unique
        | Inl e \<Rightarrow> eff = LrFailedTerminal \<and> map ni_payload ns = [OpTerminalError ''invalid_final_payload'' (err_text e)]"
    using eff by (auto simp: effective_intents_def validate_intents_def payload_error_intent_def Let_def ebind_eq_Inr ebind_eq_Inl split: sum.splits)
  ultimately show ?thesis using u by blast
qed

section \<open>The end of a run\<close>

lemma head_option_in: "(case xs of [] \<Rightarrow> None | p # _ \<Rightarrow> Some p) = Some q \<Longrightarrow> q \<in> set xs"
  by (cases xs) auto

lemma run_current_active:
  assumes "run_current d run now"
  shows "\<exists>r \<in> set (runs d). rn_id r = ar_run run \<and> rn_state r = RunActive"
proof -
  obtain r w where "active_run d (ar_run run) = Some (r, w)"
    using assms by (auto simp: run_current_def validate_run_def ebind_eq_Inr simp del: validate_run_Inr)
  then have "(r, w) \<in> set (inner_join (\<lambda>r w. wi_id w = rn_work r)
      (filter (\<lambda>r. rn_id r = ar_run run \<and> rn_state r = RunActive) (runs d)) (work_items d))"
    unfolding active_run_def by (rule head_option_in)
  then show ?thesis by auto
qed

text \<open>Input the run has not seen: a later pending message or cancellation for the same audience.\<close>

definition unobserved :: "attached_run \<Rightarrow> event_row \<Rightarrow> bool" where
  "unobserved run e \<longleftrightarrow> ev_actor e = ls_actor (ar_lease run) \<and> ev_state e = EvPending \<and> ar_observed run < ev_seq e
     \<and> (ev_kind e = CancelRequested \<or> ev_kind e = UserMessage) \<and> ev_audience e = ar_audience run"

lemma newest_compatible_input_eq:
  "newest_compatible_input d run (ar_observed run) = ebind (encode_audience (ar_audience run))
     (\<lambda>_. Inr (max_of (map ev_seq (filter (unobserved run) (events d)))))"
  by (simp add: newest_compatible_input_def unobserved_def[abs_def])

lemma max_of_in: "max_of xs = Some m \<Longrightarrow> m \<in> set xs"
proof -
  have "foldl max x ys \<in> set (x # ys)" for x :: int and ys
    by (induction ys arbitrary: x) (auto simp: max_def)
  then show "max_of xs = Some m \<Longrightarrow> m \<in> set xs" by (auto simp: max_of_def split: list.splits)
qed

lemma complete_run_Inr:
  assumes "complete_run x uid c now d = Inr (out, d')"
  obtains requests intents d1 d2 eff es rs ws where "out = FoCompleted"
    "require_all_events_incorporated d (fz_run c) (fz_events c) = Inr ()"
    "d1 = d\<lparr>recent := recent d @ map (message_row x (fz_run c) now) (fz_messages c)\<rparr>"
    "incorporated_local_requests x d1 (ar_run (fz_run c)) = Inr requests"
    "create_terminal_bundles x (subsupply uid 1) (context_of (fz_run c)) requests intents LrCompleted now d1 = Inr (eff, d2)"
    "terminal_states eff = Inr (es, rs, ws)" "d' = close_run (fz_run c) (es, rs, ws) now d2"
  using assms by (auto simp: complete_run_def ebind_eq_Inr insert_messages_def)

lemma execute_plans_active:
  assumes "efold (execute_plan outs s now) plans d = Inr d'" and "r \<in> set (local_requests d')" and "lr_state r = LrActive" and "s \<noteq> LrActive"
  shows "r \<in> set (local_requests d)"
  using assms(1,2)
proof (induction plans arbitrary: d)
  case Nil
  then show ?case by simp
next
  case (Cons p ps)
  then obtain d1 where d1: "execute_plan outs s now p d = Inr d1" "efold (execute_plan outs s now) ps d1 = Inr d'"
    by (auto simp: ebind_eq_Inr)
  have "r \<in> set (local_requests d1)" using Cons.IH[OF d1(2) Cons.prems(2)] .
  moreover obtain q where "local_requests d1 = update_where q (\<lambda>r. r\<lparr>lr_state := s, lr_bundle := Some (bp_id p), lr_updated := now\<rparr>) (local_requests d)"
    by (rule execute_plan_Inr[OF d1(1)]) simp
  ultimately show ?case using assms(3,4) by (auto simp: set_update_where split: if_splits)
qed

lemma terminal_not_active: "terminal_states eff = Inr t \<Longrightarrow> eff \<noteq> LrActive"
  by auto

lemma execute_plans_answered:
  assumes "efold (execute_plan outs s now) plans d = Inr d'" and "r \<in> set (local_requests d)" and "lr_state r \<noteq> LrActive"
  shows "r \<in> set (local_requests d')"
  using assms(1,2)
proof (induction plans arbitrary: d)
  case (Cons p ps)
  then obtain d1 where d1: "execute_plan outs s now p d = Inr d1" "efold (execute_plan outs s now) ps d1 = Inr d'"
    by (auto simp: ebind_eq_Inr)
  obtain f where "local_requests d1 = update_where (\<lambda>r. lr_id r = bp_request p \<and> lr_state r = LrActive \<and> lr_bundle r = None) f (local_requests d)"
    by (rule execute_plan_Inr[OF d1(1)]) simp
  then have "r \<in> set (local_requests d1)" using Cons.prems(2) assms(3) by (auto simp: set_update_where image_iff intro!: bexI[of _ r])
  then show ?case by (rule Cons.IH[OF d1(2)])
qed simp

lemma create_terminal_bundles_plans:
  assumes "create_terminal_bundles x uid c requests intents s now d = Inr (eff, d')"
  obtains plans outs d2 where "map bp_request plans = requests" "efold (execute_plan outs eff now) plans d2 = Inr d'"
    "local_requests d2 = local_requests d"
proof -
  obtain unique ns plans outs d1 d2 where plans: "build_plans x (subsupply uid 1) ns requests = Inr plans"
    and outs: "insert_outboxes x c now ns d = Inr (outs, d1)"
    and rt: "route_intents x (subsupply uid 2) c (zip ns outs) now d1 = Inr d2" and e: "efold (execute_plan outs eff now) plans d2 = Inr d'"
    by (rule create_terminal_bundles_Inr[OF assms])
  have "local_requests d1 = local_requests d" using outs
  proof (induction ns arbitrary: d outs)
    case (Cons n ns)
    then obtain i d0 js where o: "insert_outbox x c now n d = Inr (i, d0)" "insert_outboxes x c now ns d0 = Inr (js, d1)"
      by (auto simp: ebind_eq_Inr)
    obtain rows where "d0 = d\<lparr>outbox := rows\<rparr>" by (rule insert_outbox_Inr[OF o(1)])
    then show ?case using Cons.IH[OF o(2)] by simp
  qed simp
  then show ?thesis using that[OF build_plans_Inr(1)[OF plans] e] route_intents_outbox[OF rt] by simp
qed

text \<open>Every active request of the run is answered with the state of its end; the others stay as they are.\<close>

lemma request_closed:
  assumes "incorporated_local_requests x d run = Inr requests"
    and "create_terminal_bundles x uid c requests intents s now d = Inr (eff, d')"
    and "\<forall>r \<in> set (local_requests d). parse_uuid x (lr_id r) = Some (lr_id r)"
    and "r \<in> set (local_requests d)" and "lr_state r = LrActive"
    and "y \<in> set (run_events d)" and "re_run y = run" and "re_incorporated y" and "re_event y = lr_event r"
  shows "\<exists>r' \<in> set (local_requests d'). lr_id r' = lr_id r \<and> lr_state r' = eff \<and> lr_bundle r' \<noteq> None"
proof -
  obtain plans outs d2 where plans: "map bp_request plans = requests" and e: "efold (execute_plan outs eff now) plans d2 = Inr d'"
    by (rule create_terminal_bundles_plans[OF assms(2)])
  let ?joined = "inner_join (\<lambda>r y. re_event y = lr_event r \<and> re_run y = run \<and> re_incorporated y)
        (filter (\<lambda>r. lr_state r = LrActive) (local_requests d)) (run_events d)"
  have "fst (r, y) \<in> fst ` set ?joined" by (rule imageI) (use assms(4-9) in simp)
  then have "r \<in> set (map fst ?joined)" by simp
  moreover have "requests = map lr_id (sort_key (\<lambda>r. (lr_created r, lr_id r)) (map fst ?joined))"
  proof -
    have "emap (\<lambda>r. parse_id x (lr_id r)) (sort_key (\<lambda>r. (lr_created r, lr_id r)) (map fst ?joined))
        = Inr (map lr_id (sort_key (\<lambda>r. (lr_created r, lr_id r)) (map fst ?joined)))"
      by (rule emap_Inr) (use assms(3) in \<open>auto simp: parse_id_def\<close>)
    then show ?thesis using assms(1) by (simp add: incorporated_local_requests_def parse_requests_def)
  qed
  ultimately have "lr_id r \<in> set (map bp_request plans)" by (simp add: plans)
  then obtain p where "p \<in> set plans" "bp_request p = lr_id r" by auto
  then show ?thesis using execute_plans_close(1)[OF e] unfolding closed_with_def by fastforce
qed

lemma requests_answered:
  assumes "incorporated_local_requests x d run = Inr requests" and "eff \<noteq> LrActive"
    and "create_terminal_bundles x uid c requests intents s now d = Inr (eff, d')"
    and "distinct (map lr_id (local_requests d))" and "\<forall>r \<in> set (local_requests d). parse_uuid x (lr_id r) = Some (lr_id r)"
    and "r \<in> set (local_requests d')" and "y \<in> set (run_events d)" and "re_run y = run" and "re_incorporated y" and "re_event y = lr_event r"
  shows "lr_state r \<noteq> LrActive"
proof
  assume a: "lr_state r = LrActive"
  obtain plans outs d2 where e: "efold (execute_plan outs eff now) plans d2 = Inr d'" and l: "local_requests d2 = local_requests d"
    by (rule create_terminal_bundles_plans[OF assms(3)])
  have "r \<in> set (local_requests d)" using execute_plans_active[OF e assms(6) a assms(2)] l by simp
  then obtain r2 where r2: "r2 \<in> set (local_requests d')" "lr_id r2 = lr_id r" "lr_state r2 = eff"
    using request_closed[OF assms(1,3,5) _ a assms(7-10)] by blast
  have "distinct (map lr_id (local_requests d'))" using execute_plans_close(2)[OF e] l assms(4) by simp
  then have "r2 = r" using distinct_key_eq[OF _ r2(1) assms(6) r2(2)] by blast
  then show False using r2(3) a assms(2) by simp
qed

section \<open>What the end of a run guarantees\<close>

text \<open>
  C9. Finalizing loses no input. It either changes nothing and names the newest message or
  cancellation the run has not observed, or completes, and then there is no such input.
\<close>

theorem finalize_loses_no_input:
  assumes "finalize_run x uid c now d = Inr (out, d')"
  shows "case out of
      FoPreempted s \<Rightarrow> d' = d \<and> (\<exists>e \<in> set (events d). unobserved (fz_run c) e \<and> ev_seq e = s)
                       \<and> (\<forall>e \<in> set (events d). unobserved (fz_run c) e \<longrightarrow> ev_seq e \<le> s)
    | FoCompleted \<Rightarrow> \<forall>e \<in> set (events d). \<not> unobserved (fz_run c) e"
proof -
  let ?seqs = "map ev_seq (filter (unobserved (fz_run c)) (events d))"
  have r: "(case max_of ?seqs of Some s \<Rightarrow> Inr (FoPreempted s, d) | None \<Rightarrow> complete_run x uid c now d) = Inr (out, d')"
    using assms by (auto simp: finalize_run_def newest_compatible_input_eq ebind_eq_Inr)
  show ?thesis
  proof (cases "max_of ?seqs")
    case None
    then have "out = FoCompleted" using r by (auto elim: complete_run_Inr)
    then show ?thesis using None by (simp add: filter_empty_conv)
  next
    case (Some s)
    then have "out = FoPreempted s" "d' = d" using r by simp_all
    moreover have "s \<in> set ?seqs" "\<forall>t \<in> set ?seqs. t \<le> s" using max_of_in[OF Some] max_of_ge[OF Some] by blast+
    ultimately show ?thesis by auto
  qed
qed


text \<open>
  C15. A cancelled run stops. Afterwards no event of the work item is pending or in process, no
  tool of the run counts as running, and the run and the work item are cancelled. Events of other
  work items are untouched; the only exception is the pending cancellation of the same actor that
  was obeyed, wherever it is, and all that happens to it is that it is cancelled.
\<close>

theorem cancel_stops_run:
  assumes "cancel_run x uid run c now d = Inr (u, d')"
  shows "(\<forall>e \<in> set (events d'). ev_work e = Some (ar_work run) \<longrightarrow> ev_state e \<noteq> EvPending \<and> ev_state e \<noteq> EvProcessing)
     \<and> (\<forall>r \<in> set (attempts d'). ta_run r = ar_run run \<longrightarrow> ta_state r \<noteq> AtRunning)
     \<and> (\<forall>r \<in> set (runs d'). rn_id r = ar_run run \<longrightarrow> rn_state r = RunCancelled)
     \<and> (\<forall>w \<in> set (work_items d'). wi_id w = ar_work run \<longrightarrow> wi_state w = WiCancelled)
     \<and> (\<forall>e \<in> set (events d). ev_work e \<noteq> Some (ar_work run) \<longrightarrow> e \<in> set (events d')
          \<or> ev_id e = cv_event c \<and> ev_kind e = CancelRequested \<and> ev_state e = EvPending \<and> ev_actor e = ls_actor (ar_lease run)
            \<and> e\<lparr>ev_state := EvCancelled, ev_updated := now\<rparr> \<in> set (events d'))
     \<and> (\<exists>e \<in> set (events d). ev_id e = cv_event c \<and> ev_kind e = CancelRequested \<and> ev_state e = EvPending)"
proof -
  let ?p = "\<lambda>e. ev_id e = cv_event c \<and> ev_actor e = ls_actor (ar_lease run) \<and> ev_state e = EvPending \<and> ev_kind e = CancelRequested"
  let ?stop = "\<lambda>e. ev_work e = Some (ar_work run) \<and> (ev_state e = EvPending \<or> ev_state e = EvProcessing)"
  obtain d1 d2 requests where a: "accept_cancellation run c now d = Inr d1" and d': "d' = abandon_run run now d2"
    and step: "d2 = d1 \<or> (\<exists>eff. create_terminal_bundles x (subsupply uid 1) (context_of run) requests
                          [cancellation_intent uid run] LrCancelled now d1 = Inr (eff, d2))"
    using assms by (fastforce simp: cancel_run_def ebind_eq_Inr split: if_splits)
  have core: "events d2 = events d1" "attempts d2 = attempts d1"
    using step create_terminal_bundles_core by (metis core_tables(1), metis core_tables(5))
  have ch: "changed ?p (events d) = Suc 0"
    and d1: "events d1 = update_where ?p (\<lambda>e. e\<lparr>ev_state := EvCancelled, ev_updated := now\<rparr>) (events d)"
    "attempts d1 = update_where (\<lambda>r. ta_run r = ar_run run \<and> ta_state r = AtRunning)
         (\<lambda>r. r\<lparr>ta_state := AtOutcomeUnknown, ta_updated := now\<rparr>) (attempts d)"
    using a by (auto simp: accept_cancellation_def Let_def ebind_eq_Inr)
  have ev': "events d' = update_where ?stop (\<lambda>e. e\<lparr>ev_state := EvCancelled, ev_updated := now\<rparr>) (events d1)"
    by (simp add: d' abandon_run_def core)
  have stays: "e \<in> set (update_where q f rows)" if "e \<in> set rows" "\<not> q e" for e :: event_row and q f rows
    using that by (auto simp: set_update_where image_iff intro!: bexI[of _ e])
  have updated_row: "f e \<in> set (update_where p f rows)" if "e \<in> set rows" "p e" for e :: event_row and p f rows
    using that by (force simp: update_where_def)
  have "ev_state e \<noteq> EvPending \<and> ev_state e \<noteq> EvProcessing" if "e \<in> set (events d')" "ev_work e = Some (ar_work run)" for e
    using that unfolding ev' by (auto simp: set_update_where split: if_splits)
  moreover have "ta_state r \<noteq> AtRunning" if "r \<in> set (attempts d')" "ta_run r = ar_run run" for r
    using that by (auto simp: d' abandon_run_def core d1 set_update_where split: if_splits)
  moreover have "rn_state r = RunCancelled" if "r \<in> set (runs d')" "rn_id r = ar_run run" for r
    using that by (auto simp: d' abandon_run_def set_update_where split: if_splits)
  moreover have "wi_state w = WiCancelled" if "w \<in> set (work_items d')" "wi_id w = ar_work run" for w
    using that by (auto simp: d' abandon_run_def set_update_where split: if_splits)
  moreover have "e \<in> set (events d')" if "e \<in> set (events d)" "ev_work e \<noteq> Some (ar_work run)" "\<not> ?p e" for e
    unfolding ev' d1(1) using that by (intro stays) simp_all
  moreover have "e\<lparr>ev_state := EvCancelled, ev_updated := now\<rparr> \<in> set (events d')"
    if "e \<in> set (events d)" "ev_work e \<noteq> Some (ar_work run)" "?p e" for e
    unfolding ev' d1(1) by (rule stays, rule updated_row) (use that in simp_all)
  moreover obtain e where "e \<in> set (events d)" "?p e" using ch by (rule changed_oneE)
  ultimately show ?thesis by blast
qed

section \<open>Witnesses\<close>

text \<open>The run answers a local request.\<close>

definition sample_answering :: db where
  "sample_answering = sample_active\<lparr>local_requests := [\<lparr>lr_id = ''q1'', lr_actor = ''a'', lr_event = ''e'', lr_work = Some ''w'',
     lr_prompt = ''p'', lr_state = LrActive, lr_bundle = None, lr_created = 0, lr_updated = 0\<rparr>]\<rparr>"

definition sample_intent :: new_outbox_intent where
  "sample_intent = \<lparr>ni_id = ''o1'', ni_key = ''run:r:final'', ni_class = ''final'', ni_audience = ActorPrivate, ni_payload = OpText ''hi''\<rparr>"

definition sample_finalize :: finalize_command where
  "sample_finalize = \<lparr>fz_run = sample_run, fz_events = [''e''], fz_messages = [user_text ''hi''], fz_outbox = [sample_intent]\<rparr>"

text \<open>A message that arrived later, and a pending cancellation of the request.\<close>

definition sample_interrupted :: db where
  "sample_interrupted = sample_answering\<lparr>
     events := events sample_answering @ [sample_event ''f'' ''a'' (Some ''w'') 2,
       (sample_event ''x'' ''a'' (Some ''w'') 3)\<lparr>ev_kind := CancelRequested, ev_gateway := ''local:cancel''\<rparr>],
     cancel_targets := [\<lparr>ct_cancel = ''x'', ct_request = ''q1'', ct_created = 0\<rparr>]\<rparr>"

definition sample_control :: control_event where
  "sample_control = \<lparr>cv_event = ''x'', cv_seq = 3, cv_kind = CancelRequested\<rparr>"

lemma sample_finalized:
  obtains d' where "finalize_run sample_ext sample_ids sample_finalize 50 sample_answering = Inr (FoCompleted, d')"
proof -
  have "case finalize_run sample_ext sample_ids sample_finalize 50 sample_answering of
      Inr (out, d') \<Rightarrow> out = FoCompleted | Inl e \<Rightarrow> False"
    by code_simp
  from tx_succeeds[OF this] show ?thesis using that by metis
qed

theorem finalize_loses_no_input_witness:
  "\<exists>d'. finalize_run sample_ext sample_ids sample_finalize 50 sample_interrupted = Inr (FoPreempted 3, d') \<and> d' = sample_interrupted"
proof -
  have "case finalize_run sample_ext sample_ids sample_finalize 50 sample_interrupted of
      Inr (out, d') \<Rightarrow> out = FoPreempted 3 | Inl e \<Rightarrow> False"
    by code_simp
  from tx_succeeds[OF this] obtain d' where d': "finalize_run sample_ext sample_ids sample_finalize 50 sample_interrupted = Inr (FoPreempted 3, d')"
    by metis
  then show ?thesis using finalize_loses_no_input [OF d'] by simp
qed


theorem cancel_stops_run_witness:
  "\<exists>d'. cancel_run sample_ext sample_ids sample_run sample_control 50 sample_interrupted = Inr ((), d')
     \<and> (\<forall>e \<in> set (events d'). ev_work e = Some ''w'' \<longrightarrow> ev_state e \<noteq> EvPending)"
proof -
  have "case cancel_run sample_ext sample_ids sample_run sample_control 50 sample_interrupted of
      Inr (out, d') \<Rightarrow> True | Inl e \<Rightarrow> False"
    by code_simp
  from tx_succeeds[OF this] obtain d' where d': "cancel_run sample_ext sample_ids sample_run sample_control 50 sample_interrupted = Inr ((), d')"
    by (metis old.unit.exhaust)
  have w: "ar_work sample_run = ''w''" by (simp add: sample_run_def)
  show ?thesis using cancel_stops_run [OF d'] d' w by auto
qed

theorem terminal_bundles_load_witness:
  "\<exists>d' b bu. create_terminal_bundles codec_ext sample_ids (context_of sample_run) [''q1''] [sample_intent] LrCompleted 50 sample_answering
       = Inr (LrCompleted, d')
     \<and> load_bundle_row codec_ext d' b = Inr bu \<and> map snd (bu_deliveries bu) = [FpText ''hi'']"
proof -
  have "case create_terminal_bundles codec_ext sample_ids (context_of sample_run) [''q1''] [sample_intent] LrCompleted 50 sample_answering of
      Inr (out, d') \<Rightarrow> out = LrCompleted | Inl e \<Rightarrow> False"
    by code_simp
  from tx_succeeds[OF this] obtain d' where d':
    "create_terminal_bundles codec_ext sample_ids (context_of sample_run) [''q1''] [sample_intent] LrCompleted 50 sample_answering = Inr (LrCompleted, d')"
    by metis
  have p: "\<forall>p. parse_uuid codec_ext (sample_ids p) = Some (sample_ids p)" "\<forall>q \<in> set [''q1'']. parse_uuid codec_ext q = Some q"
    by (simp_all add: codec_ext_def sample_ext_def)
  have k: "distinct (map ob_id (outbox sample_answering))" "distinct (map rb_id (bundles sample_answering))"
    "\<forall>m \<in> set (outbox_deliveries sample_answering). od_bundle m \<in> rb_id ` set (bundles sample_answering)"
    by code_simp+
  have u: "unique_intents [sample_intent] = Inr [sample_intent]" by (simp add: unique_intents_def merge_intent_def)
  obtain b and bu :: result_bundle where "load_bundle_row codec_ext d' b = Inr bu" "map snd (bu_deliveries bu) = [FpText ''hi'']"
    using terminal_bundles_load [OF d' codec_roundtrip p k] u
    by (cases "manifest_for codec_ext (deliveries_for (subsupply (subsupply sample_ids 0) 0) [sample_intent])")
       (auto simp: sample_intent_def)
  then show ?thesis using d' by (intro exI[of _ d'] exI[of _ b] exI[of _ bu]) simp
qed

end
