(* ===== verification/Failures.thy ===== *)
theory Failures
  imports Checkpoint
begin

text \<open>
  Failed quanta, from \<open>runtime/sqlite/failures.rs\<close>: the failure count of a work item with its
  exponential delays, the end of a run whose dispatcher keeps failing, and the reset on progress.
\<close>

record failure_fence =
  ff_lease :: actor_lease
  ff_work :: work_item_id
  ff_run :: run_id

definition fence_of :: "attached_run \<Rightarrow> failure_fence" where
  "fence_of run = \<lparr>ff_lease = ar_lease run, ff_work = ar_work run, ff_run = ar_run run\<rparr>"

datatype quantum_progress = QpNone | QpModelCheckpoint | QpKnownToolOutcome | QpFinalized

datatype failure_disposition = FdRetryAt timestamp | FdTerminalized

section \<open>The fence\<close>

text \<open>The lease must be the very one that was granted: its expiry has to agree as well.\<close>

definition fence_lease :: "failure_fence \<Rightarrow> timestamp \<Rightarrow> lease_row \<Rightarrow> bool" where
  "fence_lease f now l \<longleftrightarrow> lease_matches (ff_lease f) l \<and> al_expires l = ls_expires (ff_lease f) \<and> now < al_expires l"

definition fence_states :: "db \<Rightarrow> bool \<Rightarrow> run_row \<Rightarrow> work_item_row \<Rightarrow> bool" where
  "fence_states d require_active r w \<longleftrightarrow>
     rn_state r = RunActive \<and> wi_state w = WiReady
     \<or> \<not> require_active \<and> rn_state r = RunActive \<and> wi_state w = WiWaitingForDecision
       \<and> list_ex (\<lambda>t. ta_run t = rn_id r \<and> ta_state t = AtWaitingForDecision) (attempts d)
     \<or> \<not> require_active \<and> (rn_state r = RunCompleted \<and> wi_state w = WiCompleted
                              \<or> rn_state r = RunCancelled \<and> wi_state w = WiCancelled)"

definition ensure_failure_fence :: "db \<Rightarrow> failure_fence \<Rightarrow> timestamp \<Rightarrow> bool \<Rightarrow> error + unit" where
  "ensure_failure_fence d f now require_active =
     require (list_ex (fence_lease f now) (leases d)
        \<and> list_ex (\<lambda>r. rn_actor r = ls_actor (ff_lease f) \<and> rn_id r = ff_run f \<and> rn_work r = ff_work f
              \<and> rn_generation r = ls_generation (ff_lease f)
              \<and> list_ex (\<lambda>w. wi_id w = rn_work r \<and> fence_states d require_active r w) (work_items d)) (runs d))
       StaleLease"

section \<open>Recording a failure\<close>

definition failed_count :: "quantum_progress \<Rightarrow> nat \<Rightarrow> nat" where
  "failed_count p prior = (if p = QpNone then prior + 1 else 1)"

definition retry_delay :: "nat \<Rightarrow> int" where
  "retry_delay count = push_bit (count - 1) 1 * 1000"

definition schedule_retry :: "failure_fence \<Rightarrow> string \<Rightarrow> nat \<Rightarrow> timestamp \<Rightarrow> db \<Rightarrow> failure_disposition tx" where
  "schedule_retry f e count now d =
     (let retry_at = plus_millis now (retry_delay count) in
      Inr (FdRetryAt retry_at,
           d\<lparr>work_items := update_where (\<lambda>w. wi_id w = ff_work f)
                (\<lambda>w. w\<lparr>wi_failures := count, wi_next_attempt := Some retry_at, wi_last_error := Some e, wi_updated := now\<rparr>)
                (work_items d)\<rparr>))"

text \<open>The active run of the work item.\<close>

definition failing_run :: "db \<Rightarrow> work_item_id \<Rightarrow> (run_row \<times> work_item_row) option" where
  "failing_run d w =
     (case inner_join (\<lambda>r w. wi_id w = rn_work r) (filter (\<lambda>r. rn_work r = w \<and> rn_state r = RunActive) (runs d)) (work_items d) of
        [] \<Rightarrow> None | p # _ \<Rightarrow> Some p)"

definition stored_route :: "run_row \<Rightarrow> error + delivery_route option" where
  "stored_route r =
     (case rn_route r of
        None \<Rightarrow> Inr None
      | Some t \<Rightarrow> ebind (delivery_route_new (dr_gateway t) (dr_address t) (dr_reply_to t) (dr_max_text t) (dr_max_caption t))
                   (\<lambda>t'. Inr (Some t')))"

definition failing_requests :: "ext \<Rightarrow> db \<Rightarrow> run_id \<Rightarrow> error + request_id list" where
  "failing_requests x d run =
     emap (\<lambda>r. from_option (Sql ''invalid uuid'') (parse_uuid x (lr_id r)))
       (sort_key (\<lambda>r. (lr_created r, lr_id r))
         (map fst (inner_join (\<lambda>r y. re_event y = lr_event r \<and> re_run y = run \<and> re_incorporated y)
            (filter (\<lambda>r. lr_state r = LrActive) (local_requests d)) (run_events d))))"

definition failing_context :: "failure_fence \<Rightarrow> run_row \<Rightarrow> work_item_row \<Rightarrow> delivery_route option \<Rightarrow> terminal_context" where
  "failing_context f r w route =
     \<lparr>tc_actor = rn_actor r, tc_work = ff_work f, tc_run = rn_id r, tc_audience = wi_audience w, tc_route = route,
      tc_policy = rn_policy r, tc_source = rn_source r\<rparr>"

definition failure_intent :: "id_supply \<Rightarrow> run_row \<Rightarrow> work_item_row \<Rightarrow> string \<Rightarrow> new_outbox_intent" where
  "failure_intent uid r w e =
     \<lparr>ni_id = uid [0], ni_key = ''run:'' @ rn_id r @ '':dispatcher-failed'', ni_class = ''terminal_error'',
      ni_audience = wi_audience w, ni_payload = OpTerminalError ''dispatcher_failure_limit'' e\<rparr>"

definition attached_with :: "bool \<Rightarrow> db \<Rightarrow> run_id \<Rightarrow> event_id \<Rightarrow> bool" where
  "attached_with inc d run e \<longleftrightarrow> list_ex (\<lambda>y. re_run y = run \<and> re_incorporated y = inc \<and> re_event y = e) (run_events d)"

text \<open>
  What the run had taken in fails with it; what it had only attached goes back to the mailbox.
  The statements run in the order of the code: the last one on events removes the attachment.
\<close>

definition fail_incorporated :: "run_id \<Rightarrow> timestamp \<Rightarrow> db \<Rightarrow> db" where
  "fail_incorporated run now d =
     d\<lparr>events := update_where (\<lambda>e. attached_with True d run (ev_id e))
         (\<lambda>e. e\<lparr>ev_state := EvFailedTerminal, ev_updated := now\<rparr>) (events d)\<rparr>"

definition return_unincorporated :: "run_id \<Rightarrow> timestamp \<Rightarrow> db \<Rightarrow> db" where
  "return_unincorporated run now d =
     d\<lparr>local_requests := update_where (\<lambda>r. attached_with False d run (lr_event r))
         (\<lambda>r. r\<lparr>lr_work := None, lr_updated := now\<rparr>) (local_requests d),
       events := update_where (\<lambda>e. attached_with False d run (ev_id e))
         (\<lambda>e. e\<lparr>ev_state := EvPending, ev_run := None, ev_work := None, ev_updated := now\<rparr>) (events d),
       run_events := delete_where (\<lambda>y. re_run y = run \<and> \<not> re_incorporated y) (run_events d)\<rparr>"

definition abandon_attempts :: "run_id \<Rightarrow> timestamp \<Rightarrow> db \<Rightarrow> db" where
  "abandon_attempts run now d =
     d\<lparr>attempts := update_where (\<lambda>t. ta_run t = run \<and> ta_state t = AtPrepared)
           (\<lambda>t. t\<lparr>ta_state := AtCancelledKnown, ta_updated := now\<rparr>)
         (update_where (\<lambda>t. ta_run t = run \<and> ta_state t = AtRunning)
           (\<lambda>t. t\<lparr>ta_state := AtOutcomeUnknown, ta_updated := now\<rparr>) (attempts d))\<rparr>"

definition fail_run :: "run_id \<Rightarrow> timestamp \<Rightarrow> db \<Rightarrow> db" where
  "fail_run run now d =
     d\<lparr>runs := update_where (\<lambda>r. rn_id r = run) (\<lambda>r. r\<lparr>rn_state := RunFailedTerminal, rn_updated := now\<rparr>) (runs d)\<rparr>"

definition terminate_run ::
    "ext \<Rightarrow> id_supply \<Rightarrow> failure_fence \<Rightarrow> string \<Rightarrow> timestamp \<Rightarrow> run_row \<Rightarrow> work_item_row \<Rightarrow> db \<Rightarrow> error + db" where
  "terminate_run x uid f e now r w d =
     ebind (stored_route r) (\<lambda>route.
     ebind (failing_requests x d (rn_id r)) (\<lambda>requests.
     ebind (create_terminal_bundles x (subsupply uid 1) (failing_context f r w route) requests
              [failure_intent (subsupply uid 0) r w e] LrFailedTerminal now d) (\<lambda>(_, d1).
       Inr (fail_run (rn_id r) now (abandon_attempts (rn_id r) now
             (return_unincorporated (rn_id r) now (fail_incorporated (rn_id r) now d1)))))))"

definition fail_work_item :: "failure_fence \<Rightarrow> string \<Rightarrow> timestamp \<Rightarrow> db \<Rightarrow> db" where
  "fail_work_item f e now d =
     d\<lparr>work_items := update_where (\<lambda>w. wi_id w = ff_work f)
         (\<lambda>w. w\<lparr>wi_state := WiFailedTerminal, wi_failures := 5, wi_next_attempt := None, wi_last_error := Some e, wi_updated := now\<rparr>)
         (work_items d)\<rparr>"

definition terminalize :: "ext \<Rightarrow> id_supply \<Rightarrow> failure_fence \<Rightarrow> string \<Rightarrow> timestamp \<Rightarrow> db \<Rightarrow> failure_disposition tx" where
  "terminalize x uid f e now d =
     ebind (case failing_run d (ff_work f) of None \<Rightarrow> Inr d | Some (r, w) \<Rightarrow> terminate_run x uid f e now r w d) (\<lambda>d1.
       Inr (FdTerminalized, fail_work_item f e now d1))"

definition record_failure ::
    "ext \<Rightarrow> id_supply \<Rightarrow> failure_fence \<Rightarrow> string \<Rightarrow> quantum_progress \<Rightarrow> timestamp \<Rightarrow> db \<Rightarrow> failure_disposition tx" where
  "record_failure x uid f e p now d =
     ebind (ensure_failure_fence d f now True) (\<lambda>_.
     ebind (from_option (Bail ''work item does not exist'')
              (List.find (\<lambda>w. wi_id w = ff_work f \<and> wi_state w = WiReady) (work_items d))) (\<lambda>w.
       let count = failed_count p (wi_failures w) in
       if count < 5 then schedule_retry f e count now d else terminalize x uid f e now d))"

definition record_progress :: "failure_fence \<Rightarrow> timestamp \<Rightarrow> db \<Rightarrow> unit tx" where
  "record_progress f now d =
     ebind (ensure_failure_fence d f now False) (\<lambda>_.
       Inr ((), d\<lparr>work_items := update_where (\<lambda>w. wi_id w = ff_work f)
                  (\<lambda>w. w\<lparr>wi_failures := 0, wi_next_attempt := None, wi_last_error := None, wi_updated := now\<rparr>)
                  (work_items d)\<rparr>))"

section \<open>The fence guards both\<close>

definition fence_held :: "bool \<Rightarrow> db \<Rightarrow> failure_fence \<Rightarrow> timestamp \<Rightarrow> bool" where
  "fence_held require_active d f now \<longleftrightarrow> ensure_failure_fence d f now require_active = Inr ()"

interpretation failing: fenced "\<lambda>f now d. record_failure x uid f e p now d" "fence_held True" for x uid e p
  by unfold_locales (auto simp: fence_held_def record_failure_def require_def ensure_failure_fence_def split: if_splits)

interpretation progressing: fenced record_progress "fence_held False"
  by unfold_locales (auto simp: fence_held_def record_progress_def require_def ensure_failure_fence_def split: if_splits)

text \<open>A failure fence implies the lease the other operations ask for.\<close>

lemma fence_lease_current: "fence_held b d f now \<Longrightarrow> lease_current d (ff_lease f) now"
  by (auto simp: fence_held_def ensure_failure_fence_def lease_current_iff fence_lease_def list_ex_iff)

text \<open>The first failures with the fence are retried; they never end in an error.\<close>

lemma fence_ready_item:
  assumes "fence_held True d f now"
  obtains w where "w \<in> set (work_items d)" "wi_id w = ff_work f" "wi_state w = WiReady"
    "List.find (\<lambda>w. wi_id w = ff_work f \<and> wi_state w = WiReady) (work_items d) = Some w"
proof -
  obtain w0 where w0: "w0 \<in> set (work_items d)" "wi_id w0 = ff_work f" "wi_state w0 = WiReady"
    using assms by (auto simp: fence_held_def ensure_failure_fence_def list_ex_iff fence_states_def)
  obtain w where w: "List.find (\<lambda>w. wi_id w = ff_work f \<and> wi_state w = WiReady) (work_items d) = Some w"
    using w0 by (fastforce simp: find_None_iff)
  show ?thesis using that[OF _ _ _ w] find_Some_in[OF w] by blast
qed

lemma record_failure_held:
  assumes "record_failure x uid f e p now d = Inr out"
  shows "fence_held True d f now"
  using assms by (auto simp: record_failure_def fence_held_def ebind_eq_Inr)

lemma record_failure_eq:
  assumes "fence_held True d f now" and "distinct (map wi_id (work_items d))"
    and "w \<in> set (work_items d)" and "wi_id w = ff_work f"
  shows "record_failure x uid f e p now d =
     (let count = failed_count p (wi_failures w) in
      if count < 5 then schedule_retry f e count now d else terminalize x uid f e now d)"
    and "wi_state w = WiReady"
proof -
  obtain w1 where w1: "w1 \<in> set (work_items d)" "wi_id w1 = ff_work f" "wi_state w1 = WiReady"
    and fw: "List.find (\<lambda>w. wi_id w = ff_work f \<and> wi_state w = WiReady) (work_items d) = Some w1"
    by (rule fence_ready_item[OF assms(1)])
  have "w1 = w" using distinct_key_eq[OF assms(2) w1(1) assms(3)] w1(2) assms(4) by simp
  then show "record_failure x uid f e p now d = (let count = failed_count p (wi_failures w) in
      if count < 5 then schedule_retry f e count now d else terminalize x uid f e now d)"
    and "wi_state w = WiReady"
    using assms(1) fw w1(3) by (simp_all add: record_failure_def fence_held_def)
qed

section \<open>Failures without progress end\<close>

text \<open>The failure count of a work item, and whether it has failed for good.\<close>

definition failure_state :: "db \<Rightarrow> work_item_id \<Rightarrow> (nat \<times> bool) list" where
  "failure_state d i = map (\<lambda>w. (wi_failures w, wi_state w = WiFailedTerminal)) (filter (\<lambda>w. wi_id w = i) (work_items d))"

text \<open>
  Failures without progress recorded for one work item, each with its time and answer, between
  other steps of the store that leave its failure count alone and do not revive it.
\<close>

inductive failing_item :: "ext \<Rightarrow> work_item_id \<Rightarrow> db \<Rightarrow> (timestamp \<times> failure_disposition) list \<Rightarrow> db \<Rightarrow> bool"
  for x i d where
  none: "failing_item x i d [] d"
| fail: "failing_item x i d outs d1 \<Longrightarrow> ff_work f = i \<Longrightarrow> record_failure x uid f e QpNone now d1 = Inr (out, d2) \<Longrightarrow>
     failing_item x i d (outs @ [(now, out)]) d2"
| other: "failing_item x i d outs d1 \<Longrightarrow> failure_state d2 i = failure_state d1 i \<Longrightarrow> failing_item x i d outs d2"

lemma terminalize_work_items:
  assumes "terminalize x uid f e now d = Inr (out, d')"
  shows "out = FdTerminalized"
    "work_items d' = update_where (\<lambda>w. wi_id w = ff_work f)
         (\<lambda>w. w\<lparr>wi_state := WiFailedTerminal, wi_failures := 5, wi_next_attempt := None, wi_last_error := Some e, wi_updated := now\<rparr>)
         (work_items d)"
proof -
  obtain d1 where d1: "(case failing_run d (ff_work f) of None \<Rightarrow> Inr d | Some (r, w) \<Rightarrow> terminate_run x uid f e now r w d) = Inr d1"
    and out: "out = FdTerminalized" "d' = fail_work_item f e now d1"
    using assms by (auto simp: terminalize_def ebind_eq_Inr)
  have "work_items d1 = work_items d"
  proof (cases "failing_run d (ff_work f)")
    case None
    then show ?thesis using d1 by simp
  next
    case (Some p)
    obtain r w where "p = (r, w)" by (cases p)
    then obtain route requests eff d2 where
      c: "create_terminal_bundles x (subsupply uid 1) (failing_context f r w route) requests
              [failure_intent (subsupply uid 0) r w e] LrFailedTerminal now d = Inr (eff, d2)"
      and "d1 = fail_run (rn_id r) now (abandon_attempts (rn_id r) now
             (return_unincorporated (rn_id r) now (fail_incorporated (rn_id r) now d2)))"
      using d1 Some by (auto simp: terminate_run_def ebind_eq_Inr)
    then show ?thesis using core_tables(3)[OF create_terminal_bundles_core[OF c]]
      by (simp add: fail_run_def abandon_attempts_def return_unincorporated_def fail_incorporated_def)
  qed
  then show "out = FdTerminalized"
    "work_items d' = update_where (\<lambda>w. wi_id w = ff_work f)
         (\<lambda>w. w\<lparr>wi_state := WiFailedTerminal, wi_failures := 5, wi_next_attempt := None, wi_last_error := Some e, wi_updated := now\<rparr>)
         (work_items d)"
    using out by (simp_all add: fail_work_item_def)
qed

lemma failure_counts:
  assumes "record_failure x uid f e QpNone now d = Inr (out, d')" and "failure_state d (ff_work f) = [(n, t)]"
  shows "\<not> t"
    and "if n < 4 then out = FdRetryAt (plus_millis now (1000 * 2 ^ n)) \<and> failure_state d' (ff_work f) = [(n + 1, False)]
         else out = FdTerminalized \<and> failure_state d' (ff_work f) = [(5, True)]"
proof -
  obtain w where w: "w \<in> set (work_items d)" "wi_id w = ff_work f" "wi_state w = WiReady"
    and fw: "List.find (\<lambda>w. wi_id w = ff_work f \<and> wi_state w = WiReady) (work_items d) = Some w"
    by (rule fence_ready_item[OF record_failure_held[OF assms(1)]])
  obtain v where v: "filter (\<lambda>w. wi_id w = ff_work f) (work_items d) = [v]" "wi_failures v = n" "t = (wi_state v = WiFailedTerminal)"
    using assms(2) by (auto simp: failure_state_def map_eq_Cons_conv)
  have "w \<in> set [v]" unfolding v(1)[symmetric] using w by simp
  then have wv: "w = v" by simp
  then show "\<not> t" using w(3) v(3) by simp
  have r: "(let count = failed_count QpNone (wi_failures w) in
       if count < 5 then schedule_retry f e count now d else terminalize x uid f e now d) = Inr (out, d')"
    using assms(1) fw by (simp add: record_failure_def ebind_eq_Inr)
  show "if n < 4 then out = FdRetryAt (plus_millis now (1000 * 2 ^ n)) \<and> failure_state d' (ff_work f) = [(n + 1, False)]
         else out = FdTerminalized \<and> failure_state d' (ff_work f) = [(5, True)]"
  proof (cases "n < 4")
    case True
    then show ?thesis using r v w wv
      by (auto simp: failed_count_def schedule_retry_def retry_delay_def failure_state_def filter_updated
          push_bit_eq_mult mult.commute Let_def)
  next
    case False
    then have "terminalize x uid f e now d = Inr (out, d')" using r v(2) wv by (simp add: failed_count_def)
    note t = terminalize_work_items[OF this]
    show ?thesis using False t v(1) by (simp add: failure_state_def filter_updated)
  qed
qed

text \<open>
  C14. A work item whose dispatcher fails without progress is retried after one, two, four and
  eight seconds and then ends: at most five such failures are recorded, counted from the failures
  already on the item, and the fifth is terminal. In between anything may happen that leaves the
  failure count of the item alone and does not revive it; progress, which resets the count, starts
  the sequence anew and is not among it.
\<close>

theorem failures_end:
  assumes "failing_item x i d outs d'" and "failure_state d i = [(n, False)]" and "n < 5"
  shows "length outs \<le> 5 - n
     \<and> (\<forall>k < length outs. snd (outs ! k) = (if n + k < 4 then FdRetryAt (plus_millis (fst (outs ! k)) (1000 * 2 ^ (n + k)))
                                                      else FdTerminalized))
     \<and> (length outs = 5 - n \<longrightarrow> (\<forall>y uid f e now out. ff_work f = i \<longrightarrow> record_failure y uid f e QpNone now d' \<noteq> Inr out))"
proof -
  have "n + length outs \<le> 5
     \<and> failure_state d' i = [if n + length outs < 5 then (n + length outs, False) else (5, True)]
     \<and> (\<forall>k < length outs. snd (outs ! k) = (if n + k < 4 then FdRetryAt (plus_millis (fst (outs ! k)) (1000 * 2 ^ (n + k)))
                                                      else FdTerminalized))"
    using assms(1)
  proof induction
    case none
    then show ?case using assms(2,3) by simp
  next
    case (fail outs d1 f uid e now out d2)
    let ?m = "n + length outs"
    obtain m t where mt: "(m, t) = (if ?m < 5 then (?m, False) else (5, True))" by (metis surj_pair)
    have "failure_state d1 (ff_work f) = [(m, t)]" unfolding mt using fail.IH fail.hyps(2) by blast
    note c = failure_counts[OF fail.hyps(3) this]
    have lt: "?m < 5" "m = ?m" using c(1) mt by (auto split: if_splits)
    have st: "failure_state d2 i = [if ?m + 1 < 5 then (?m + 1, False) else (5, True)]"
      using c(2) lt fail.hyps(2) by (simp split: if_splits)
    have out: "out = (if ?m < 4 then FdRetryAt (plus_millis now (1000 * 2 ^ ?m)) else FdTerminalized)"
      using c(2) lt by (simp split: if_splits)
    show ?case
    proof (intro conjI allI impI)
      fix k
      assume "k < length (outs @ [(now, out)])"
      then show "snd ((outs @ [(now, out)]) ! k) = (if n + k < 4
          then FdRetryAt (plus_millis (fst ((outs @ [(now, out)]) ! k)) (1000 * 2 ^ (n + k))) else FdTerminalized)"
        using fail.IH out by (cases "k = length outs") (simp_all add: nth_append)
    qed (use st lt in simp_all)
  next
    case (other outs d1 d2)
    then show ?case by simp
  qed
  then have len: "n + length outs \<le> 5" and st: "failure_state d' i = [if n + length outs < 5 then (n + length outs, False) else (5, True)]"
    and each: "\<forall>k < length outs. snd (outs ! k) = (if n + k < 4 then FdRetryAt (plus_millis (fst (outs ! k)) (1000 * 2 ^ (n + k)))
                                                      else FdTerminalized)"
    by blast+
  have "record_failure y uid f e QpNone now d' \<noteq> Inr out" if "length outs = 5 - n" "ff_work f = i" for y uid f e now out
  proof
    assume r: "record_failure y uid f e QpNone now d' = Inr out"
    obtain o1 d1 where "out = (o1, d1)" by (cases out)
    then show False using failure_counts(1)[of y uid f e now d' o1 d1 5 True] r st that assms(3) by simp
  qed
  then show ?thesis using len each by auto
qed

section \<open>The end of a failing run\<close>

text \<open>The requests of the run, as finalization reads them; only the error of a bad identifier differs.\<close>

lemma failing_requests_incorporated:
  assumes "failing_requests x d run = Inr qs"
  shows "incorporated_local_requests x d run = Inr qs"
proof -
  have "emap (\<lambda>r. from_option (Sql ''invalid uuid'') (parse_uuid x (lr_id r))) rs = Inr ys \<Longrightarrow>
        emap (\<lambda>r. parse_id x (lr_id r)) rs = Inr ys" for rs ys
    by (simp add: emap_eq_Inr parse_id_def)
  then show ?thesis using assms by (simp add: failing_requests_def incorporated_local_requests_def parse_requests_def)
qed

lemma terminate_run_Inr:
  assumes "terminate_run x uid f e now r w d = Inr d'"
  obtains requests d1 where "incorporated_local_requests x d (rn_id r) = Inr requests"
    "create_terminal_bundles x (subsupply uid 1) (failing_context f r w (rn_route r)) requests
       [failure_intent (subsupply uid 0) r w e] LrFailedTerminal now d = Inr (LrFailedTerminal, d1)"
    "d' = fail_run (rn_id r) now (abandon_attempts (rn_id r) now
             (return_unincorporated (rn_id r) now (fail_incorporated (rn_id r) now d1)))"
proof -
  obtain route requests eff d1 where route: "stored_route r = Inr route" and q: "failing_requests x d (rn_id r) = Inr requests"
    and c: "create_terminal_bundles x (subsupply uid 1) (failing_context f r w route) requests
       [failure_intent (subsupply uid 0) r w e] LrFailedTerminal now d = Inr (eff, d1)"
    and d': "d' = fail_run (rn_id r) now (abandon_attempts (rn_id r) now
             (return_unincorporated (rn_id r) now (fail_incorporated (rn_id r) now d1)))"
    using assms by (auto simp: terminate_run_def ebind_eq_Inr)
  have "route = rn_route r"
    using route by (auto simp: stored_route_def ebind_eq_Inr delivery_route_new_def split: option.splits if_splits)
  moreover have "eff = LrFailedTerminal" using create_terminal_bundles_Inr[OF c] effective_state by metis
  ultimately show ?thesis using that[OF failing_requests_incorporated[OF q] _ d'] c by simp
qed

lemma failing_run_active:
  assumes "fence_held True d f now"
  obtains r w where "failing_run d (ff_work f) = Some (r, w)" "r \<in> set (runs d)" "rn_work r = ff_work f" "rn_state r = RunActive"
proof -
  let ?rows = "inner_join (\<lambda>r w. wi_id w = rn_work r)
    (filter (\<lambda>r. rn_work r = ff_work f \<and> rn_state r = RunActive) (runs d)) (work_items d)"
  obtain r0 w0 where "r0 \<in> set (runs d)" "rn_work r0 = ff_work f" "rn_state r0 = RunActive" "w0 \<in> set (work_items d)" "wi_id w0 = rn_work r0"
    using assms by (auto simp: fence_held_def ensure_failure_fence_def list_ex_iff fence_states_def)
  then have "(r0, w0) \<in> set ?rows" by simp
  then obtain p ps where p: "?rows = p # ps" by (cases ?rows) auto
  obtain r w where rw: "p = (r, w)" by (cases p)
  have "(r, w) \<in> set ?rows" unfolding p rw by simp
  moreover have "failing_run d (ff_work f) = Some (r, w)" unfolding failing_run_def p rw by simp
  ultimately show ?thesis using that[of r w] by simp
qed

lemma attempts_abandoned:
  assumes "t \<in> set (attempts (abandon_attempts run now d))" and "ta_run t = run"
  shows "ta_state t \<noteq> AtRunning \<and> ta_state t \<noteq> AtPrepared"
proof -
  obtain t0 where "t = (if ta_run t0 = run \<and> ta_state t0 = AtPrepared then t0\<lparr>ta_state := AtCancelledKnown, ta_updated := now\<rparr> else t0)"
    "t0 \<in> set (update_where (\<lambda>t. ta_run t = run \<and> ta_state t = AtRunning) (\<lambda>t. t\<lparr>ta_state := AtOutcomeUnknown, ta_updated := now\<rparr>) (attempts d))"
    using assms(1) by (auto simp: abandon_attempts_def elim: in_update_whereE)
  moreover then obtain t1 where "t0 = (if ta_run t1 = run \<and> ta_state t1 = AtRunning then t1\<lparr>ta_state := AtOutcomeUnknown, ta_updated := now\<rparr> else t1)"
    by (auto elim: in_update_whereE)
  ultimately show ?thesis using assms(2) by (auto split: if_splits)
qed

lemma attached_with_iff:
  "attached_with inc d run e \<longleftrightarrow> (\<exists>y \<in> set (run_events d). re_run y = run \<and> re_event y = e \<and> re_incorporated y = inc)"
  by (auto simp: attached_with_def list_ex_iff)

text \<open>
  C26. A run whose dispatcher failed for good answers what it took in and gives back what it did
  not. Every event it had incorporated is failed and its local requests are answered; every event
  it had only attached is pending again without work item or run, so that its actor has work; no
  tool of the run counts as prepared or running, and events of other runs are untouched.
\<close>

theorem failed_run_returns_input:
  assumes "record_failure x uid f e p now d = Inr (FdTerminalized, d')"
    and "\<forall>r \<in> set (runs d). rn_work r = ff_work f \<and> rn_state r = RunActive \<longrightarrow> rn_id r = ff_run f"
    and "distinct (map (\<lambda>y. (re_run y, re_event y)) (run_events d))"
    and "distinct (map lr_id (local_requests d))" and "\<forall>r \<in> set (local_requests d). parse_uuid x (lr_id r) = Some (lr_id r)"
  shows "(\<forall>y \<in> set (run_events d). re_run y = ff_run f \<longrightarrow>
        (\<forall>v \<in> set (events d'). ev_id v = re_event y \<longrightarrow>
           (if re_incorporated y then ev_state v = EvFailedTerminal
            else unassigned_event (ev_actor v) v \<and> ev_run v = None \<and> has_ready_work d' later (ev_actor v)))
      \<and> (\<forall>r \<in> set (local_requests d'). lr_event r = re_event y \<longrightarrow>
           (if re_incorporated y then lr_state r \<noteq> LrActive else lr_work r = None)))
     \<and> (\<forall>y \<in> set (run_events d'). re_run y = ff_run f \<longrightarrow> re_incorporated y)
     \<and> (\<forall>t \<in> set (attempts d'). ta_run t = ff_run f \<longrightarrow> ta_state t \<noteq> AtRunning \<and> ta_state t \<noteq> AtPrepared)
     \<and> (\<forall>r \<in> set (runs d'). rn_id r = ff_run f \<longrightarrow> rn_state r = RunFailedTerminal)
     \<and> (\<forall>v \<in> set (events d). (\<forall>y \<in> set (run_events d). re_run y = ff_run f \<longrightarrow> re_event y \<noteq> ev_id v) \<longrightarrow> v \<in> set (events d'))"
proof -
  have held: "fence_held True d f now" by (rule record_failure_held[OF assms(1)])
  have "terminalize x uid f e now d = Inr (FdTerminalized, d')"
    using assms(1) by (auto simp: record_failure_def ebind_eq_Inr Let_def schedule_retry_def split: if_splits)
  then obtain d0 where run: "(case failing_run d (ff_work f) of None \<Rightarrow> Inr d | Some (r, w) \<Rightarrow> terminate_run x uid f e now r w d) = Inr d0"
    and d': "d' = fail_work_item f e now d0"
    by (auto simp: terminalize_def ebind_eq_Inr)
  obtain r w where rw: "failing_run d (ff_work f) = Some (r, w)" "r \<in> set (runs d)" "rn_work r = ff_work f" "rn_state r = RunActive"
    by (rule failing_run_active[OF held])
  have id: "rn_id r = ff_run f" using assms(2) rw by blast
  have "terminate_run x uid f e now r w d = Inr d0" using run rw(1) by simp
  then obtain requests d1 where q: "incorporated_local_requests x d (ff_run f) = Inr requests"
    and c: "create_terminal_bundles x (subsupply uid 1) (failing_context f r w (rn_route r)) requests
       [failure_intent (subsupply uid 0) r w e] LrFailedTerminal now d = Inr (LrFailedTerminal, d1)"
    and d0: "d0 = fail_run (ff_run f) now (abandon_attempts (ff_run f) now
             (return_unincorporated (ff_run f) now (fail_incorporated (ff_run f) now d1)))"
    using terminate_run_Inr unfolding id[symmetric] by metis
  note core = core_tables[OF create_terminal_bundles_core[OF c]]
  let ?inc = "\<lambda>v. attached_with True d (ff_run f) (ev_id v)" and ?un = "\<lambda>v. attached_with False d (ff_run f) (ev_id v)"
  have at: "attached_with b d1 = attached_with b d" "attached_with b (fail_incorporated i now d1) = attached_with b d" for b i
    by (simp_all add: attached_with_def[abs_def] fail_incorporated_def core(4))
  have ev: "events d' = update_where ?un (\<lambda>e. e\<lparr>ev_state := EvPending, ev_run := None, ev_work := None, ev_updated := now\<rparr>)
      (update_where ?inc (\<lambda>e. e\<lparr>ev_state := EvFailedTerminal, ev_updated := now\<rparr>) (events d))"
    by (simp add: d' d0 fail_work_item_def fail_run_def abandon_attempts_def return_unincorporated_def at)
       (simp add: fail_incorporated_def core(1) at)
  have lr: "local_requests d' = update_where (\<lambda>r. attached_with False d (ff_run f) (lr_event r))
         (\<lambda>r. r\<lparr>lr_work := None, lr_updated := now\<rparr>) (local_requests d1)"
    by (simp add: d' d0 fail_work_item_def fail_run_def abandon_attempts_def return_unincorporated_def at)
       (simp add: fail_incorporated_def)
  have re: "run_events d' = delete_where (\<lambda>y. re_run y = ff_run f \<and> \<not> re_incorporated y) (run_events d)"
    by (simp add: d' d0 fail_work_item_def fail_run_def abandon_attempts_def return_unincorporated_def fail_incorporated_def core(4))
  have one: "attached_with b d (ff_run f) (re_event y) \<longleftrightarrow> b = re_incorporated y"
    if "y \<in> set (run_events d)" "re_run y = ff_run f" for y b
  proof -
    have "y' = y" if "y' \<in> set (run_events d)" "re_run y' = ff_run f" "re_event y' = re_event y" for y'
      using distinct_key_eq[OF assms(3) that(1) \<open>y \<in> set (run_events d)\<close>] that \<open>re_run y = ff_run f\<close> by simp
    then show ?thesis using that by (auto simp: attached_with_iff)
  qed
  have state: "if re_incorporated y then ev_state v = EvFailedTerminal else unassigned_event (ev_actor v) v \<and> ev_run v = None"
    if y: "y \<in> set (run_events d)" "re_run y = ff_run f" and v: "v \<in> set (events d')" "ev_id v = re_event y" for y v
  proof -
    obtain u where u: "u \<in> set (update_where ?inc (\<lambda>e. e\<lparr>ev_state := EvFailedTerminal, ev_updated := now\<rparr>) (events d))"
      "v = (if ?un u then u\<lparr>ev_state := EvPending, ev_run := None, ev_work := None, ev_updated := now\<rparr> else u)"
      using v(1) unfolding ev by (rule in_update_whereE)
    obtain v0 where v0: "u = (if ?inc v0 then v0\<lparr>ev_state := EvFailedTerminal, ev_updated := now\<rparr> else v0)"
      using u(1) by (rule in_update_whereE)
    have "ev_id u = re_event y" "ev_id v0 = re_event y" using v(2) u(2) v0 by (simp_all split: if_splits)
    then show ?thesis using u(2) v0 one[OF y] by (simp add: unassigned_event_def)
  qed
  have ready: "has_ready_work d' later (ev_actor v)" if "v \<in> set (events d')" "unassigned_event (ev_actor v) v" for v
    using that by (auto simp: has_ready_work_def list_ex_iff)
  have request: "if re_incorporated y then lr_state r \<noteq> LrActive else lr_work r = None"
    if y: "y \<in> set (run_events d)" "re_run y = ff_run f" and r: "r \<in> set (local_requests d')" "lr_event r = re_event y" for y r
  proof -
    obtain r1 :: local_request_row where r1: "r1 \<in> set (local_requests d1)"
      "r = (if attached_with False d (ff_run f) (lr_event r1) then r1\<lparr>lr_work := None, lr_updated := now\<rparr> else r1)"
      using r(1) unfolding lr by (auto elim!: in_update_whereE)
    then have e1: "lr_event r1 = re_event y" using r(2) by (auto split: if_splits)
    have "lr_state r1 \<noteq> LrActive" if "re_incorporated y"
      by (rule requests_answered[OF q _ c assms(4,5) r1(1) y that e1[symmetric]]) simp
    then show ?thesis using r1(2) e1 one[OF y] by auto
  qed
  have untouched: "v \<in> set (events d')"
    if "v \<in> set (events d)" "\<forall>y \<in> set (run_events d). re_run y = ff_run f \<longrightarrow> re_event y \<noteq> ev_id v" for v
  proof -
    have "\<not> ?inc v" "\<not> ?un v" using that(2) by (auto simp: attached_with_iff)
    then show ?thesis using that(1) unfolding ev by (auto simp: set_update_where image_iff intro!: bexI[of _ v])
  qed
  have "ta_state t \<noteq> AtRunning \<and> ta_state t \<noteq> AtPrepared" if "t \<in> set (attempts d')" "ta_run t = ff_run f" for t
    using attempts_abandoned[OF _ that(2), of now] that(1) by (simp add: d' d0 fail_work_item_def fail_run_def)
  moreover have "rn_state r = RunFailedTerminal" if "r \<in> set (runs d')" "rn_id r = ff_run f" for r
    using that by (auto simp: d' d0 fail_work_item_def fail_run_def set_update_where split: if_splits)
  moreover have "re_incorporated y" if "y \<in> set (run_events d')" "re_run y = ff_run f" for y
    using that by (simp add: re)
  ultimately show ?thesis using state ready request untouched by (intro conjI ballI impI) (fastforce split: if_splits)+
qed

section \<open>Witnesses\<close>

text \<open>The run has failed four times; a second message is attached but not yet taken in.\<close>

definition sample_failing :: db where
  "sample_failing = sample_answering\<lparr>
     events := events sample_answering @ [(sample_event ''f'' ''a'' (Some ''w'') 2)\<lparr>ev_state := EvProcessing, ev_run := Some ''r''\<rparr>],
     run_events := run_events sample_answering @ [\<lparr>re_run = ''r'', re_event = ''f'', re_incorporated = False\<rparr>],
     work_items := update_where (\<lambda>w. True) (\<lambda>w. w\<lparr>wi_failures := 4\<rparr>) (work_items sample_answering)\<rparr>"

definition sample_failed :: db where
  "sample_failed = commit_state sample_failing (record_failure sample_ext sample_ids (fence_of sample_run) ''down'' QpNone 50 sample_failing)"

lemma sample_fails:
  "record_failure sample_ext sample_ids (fence_of sample_run) ''down'' QpNone 50 sample_failing = Inr (FdTerminalized, sample_failed)"
proof -
  have "case record_failure sample_ext sample_ids (fence_of sample_run) ''down'' QpNone 50 sample_failing of
      Inr (out, d') \<Rightarrow> out = FdTerminalized | Inl e \<Rightarrow> False"
    by code_simp
  from tx_succeeds[OF this] show ?thesis unfolding sample_failed_def by metis
qed

lemma sample_failing_ok:
  "failure_state sample_failing ''w'' = [(4, False)]"
  "\<forall>r \<in> set (runs sample_failing). rn_work r = ff_work (fence_of sample_run) \<and> rn_state r = RunActive \<longrightarrow> rn_id r = ff_run (fence_of sample_run)"
  "distinct (map (\<lambda>y. (re_run y, re_event y)) (run_events sample_failing))"
  "distinct (map lr_id (local_requests sample_failing))"
  "\<forall>r \<in> set (local_requests sample_failing). parse_uuid sample_ext (lr_id r) = Some (lr_id r)"
  by code_simp+

theorem failures_end_witness:
  "\<exists>err. record_failure sample_ext sample_ids (fence_of sample_run) ''down'' QpNone 60 sample_failed = Inl err"
proof -
  have w: "ff_work (fence_of sample_run) = ''w''" by (simp add: fence_of_def sample_run_def)
  have "failing_item sample_ext ''w'' sample_failing ([] @ [(50, FdTerminalized)]) sample_failed"
    by (rule failing_item.fail[OF failing_item.none w sample_fails])
  from failures_end [OF this sample_failing_ok(1)] w
  have "\<forall>out. record_failure sample_ext sample_ids (fence_of sample_run) ''down'' QpNone 60 sample_failed \<noteq> Inr out"
    by simp
  then show ?thesis by (metis old.sum.exhaust)
qed

theorem failed_run_returns_input_witness:
  "\<exists>v \<in> set (events sample_failed). ev_id v = ''f'' \<and> ev_work v = None \<and> has_ready_work sample_failed 60 ''a''"
proof -
  have y: "\<lparr>re_run = ''r'', re_event = ''f'', re_incorporated = False\<rparr> \<in> set (run_events sample_failing)"
    "ff_run (fence_of sample_run) = ''r''" by code_simp+
  have "list_ex (\<lambda>v. ev_id v = ''f'' \<and> ev_actor v = ''a'') (events sample_failed)" by code_simp
  then obtain v where v: "v \<in> set (events sample_failed)" "ev_id v = ''f''" "ev_actor v = ''a''" by (auto simp: list_ex_iff)
  have "unassigned_event (ev_actor v) v \<and> has_ready_work sample_failed 60 (ev_actor v)"
    using failed_run_returns_input [OF sample_fails sample_failing_ok(2-5), of 60] y v by fastforce
  then show ?thesis using v by (intro bexI[of _ v]) (simp_all add: unassigned_event_def)
qed

end
