(* ===== verification/Gateway_Delivery.thy ===== *)
theory Gateway_Delivery
  imports Fencing Ingress Payload_Codec
begin

text \<open>
  Deliveries through gateways and the streams of live output, from
  \<open>runtime/sqlite/gateway.rs\<close>: enqueueing, claiming in order, the transitions made under a claim,
  and the remote message that streams a work item until its final result replaces it.
\<close>

section \<open>Values\<close>

record gateway_claim =
  gk_id :: string
  gk_owner :: string
  gk_expires :: timestamp

record claimed_delivery =
  cd_claim :: gateway_claim
  cd_key :: string
  cd_source :: "outbox_id option"
  cd_work :: "work_item_id option"
  cd_ordinal :: nat
  cd_route :: delivery_route
  cd_payload :: outbox_payload
  cd_attempts :: nat
  cd_remote :: "string option"

record new_delivery =
  nd_key :: string
  nd_source :: "outbox_id option"
  nd_ordinal :: nat
  nd_route :: delivery_route
  nd_payload :: outbox_payload

definition new_delivery_new ::
    "string \<Rightarrow> outbox_id option \<Rightarrow> nat \<Rightarrow> delivery_route \<Rightarrow> outbox_payload \<Rightarrow> error + new_delivery" where
  "new_delivery_new key source ordinal route payload =
     (if blank key then Inl (Bail ''gateway delivery intent key must not be blank'')
      else Inr \<lparr>nd_key = key, nd_source = source, nd_ordinal = ordinal, nd_route = route, nd_payload = payload\<rparr>)"

section \<open>Enqueueing\<close>

definition same_delivery :: "ext \<Rightarrow> new_delivery \<Rightarrow> gateway_delivery_row \<Rightarrow> bool" where
  "same_delivery x n r \<longleftrightarrow> gd_source r = nd_source n \<and> gd_route r = nd_route n \<and> gd_ordinal r = int (nd_ordinal n)
     \<and> gd_payload r = write_payload x (nd_payload n)"

definition enqueue_gateway_delivery :: "ext \<Rightarrow> id_supply \<Rightarrow> new_delivery \<Rightarrow> timestamp \<Rightarrow> db \<Rightarrow> string tx" where
  "enqueue_gateway_delivery x uid n now d =
     ebind (insert_delivery_or_ignore
              (new_gateway_delivery (uid [0]) (nd_key n) (nd_source n) (nd_route n) (int (nd_ordinal n))
                 (write_payload x (nd_payload n)) now) d) (\<lambda>d1.
     ebind (from_option (Sql ''Query returned no rows'')
              (List.find (\<lambda>r. gd_key r = nd_key n) (gateway_deliveries d1))) (\<lambda>r.
     ebind (require (same_delivery x n r)
              (Bail ''gateway delivery intent key was reused with different immutable data'')) (\<lambda>_.
       Inr (gd_id r, d1))))"

section \<open>Claiming\<close>

definition delivery_expired :: "string \<Rightarrow> timestamp \<Rightarrow> gateway_delivery_row \<Rightarrow> bool" where
  "delivery_expired gateway now r \<longleftrightarrow>
     dr_gateway (gd_route r) = gateway \<and> gd_state r = GdDelivering \<and> (case gd_expires r of Some e \<Rightarrow> e \<le> now | None \<Rightarrow> False)"

text \<open>An expired claim may be repeated only if the transport said so; otherwise nobody knows.\<close>

definition expire_delivery :: "timestamp \<Rightarrow> gateway_delivery_row \<Rightarrow> gateway_delivery_row" where
  "expire_delivery now r =
     r\<lparr>gd_state := (if gd_retry_safe r then GdFailedRetryable else GdOutcomeUnknown),
       gd_next := (if gd_retry_safe r then Some now else gd_next r), gd_owner := None, gd_expires := None,
       gd_error_class := Some ''expired_claim'',
       gd_error := Some ''delivery claim expired with unknown transport outcome'', gd_updated := now\<rparr>"

definition expire_deliveries :: "string \<Rightarrow> timestamp \<Rightarrow> db \<Rightarrow> db" where
  "expire_deliveries gateway now d =
     d\<lparr>gateway_deliveries := update_where (delivery_expired gateway now) (expire_delivery now) (gateway_deliveries d)\<rparr>"

definition waiting_delivery :: "gateway_delivery_row \<Rightarrow> bool" where
  "waiting_delivery r \<longleftrightarrow> gd_state r = GdPending \<or> gd_state r = GdFailedRetryable"

definition same_address :: "gateway_delivery_row \<Rightarrow> gateway_delivery_row \<Rightarrow> bool" where
  "same_address r s \<longleftrightarrow> dr_gateway (gd_route r) = dr_gateway (gd_route s) \<and> dr_address (gd_route r) = dr_address (gd_route s)"

definition created_before :: "gateway_delivery_row \<Rightarrow> gateway_delivery_row \<Rightarrow> bool" where
  "created_before r s \<longleftrightarrow> gd_created r < gd_created s \<or> gd_created r = gd_created s \<and> gd_id r < gd_id s"

text \<open>
  \<open>NOT (e.source = c.source AND e.ordinal > c.ordinal)\<close> with the logic of SQL: with a null source
  the equation is null, and the negation is true only if the ordinals do not compare.
\<close>

definition not_later_chunk :: "gateway_delivery_row \<Rightarrow> gateway_delivery_row \<Rightarrow> bool" where
  "not_later_chunk e c \<longleftrightarrow>
     (if gd_source e = None \<or> gd_source c = None then \<not> gd_ordinal c < gd_ordinal e
      else \<not> (gd_source e = gd_source c \<and> gd_ordinal c < gd_ordinal e))"

definition earlier_chunk :: "gateway_delivery_row \<Rightarrow> gateway_delivery_row \<Rightarrow> bool" where
  "earlier_chunk p r \<longleftrightarrow> gd_source r \<noteq> None \<and> gd_source p = gd_source r \<and> gd_ordinal p < gd_ordinal r"

definition holds_up :: "gateway_delivery_row list \<Rightarrow> gateway_delivery_row \<Rightarrow> gateway_delivery_row \<Rightarrow> bool" where
  "holds_up rows c e \<longleftrightarrow> same_address e c \<and> waiting_delivery e \<and> created_before e c \<and> not_later_chunk e c
     \<and> \<not> list_ex (\<lambda>b. earlier_chunk b e \<and> (gd_state b = GdFailedTerminal \<or> gd_state b = GdOutcomeUnknown)) rows"

definition delivery_ready :: "gateway_delivery_row list \<Rightarrow> string \<Rightarrow> timestamp \<Rightarrow> gateway_delivery_row \<Rightarrow> bool" where
  "delivery_ready rows gateway now c \<longleftrightarrow>
     dr_gateway (gd_route c) = gateway \<and> waiting_delivery c \<and> due (gd_next c) now
     \<and> \<not> list_ex (holds_up rows c) rows
     \<and> \<not> list_ex (\<lambda>p. earlier_chunk p c \<and> gd_state p \<noteq> GdDelivered) rows
     \<and> \<not> list_ex (\<lambda>a. same_address a c \<and> gd_state a = GdDelivering) rows"

definition ready_ids :: "gateway_delivery_row list \<Rightarrow> string \<Rightarrow> timestamp \<Rightarrow> nat \<Rightarrow> string list" where
  "ready_ids rows gateway now limit =
     map gd_id (take limit (sort_key (\<lambda>r. (gd_created r, gd_id r)) (filter (delivery_ready rows gateway now) rows)))"

definition load_claimed :: "ext \<Rightarrow> db \<Rightarrow> string \<Rightarrow> string \<Rightarrow> timestamp \<Rightarrow> error + claimed_delivery" where
  "load_claimed x d i owner until =
     ebind (from_option (Sql ''Query returned no rows'') (List.find (\<lambda>r. gd_id r = i) (gateway_deliveries d))) (\<lambda>r.
     let t = gd_route r; b = Option.bind (gd_source r) (\<lambda>s. List.find (\<lambda>b. ob_id b = s) (outbox d)) in
     ebind (delivery_route_new (dr_gateway t) (dr_address t) (dr_reply_to t) (dr_max_text t) (dr_max_caption t)) (\<lambda>route.
     ebind (lift_read (read_payload x (gd_payload r))) (\<lambda>p.
       Inr \<lparr>cd_claim = \<lparr>gk_id = i, gk_owner = owner, gk_expires = until\<rparr>, cd_key = gd_key r, cd_source = gd_source r,
            cd_work = map_option ob_work b, cd_ordinal = nat (gd_ordinal r), cd_route = route, cd_payload = p,
            cd_attempts = nat (gd_attempts r), cd_remote = gd_remote r\<rparr>)))"

definition claim_gateway_row :: "string \<Rightarrow> timestamp \<Rightarrow> timestamp \<Rightarrow> gateway_delivery_row \<Rightarrow> gateway_delivery_row" where
  "claim_gateway_row owner now until r =
     r\<lparr>gd_state := GdDelivering, gd_attempts := gd_attempts r + 1, gd_owner := Some owner, gd_expires := Some until, gd_updated := now\<rparr>"

definition claim_delivery ::
    "ext \<Rightarrow> string \<Rightarrow> timestamp \<Rightarrow> timestamp \<Rightarrow> string \<Rightarrow> claimed_delivery list \<times> db \<Rightarrow> error + (claimed_delivery list \<times> db)" where
  "claim_delivery x owner now until i = (\<lambda>(claimed, d).
     let d1 = d\<lparr>gateway_deliveries := update_where (\<lambda>r. gd_id r = i) (claim_gateway_row owner now until) (gateway_deliveries d)\<rparr> in
     ebind (load_claimed x d1 i owner until) (\<lambda>c. Inr (claimed @ [c], d1)))"

definition claim_gateway_deliveries ::
    "ext \<Rightarrow> string \<Rightarrow> string \<Rightarrow> timestamp \<Rightarrow> timestamp \<Rightarrow> nat \<Rightarrow> db \<Rightarrow> claimed_delivery list tx" where
  "claim_gateway_deliveries x gateway owner now until limit d =
     (if blank gateway \<or> blank owner \<or> until \<le> now \<or> limit = 0 then Inl (Bail ''invalid gateway delivery claim'')
      else
        let d1 = expire_deliveries gateway now d in
        efold (claim_delivery x owner now until) (ready_ids (gateway_deliveries d1) gateway now limit) ([], d1))"

section \<open>Transitions under a claim\<close>

definition holds_delivery :: "gateway_claim \<Rightarrow> gateway_delivery_row \<Rightarrow> bool" where
  "holds_delivery c r \<longleftrightarrow>
     gd_id r = gk_id c \<and> gd_state r = GdDelivering \<and> gd_owner r = Some (gk_owner c) \<and> gd_expires r = Some (gk_expires c)"

definition renew_gateway_delivery :: "gateway_claim \<Rightarrow> timestamp \<Rightarrow> timestamp \<Rightarrow> db \<Rightarrow> gateway_claim option tx" where
  "renew_gateway_delivery c now until d =
     Inr (if changed (holds_delivery c) (gateway_deliveries d) = 1 then Some (c\<lparr>gk_expires := until\<rparr>) else None,
          d\<lparr>gateway_deliveries := update_where (holds_delivery c)
               (\<lambda>r. r\<lparr>gd_expires := Some until, gd_updated := now\<rparr>) (gateway_deliveries d)\<rparr>)"

definition transition_claim ::
    "gateway_claim \<Rightarrow> gateway_delivery_state \<Rightarrow> timestamp option \<Rightarrow> (string \<times> string) option \<Rightarrow> string option \<Rightarrow> timestamp
     \<Rightarrow> db \<Rightarrow> bool tx" where
  "transition_claim c s next_at err remote now d =
     Inr (changed (holds_delivery c) (gateway_deliveries d) = 1,
          d\<lparr>gateway_deliveries := update_where (holds_delivery c)
               (\<lambda>r. r\<lparr>gd_state := s, gd_next := next_at, gd_owner := None, gd_expires := None,
                      gd_remote := (case remote of Some m \<Rightarrow> Some m | None \<Rightarrow> gd_remote r),
                      gd_error_class := map_option fst err, gd_error := map_option snd err, gd_updated := now\<rparr>)
               (gateway_deliveries d)\<rparr>)"

definition complete_gateway_delivery :: "gateway_claim \<Rightarrow> string option \<Rightarrow> timestamp \<Rightarrow> db \<Rightarrow> bool tx" where
  "complete_gateway_delivery c remote now d = transition_claim c GdDelivered None None remote now d"

definition retry_gateway_delivery :: "gateway_claim \<Rightarrow> timestamp \<Rightarrow> string \<Rightarrow> string \<Rightarrow> timestamp \<Rightarrow> db \<Rightarrow> bool tx" where
  "retry_gateway_delivery c next_at class err now d =
     transition_claim c GdFailedRetryable (Some next_at) (Some (class, err)) None now d"

definition set_gateway_delivery_retry_safe :: "gateway_claim \<Rightarrow> bool \<Rightarrow> timestamp \<Rightarrow> db \<Rightarrow> bool tx" where
  "set_gateway_delivery_retry_safe c safe now d =
     Inr (changed (holds_delivery c) (gateway_deliveries d) = 1,
          d\<lparr>gateway_deliveries := update_where (holds_delivery c)
               (\<lambda>r. r\<lparr>gd_retry_safe := safe, gd_updated := now\<rparr>) (gateway_deliveries d)\<rparr>)"

definition fail_gateway_delivery :: "gateway_claim \<Rightarrow> gateway_delivery_state \<Rightarrow> string \<Rightarrow> string \<Rightarrow> timestamp \<Rightarrow> db \<Rightarrow> bool tx" where
  "fail_gateway_delivery c s class err now d =
     (if \<not> is_failure_target s then Inl (Bail ''invalid terminal gateway delivery state'')
      else transition_claim c s None (Some (class, err)) None now d)"

section \<open>Streams\<close>

definition stream_of :: "work_item_id \<Rightarrow> delivery_route \<Rightarrow> gateway_stream_row \<Rightarrow> bool" where
  "stream_of w route r \<longleftrightarrow> gs_work r = w \<and> gs_gateway r = dr_gateway route \<and> gs_address r = dr_address route"

definition upsert_gateway_stream :: "work_item_id \<Rightarrow> delivery_route \<Rightarrow> string \<Rightarrow> timestamp \<Rightarrow> db \<Rightarrow> unit tx" where
  "upsert_gateway_stream w route remote now d =
     (if blank remote then Inl (Bail ''gateway stream remote message ID must not be blank'')
      else if list_ex (stream_of w route) (gateway_streams d)
      then Inr ((), d\<lparr>gateway_streams := update_where (\<lambda>r. stream_of w route r \<and> gs_state r = StActive)
                       (\<lambda>r. r\<lparr>gs_remote := remote, gs_updated := now\<rparr>) (gateway_streams d)\<rparr>)
      else Inr ((), d\<lparr>gateway_streams := gateway_streams d @ [\<lparr>gs_work = w, gs_gateway = dr_gateway route,
                       gs_address = dr_address route, gs_remote = remote, gs_state = StActive, gs_updated = now\<rparr>]\<rparr>))"

definition resolve_gateway_stream :: "work_item_id \<Rightarrow> delivery_route \<Rightarrow> db \<Rightarrow> string option" where
  "resolve_gateway_stream w route d =
     map_option gs_remote (List.find (\<lambda>r. stream_of w route r \<and> gs_state r = StActive) (gateway_streams d))"

definition close_gateway_stream :: "work_item_id \<Rightarrow> delivery_route \<Rightarrow> timestamp \<Rightarrow> db \<Rightarrow> unit tx" where
  "close_gateway_stream w route now d =
     Inr ((), d\<lparr>gateway_streams := update_where (\<lambda>r. stream_of w route r \<and> gs_state r = StActive)
                  (\<lambda>r. r\<lparr>gs_state := StClosed, gs_updated := now\<rparr>) (gateway_streams d)\<rparr>)"

text \<open>Every state of a stream is one of the three the statement allows.\<close>

definition claim_gateway_stream_for_final :: "work_item_id \<Rightarrow> delivery_route \<Rightarrow> timestamp \<Rightarrow> db \<Rightarrow> string option tx" where
  "claim_gateway_stream_for_final w route now d =
     (let p = (\<lambda>r. stream_of w route r \<and> (gs_state r = StActive \<or> gs_state r = StClosed \<or> gs_state r = StFinalizing)) in
      Inr (map_option gs_remote (List.find p (gateway_streams d)),
           d\<lparr>gateway_streams := update_where p (\<lambda>r. r\<lparr>gs_state := StFinalizing, gs_updated := now\<rparr>) (gateway_streams d)\<rparr>))"

section \<open>Claims are tokens\<close>

definition delivery_held :: "db \<Rightarrow> gateway_claim \<Rightarrow> timestamp \<Rightarrow> bool" where
  "delivery_held d c now \<longleftrightarrow> list_ex (holds_delivery c) (gateway_deliveries d)"

lemma delivery_not_held:
  assumes "\<not> delivery_held d c now"
  shows "d\<lparr>gateway_deliveries := update_where (holds_delivery c) f (gateway_deliveries d)\<rparr> = d"
  using assms by (simp add: delivery_held_def list_ex_iff update_where_id)

interpretation extending: fenced "\<lambda>c now d. renew_gateway_delivery c now until d" delivery_held for until
  by unfold_locales (simp add: renew_gateway_delivery_def delivery_not_held)

interpretation settling: fenced "\<lambda>c now d. transition_claim c s next_at err remote now d" delivery_held for s next_at err remote
  by unfold_locales (simp add: transition_claim_def delivery_not_held)

interpretation marking: fenced "\<lambda>c now d. set_gateway_delivery_retry_safe c safe now d" delivery_held for safe
  by unfold_locales (simp add: set_gateway_delivery_retry_safe_def delivery_not_held)

section \<open>The life of a delivery\<close>

text \<open>Waiting, in delivery, and then done, waiting again, or not known.\<close>

inductive delivery_edge :: "gateway_delivery_state \<Rightarrow> gateway_delivery_state \<Rightarrow> bool" where
  first_claim: "delivery_edge GdPending GdDelivering"
| next_claim: "delivery_edge GdFailedRetryable GdDelivering"
| settled: "delivery_edge GdDelivering s"

inductive_simps delivery_edge_final [simp]:
  "delivery_edge GdDelivered s" "delivery_edge GdFailedTerminal s" "delivery_edge GdOutcomeUnknown s"

definition final_delivery :: "gateway_delivery_row \<Rightarrow> bool" where
  "final_delivery r \<longleftrightarrow> gd_state r = GdDelivered \<or> gd_state r = GdFailedTerminal \<or> gd_state r = GdOutcomeUnknown"

definition delivery_moves :: "gateway_delivery_row \<Rightarrow> gateway_delivery_row \<Rightarrow> bool" where
  "delivery_moves r r' \<longleftrightarrow> gd_id r' = gd_id r \<and> gd_key r' = gd_key r \<and> gd_source r' = gd_source r \<and> gd_route r' = gd_route r
     \<and> gd_ordinal r' = gd_ordinal r \<and> gd_payload r' = gd_payload r \<and> gd_attempts r \<le> gd_attempts r'
     \<and> delivery_edge\<^sup>*\<^sup>* (gd_state r) (gd_state r') \<and> (final_delivery r \<longrightarrow> r' = r)"

lemma delivery_moves_refl [simp]: "delivery_moves r r"
  by (simp add: delivery_moves_def)

lemma delivery_moves_trans: "delivery_moves r s \<Longrightarrow> delivery_moves s t \<Longrightarrow> delivery_moves r t"
  unfolding delivery_moves_def by (auto intro: rtranclp_trans)

lemmas claim_edges = r_into_rtranclp [of delivery_edge, OF delivery_edge.first_claim]
  r_into_rtranclp [of delivery_edge, OF delivery_edge.next_claim]

lemma claim_gateway_row_moves: "waiting_delivery r \<Longrightarrow> delivery_moves r (claim_gateway_row owner now until r)"
  by (auto simp: delivery_moves_def claim_gateway_row_def waiting_delivery_def final_delivery_def claim_edges)

text \<open>The tables as a whole: rows are only appended, and each moves.\<close>

definition deliveries_move :: "db \<Rightarrow> db \<Rightarrow> bool" where
  "deliveries_move d d' \<longleftrightarrow> d' = d\<lparr>gateway_deliveries := gateway_deliveries d'\<rparr>
     \<and> (distinct (map gd_id (gateway_deliveries d)) \<longrightarrow> distinct (map gd_id (gateway_deliveries d')))
     \<and> (\<exists>old new. gateway_deliveries d' = old @ new \<and> list_all2 delivery_moves (gateway_deliveries d) old)"

lemma deliveries_move_refl [simp]: "deliveries_move d d"
  unfolding deliveries_move_def
  by (intro conjI exI[of _ "gateway_deliveries d"] exI[of _ "[]"]) (simp_all add: list.rel_refl)

lemma deliveries_move_trans:
  assumes "deliveries_move d1 d2" and "deliveries_move d2 d3"
  shows "deliveries_move d1 d3"
proof -
  obtain o2 n2 o3 n3 where o2: "gateway_deliveries d2 = o2 @ n2" "list_all2 delivery_moves (gateway_deliveries d1) o2"
    and o3: "gateway_deliveries d3 = o3 @ n3" "list_all2 delivery_moves (gateway_deliveries d2) o3"
    using assms by (auto simp: deliveries_move_def)
  obtain a b where ab: "o3 = a @ b" "list_all2 delivery_moves o2 a" using o3(2) unfolding o2(1) by (auto simp: list_all2_append1)
  have "list_all2 delivery_moves (gateway_deliveries d1) a"
    using list_all2_trans[OF _ o2(2) ab(2), of delivery_moves] delivery_moves_trans by blast
  moreover have "gateway_deliveries d3 = a @ (b @ n3)" using o3(1) ab(1) by simp
  moreover have "d3 = d1\<lparr>gateway_deliveries := gateway_deliveries d3\<rparr>"
  proof -
    obtain g2 g3 where "d2 = d1\<lparr>gateway_deliveries := g2\<rparr>" "d3 = d2\<lparr>gateway_deliveries := g3\<rparr>"
      using assms unfolding deliveries_move_def by blast
    then show ?thesis by simp
  qed
  ultimately show ?thesis using assms by (auto simp: deliveries_move_def)
qed

lemma update_deliveries_move:
  assumes "\<And>r. r \<in> set (gateway_deliveries d) \<Longrightarrow> p r \<Longrightarrow> delivery_moves r (f r)"
  shows "deliveries_move d (d\<lparr>gateway_deliveries := update_where p f (gateway_deliveries d)\<rparr>)"
proof -
  have "map gd_id (update_where p f (gateway_deliveries d)) = map gd_id (gateway_deliveries d)"
    using assms by (intro map_update_where) (simp add: delivery_moves_def)
  moreover have "list_all2 delivery_moves (gateway_deliveries d) (update_where p f (gateway_deliveries d))"
    using assms by (auto simp: update_where_def list_all2_map2 intro!: list_all2_refl list.rel_refl_strong)
  ultimately show ?thesis by (auto simp: deliveries_move_def)
qed

lemma insert_delivery_moves:
  assumes "insert_delivery_or_ignore r d = Inr d'"
  shows "deliveries_move d d'"
proof (cases "gd_key r \<in> gd_key ` set (gateway_deliveries d)")
  case True
  then show ?thesis using assms by (simp add: insert_delivery_or_ignore_def)
next
  case False
  then have d': "d' = d\<lparr>gateway_deliveries := gateway_deliveries d @ [r]\<rparr>" "gd_id r \<notin> gd_id ` set (gateway_deliveries d)"
    using assms by (auto simp: insert_delivery_or_ignore_def delivery_constraints_def split: if_splits)
  then show ?thesis unfolding deliveries_move_def
    by (intro conjI exI[of _ "gateway_deliveries d"] exI[of _ "[r]"]) (auto simp: list.rel_refl)
qed

lemma deliveries_move_efold:
  assumes "efold f xs d = Inr d'" and "\<And>x d d'. f x d = Inr d' \<Longrightarrow> deliveries_move d d'"
  shows "deliveries_move d d'"
  by (rule efold_invariant[OF assms(1), of "deliveries_move d"]) (use assms(2) deliveries_move_trans in auto)

lemma enqueue_moves: "enqueue_gateway_delivery x uid n now d = Inr (i, d') \<Longrightarrow> deliveries_move d d'"
  by (auto simp: enqueue_gateway_delivery_def ebind_eq_Inr dest: insert_delivery_moves)

lemma project_moves: "project_outbox_to_gateway x uid key i p route now d = Inr d' \<Longrightarrow> deliveries_move d d'"
  by (auto simp: project_outbox_to_gateway_def ebind_eq_Inr elim!: deliveries_move_efold dest!: insert_delivery_moves)

lemma held_moves:
  assumes "\<And>r. holds_delivery c r \<Longrightarrow> gd_id (f r) = gd_id r \<and> gd_key (f r) = gd_key r \<and> gd_source (f r) = gd_source r
     \<and> gd_route (f r) = gd_route r \<and> gd_ordinal (f r) = gd_ordinal r \<and> gd_payload (f r) = gd_payload r \<and> gd_attempts (f r) = gd_attempts r"
  shows "deliveries_move d (d\<lparr>gateway_deliveries := update_where (holds_delivery c) f (gateway_deliveries d)\<rparr>)"
proof (rule update_deliveries_move)
  fix r
  assume h: "holds_delivery c r"
  have "delivery_edge\<^sup>*\<^sup>* (gd_state r) (gd_state (f r))"
    using h by (auto simp: holds_delivery_def intro: delivery_edge.settled)
  then show "delivery_moves r (f r)" using assms[OF h] h by (simp add: delivery_moves_def holds_delivery_def final_delivery_def)
qed

section \<open>A round of claims\<close>

lemma expire_moves: "deliveries_move d (expire_deliveries gateway now d)"
  unfolding expire_deliveries_def
proof (rule update_deliveries_move)
  fix r
  assume "delivery_expired gateway now r"
  then have "gd_state r = GdDelivering" by (simp add: delivery_expired_def)
  then show "delivery_moves r (expire_delivery now r)"
    by (auto simp: delivery_moves_def expire_delivery_def final_delivery_def intro: delivery_edge.settled)
qed

lemma load_claimed_claim: "load_claimed x d i owner until = Inr c \<Longrightarrow> cd_claim c = \<lparr>gk_id = i, gk_owner = owner, gk_expires = until\<rparr>"
  by (auto simp: load_claimed_def ebind_eq_Inr Let_def)

text \<open>The claims of a round are the updates of its rows at once.\<close>

lemma claims_at_once:
  assumes "efold (claim_delivery x owner now until) ids (claimed, d) = Inr (claims, d')" and "distinct ids"
  shows "d' = d\<lparr>gateway_deliveries := update_where (\<lambda>r. gd_id r \<in> set ids) (claim_gateway_row owner now until) (gateway_deliveries d)\<rparr>
     \<and> map cd_claim claims = map cd_claim claimed @ map (\<lambda>i. \<lparr>gk_id = i, gk_owner = owner, gk_expires = until\<rparr>) ids"
  using assms
proof (induction ids arbitrary: claimed d)
  case Nil
  then show ?case by (simp add: update_where_id)
next
  case (Cons i "is")
  let ?d = "d\<lparr>gateway_deliveries := update_where (\<lambda>r. gd_id r = i) (claim_gateway_row owner now until) (gateway_deliveries d)\<rparr>"
  obtain s where s: "claim_delivery x owner now until i (claimed, d) = Inr s" "efold (claim_delivery x owner now until) is s = Inr (claims, d')"
    using Cons.prems(1) by (auto simp: ebind_eq_Inr)
  obtain c where c: "load_claimed x ?d i owner until = Inr c" and "s = (claimed @ [c], ?d)"
    using s(1) by (auto simp: ebind_eq_Inr claim_delivery_def Let_def)
  then have rest: "efold (claim_delivery x owner now until) is (claimed @ [c], ?d) = Inr (claims, d')" using s(2) by simp
  have "update_where (\<lambda>r. gd_id r \<in> set is) f (update_where (\<lambda>r. gd_id r = i) f rows) = update_where (\<lambda>r. gd_id r \<in> set (i # is)) f rows"
    if "f = claim_gateway_row owner now until" for f and rows
    using Cons.prems(2) that by (induction rows) (auto simp: claim_gateway_row_def)
  then show ?case using Cons.IH[OF rest] Cons.prems(2) load_claimed_claim[OF c] by simp
qed

lemma ready_ids_spec:
  assumes "i \<in> set (ready_ids rows gateway now limit)"
  obtains r where "r \<in> set rows" "gd_id r = i" "delivery_ready rows gateway now r"
proof -
  obtain r where r: "r \<in> set (take limit (sort_key (\<lambda>r. (gd_created r, gd_id r)) (filter (delivery_ready rows gateway now) rows)))" "gd_id r = i"
    using assms by (auto simp: ready_ids_def)
  have "r \<in> set (sort_key (\<lambda>r. (gd_created r, gd_id r)) (filter (delivery_ready rows gateway now) rows))"
    using r(1) by (rule in_set_takeD)
  then show ?thesis using that[of r] r(2) by simp
qed

lemma distinct_ready_ids:
  assumes "distinct (map gd_id rows)"
  shows "distinct (ready_ids rows gateway now limit)"
proof -
  have "distinct (map gd_id (filter (delivery_ready rows gateway now) rows))" using assms by (rule distinct_map_filter)
  then have "distinct (map gd_id (sort_key (\<lambda>r. (gd_created r, gd_id r)) (filter (delivery_ready rows gateway now) rows)))"
    unfolding distinct_map by simp
  then show ?thesis unfolding ready_ids_def take_map[symmetric] by (rule distinct_take)
qed

lemma claim_round:
  assumes "claim_gateway_deliveries x gateway owner now until limit d = Inr (claims, d')"
    and "distinct (map gd_id (gateway_deliveries d))"
  obtains d1 ids where "d1 = expire_deliveries gateway now d" "ids = ready_ids (gateway_deliveries d1) gateway now limit"
    "d' = d1\<lparr>gateway_deliveries := update_where (\<lambda>r. gd_id r \<in> set ids) (claim_gateway_row owner now until) (gateway_deliveries d1)\<rparr>"
    "map cd_claim claims = map (\<lambda>i. \<lparr>gk_id = i, gk_owner = owner, gk_expires = until\<rparr>) ids" "length claims \<le> limit"
    "distinct (map gd_id (gateway_deliveries d1))"
proof -
  let ?d1 = "expire_deliveries gateway now d"
  let ?ids = "ready_ids (gateway_deliveries ?d1) gateway now limit"
  have keys: "distinct (map gd_id (gateway_deliveries ?d1))" using expire_moves assms(2) unfolding deliveries_move_def by blast
  have "efold (claim_delivery x owner now until) ?ids ([], ?d1) = Inr (claims, d')"
    using assms(1) by (simp add: claim_gateway_deliveries_def Let_def split: if_splits)
  note c = claims_at_once[OF this distinct_ready_ids[OF keys]]
  have "length claims \<le> limit" using arg_cong[OF conjunct2[OF c], of length] by (simp add: ready_ids_def)
  then show ?thesis using that[OF refl refl conjunct1[OF c] _ _ keys] conjunct2[OF c] by simp
qed

lemma claim_deliveries_moves:
  assumes "claim_gateway_deliveries x gateway owner now until limit d = Inr (claims, d')"
    and "distinct (map gd_id (gateway_deliveries d))"
  shows "deliveries_move d d'"
proof -
  obtain d1 ids where d1: "d1 = expire_deliveries gateway now d" and ids: "ids = ready_ids (gateway_deliveries d1) gateway now limit"
    and d': "d' = d1\<lparr>gateway_deliveries := update_where (\<lambda>r. gd_id r \<in> set ids) (claim_gateway_row owner now until) (gateway_deliveries d1)\<rparr>"
    and keys: "distinct (map gd_id (gateway_deliveries d1))"
    by (rule claim_round[OF assms])
  have "deliveries_move d1 d'" unfolding d'
  proof (rule update_deliveries_move)
    fix r
    assume r: "r \<in> set (gateway_deliveries d1)" "gd_id r \<in> set ids"
    obtain q where q: "q \<in> set (gateway_deliveries d1)" "gd_id q = gd_id r" "delivery_ready (gateway_deliveries d1) gateway now q"
      using r(2) unfolding ids by (rule ready_ids_spec)
    have "q = r" by (rule distinct_key_eq[OF keys q(1) r(1) q(2)])
    then show "delivery_moves r (claim_gateway_row owner now until r)"
      using q(3) by (intro claim_gateway_row_moves) (simp add: delivery_ready_def)
  qed
  then show ?thesis using deliveries_move_trans[OF expire_moves] d1 by blast
qed

section \<open>The order of claims\<close>

text \<open>
  Where one of two waiting deliveries of an address has no source, \<open>not_later_chunk\<close> orders them
  only if their ordinals agree.
\<close>

definition orderable :: "gateway_delivery_row list \<Rightarrow> bool" where
  "orderable rows \<longleftrightarrow> (\<forall>e \<in> set rows. \<forall>c \<in> set rows. waiting_delivery e \<and> waiting_delivery c \<and> same_address e c
     \<and> (gd_source e = None \<or> gd_source c = None) \<longrightarrow> gd_ordinal e = gd_ordinal c)"

definition one_delivering :: "gateway_delivery_row list \<Rightarrow> bool" where
  "one_delivering rows \<longleftrightarrow> (\<forall>r \<in> set rows. \<forall>s \<in> set rows. gd_state r = GdDelivering \<and> gd_state s = GdDelivering \<and> same_address r s
     \<longrightarrow> gd_id r = gd_id s)"

lemma ready_first:
  assumes "orderable rows" and "r \<in> set rows" and "s \<in> set rows" and "delivery_ready rows gateway now r"
    and "delivery_ready rows gateway now s" and "same_address r s"
  shows "\<not> created_before r s"
proof
  assume b: "created_before r s"
  have w: "waiting_delivery r" "waiting_delivery s" and pre: "\<And>p. p \<in> set rows \<Longrightarrow> earlier_chunk p r \<Longrightarrow> gd_state p = GdDelivered"
    using assms(4,5) by (auto simp: delivery_ready_def list_ex_iff)
  have "\<not> holds_up rows s r" using assms(2,5) by (auto simp: delivery_ready_def list_ex_iff)
  moreover have "\<not> list_ex (\<lambda>b. earlier_chunk b r \<and> (gd_state b = GdFailedTerminal \<or> gd_state b = GdOutcomeUnknown)) rows"
    using pre by (fastforce simp: list_ex_iff)
  ultimately have "\<not> not_later_chunk r s" using assms(6) w(1) b by (simp add: holds_up_def)
  then have later: "gd_ordinal s < gd_ordinal r" and "gd_source r = None \<or> gd_source s = None \<or> gd_source s = gd_source r"
    by (auto simp: not_later_chunk_def split: if_splits)
  then consider "gd_source r = None \<or> gd_source s = None" | "earlier_chunk s r" unfolding earlier_chunk_def by metis
  then show False
  proof cases
    case 1
    then show False using assms(1-3,6) w later unfolding orderable_def by (metis order_less_irrefl)
  next
    case 2
    then show False using pre[OF assms(3)] w(2) by (simp add: waiting_delivery_def)
  qed
qed

lemma ready_unique:
  assumes "orderable rows" and "r \<in> set rows" and "s \<in> set rows" and "delivery_ready rows gateway now r"
    and "delivery_ready rows gateway now s" and "same_address r s"
  shows "gd_id r = gd_id s"
proof (rule ccontr)
  assume "gd_id r \<noteq> gd_id s"
  then have "created_before r s \<or> created_before s r" by (auto simp: created_before_def)
  moreover have "same_address s r" using assms(6) by (simp add: same_address_def)
  ultimately show False using ready_first assms by blast
qed

text \<open>
  C13. Claims keep the order of an address. A round of claims takes at most the limit; each claimed
  delivery was waiting, and every earlier chunk of its source has been delivered. If an address had at
  most one delivery under way before, it has at most one afterwards, provided that its waiting
  deliveries can be ordered: those of an address at which one has no source, a command response,
  all have the same ordinal. Without that condition two can be claimed, as \<open>unlinked_delivery_overtakes\<close>
  shows.
\<close>

theorem gateway_claims_ordered:
  assumes "claim_gateway_deliveries x gateway owner now until limit d = Inr (claims, d')"
    and "distinct (map gd_id (gateway_deliveries d))" and "one_delivering (gateway_deliveries d)"
    and "orderable (gateway_deliveries (expire_deliveries gateway now d))"
  shows "length claims \<le> limit \<and> one_delivering (gateway_deliveries d')
     \<and> (\<forall>c \<in> set claims. \<exists>r \<in> set (gateway_deliveries d'). holds_delivery (cd_claim c) r \<and> dr_gateway (gd_route r) = gateway
          \<and> gk_owner (cd_claim c) = owner \<and> gk_expires (cd_claim c) = until
          \<and> (\<forall>p \<in> set (gateway_deliveries d'). earlier_chunk p r \<longrightarrow> gd_state p = GdDelivered))"
proof -
  obtain d1 ids where d1: "d1 = expire_deliveries gateway now d" and ids: "ids = ready_ids (gateway_deliveries d1) gateway now limit"
    and d': "d' = d1\<lparr>gateway_deliveries := update_where (\<lambda>r. gd_id r \<in> set ids) (claim_gateway_row owner now until) (gateway_deliveries d1)\<rparr>"
    and claims: "map cd_claim claims = map (\<lambda>i. \<lparr>gk_id = i, gk_owner = owner, gk_expires = until\<rparr>) ids"
    and len: "length claims \<le> limit" and keys: "distinct (map gd_id (gateway_deliveries d1))"
    by (rule claim_round[OF assms(1,2)])
  let ?rows = "gateway_deliveries d1" and ?f = "claim_gateway_row owner now until"
  have ready: "delivery_ready ?rows gateway now r" if r: "r \<in> set ?rows" "gd_id r \<in> set ids" for r
  proof -
    obtain q where q: "q \<in> set ?rows" "gd_id q = gd_id r" "delivery_ready ?rows gateway now q"
      using r(2) unfolding ids by (rule ready_ids_spec)
    have "q = r" by (rule distinct_key_eq[OF keys q(1) r(1) q(2)])
    then show ?thesis using q(3) by simp
  qed
  have one1: "gd_id r = gd_id s"
    if d: "r \<in> set ?rows" "s \<in> set ?rows" "gd_state r = GdDelivering" "gd_state s = GdDelivering" "same_address r s" for r s
  proof -
    have "v \<in> set (gateway_deliveries d)" if "v \<in> set ?rows" "gd_state v = GdDelivering" for v
      using that unfolding d1 expire_deliveries_def
      by (auto simp: set_update_where expire_delivery_def split: if_splits)
    then show ?thesis using assms(3) d unfolding one_delivering_def by blast
  qed
  have no_active: "\<not> (same_address s r \<and> gd_state s = GdDelivering)" if "r \<in> set ?rows" "gd_id r \<in> set ids" "s \<in> set ?rows" for r s
    using ready[OF that(1,2)] that(3) by (auto simp: delivery_ready_def list_ex_iff)
  have id: "gd_id (?f v) = gd_id v" "same_address (?f v) u = same_address v u" "same_address u (?f v) = same_address u v" for u v
    by (simp_all add: claim_gateway_row_def same_address_def)
  have one: "one_delivering (gateway_deliveries d')"
    unfolding one_delivering_def
  proof (intro ballI impI)
    fix r' s'
    assume r': "r' \<in> set (gateway_deliveries d')" and s': "s' \<in> set (gateway_deliveries d')"
      and dl: "gd_state r' = GdDelivering \<and> gd_state s' = GdDelivering \<and> same_address r' s'"
    obtain r where r: "r \<in> set ?rows" "r' = (if gd_id r \<in> set ids then ?f r else r)"
      using r' unfolding d' by (auto elim: in_update_whereE)
    obtain s where s: "s \<in> set ?rows" "s' = (if gd_id s \<in> set ids then ?f s else s)"
      using s' unfolding d' by (auto elim: in_update_whereE)
    have same: "same_address r s" "same_address s r" using dl r(2) s(2)
      by (auto simp: claim_gateway_row_def same_address_def split: if_splits)
    have "gd_id r = gd_id s"
    proof (cases "gd_id r \<in> set ids")
      case True
      then have "gd_id s \<in> set ids" using no_active[OF r(1) True s(1)] same dl s(2) by (auto split: if_splits)
      then show ?thesis using ready_unique[OF assms(4)[folded d1] r(1) s(1) ready[OF r(1) True] ready[OF s(1)] same(1)] by simp
    next
      case False
      then have "gd_id s \<notin> set ids" using no_active[OF s(1) _ r(1)] same dl r(2) by (auto split: if_splits)
      then show ?thesis using one1[OF r(1) s(1)] False dl r(2) s(2) same by simp
    qed
    then show "gd_id r' = gd_id s'" using r(2) s(2) by (simp add: id)
  qed
  have "\<exists>r \<in> set (gateway_deliveries d'). holds_delivery (cd_claim c) r \<and> dr_gateway (gd_route r) = gateway
          \<and> gk_owner (cd_claim c) = owner \<and> gk_expires (cd_claim c) = until
          \<and> (\<forall>p \<in> set (gateway_deliveries d'). earlier_chunk p r \<longrightarrow> gd_state p = GdDelivered)" if mem: "c \<in> set claims" for c
  proof -
    have "cd_claim c \<in> set (map cd_claim claims)" using mem by simp
    then obtain i where i: "i \<in> set ids" "cd_claim c = \<lparr>gk_id = i, gk_owner = owner, gk_expires = until\<rparr>"
      unfolding claims by auto
    obtain r where r: "r \<in> set ?rows" "gd_id r = i" "delivery_ready ?rows gateway now r"
      using i(1) unfolding ids by (rule ready_ids_spec)
    have "?f r \<in> set (gateway_deliveries d')" unfolding d' using r(1,2) i(1) by (auto simp: set_update_where image_iff intro!: bexI[of _ r])
    moreover have "holds_delivery (cd_claim c) (?f r)" using i(2) r(2) by (simp add: holds_delivery_def claim_gateway_row_def)
    moreover have "dr_gateway (gd_route (?f r)) = gateway" using r(3) by (simp add: claim_gateway_row_def delivery_ready_def)
    moreover have "gd_state p = GdDelivered" if p: "p \<in> set (gateway_deliveries d')" "earlier_chunk p (?f r)" for p
    proof -
      obtain q where q: "q \<in> set ?rows" "p = (if gd_id q \<in> set ids then ?f q else q)"
        using p(1) unfolding d' by (auto elim: in_update_whereE)
      have "earlier_chunk q r" using p(2) q(2) by (auto simp: earlier_chunk_def claim_gateway_row_def split: if_splits)
      then have st: "gd_state q = GdDelivered" using r(3) q(1) by (auto simp: delivery_ready_def list_ex_iff)
      then have "gd_id q \<notin> set ids" using ready[OF q(1)] by (auto simp: delivery_ready_def waiting_delivery_def)
      then show ?thesis using st q(2) by simp
    qed
    ultimately show ?thesis using i(2) by (intro bexI[of _ "?f r"]) simp_all
  qed
  then show ?thesis using len one by blast
qed

section \<open>The store of deliveries\<close>

text \<open>Every operation that writes deliveries, on the state it leaves when it succeeds.\<close>

inductive gateway_step :: "ext \<Rightarrow> db \<Rightarrow> db \<Rightarrow> bool" for x where
  enqueue: "enqueue_gateway_delivery x uid n now d = Inr (i, d') \<Longrightarrow> gateway_step x d d'"
| project: "project_outbox_to_gateway x uid key i p route now d = Inr d' \<Longrightarrow> gateway_step x d d'"
| claim: "claim_gateway_deliveries x gateway owner now until limit d = Inr (claims, d') \<Longrightarrow> gateway_step x d d'"
| renew: "renew_gateway_delivery c now until d = Inr (out, d') \<Longrightarrow> gateway_step x d d'"
| complete: "complete_gateway_delivery c remote now d = Inr (done, d') \<Longrightarrow> gateway_step x d d'"
| retry: "retry_gateway_delivery c next_at class err now d = Inr (done, d') \<Longrightarrow> gateway_step x d d'"
| mark: "set_gateway_delivery_retry_safe c safe now d = Inr (done, d') \<Longrightarrow> gateway_step x d d'"
| fail: "fail_gateway_delivery c s class err now d = Inr (done, d') \<Longrightarrow> gateway_step x d d'"

lemma transition_claim_moves: "transition_claim c s next_at err remote now d = Inr (out, d') \<Longrightarrow> deliveries_move d d'"
  by (auto simp: transition_claim_def intro!: held_moves)

lemma gateway_step_moves:
  assumes "gateway_step x d d'" and "distinct (map gd_id (gateway_deliveries d))"
  shows "deliveries_move d d'"
  using assms
proof cases
  case (enqueue uid n now i)
  then show ?thesis by (rule enqueue_moves)
next
  case (project uid key i p route now)
  then show ?thesis by (rule project_moves)
next
  case (claim gateway owner now until limit claims)
  then show ?thesis using assms(2) by (rule claim_deliveries_moves)
next
  case (renew c now until out)
  then show ?thesis by (auto simp: renew_gateway_delivery_def intro!: held_moves)
next
  case (complete c remote now out)
  then show ?thesis by (auto simp: complete_gateway_delivery_def intro: transition_claim_moves)
next
  case (retry c next_at cls err now out)
  then show ?thesis by (auto simp: retry_gateway_delivery_def intro: transition_claim_moves)
next
  case (mark c safe now out)
  then show ?thesis by (auto simp: set_gateway_delivery_retry_safe_def intro!: held_moves)
next
  case (fail c s cls err now out)
  then show ?thesis by (auto simp: fail_gateway_delivery_def intro: transition_claim_moves split: if_splits)
qed

lemma gateway_steps_move:
  assumes "(gateway_step x)\<^sup>*\<^sup>* d d'" and "distinct (map gd_id (gateway_deliveries d))"
  shows "deliveries_move d d'"
  using assms(1)
proof induction
  case base
  then show ?case by simp
next
  case (step d1 d2)
  have "distinct (map gd_id (gateway_deliveries d1))" using step.IH assms(2) by (simp add: deliveries_move_def)
  then show ?case using step gateway_step_moves deliveries_move_trans by blast
qed

text \<open>
  C33. The store refines the life of a delivery. Over any sequence of operations no other table
  changes and no delivery is lost or changes its content; its state follows the edges from waiting
  to delivery and on, and once it is delivered, failed or its outcome unknown, no column of it
  changes again: nothing of which the outcome is unknown is ever sent a second time.
\<close>

theorem gateway_store_refines_lifecycle:
  assumes "(gateway_step x)\<^sup>*\<^sup>* d d'" and "distinct (map gd_id (gateway_deliveries d))" and "r \<in> set (gateway_deliveries d)"
  shows "d' = d\<lparr>gateway_deliveries := gateway_deliveries d'\<rparr>
     \<and> (\<exists>r' \<in> set (gateway_deliveries d'). gd_id r' = gd_id r \<and> gd_key r' = gd_key r \<and> gd_source r' = gd_source r
          \<and> gd_route r' = gd_route r \<and> gd_ordinal r' = gd_ordinal r \<and> gd_payload r' = gd_payload r
          \<and> delivery_edge\<^sup>*\<^sup>* (gd_state r) (gd_state r') \<and> (final_delivery r \<longrightarrow> r' = r))"
proof -
  have m: "deliveries_move d d'" by (rule gateway_steps_move[OF assms(1,2)])
  then obtain old new where o: "gateway_deliveries d' = old @ new" "list_all2 delivery_moves (gateway_deliveries d) old"
    by (auto simp: deliveries_move_def)
  obtain k where k: "k < length (gateway_deliveries d)" "gateway_deliveries d ! k = r" using assms(3) by (auto simp: in_set_conv_nth)
  then have "delivery_moves r (old ! k)" "old ! k \<in> set (gateway_deliveries d')"
    using o by (auto simp: list_all2_conv_all_nth)
  then show ?thesis using m by (auto simp: delivery_moves_def deliveries_move_def intro!: bexI[of _ "old ! k"])
qed

section \<open>Streams end\<close>

text \<open>
  Once a stream was claimed for the final result it is never resolved or changed by live output
  again, and claiming it again returns the same message.
\<close>

lemma final_stream_claimed:
  assumes "claim_gateway_stream_for_final w route now d = Inr (Some remote, d')"
  shows "resolve_gateway_stream w route d' = None"
    and "upsert_gateway_stream w route remote' t d' = Inr u \<Longrightarrow> snd u = d'"
    and "\<exists>d2. claim_gateway_stream_for_final w route t d' = Inr (Some remote, d2)"
proof -
  let ?p = "\<lambda>r. stream_of w route r \<and> (gs_state r = StActive \<or> gs_state r = StClosed \<or> gs_state r = StFinalizing)"
  let ?f = "\<lambda>r. r\<lparr>gs_state := StFinalizing, gs_updated := now\<rparr>"
  have d': "gateway_streams d' = update_where ?p ?f (gateway_streams d)"
    and r: "map_option gs_remote (List.find ?p (gateway_streams d)) = Some remote"
    using assms by (auto simp: claim_gateway_stream_for_final_def Let_def)
  have none: "\<not> (stream_of w route r \<and> gs_state r = StActive)" if mem: "r \<in> set (gateway_streams d')" for r
    using mem unfolding d' by (elim in_update_whereE) (auto simp: stream_of_def split: if_splits)
  then show "resolve_gateway_stream w route d' = None" by (simp add: resolve_gateway_stream_def find_None_all)
  have all: "gs_state r = StActive \<or> gs_state r = StClosed \<or> gs_state r = StFinalizing" for r :: gateway_stream_row
    by (cases "gs_state r") simp_all
  have keep: "?p (?f r) = ?p r" for r using all[of r] by (simp add: stream_of_def)
  have f: "List.find ?p (gateway_streams d') = map_option ?f (List.find ?p (gateway_streams d))"
    unfolding d' by (rule find_updated) (rule keep)
  then show "\<exists>d2. claim_gateway_stream_for_final w route t d' = Inr (Some remote, d2)"
    using r by (auto simp: claim_gateway_stream_for_final_def Let_def)
  show "snd u = d'" if up: "upsert_gateway_stream w route remote' t d' = Inr u"
  proof -
    obtain r1 where "List.find ?p (gateway_streams d') = Some r1" using f r by auto
    then have "list_ex (stream_of w route) (gateway_streams d')" using find_Some_in by (fastforce simp: list_ex_iff)
    then show ?thesis using up none by (auto simp: upsert_gateway_stream_def update_where_id split: if_splits)
  qed
qed

section \<open>Witnesses\<close>

definition sample_route :: delivery_route where
  "sample_route = \<lparr>dr_gateway = ''telegram'', dr_address = ''100'', dr_reply_to = None, dr_max_text = 10, dr_max_caption = 5\<rparr>"

definition sample_chunk :: "string \<Rightarrow> outbox_id option \<Rightarrow> int \<Rightarrow> gateway_delivery_state \<Rightarrow> timestamp \<Rightarrow> gateway_delivery_row" where
  "sample_chunk i source ordinal s created =
     (new_gateway_delivery i i source sample_route ordinal (write_payload codec_ext (OpText ''hi'')) created)\<lparr>gd_state := s\<rparr>"

definition sample_queue :: db where
  "sample_queue = empty_db\<lparr>gateway_deliveries :=
     [sample_chunk ''c0'' (Some ''o'') 0 GdPending 1, sample_chunk ''c1'' (Some ''o'') 1 GdPending 1]\<rparr>"

definition sample_sending :: db where
  "sample_sending = commit_state sample_queue (claim_gateway_deliveries codec_ext ''telegram'' ''p'' 10 40 8 sample_queue)"

lemma sample_claimed_deliveries:
  obtains claims where "claim_gateway_deliveries codec_ext ''telegram'' ''p'' 10 40 8 sample_queue = Inr (claims, sample_sending)"
    "map cd_claim claims = [\<lparr>gk_id = ''c0'', gk_owner = ''p'', gk_expires = 40\<rparr>]"
proof -
  have "case claim_gateway_deliveries codec_ext ''telegram'' ''p'' 10 40 8 sample_queue of
      Inr (out, d') \<Rightarrow> map cd_claim out = [\<lparr>gk_id = ''c0'', gk_owner = ''p'', gk_expires = 40\<rparr>] | Inl e \<Rightarrow> False"
    by code_simp
  then show ?thesis using that unfolding sample_sending_def by (rule tx_succeeds)
qed

lemma sample_queue_ok:
  "distinct (map gd_id (gateway_deliveries sample_queue))" "one_delivering (gateway_deliveries sample_queue)"
  "orderable (gateway_deliveries (expire_deliveries ''telegram'' 10 sample_queue))"
  unfolding one_delivering_def orderable_def by code_simp+

theorem gateway_claims_ordered_witness:
  "\<exists>claims. claim_gateway_deliveries codec_ext ''telegram'' ''p'' 10 40 8 sample_queue = Inr (claims, sample_sending)
     \<and> length claims = 1 \<and> one_delivering (gateway_deliveries sample_sending)"
proof -
  obtain claims where c: "claim_gateway_deliveries codec_ext ''telegram'' ''p'' 10 40 8 sample_queue = Inr (claims, sample_sending)"
    "map cd_claim claims = [\<lparr>gk_id = ''c0'', gk_owner = ''p'', gk_expires = 40\<rparr>]"
    by (rule sample_claimed_deliveries)
  then show ?thesis using gateway_claims_ordered [OF c(1) sample_queue_ok] by auto
qed

theorem gateway_store_refines_lifecycle_witness:
  "\<exists>r \<in> set (gateway_deliveries sample_sending). gd_id r = ''c0'' \<and> delivery_edge\<^sup>*\<^sup>* GdPending (gd_state r)"
proof -
  obtain claims where c: "claim_gateway_deliveries codec_ext ''telegram'' ''p'' 10 40 8 sample_queue = Inr (claims, sample_sending)"
    by (rule sample_claimed_deliveries)
  have s: "(gateway_step codec_ext)\<^sup>*\<^sup>* sample_queue sample_sending" using gateway_step.claim[OF c] by (rule r_into_rtranclp)
  have r: "sample_chunk ''c0'' (Some ''o'') 0 GdPending 1 \<in> set (gateway_deliveries sample_queue)" by (simp add: sample_queue_def)
  show ?thesis using gateway_store_refines_lifecycle [OF s sample_queue_ok(1) r] by (auto simp: sample_chunk_def new_gateway_delivery_def)
qed

text \<open>
  A delivery without a source, such as the answer to a command, is not ordered against a later
  chunk of a reply: both are claimed in one round, for one address.
\<close>

definition sample_overtaken :: db where
  "sample_overtaken = empty_db\<lparr>gateway_deliveries := [sample_chunk ''c0'' (Some ''o'') 0 GdDelivered 1,
     sample_chunk ''c1'' (Some ''o'') 1 GdPending 1, sample_chunk ''r'' None 0 GdPending 2]\<rparr>"

lemma unlinked_delivery_overtakes:
  "case claim_gateway_deliveries codec_ext ''telegram'' ''p'' 10 40 8 sample_overtaken of
     Inr (claims, d') \<Rightarrow> map (gk_id \<circ> cd_claim) claims = [''c1'', ''r'']
       \<and> map gd_state (gateway_deliveries d') = [GdDelivered, GdDelivering, GdDelivering]
   | Inl e \<Rightarrow> False"
  by code_simp

end
