(* ===== verification/Recovery.thy ===== *)
theory Recovery
  imports Attempts Bundles
begin

text \<open>
  Starting up and shutting down, from \<open>runtime/sqlite/recovery.rs\<close>: what a dead process left in
  flight becomes known to be unknown, and its leases and claims are taken back.
\<close>

record recovered_outcome =
  ro_actor :: actor_id
  ro_work :: work_item_id
  ro_run :: run_id
  ro_attempt :: attempt_id
  ro_generation :: int

record startup_report =
  sr_leases :: nat
  sr_claims :: nat
  sr_orphans :: nat
  sr_unknown :: "recovered_outcome list"

section \<open>Startup\<close>

definition owner_gone :: "db \<Rightarrow> timestamp \<Rightarrow> run_row \<Rightarrow> bool" where
  "owner_gone d now r \<longleftrightarrow> (case lease_row_of d (rn_actor r) of
      None \<Rightarrow> True | Some l \<Rightarrow> al_expires l \<le> now \<or> al_generation l \<noteq> rn_generation r)"

definition undecided_item :: "work_item_row \<Rightarrow> bool" where
  "undecided_item w \<longleftrightarrow> wi_state w = WiReady \<or> wi_state w = WiWaiting"

text \<open>The statement has no \<open>ORDER BY\<close>; the rows are taken in the order of the attempts.\<close>

definition orphaned_attempts :: "db \<Rightarrow> timestamp \<Rightarrow> (attempt_row \<times> run_row) list" where
  "orphaned_attempts d now =
     map (\<lambda>(((t, r), w), a). (t, r))
       (inner_join (\<lambda>((t, r), w) a. ac_id a = rn_actor r)
         (inner_join (\<lambda>(t, r) w. wi_id w = rn_work r \<and> wi_actor w = rn_actor r \<and> undecided_item w)
           (inner_join (\<lambda>t r. rn_id r = ta_run t)
             (filter (\<lambda>t. ta_state t = AtRunning) (attempts d))
             (filter (\<lambda>r. rn_state r = RunActive \<and> owner_gone d now r) (runs d)))
           (work_items d))
         (actors d))"

definition recover_orphan ::
    "timestamp \<Rightarrow> attempt_row \<times> run_row \<Rightarrow> recovered_outcome list \<times> db \<Rightarrow> recovered_outcome list \<times> db" where
  "recover_orphan now = (\<lambda>(t, r) (unknown, d).
     let p = (\<lambda>s. ta_id s = ta_id t \<and> ta_state s = AtRunning);
         d1 = d\<lparr>attempts := update_where p (\<lambda>s. s\<lparr>ta_state := AtOutcomeUnknown, ta_updated := now\<rparr>) (attempts d)\<rparr> in
     if changed p (attempts d) = 1
     then (unknown @ [\<lparr>ro_actor = rn_actor r, ro_work = rn_work r, ro_run = rn_id r, ro_attempt = ta_id t,
                       ro_generation = rn_generation r\<rparr>],
           d1\<lparr>work_items := update_where (\<lambda>w. wi_id w = rn_work r \<and> undecided_item w)
                (\<lambda>w. w\<lparr>wi_state := WiWaitingForDecision, wi_updated := now\<rparr>) (work_items d1)\<rparr>)
     else (unknown, d1))"

definition interrupted_claim :: "timestamp \<Rightarrow> bundle_row \<Rightarrow> bool" where
  "interrupted_claim now r \<longleftrightarrow> rb_state r = BnDelivering \<and> (case rb_expires r of Some e \<Rightarrow> e \<le> now | None \<Rightarrow> False)"

definition release_bundle :: "string \<Rightarrow> timestamp \<Rightarrow> bundle_row \<Rightarrow> bundle_row" where
  "release_bundle why now r =
     r\<lparr>rb_state := BnFailedRetryable, rb_owner := None, rb_expires := None, rb_next := Some now,
       rb_error := Some why, rb_updated := now\<rparr>"

definition recover_startup :: "timestamp \<Rightarrow> db \<Rightarrow> startup_report tx" where
  "recover_startup now d =
     (let (unknown, d1) = fold (recover_orphan now) (orphaned_attempts d now) ([], d);
          d2 = d1\<lparr>leases := delete_where (\<lambda>l. al_expires l \<le> now) (leases d1)\<rparr>;
          d3 = d2\<lparr>bundles := update_where (interrupted_claim now) (release_bundle ''interrupted_delivery'' now) (bundles d2)\<rparr> in
      Inr (\<lparr>sr_leases = changed (\<lambda>l. al_expires l \<le> now) (leases d1),
            sr_claims = changed (interrupted_claim now) (bundles d2),
            sr_orphans = length unknown, sr_unknown = unknown\<rparr>, d3))"

section \<open>Shutdown\<close>

text \<open>A lease under which a tool is still running is kept until it expires.\<close>

definition tool_in_flight :: "db \<Rightarrow> actor_id \<Rightarrow> bool" where
  "tool_in_flight d a \<longleftrightarrow> list_ex (\<lambda>r. rn_actor r = a \<and> rn_state r = RunActive
     \<and> list_ex (\<lambda>t. ta_run t = rn_id r \<and> ta_state t = AtRunning) (attempts d)) (runs d)"

definition recover_shutdown :: "string \<Rightarrow> string \<Rightarrow> timestamp \<Rightarrow> db \<Rightarrow> unit tx" where
  "recover_shutdown actor_owner bundle_owner now d =
     Inr ((), d\<lparr>bundles := update_where (\<lambda>r. rb_state r = BnDelivering \<and> rb_owner r = Some bundle_owner)
                   (release_bundle ''shutdown_before_ack'' now) (bundles d),
                leases := delete_where (\<lambda>l. al_owner l = actor_owner \<and> \<not> tool_in_flight d (al_actor l)) (leases d)\<rparr>)"

section \<open>What startup leaves\<close>

definition orphan_ids :: "(attempt_row \<times> run_row) list \<Rightarrow> attempt_id set" where
  "orphan_ids os = ta_id ` fst ` set os"

abbreviation orphan_row :: "attempt_id set \<Rightarrow> attempt_row \<Rightarrow> bool" where
  "orphan_row ids s \<equiv> ta_id s \<in> ids \<and> ta_state s = AtRunning"

abbreviation lose_track :: "timestamp \<Rightarrow> attempt_row \<Rightarrow> attempt_row" where
  "lose_track now s \<equiv> s\<lparr>ta_state := AtOutcomeUnknown, ta_updated := now\<rparr>"

definition unknown_ok :: "db \<Rightarrow> recovered_outcome list \<Rightarrow> bool" where
  "unknown_ok d unknown \<longleftrightarrow> (\<forall>o' \<in> set unknown.
      (\<forall>s \<in> set (attempts d). ta_id s = ro_attempt o' \<longrightarrow> ta_state s \<noteq> AtRunning)
    \<and> (\<forall>w \<in> set (work_items d). wi_id w = ro_work o' \<longrightarrow> \<not> undecided_item w))"

lemma recover_orphan_step:
  assumes "recover_orphan now (t, r) (unknown, d) = (unknown', d')"
  shows "d' = d\<lparr>attempts := update_where (orphan_row {ta_id t}) (lose_track now) (attempts d), work_items := work_items d'\<rparr>"
    and "\<forall>o' \<in> set unknown'. o' \<in> set unknown \<or> ro_attempt o' = ta_id t \<and> (\<exists>s \<in> set (attempts d). ta_id s = ta_id t \<and> ta_state s = AtRunning)"
    and "unknown_ok d unknown \<Longrightarrow> unknown_ok d' unknown'"
proof -
  let ?p = "\<lambda>s. ta_id s = ta_id t \<and> ta_state s = AtRunning"
  let ?q = "\<lambda>w. wi_id w = rn_work r \<and> undecided_item w"
  let ?g = "\<lambda>w. w\<lparr>wi_state := WiWaitingForDecision, wi_updated := now\<rparr>"
  let ?o = "\<lparr>ro_actor = rn_actor r, ro_work = rn_work r, ro_run = rn_id r, ro_attempt = ta_id t, ro_generation = rn_generation r\<rparr>"
  have at: "attempts d' = update_where ?p (lose_track now) (attempts d)"
    and wk: "work_items d' = (if changed ?p (attempts d) = 1 then update_where ?q ?g (work_items d) else work_items d)"
    and un: "unknown' = (if changed ?p (attempts d) = 1 then unknown @ [?o] else unknown)"
    and rest: "d' = d\<lparr>attempts := attempts d', work_items := work_items d'\<rparr>"
    using assms by (auto simp: recover_orphan_def Let_def split: if_splits)
  show "d' = d\<lparr>attempts := update_where (orphan_row {ta_id t}) (lose_track now) (attempts d), work_items := work_items d'\<rparr>"
    using rest at by simp
  show "\<forall>o' \<in> set unknown'. o' \<in> set unknown \<or> ro_attempt o' = ta_id t \<and> (\<exists>s \<in> set (attempts d). ta_id s = ta_id t \<and> ta_state s = AtRunning)"
    using un by (auto elim!: changed_oneE split: if_splits)
  have stop: "ta_state s \<noteq> AtRunning" if "s \<in> set (attempts d')" "ta_id s = ta_id t" for s
    using that unfolding at by (elim in_update_whereE) (auto split: if_splits)
  have keep: "ta_state s \<noteq> AtRunning"
    if "\<forall>s \<in> set (attempts d). ta_id s = i \<longrightarrow> ta_state s \<noteq> AtRunning" "s \<in> set (attempts d')" "ta_id s = i" for s i
    using that unfolding at by (elim in_update_whereE) (auto split: if_splits)
  have decided: "\<not> undecided_item w"
    if "\<forall>w \<in> set (work_items d). wi_id w = i \<longrightarrow> \<not> undecided_item w" "w \<in> set (work_items d')" "wi_id w = i" for w i
    using that unfolding wk by (auto elim!: in_update_whereE split: if_splits)
  have here: "\<not> undecided_item w" if "changed ?p (attempts d) = 1" "w \<in> set (work_items d')" "wi_id w = rn_work r" for w
    using that unfolding wk by (auto simp: undecided_item_def elim!: in_update_whereE split: if_splits)
  show "unknown_ok d' unknown'" if ok: "unknown_ok d unknown"
    unfolding unknown_ok_def
  proof (intro ballI conjI impI)
    fix o' s
    assume "o' \<in> set unknown'" "s \<in> set (attempts d')" "ta_id s = ro_attempt o'"
    then show "ta_state s \<noteq> AtRunning" using un ok keep stop by (auto simp: unknown_ok_def split: if_splits)
  next
    fix o' w
    assume "o' \<in> set unknown'" "w \<in> set (work_items d')" "wi_id w = ro_work o'"
    then show "\<not> undecided_item w" using un ok decided here by (auto simp: unknown_ok_def split: if_splits)
  qed
qed

text \<open>All orphans at once.\<close>

lemma recover_orphans:
  assumes "fold (recover_orphan now) os (unknown, d) = (unknown', d')" and "unknown_ok d unknown"
  shows "d' = d\<lparr>attempts := update_where (orphan_row (orphan_ids os)) (lose_track now) (attempts d), work_items := work_items d'\<rparr>
     \<and> unknown_ok d' unknown'
     \<and> (\<forall>o' \<in> set unknown'. o' \<in> set unknown \<or> (\<exists>s \<in> set (attempts d). ta_id s = ro_attempt o' \<and> ta_state s = AtRunning))"
  using assms
proof (induction os arbitrary: unknown d)
  case Nil
  then show ?case by (simp add: orphan_ids_def update_where_id)
next
  case (Cons p os)
  obtain t r where p: "p = (t, r)" by (cases p)
  obtain u1 d1 where s: "recover_orphan now (t, r) (unknown, d) = (u1, d1)" by (metis surj_pair)
  note st = recover_orphan_step[OF s]
  have f: "fold (recover_orphan now) os (u1, d1) = (unknown', d')" using Cons.prems(1) s p by simp
  note ih = Cons.IH[OF f st(3)[OF Cons.prems(2)]]
  have at1: "attempts d1 = update_where (orphan_row {ta_id t}) (lose_track now) (attempts d)"
    using arg_cong[OF st(1), of attempts] by simp
  have both: "update_where (orphan_row (orphan_ids os)) (lose_track now) (update_where (orphan_row {ta_id t}) (lose_track now) rows)
      = update_where (orphan_row (orphan_ids (p # os))) (lose_track now) rows" for rows
    by (induction rows) (auto simp: orphan_ids_def p)
  have "d' = d\<lparr>attempts := update_where (orphan_row (orphan_ids (p # os))) (lose_track now) (attempts d), work_items := work_items d'\<rparr>"
  proof -
    obtain W where "d' = d1\<lparr>attempts := update_where (orphan_row (orphan_ids os)) (lose_track now) (attempts d1), work_items := W\<rparr>"
      using ih by blast
    moreover obtain W1 where "d1 = d\<lparr>attempts := update_where (orphan_row {ta_id t}) (lose_track now) (attempts d), work_items := W1\<rparr>"
      using st(1) by blast
    ultimately show ?thesis by (simp add: both[simplified])
  qed
  moreover have "\<exists>s \<in> set (attempts d). ta_id s = i \<and> ta_state s = AtRunning"
    if "s \<in> set (attempts d1)" "ta_id s = i" "ta_state s = AtRunning" for s i
    using that unfolding at1 by (elim in_update_whereE) (auto split: if_splits)
  then have "\<forall>o' \<in> set unknown'. o' \<in> set u1 \<or> (\<exists>s \<in> set (attempts d). ta_id s = ro_attempt o' \<and> ta_state s = AtRunning)"
    using ih by blast
  then have "\<forall>o' \<in> set unknown'. o' \<in> set unknown \<or> (\<exists>s \<in> set (attempts d). ta_id s = ro_attempt o' \<and> ta_state s = AtRunning)"
    using st(2) by fastforce
  ultimately show ?case using ih by blast
qed

lemma orphans_reported_mono: "fold (recover_orphan now) os (unknown, d) = (unknown', d') \<Longrightarrow> set unknown \<subseteq> set unknown'"
proof (induction os arbitrary: unknown d)
  case (Cons p os)
  obtain u1 d1 where s: "recover_orphan now p (unknown, d) = (u1, d1)" by (metis surj_pair)
  have "set unknown \<subseteq> set u1" using s by (cases p) (auto simp: recover_orphan_def Let_def split: if_splits)
  then show ?case using Cons.IH[of u1 d1] Cons.prems s by auto
qed simp

lemma orphans_reported:
  assumes "fold (recover_orphan now) os (unknown, d) = (unknown', d')" and "distinct (map ta_id (attempts d))"
    and "s \<in> set (attempts d)" and "ta_state s = AtRunning" and "ta_id s \<in> orphan_ids os"
  shows "ta_id s \<in> ro_attempt ` set unknown'"
  using assms(1-3,5)
proof (induction os arbitrary: unknown d)
  case Nil
  then show ?case by (simp add: orphan_ids_def)
next
  case (Cons p os)
  obtain t r where p: "p = (t, r)" by (cases p)
  obtain u1 d1 where st: "recover_orphan now (t, r) (unknown, d) = (u1, d1)" by (metis surj_pair)
  have f: "fold (recover_orphan now) os (u1, d1) = (unknown', d')" using Cons.prems(1) st p by simp
  let ?p = "\<lambda>s. ta_id s = ta_id t \<and> ta_state s = AtRunning"
  have at: "attempts d1 = update_where ?p (lose_track now) (attempts d)"
    using st by (auto simp: recover_orphan_def Let_def split: if_splits)
  show ?case
  proof (cases "ta_id s = ta_id t")
    case True
    then have "filter ?p (attempts d) = [s]"
      using Cons.prems(2,3) assms(4) by (intro filter_key_single[where k = ta_id]) auto
    then have "changed ?p (attempts d) = 1" by (simp add: changed_def)
    then have "ta_id s \<in> ro_attempt ` set u1" using st True by (auto simp: recover_orphan_def Let_def)
    then show ?thesis using orphans_reported_mono[OF f] by blast
  next
    case False
    have "s \<in> set (attempts d1)" using Cons.prems(3) False by (auto simp: at set_update_where image_iff intro!: bexI[of _ s])
    moreover have "distinct (map ta_id (attempts d1))" using Cons.prems(2) by (simp add: at map_update_where)
    ultimately show ?thesis using Cons.IH[OF f] Cons.prems(4) False by (auto simp: orphan_ids_def p)
  qed
qed

lemma orphaned_owner: "(t, r) \<in> set (orphaned_attempts d now) \<Longrightarrow>
    t \<in> set (attempts d) \<and> r \<in> set (runs d) \<and> rn_id r = ta_run t \<and> rn_state r = RunActive \<and> owner_gone d now r"
  by (auto simp: orphaned_attempts_def)

text \<open>
  C20. Startup leaves nothing in flight without an owner. A tool attempt that still counts as
  running, of an active run whose work item was ready or waiting, belongs to a lease of that run's
  generation that has not expired. The attempts that change are attempts of active runs whose owner
  is gone: their outcome becomes unknown and every one of them is in the report, whose work items
  are no longer ready or waiting. No expired lease or bundle claim is left.
\<close>

theorem startup_recovers:
  assumes "recover_startup now d = Inr (report, d')" and "distinct (map ta_id (attempts d))"
  shows "(\<forall>t \<in> set (attempts d'). \<forall>r \<in> set (runs d'). \<forall>w \<in> set (work_items d). \<forall>a \<in> set (actors d').
        ta_state t = AtRunning \<and> rn_id r = ta_run t \<and> rn_state r = RunActive \<and> wi_id w = rn_work r \<and> wi_actor w = rn_actor r
          \<and> undecided_item w \<and> ac_id a = rn_actor r
        \<longrightarrow> (\<exists>l \<in> set (leases d'). al_actor l = rn_actor r \<and> al_generation l = rn_generation r \<and> now < al_expires l))
     \<and> (\<forall>u \<in> set (sr_unknown report).
          (\<exists>t \<in> set (attempts d). ta_id t = ro_attempt u \<and> ta_state t = AtRunning)
          \<and> (\<forall>t \<in> set (attempts d'). ta_id t = ro_attempt u \<longrightarrow> ta_state t \<noteq> AtRunning)
          \<and> (\<forall>w \<in> set (work_items d'). wi_id w = ro_work u \<longrightarrow> \<not> undecided_item w))
     \<and> list_all2 (\<lambda>t t'. t' = t \<or> ta_state t = AtRunning \<and> t' = lose_track now t \<and> ta_id t \<in> ro_attempt ` set (sr_unknown report)
          \<and> (\<exists>r \<in> set (runs d). rn_id r = ta_run t \<and> rn_state r = RunActive \<and> owner_gone d now r)) (attempts d) (attempts d')
     \<and> (\<forall>l \<in> set (leases d'). now < al_expires l) \<and> (\<forall>b \<in> set (bundles d'). \<not> interrupted_claim now b)"
proof -
  let ?os = "orphaned_attempts d now"
  obtain unknown d1 where f: "fold (recover_orphan now) ?os ([], d) = (unknown, d1)" by (metis surj_pair)
  have r: "sr_unknown report = unknown"
    and d': "d' = d1\<lparr>leases := delete_where (\<lambda>l. al_expires l \<le> now) (leases d1),
        bundles := update_where (interrupted_claim now) (release_bundle ''interrupted_delivery'' now) (bundles d1)\<rparr>"
    using assms(1) f by (auto simp: recover_startup_def Let_def)
  have os: "d1 = d\<lparr>attempts := update_where (orphan_row (orphan_ids ?os)) (lose_track now) (attempts d), work_items := work_items d1\<rparr>"
    "unknown_ok d1 unknown" "\<forall>u \<in> set unknown. \<exists>s \<in> set (attempts d). ta_id s = ro_attempt u \<and> ta_state s = AtRunning"
    using recover_orphans[OF f] by (auto simp: unknown_ok_def)
  have tables: "leases d1 = leases d" "runs d1 = runs d" "actors d1 = actors d" "bundles d1 = bundles d"
    "attempts d1 = update_where (orphan_row (orphan_ids ?os)) (lose_track now) (attempts d)"
    by (subst os(1); simp)+
  have owned: "\<exists>l \<in> set (leases d'). al_actor l = rn_actor r \<and> al_generation l = rn_generation r \<and> now < al_expires l"
    if h: "t \<in> set (attempts d')" "r \<in> set (runs d')" "w \<in> set (work_items d)" "a \<in> set (actors d')" "ta_state t = AtRunning"
      "rn_id r = ta_run t" "rn_state r = RunActive" "wi_id w = rn_work r" "wi_actor w = rn_actor r" "undecided_item w" "ac_id a = rn_actor r"
    for t r w a
  proof -
    have t: "t \<in> set (attempts d)" "ta_id t \<notin> orphan_ids ?os"
      using h(1,5) unfolding d' by (auto simp: tables elim!: in_update_whereE split: if_splits)
    have "\<not> owner_gone d now r"
    proof
      assume "owner_gone d now r"
      then have "(((t, r), w), a) \<in> set (inner_join (\<lambda>((t, r), w) a. ac_id a = rn_actor r)
         (inner_join (\<lambda>(t, r) w. wi_id w = rn_work r \<and> wi_actor w = rn_actor r \<and> undecided_item w)
           (inner_join (\<lambda>t r. rn_id r = ta_run t)
             (filter (\<lambda>t. ta_state t = AtRunning) (attempts d))
             (filter (\<lambda>r. rn_state r = RunActive \<and> owner_gone d now r) (runs d)))
           (work_items d))
         (actors d))"
        using h t(1) by (simp add: d' tables)
      then have "(t, r) \<in> set ?os" unfolding orphaned_attempts_def set_map by (rule image_eqI[rotated]) simp
      then show False using t(2) by (force simp: orphan_ids_def)
    qed
    then obtain l where l: "lease_row_of d (rn_actor r) = Some l" "now < al_expires l" "al_generation l = rn_generation r"
      by (auto simp: owner_gone_def split: option.splits)
    then show ?thesis using lease_row_of_Some[OF l(1)] by (auto simp: d' tables)
  qed
  have "unknown_ok d' unknown" using os(2) by (simp add: unknown_ok_def d')
  moreover have "list_all2 (\<lambda>t t'. t' = t \<or> ta_state t = AtRunning \<and> t' = lose_track now t \<and> ta_id t \<in> ro_attempt ` set unknown
      \<and> (\<exists>r \<in> set (runs d). rn_id r = ta_run t \<and> rn_state r = RunActive \<and> owner_gone d now r)) (attempts d) (attempts d')"
  proof -
    have "ta_id t \<in> ro_attempt ` set unknown \<and> (\<exists>r \<in> set (runs d). rn_id r = ta_run t \<and> rn_state r = RunActive \<and> owner_gone d now r)"
      if row: "t \<in> set (attempts d)" "orphan_row (orphan_ids ?os) t" for t
    proof -
      obtain t0 r where o: "(t0, r) \<in> set ?os" "ta_id t0 = ta_id t" using row(2) by (auto simp: orphan_ids_def)
      then have "t0 = t" using distinct_key_eq[OF assms(2) _ row(1)] orphaned_owner[OF o(1)] by blast
      then show ?thesis using orphaned_owner[OF o(1)] orphans_reported[OF f assms(2) row(1)] row(2) by blast
    qed
    then show ?thesis by (simp add: d' tables update_where_def list_all2_map2 list.rel_refl_strong)
  qed
  moreover have "now < al_expires l" if "l \<in> set (leases d')" for l using that by (simp add: d')
  moreover have "\<not> interrupted_claim now b" if "b \<in> set (bundles d')" for b
    using that unfolding d' by (auto simp: interrupted_claim_def release_bundle_def elim!: in_update_whereE split: if_splits)
  ultimately show ?thesis using owned os(3) r by (simp add: unknown_ok_def)
qed

text \<open>Shutting down keeps the lease under which a tool may still run, so that nobody starts it again.\<close>

lemma shutdown_keeps_running:
  assumes "recover_shutdown actor_owner bundle_owner now d = Inr (u, d')" and "l \<in> set (leases d)" and "tool_in_flight d (al_actor l)"
  shows "l \<in> set (leases d')"
  using assms by (auto simp: recover_shutdown_def)

section \<open>Witness\<close>

text \<open>The process that started the tool is gone, and its lease has expired.\<close>

definition sample_orphaned :: db where
  "sample_orphaned = commit_state sample_running (recover_startup 200 sample_running)"

theorem startup_recovers_witness:
  "\<exists>report. recover_startup 200 sample_running = Inr (report, sample_orphaned) \<and> map ro_attempt (sr_unknown report) = [''t1'']
     \<and> (\<exists>t \<in> set (attempts sample_orphaned). ta_id t = ''t1'' \<and> ta_state t \<noteq> AtRunning)"
proof -
  have "case recover_startup 200 sample_running of Inr (out, d') \<Rightarrow> map ro_attempt (sr_unknown out) = [''t1''] | Inl e \<Rightarrow> False"
    by code_simp
  then obtain report where r: "recover_startup 200 sample_running = Inr (report, sample_orphaned)" "map ro_attempt (sr_unknown report) = [''t1'']"
    unfolding sample_orphaned_def by (rule tx_succeeds)
  have "list_ex (\<lambda>t. ta_id t = ''t1'') (attempts sample_orphaned)" by code_simp
  then obtain t where t: "t \<in> set (attempts sample_orphaned)" "ta_id t = ''t1''" by (auto simp: list_ex_iff)
  obtain u where u: "u \<in> set (sr_unknown report)" "ro_attempt u = ''t1''" using r(2) by (cases "sr_unknown report") auto
  have k: "distinct (map ta_id (attempts sample_running))" by code_simp
  have "ta_id t = ro_attempt u \<longrightarrow> ta_state t \<noteq> AtRunning"
    by (rule startup_recovers [OF r(1) k, THEN conjunct2, THEN conjunct1, THEN bspec, OF u(1), THEN conjunct2, THEN conjunct1, THEN bspec, OF t(1)])
  then have "ta_state t \<noteq> AtRunning" using t(2) u(2) by simp
  then show ?thesis using r t by (intro exI[of _ report] conjI bexI[of _ t])
qed

end
