(* ===== verification/Busy_Retry.thy ===== *)
theory Busy_Retry
  imports Prelude
begin

text \<open>
  Retrying a busy database, from \<open>runtime/sqlite/retry.rs\<close>. An \<open>anyhow::Error\<close> is the chain of
  its causes; the operation is a function of the state it runs on, which it may change even when
  it fails, and the sleeps between the attempts are listed in order.
\<close>

datatype sqlite_code = DatabaseBusy | DatabaseLocked | SystemIoFailure | DatabaseCorrupt | DiskFull | CannotOpen
  | ReadOnly | FileLockingProtocolFailed | NotADatabase | OtherCode int

text \<open>A cause is a failure SQLite reports with a code, or another error.\<close>

datatype cause = SqliteFailure sqlite_code | OtherCause string

fun sqlite_error_code :: "cause list \<Rightarrow> sqlite_code option" where
  "sqlite_error_code [] = None"
| "sqlite_error_code (SqliteFailure c # cs) = Some c"
| "sqlite_error_code (OtherCause m # cs) = sqlite_error_code cs"

definition is_busy_or_locked :: "cause list \<Rightarrow> bool" where
  "is_busy_or_locked e \<longleftrightarrow> sqlite_error_code e = Some DatabaseBusy \<or> sqlite_error_code e = Some DatabaseLocked"

definition is_authority_failure :: "cause list \<Rightarrow> bool" where
  "is_authority_failure e \<longleftrightarrow> (case sqlite_error_code e of
      None \<Rightarrow> False
    | Some c \<Rightarrow> c = DatabaseBusy \<or> c = DatabaseLocked \<or> c = SystemIoFailure \<or> c = DatabaseCorrupt \<or> c = DiskFull
        \<or> c = CannotOpen \<or> c = ReadOnly \<or> c = FileLockingProtocolFailed \<or> c = NotADatabase)"

definition BUSY_DELAYS_MS :: "nat list" where
  "BUSY_DELAYS_MS = [10, 25, 50]"

fun retry_loop :: "nat list \<Rightarrow> ('s \<Rightarrow> (cause list + 'a) \<times> 's) \<Rightarrow> 's \<Rightarrow> nat list \<times> (cause list + 'a) \<times> 's" where
  "retry_loop [] operation s = ([], operation s)"
| "retry_loop (delay # delays) operation s =
     (case operation s of
        (Inl e, s') \<Rightarrow>
          if is_busy_or_locked e
          then (let (slept, result) = retry_loop delays operation s' in (delay # slept, result))
          else ([], Inl e, s')
      | (Inr v, s') \<Rightarrow> ([], Inr v, s'))"

definition call_with_busy_retry :: "('s \<Rightarrow> (cause list + 'a) \<times> 's) \<Rightarrow> 's \<Rightarrow> nat list \<times> (cause list + 'a) \<times> 's" where
  "call_with_busy_retry operation s = retry_loop BUSY_DELAYS_MS operation s"

text \<open>The same with an operation on the connection.\<close>

definition call_connection_with_busy_retry ::
    "('connection \<Rightarrow> (cause list + 'a) \<times> 'connection) \<Rightarrow> 'connection \<Rightarrow> nat list \<times> (cause list + 'a) \<times> 'connection" where
  "call_connection_with_busy_retry operation c = call_with_busy_retry (\<lambda>c. operation c) c"

lemma busy_is_authority_failure: "is_busy_or_locked e \<Longrightarrow> is_authority_failure e"
  by (auto simp: is_busy_or_locked_def is_authority_failure_def)

definition busy_result :: "cause list + 'a \<Rightarrow> bool" where
  "busy_result r \<longleftrightarrow> (case r of Inl e \<Rightarrow> is_busy_or_locked e | Inr v \<Rightarrow> False)"

lemma retry_loop_spec:
  "\<exists>n \<le> length delays. let s' = (snd \<circ> operation) ^^ n in
     retry_loop delays operation s = (take n delays, operation (s' s))
     \<and> (\<forall>k < n. busy_result (fst (operation (((snd \<circ> operation) ^^ k) s))))
     \<and> (n < length delays \<longrightarrow> \<not> busy_result (fst (operation (s' s))))"
proof (induction delays arbitrary: s)
  case Nil
  then show ?case by simp
next
  case (Cons delay delays)
  show ?case
  proof (cases "busy_result (fst (operation s))")
    case False
    then have "retry_loop (delay # delays) operation s = ([], operation s)"
      by (auto simp: busy_result_def split: prod.splits sum.splits)
    then show ?thesis using False by (intro exI[of _ 0]) simp
  next
    case True
    let ?s = "snd (operation s)"
    obtain n where n: "n \<le> length delays" "retry_loop delays operation ?s = (take n delays, operation (((snd \<circ> operation) ^^ n) ?s))"
      "\<forall>k < n. busy_result (fst (operation (((snd \<circ> operation) ^^ k) ?s)))"
      "n < length delays \<longrightarrow> \<not> busy_result (fst (operation (((snd \<circ> operation) ^^ n) ?s)))"
      using Cons.IH[of ?s] unfolding Let_def by blast
    have shift: "((snd \<circ> operation) ^^ k) ?s = ((snd \<circ> operation) ^^ Suc k) s" for k
      by (simp only: funpow_Suc_right comp_apply)
    have "retry_loop (delay # delays) operation s = (delay # take n delays, operation (((snd \<circ> operation) ^^ n) ?s))"
      using True n(2) by (auto simp: busy_result_def split: prod.splits sum.splits)
    moreover have "busy_result (fst (operation (((snd \<circ> operation) ^^ k) s)))" if "k < Suc n" for k
      using that True n(3) shift by (cases k) (auto simp del: funpow.simps(2))
    ultimately show ?thesis using n(1,4) unfolding shift Let_def by (intro exI[of _ "Suc n"]) (auto simp del: funpow.simps(2))
  qed
qed

text \<open>
  A busy database is retried at most three times. The operation runs one to four times, each
  time on the state the last run left and, but for the last, only after a busy or locked answer;
  the sleeps are the first of 10, 25 and 50 milliseconds, and the answer is that of the last run,
  which is busy only if it was the fourth.
\<close>

theorem busy_retry_bounded:
  "\<exists>n \<le> 3. call_with_busy_retry operation s = (take n [10, 25, 50], operation (((snd \<circ> operation) ^^ n) s))
     \<and> (\<forall>k < n. busy_result (fst (operation (((snd \<circ> operation) ^^ k) s))))
     \<and> (n < 3 \<longrightarrow> \<not> busy_result (fst (operation (((snd \<circ> operation) ^^ n) s))))"
  using retry_loop_spec[of BUSY_DELAYS_MS operation s] by (simp add: call_with_busy_retry_def BUSY_DELAYS_MS_def Let_def numeral_3_eq_3)

text \<open>A database that is busy once: the second run answers, after ten milliseconds.\<close>

theorem busy_retry_bounded_witness:
  "call_with_busy_retry (\<lambda>n. (if n = 0 then Inl [OtherCause ''query'', SqliteFailure DatabaseLocked] else Inr ''ok'', n + 1)) (0::nat)
     = ([10], Inr ''ok'', 2)
   \<and> (\<exists>n \<le> 3. take n [10::nat, 25, 50] = [10])"
proof -
  let ?op = "\<lambda>n::nat. (if n = 0 then Inl [OtherCause ''query'', SqliteFailure DatabaseLocked] else Inr ''ok'', n + 1)"
  have r: "call_with_busy_retry ?op 0 = ([10], Inr ''ok'', 2)"
    by (simp add: call_with_busy_retry_def BUSY_DELAYS_MS_def is_busy_or_locked_def)
  obtain n where n: "n \<le> 3" "call_with_busy_retry ?op 0 = (take n [10, 25, 50], ?op (((snd \<circ> ?op) ^^ n) 0))"
    using busy_retry_bounded [of ?op 0] by blast
  have "take n [10::nat, 25, 50] = [10]" using arg_cong[OF n(2), of fst] unfolding r by simp
  then show ?thesis using r n(1) by blast
qed

end
