(* ===== verification/Identity_Link.thy ===== *)
theory Identity_Link
  imports Idempotence
begin

text \<open>
  Linking an external identity to an actor with a short-lived code, from
  \<open>runtime/identity_link.rs\<close> and \<open>runtime/sqlite/identity_link.rs\<close>: the codes, their
  redemption, and the limit on guesses. A digest is written in hexadecimal.
\<close>

section \<open>Codes\<close>

definition LINK_CODE_ALPHABET :: string where
  "LINK_CODE_ALPHABET = ''23456789ABCDEFGHJKMNPQRSTUVWXYZ''"

definition LINK_CODE_TTL_MILLIS :: int where
  "LINK_CODE_TTL_MILLIS = 600000"

definition LINK_CODE_HASH_DOMAIN :: string where
  "LINK_CODE_HASH_DOMAIN = ''codrik-identity-link-v1'' @ [CHR 0x00]"

definition ascii_whitespace :: "char \<Rightarrow> bool" where
  "ascii_whitespace c \<longleftrightarrow> c \<in> {CHR '' '', CHR 0x09, CHR 0x0A, CHR 0x0C, CHR 0x0D}"

definition ascii_uppercase :: "char \<Rightarrow> char" where
  "ascii_uppercase c = (let n = (of_char c :: nat) in if 97 \<le> n \<and> n \<le> 122 then char_of (n - 32) else c)"

definition normalize_link_code :: "string \<Rightarrow> string option" where
  "normalize_link_code raw =
     (let normalized = map ascii_uppercase (filter (\<lambda>c. \<not> ascii_whitespace c \<and> c \<noteq> CHR ''-'') raw) in
      if length normalized \<noteq> 8 \<or> list_ex (\<lambda>c. c \<notin> set LINK_CODE_ALPHABET) normalized then None else Some normalized)"

definition group_link_code :: "string \<Rightarrow> string" where
  "group_link_code normalized = take 4 normalized @ ''-'' @ drop 4 normalized"

definition hash_link_code :: "ext \<Rightarrow> string \<Rightarrow> string" where
  "hash_link_code x normalized = sha256_hex x (LINK_CODE_HASH_DOMAIN @ normalized)"

text \<open>
  The generator on the blocks of random bytes it draws; a byte is used when it is less than 248,
  the greatest multiple of 31 a byte can hold. \<open>None\<close>: the blocks given did not suffice.
\<close>

fun fill_code :: "nat list \<Rightarrow> string \<Rightarrow> string" where
  "fill_code [] code = code"
| "fill_code (b # bs) code =
     (if b < 248
      then (let code' = code @ [LINK_CODE_ALPHABET ! (b mod 31)] in if length code' = 8 then code' else fill_code bs code')
      else fill_code bs code)"

fun generate_code :: "nat list list \<Rightarrow> string \<Rightarrow> string option" where
  "generate_code blocks code =
     (if 8 \<le> length code then Some code
      else case blocks of [] \<Rightarrow> None | random # rest \<Rightarrow> generate_code rest (fill_code random code))"

declare generate_code.simps [simp del]

section \<open>Redeeming a code\<close>

record link_identity =
  li_provider :: string
  li_subject :: string
  li_username :: "string option"

datatype link_replacement = LpStored | LpHashCollision

datatype store_redemption =
  SrLinked actor_id | SrAlreadyLinked actor_id | SrInvalidOrExpired | SrRateLimited timestamp | SrIdentityConflict actor_id

datatype command_redemption =
  CrLinked actor_id | CrAlreadyLinked actor_id | CrInvalidOrExpired | CrRateLimited timestamp | CrIdentityConflict

record command_key =
  ck_gateway :: string
  ck_external :: string

definition ATTEMPT_WINDOW_MILLIS :: int where
  "ATTEMPT_WINDOW_MILLIS = 600000"

definition replace_link_code :: "actor_id \<Rightarrow> string \<Rightarrow> timestamp \<Rightarrow> timestamp \<Rightarrow> db \<Rightarrow> link_replacement tx" where
  "replace_link_code a h created expires d =
     (if expires \<le> created then Inl (Bail ''identity link expiry must be after creation'')
      else case List.find (\<lambda>r. ac_id r = a) (actors d) of
        None \<Rightarrow> Inl (Bail (''runtime actor '' @ a @ '' does not exist''))
      | Some r \<Rightarrow>
          if \<not> ac_enabled r then Inl (Bail (''runtime actor '' @ a @ '' is disabled''))
          else if list_ex (\<lambda>c. lc_hash c = h \<and> lc_actor c \<noteq> a) (link_codes d) then Inr (LpHashCollision, d)
          else if list_ex (\<lambda>c. lc_actor c = a) (link_codes d)
          then Inr (LpStored, d\<lparr>link_codes := update_where (\<lambda>c. lc_actor c = a)
                       (\<lambda>c. c\<lparr>lc_hash := h, lc_created := created, lc_expires := expires\<rparr>) (link_codes d)\<rparr>)
          else Inr (LpStored, d\<lparr>link_codes := link_codes d @ [\<lparr>lc_actor = a, lc_hash = h, lc_created = created, lc_expires = expires\<rparr>]\<rparr>))"

definition attempt_of :: "link_identity \<Rightarrow> link_attempt_row \<Rightarrow> bool" where
  "attempt_of i r \<longleftrightarrow> la_provider r = li_provider i \<and> la_subject r = li_subject i"

definition identity_of :: "link_identity \<Rightarrow> identity_row \<Rightarrow> bool" where
  "identity_of i r \<longleftrightarrow> id_provider r = li_provider i \<and> id_subject r = li_subject i"

text \<open>Window, failures and block after one more failure.\<close>

definition next_attempt :: "(timestamp \<times> int \<times> timestamp option) option \<Rightarrow> timestamp \<Rightarrow> timestamp \<times> int \<times> timestamp option" where
  "next_attempt attempt now =
     (case attempt of
        Some (started, count, blocked) \<Rightarrow>
          if (case blocked of Some until \<Rightarrow> now < until | None \<Rightarrow> now < sat_add started ATTEMPT_WINDOW_MILLIS)
          then (let count = min (count + 1) 5 in
                (started, count, if count = 5 then Some (sat_add now ATTEMPT_WINDOW_MILLIS) else None))
          else (now, 1, None)
      | None \<Rightarrow> (now, 1, None))"

definition attempt_value :: "db \<Rightarrow> link_identity \<Rightarrow> (timestamp \<times> int \<times> timestamp option) option" where
  "attempt_value d i = map_option (\<lambda>r. (la_window r, la_failures r, la_blocked r)) (List.find (attempt_of i) (link_attempts d))"

definition record_link_failure :: "link_identity \<Rightarrow> (timestamp \<times> int \<times> timestamp option) option \<Rightarrow> timestamp \<Rightarrow> db \<Rightarrow> db" where
  "record_link_failure i attempt now d =
     (case next_attempt attempt now of (w, n, b) \<Rightarrow>
        if list_ex (attempt_of i) (link_attempts d)
        then d\<lparr>link_attempts := update_where (attempt_of i) (\<lambda>r. r\<lparr>la_window := w, la_failures := n, la_blocked := b\<rparr>) (link_attempts d)\<rparr>
        else d\<lparr>link_attempts := link_attempts d @ [\<lparr>la_provider = li_provider i, la_subject = li_subject i,
                 la_window = w, la_failures = n, la_blocked = b\<rparr>]\<rparr>)"

definition consume_code_and_attempts :: "actor_id \<Rightarrow> link_identity \<Rightarrow> db \<Rightarrow> db" where
  "consume_code_and_attempts a i d =
     d\<lparr>link_codes := delete_where (\<lambda>c. lc_actor c = a) (link_codes d),
       link_attempts := delete_where (attempt_of i) (link_attempts d)\<rparr>"

definition code_valid :: "db \<Rightarrow> string \<Rightarrow> timestamp \<Rightarrow> link_code_row \<Rightarrow> bool" where
  "code_valid d h now c \<longleftrightarrow> lc_hash c = h \<and> now < lc_expires c \<and> list_ex (\<lambda>a. ac_id a = lc_actor c \<and> ac_enabled a) (actors d)"

definition code_actor :: "db \<Rightarrow> string option \<Rightarrow> timestamp \<Rightarrow> actor_id option" where
  "code_actor d h now = Option.bind h (\<lambda>h. map_option lc_actor (List.find (code_valid d h now) (link_codes d)))"

text \<open>Redemption by an identity that is not blocked.\<close>

definition redeem_admitted :: "link_identity \<Rightarrow> string option \<Rightarrow> timestamp \<Rightarrow> db \<Rightarrow> store_redemption \<times> db" where
  "redeem_admitted i h now d =
     (case code_actor d h now of
        None \<Rightarrow> (SrInvalidOrExpired, record_link_failure i (attempt_value d i) now d)
      | Some a \<Rightarrow>
          (case List.find (identity_of i) (identities d) of
             Some r \<Rightarrow>
               if id_actor r \<noteq> a then (SrIdentityConflict (id_actor r), d)
               else (SrAlreadyLinked a, consume_code_and_attempts a i
                      (case li_username i of None \<Rightarrow> d | Some u \<Rightarrow>
                         d\<lparr>identities := update_where (identity_of i) (\<lambda>r. r\<lparr>id_username := Some u\<rparr>) (identities d)\<rparr>))
           | None \<Rightarrow> (SrLinked a, consume_code_and_attempts a i
                      (d\<lparr>identities := identities d @ [\<lparr>id_provider = li_provider i, id_subject = li_subject i,
                           id_actor = a, id_username = li_username i\<rparr>]\<rparr>))))"

definition blocked_until :: "db \<Rightarrow> link_identity \<Rightarrow> timestamp \<Rightarrow> timestamp option" where
  "blocked_until d i now =
     (case attempt_value d i of Some (w, n, Some retry_at) \<Rightarrow> if now < retry_at then Some retry_at else None | _ \<Rightarrow> None)"

definition redeem_in_transaction :: "link_identity \<Rightarrow> string option \<Rightarrow> timestamp \<Rightarrow> db \<Rightarrow> store_redemption \<times> db" where
  "redeem_in_transaction i h now d =
     (case blocked_until d i now of Some retry_at \<Rightarrow> (SrRateLimited retry_at, d) | None \<Rightarrow> redeem_admitted i h now d)"

definition blank_identity :: "link_identity \<Rightarrow> bool" where
  "blank_identity i \<longleftrightarrow> blank (li_provider i) \<or> blank (li_subject i)"

definition redeem_link_code :: "link_identity \<Rightarrow> string option \<Rightarrow> timestamp \<Rightarrow> db \<Rightarrow> store_redemption tx" where
  "redeem_link_code i h now d =
     (if blank_identity i then Inl (Bail ''identity provider and subject must not be blank'')
      else Inr (redeem_in_transaction i h now d))"

fun gateway_outcome :: "store_redemption \<Rightarrow> command_outcome" where
  "gateway_outcome (SrLinked a) = CoLinked a"
| "gateway_outcome (SrAlreadyLinked a) = CoAlreadyLinked a"
| "gateway_outcome SrInvalidOrExpired = CoInvalidOrExpired"
| "gateway_outcome (SrRateLimited t) = CoRateLimited t"
| "gateway_outcome (SrIdentityConflict a) = CoIdentityConflict"

fun link_command_outcome :: "command_outcome \<Rightarrow> command_redemption" where
  "link_command_outcome (CoLinked a) = CrLinked a"
| "link_command_outcome (CoAlreadyLinked a) = CrAlreadyLinked a"
| "link_command_outcome CoInvalidOrExpired = CrInvalidOrExpired"
| "link_command_outcome (CoRateLimited t) = CrRateLimited t"
| "link_command_outcome CoIdentityConflict = CrIdentityConflict"

definition find_command :: "db \<Rightarrow> command_key \<Rightarrow> gateway_command_row option" where
  "find_command d k = List.find (\<lambda>r. gc_gateway r = ck_gateway k \<and> gc_external r = ck_external k) (gateway_commands d)"

definition redeem_link_code_once ::
    "ext \<Rightarrow> command_key \<Rightarrow> link_identity \<Rightarrow> string option \<Rightarrow> timestamp \<Rightarrow> db \<Rightarrow> command_redemption tx" where
  "redeem_link_code_once x k i h now d =
     (if blank (ck_gateway k) \<or> blank (ck_external k) then Inl (Bail ''gateway command key must not be blank'')
      else if blank_identity i then Inl (Bail ''identity provider and subject must not be blank'')
      else case find_command d k of
        Some r \<Rightarrow>
          if gc_kind r \<noteq> ''identity_link'' then Inl (Bail ''gateway command key was reused for a different command kind'')
          else ebind (lift_read (read_command x (gc_outcome r))) (\<lambda>out. Inr (link_command_outcome out, d))
      | None \<Rightarrow>
          (case redeem_in_transaction i h now d of (outcome, d1) \<Rightarrow>
             let command = gateway_outcome outcome in
             Inr (link_command_outcome command,
                  d1\<lparr>gateway_commands := gateway_commands d1 @ [\<lparr>gc_gateway = ck_gateway k, gc_external = ck_external k,
                       gc_kind = ''identity_link'', gc_outcome = write_command x command, gc_created = now\<rparr>]\<rparr>)))"

text \<open>Collecting: codes first, attempts with what is left of the limit.\<close>

definition expired_codes :: "timestamp \<Rightarrow> nat \<Rightarrow> db \<Rightarrow> actor_id list" where
  "expired_codes now limit d =
     map lc_actor (take limit (sort_key lc_expires (filter (\<lambda>c. lc_expires c \<le> now) (link_codes d))))"

definition attempt_over :: "timestamp \<Rightarrow> link_attempt_row \<Rightarrow> bool" where
  "attempt_over now r \<longleftrightarrow>
     (case la_blocked r of Some until \<Rightarrow> until \<le> now | None \<Rightarrow> la_window r + ATTEMPT_WINDOW_MILLIS \<le> now)"

definition expired_attempts :: "timestamp \<Rightarrow> nat \<Rightarrow> db \<Rightarrow> (string \<times> string) list" where
  "expired_attempts now limit d =
     map (\<lambda>r. (la_provider r, la_subject r))
       (take limit (sort_key la_window (filter (attempt_over now) (link_attempts d))))"

definition collect_expired_link_state :: "timestamp \<Rightarrow> nat \<Rightarrow> db \<Rightarrow> nat tx" where
  "collect_expired_link_state now limit d =
     (if limit = 0 then Inr (0, d)
      else
        let p = (\<lambda>c. lc_actor c \<in> set (expired_codes now limit d));
            codes = changed p (link_codes d);
            d1 = d\<lparr>link_codes := delete_where p (link_codes d)\<rparr>;
            q = (\<lambda>r. (la_provider r, la_subject r) \<in> set (expired_attempts now (limit - codes) d1)) in
        Inr (codes + changed q (link_attempts d1), d1\<lparr>link_attempts := delete_where q (link_attempts d1)\<rparr>))"

section \<open>The service\<close>

datatype link_redemption = LkLinked actor_id | LkAlreadyLinked actor_id | LkInvalidOrExpired | LkRateLimited timestamp | LkIdentityConflict

record issued_link_code =
  il_code :: string
  il_expires :: timestamp

text \<open>Five codes are tried, given here as they are generated.\<close>

fun issue_loop :: "ext \<Rightarrow> actor_id \<Rightarrow> timestamp \<Rightarrow> timestamp \<Rightarrow> (error + string) list \<Rightarrow> db \<Rightarrow> issued_link_code tx" where
  "issue_loop x a created expires [] d = Inl (Bail ''failed to generate a unique identity link code after 5 attempts'')"
| "issue_loop x a created expires (g # gs) d =
     ebind g (\<lambda>generated.
     ebind (from_option (Bail ''link code generator returned an invalid code'') (normalize_link_code generated)) (\<lambda>normalized.
     ebind (replace_link_code a (hash_link_code x normalized) created expires d) (\<lambda>(out, d1).
       case out of LpStored \<Rightarrow> Inr (\<lparr>il_code = group_link_code normalized, il_expires = expires\<rparr>, d1)
                 | LpHashCollision \<Rightarrow> issue_loop x a created expires gs d1)))"

definition issue_code :: "ext \<Rightarrow> actor_id \<Rightarrow> timestamp \<Rightarrow> (nat \<Rightarrow> error + string) \<Rightarrow> db \<Rightarrow> issued_link_code tx" where
  "issue_code x a now generator d =
     issue_loop x a now (plus_millis now LINK_CODE_TTL_MILLIS) (map generator [0..<5]) d"

fun redemption_of :: "store_redemption \<Rightarrow> link_redemption" where
  "redemption_of (SrLinked a) = LkLinked a"
| "redemption_of (SrAlreadyLinked a) = LkAlreadyLinked a"
| "redemption_of SrInvalidOrExpired = LkInvalidOrExpired"
| "redemption_of (SrRateLimited t) = LkRateLimited t"
| "redemption_of (SrIdentityConflict a) = LkIdentityConflict"

definition redeem_code :: "ext \<Rightarrow> link_identity \<Rightarrow> string \<Rightarrow> timestamp \<Rightarrow> db \<Rightarrow> link_redemption tx" where
  "redeem_code x i code now d =
     ebind (redeem_link_code i (map_option (hash_link_code x) (normalize_link_code code)) now d)
       (\<lambda>(out, d1). Inr (redemption_of out, d1))"

fun command_redemption_of :: "command_redemption \<Rightarrow> link_redemption" where
  "command_redemption_of (CrLinked a) = LkLinked a"
| "command_redemption_of (CrAlreadyLinked a) = LkAlreadyLinked a"
| "command_redemption_of CrInvalidOrExpired = LkInvalidOrExpired"
| "command_redemption_of (CrRateLimited t) = LkRateLimited t"
| "command_redemption_of CrIdentityConflict = LkIdentityConflict"

definition redeem_code_once :: "ext \<Rightarrow> command_key \<Rightarrow> link_identity \<Rightarrow> string \<Rightarrow> timestamp \<Rightarrow> db \<Rightarrow> link_redemption tx" where
  "redeem_code_once x k i code now d =
     ebind (redeem_link_code_once x k i (map_option (hash_link_code x) (normalize_link_code code)) now d)
       (\<lambda>(out, d1). Inr (command_redemption_of out, d1))"

section \<open>Codes and their text\<close>

lemma alphabet_normal:
  "\<forall>c \<in> set LINK_CODE_ALPHABET. \<not> ascii_whitespace c \<and> c \<noteq> CHR ''-'' \<and> ascii_uppercase c = c"
  unfolding LINK_CODE_ALPHABET_def ascii_whitespace_def ascii_uppercase_def by code_simp

lemma alphabet_kept:
  assumes "set xs \<subseteq> set LINK_CODE_ALPHABET"
  shows "filter (\<lambda>c. \<not> ascii_whitespace c \<and> c \<noteq> CHR ''-'') xs = xs" and "map ascii_uppercase xs = xs"
proof -
  show "filter (\<lambda>c. \<not> ascii_whitespace c \<and> c \<noteq> CHR ''-'') xs = xs"
    by (rule filter_True) (use assms alphabet_normal in blast)
  show "map ascii_uppercase xs = xs" by (rule map_idI) (use assms alphabet_normal in blast)
qed

lemma normalize_normal:
  assumes "length code = 8" and "set code \<subseteq> set LINK_CODE_ALPHABET"
    and "filter (\<lambda>c. \<not> ascii_whitespace c \<and> c \<noteq> CHR ''-'') raw = code"
  shows "normalize_link_code raw = Some code"
proof -
  have "\<not> list_ex (\<lambda>c. c \<notin> set LINK_CODE_ALPHABET) code" using assms(2) unfolding list_ex_iff by blast
  then show ?thesis unfolding normalize_link_code_def Let_def assms(3) alphabet_kept(2)[OF assms(2)] using assms(1) by simp
qed

text \<open>A grouped code is read as the code.\<close>

lemma normalize_group:
  assumes "length code = 8" and "set code \<subseteq> set LINK_CODE_ALPHABET"
  shows "normalize_link_code (group_link_code code) = Some code"
proof (rule normalize_normal[OF assms])
  have "set (take 4 code) \<subseteq> set LINK_CODE_ALPHABET" "set (drop 4 code) \<subseteq> set LINK_CODE_ALPHABET"
    using assms(2) set_take_subset[of 4 code] set_drop_subset[of 4 code] by auto
  then show "filter (\<lambda>c. \<not> ascii_whitespace c \<and> c \<noteq> CHR ''-'') (group_link_code code) = code"
    unfolding group_link_code_def filter_append by (simp only: alphabet_kept) simp
qed

lemma normalized_code:
  assumes "normalize_link_code raw = Some code"
  shows "length code = 8" and "set code \<subseteq> set LINK_CODE_ALPHABET"
  using assms by (auto simp: normalize_link_code_def Let_def list_ex_iff split: if_splits)

lemma fill_code_grows:
  assumes "length code < 8" and "set code \<subseteq> set LINK_CODE_ALPHABET"
  shows "length (fill_code bs code) \<le> 8 \<and> set (fill_code bs code) \<subseteq> set LINK_CODE_ALPHABET"
  using assms
proof (induction bs arbitrary: code)
  case Nil
  then show ?case by simp
next
  case (Cons b bs)
  have "LINK_CODE_ALPHABET ! (b mod 31) \<in> set LINK_CODE_ALPHABET"
    by (rule nth_mem) (simp add: LINK_CODE_ALPHABET_def)
  then show ?case using Cons by (auto simp: Let_def)
qed

text \<open>Every generated code is one that can be redeemed.\<close>

lemma generated_code_normal:
  assumes "generate_code blocks [] = Some code"
  shows "normalize_link_code code = Some code"
proof -
  have "length code = 8 \<and> set code \<subseteq> set LINK_CODE_ALPHABET"
    if "generate_code blocks c = Some code" "length c \<le> 8" "set c \<subseteq> set LINK_CODE_ALPHABET" for blocks c
    using that
  proof (induction blocks arbitrary: c)
    case Nil
    then show ?case by (subst (asm) generate_code.simps) (auto split: if_splits)
  next
    case (Cons b bs)
    show ?case
    proof (cases "8 \<le> length c")
      case True
      then show ?thesis using Cons.prems by (subst (asm) generate_code.simps) auto
    next
      case False
      have "generate_code bs (fill_code b c) = Some code" using Cons.prems(1) False by (subst (asm) generate_code.simps) auto
      then show ?thesis using Cons.IH fill_code_grows[of c b] False Cons.prems(3) by auto
    qed
  qed
  from this[OF assms] have c: "length code = 8" "set code \<subseteq> set LINK_CODE_ALPHABET" by auto
  show ?thesis by (rule normalize_normal[OF c alphabet_kept(1)[OF c(2)]])
qed

section \<open>A code links one identity\<close>

lemma redeem_success:
  assumes "redeem_link_code i (Some h) now d = Inr (out, d')" and "out = SrLinked a \<or> out = SrAlreadyLinked a"
  obtains c d0 where "c \<in> set (link_codes d)" "lc_hash c = h" "lc_actor c = a" "now < lc_expires c"
    "\<exists>r \<in> set (actors d). ac_id r = a \<and> ac_enabled r" "d' = consume_code_and_attempts a i d0" "link_codes d0 = link_codes d"
    "\<exists>r. List.find (identity_of i) (identities d0) = Some r \<and> id_actor r = a"
proof -
  have r: "redeem_admitted i (Some h) now d = (out, d')"
    using assms by (auto simp: redeem_link_code_def redeem_in_transaction_def split: if_splits option.splits)
  then obtain c where c: "List.find (code_valid d h now) (link_codes d) = Some c" "lc_actor c = a"
    using assms(2) by (auto simp: redeem_admitted_def code_actor_def split: option.splits if_splits)
  have valid: "c \<in> set (link_codes d)" "lc_hash c = h" "now < lc_expires c" "\<exists>r \<in> set (actors d). ac_id r = a \<and> ac_enabled r"
    using find_Some_in[OF c(1)] c(2) by (auto simp: code_valid_def list_ex_iff)
  have ca: "code_actor d (Some h) now = Some a" using c by (simp add: code_actor_def)
  show ?thesis
  proof (cases "List.find (identity_of i) (identities d)")
    case None
    let ?r = "\<lparr>id_provider = li_provider i, id_subject = li_subject i, id_actor = a, id_username = li_username i\<rparr>"
    have "d' = consume_code_and_attempts a i (d\<lparr>identities := identities d @ [?r]\<rparr>)"
      using r None ca by (auto simp: redeem_admitted_def)
    moreover have "List.find (identity_of i) (identities d @ [?r]) = Some ?r"
      using None by (simp add: find_append identity_of_def)
    ultimately show ?thesis using that[OF valid(1,2) c(2) valid(3,4)] by simp
  next
    case (Some r0)
    then have a: "id_actor r0 = a"
      using r ca assms(2) by (auto simp: redeem_admitted_def split: if_splits)
    let ?f = "\<lambda>u r. r\<lparr>id_username := Some u\<rparr>"
    have "List.find (identity_of i) (update_where (identity_of i) (?f u) (identities d)) = Some (?f u r0)" for u
      using Some by (subst find_updated) (simp_all add: identity_of_def)
    moreover have "d' = consume_code_and_attempts a i (case li_username i of None \<Rightarrow> d | Some u \<Rightarrow>
         d\<lparr>identities := update_where (identity_of i) (?f u) (identities d)\<rparr>)"
      using r Some ca a by (auto simp: redeem_admitted_def)
    ultimately show ?thesis using that[OF valid(1,2) c(2) valid(3,4)] Some a
      by (cases "li_username i") auto
  qed
qed

lemma redeem_keeps_identities:
  assumes "redeem_link_code i h now d = Inr (out, d')" and "r \<in> set (identities d)"
  shows "\<exists>r' \<in> set (identities d'). id_provider r' = id_provider r \<and> id_subject r' = id_subject r \<and> id_actor r' = id_actor r"
proof -
  have upd: "\<exists>r' \<in> set (update_where p (\<lambda>r. r\<lparr>id_username := Some u\<rparr>) (identities d)). id_provider r' = id_provider r
      \<and> id_subject r' = id_subject r \<and> id_actor r' = id_actor r" for p u
    by (rule bexI[of _ "if p r then r\<lparr>id_username := Some u\<rparr> else r"]) (use assms(2) in \<open>simp_all add: set_update_where\<close>)
  show ?thesis
    using assms upd
    by (auto simp: redeem_link_code_def redeem_in_transaction_def redeem_admitted_def consume_code_and_attempts_def
        record_link_failure_def next_attempt_def Let_def split: if_splits option.splits prod.splits)
qed

text \<open>
  C17. A link code links one identity. A redemption that links had an unexpired code of an enabled
  actor, binds the identity to that actor and moves no identity that was bound before; afterwards,
  as long as no new code is issued with that digest, whoever presents the code again is refused.
\<close>

theorem link_code_once:
  assumes "redeem_link_code i (Some h) now d = Inr (out, d')" and "out = SrLinked a \<or> out = SrAlreadyLinked a"
    and "distinct (map lc_hash (link_codes d))" and "\<forall>k \<in> set (link_codes d2). lc_hash k = h \<longrightarrow> k \<in> set (link_codes d')"
  shows "(\<exists>c \<in> set (link_codes d). lc_hash c = h \<and> lc_actor c = a \<and> now < lc_expires c)
     \<and> (\<exists>r \<in> set (actors d). ac_id r = a \<and> ac_enabled r)
     \<and> (\<exists>r. List.find (identity_of i) (identities d') = Some r \<and> id_actor r = a)
     \<and> (\<forall>r \<in> set (identities d). \<exists>r' \<in> set (identities d'). id_provider r' = id_provider r \<and> id_subject r' = id_subject r
          \<and> id_actor r' = id_actor r)
     \<and> (\<forall>j later out' d3. redeem_link_code j (Some h) later d2 = Inr (out', d3) \<longrightarrow>
          out' = SrInvalidOrExpired \<or> (\<exists>t. out' = SrRateLimited t))"
proof -
  obtain c d0 where c: "c \<in> set (link_codes d)" "lc_hash c = h" "lc_actor c = a" "now < lc_expires c"
    "\<exists>r \<in> set (actors d). ac_id r = a \<and> ac_enabled r" and d': "d' = consume_code_and_attempts a i d0" "link_codes d0 = link_codes d"
    and i: "\<exists>r. List.find (identity_of i) (identities d0) = Some r \<and> id_actor r = a"
    by (rule redeem_success[OF assms(1,2)])
  have gone: "lc_hash k \<noteq> h" if "k \<in> set (link_codes d2)" for k
  proof
    assume k: "lc_hash k = h"
    have "k \<in> set (link_codes d)" "lc_actor k \<noteq> a" using that k assms(4) d' by (auto simp: consume_code_and_attempts_def)
    then show False using distinct_key_eq[OF assms(3), of k c] c k by simp
  qed
  have none: "code_actor d2 (Some h) t = None" for t
    using gone by (auto simp: code_actor_def find_None_all code_valid_def)
  have refused: "out' = SrInvalidOrExpired \<or> (\<exists>t. out' = SrRateLimited t)"
    if "redeem_link_code j (Some h) later d2 = Inr (out', d3)" for j later out' d3
    using that by (auto simp: redeem_link_code_def redeem_in_transaction_def redeem_admitted_def none split: if_splits option.splits)
  have "identities d' = identities d0" by (simp add: d' consume_code_and_attempts_def)
  then show ?thesis using c i refused redeem_keeps_identities[OF assms(1)] by auto
qed

section \<open>Guesses are limited\<close>

text \<open>
  What an identity can still guess in the window that starts at \<open>t\<close>: five times with a new
  attempt window, or what is left of one that began in it, or both for one that began before; none
  while it is blocked beyond the window.
\<close>

definition guesses_left :: "timestamp \<Rightarrow> (timestamp \<times> int \<times> timestamp option) option \<Rightarrow> int" where
  "guesses_left t v =
     (case v of
        None \<Rightarrow> 5
      | Some (w, n, None) \<Rightarrow> if t \<le> w then 5 - n else 9 - n
      | Some (w, n, Some until) \<Rightarrow> if t + ATTEMPT_WINDOW_MILLIS \<le> until then 0 else 5)"

definition attempt_ok :: "(timestamp \<times> int \<times> timestamp option) option \<Rightarrow> bool" where
  "attempt_ok v \<longleftrightarrow> (case v of Some (w, n, None) \<Rightarrow> 1 \<le> n \<and> n \<le> 4 | _ \<Rightarrow> True)"

definition attempt_lapsed :: "timestamp \<Rightarrow> (timestamp \<times> int \<times> timestamp option) option \<Rightarrow> bool" where
  "attempt_lapsed now v \<longleftrightarrow> (case v of
      None \<Rightarrow> True | Some (w, n, Some until) \<Rightarrow> until \<le> now | Some (w, n, None) \<Rightarrow> w + ATTEMPT_WINDOW_MILLIS \<le> now)"

lemma sat_add_ge: "a + b \<le> i64_max \<Longrightarrow> a + b \<le> sat_add a b" "sat_add a b = max i64_min (min i64_max (a + b))"
  by (simp_all add: sat_add_def)

lemma in_window:
  assumes "t \<le> w" and "now < t + ATTEMPT_WINDOW_MILLIS" and "t + ATTEMPT_WINDOW_MILLIS \<le> i64_max"
  shows "now < sat_add w ATTEMPT_WINDOW_MILLIS"
  using assms by (simp add: sat_add_def)

lemma guess_uses_one:
  assumes "attempt_ok v" and "t \<le> now" and "now < t + ATTEMPT_WINDOW_MILLIS" and "t + ATTEMPT_WINDOW_MILLIS \<le> i64_max"
    and "\<And>w n until. v = Some (w, n, Some until) \<Longrightarrow> until \<le> now"
  shows "attempt_ok (Some (next_attempt v now))" and "guesses_left t (Some (next_attempt v now)) + 1 \<le> guesses_left t v"
    and "0 \<le> guesses_left t (Some (next_attempt v now))"
proof -
  have block: "t + ATTEMPT_WINDOW_MILLIS \<le> sat_add now ATTEMPT_WINDOW_MILLIS" using assms(2,4) by (simp add: sat_add_def)
  consider (none) "v = None" | (blocked) w n until where "v = Some (w, n, Some until)" | (counting) w n where "v = Some (w, n, None)"
    by (metis option.exhaust prod.exhaust)
  then have "attempt_ok (Some (next_attempt v now)) \<and> guesses_left t (Some (next_attempt v now)) + 1 \<le> guesses_left t v
    \<and> 0 \<le> guesses_left t (Some (next_attempt v now))"
  proof cases
    case none
    then show ?thesis using assms(2) by (simp add: next_attempt_def guesses_left_def attempt_ok_def)
  next
    case blocked
    then show ?thesis using assms(2,3) assms(5)[OF blocked] by (simp add: next_attempt_def guesses_left_def attempt_ok_def)
  next
    case counting
    then have n: "1 \<le> n" "n \<le> 4" using assms(1) by (simp_all add: attempt_ok_def)
    show ?thesis
    proof (cases "now < sat_add w ATTEMPT_WINDOW_MILLIS")
      case True
      then show ?thesis using counting n block by (auto simp: next_attempt_def guesses_left_def attempt_ok_def Let_def)
    next
      case False
      then have "w < t" using in_window[of t w now] assms(3,4) by linarith
      then show ?thesis using counting n False assms(2) by (simp add: next_attempt_def guesses_left_def attempt_ok_def)
    qed
  qed
  then show "attempt_ok (Some (next_attempt v now))" and "guesses_left t (Some (next_attempt v now)) + 1 \<le> guesses_left t v"
    and "0 \<le> guesses_left t (Some (next_attempt v now))" by blast+
qed

lemma lapse_frees_none:
  assumes "attempt_ok v" and "attempt_lapsed now v" and "t \<le> now" and "now < t + ATTEMPT_WINDOW_MILLIS"
  shows "guesses_left t None \<le> guesses_left t v"
  using assms by (auto simp: attempt_ok_def attempt_lapsed_def guesses_left_def split: option.splits)

text \<open>
  Wrong guesses of one identity that are examined in the ten minutes from \<open>t\<close>, with the number of
  codes it redeems in between, and between other steps that leave its attempts alone or forget them
  when they have lapsed, as collection does.
\<close>

inductive guessing :: "link_identity \<Rightarrow> timestamp \<Rightarrow> db \<Rightarrow> nat \<Rightarrow> nat \<Rightarrow> db \<Rightarrow> bool" for i t d where
  none: "guessing i t d 0 0 d"
| guess: "guessing i t d k s d1 \<Longrightarrow> li_provider j = li_provider i \<Longrightarrow> li_subject j = li_subject i \<Longrightarrow>
     redeem_link_code j h now d1 = Inr (SrInvalidOrExpired, d2) \<Longrightarrow> t \<le> now \<Longrightarrow> now < t + ATTEMPT_WINDOW_MILLIS \<Longrightarrow>
     guessing i t d (Suc k) s d2"
| redeem: "guessing i t d k s d1 \<Longrightarrow> li_provider j = li_provider i \<Longrightarrow> li_subject j = li_subject i \<Longrightarrow>
     redeem_link_code j (Some h) now d1 = Inr (out, d2) \<Longrightarrow> out = SrLinked a \<or> out = SrAlreadyLinked a \<Longrightarrow>
     guessing i t d k (Suc s) d2"
| other: "guessing i t d k s d1 \<Longrightarrow> attempt_value d2 i = attempt_value d1 i \<Longrightarrow> guessing i t d k s d2"
| lapse: "guessing i t d k s d1 \<Longrightarrow> attempt_lapsed now (attempt_value d1 i) \<Longrightarrow> t \<le> now \<Longrightarrow> now < t + ATTEMPT_WINDOW_MILLIS \<Longrightarrow>
     attempt_value d2 i = None \<Longrightarrow> guessing i t d k s d2"

lemma redeemed_attempts:
  assumes "redeem_link_code j (Some h) now d = Inr (out, d')" and "out = SrLinked a \<or> out = SrAlreadyLinked a"
  shows "attempt_value d' j = None"
proof -
  obtain d0 where "d' = consume_code_and_attempts a j d0" by (rule redeem_success[OF assms])
  then show ?thesis by (simp add: attempt_value_def consume_code_and_attempts_def delete_where_def find_None_iff)
qed

lemma record_link_failure_value:
  "attempt_value (record_link_failure i v now d) i = Some (next_attempt v now)"
proof -
  obtain w n b where nx: "next_attempt v now = (w, n, b)" by (metis prod.exhaust)
  let ?f = "\<lambda>r. r\<lparr>la_window := w, la_failures := n, la_blocked := b\<rparr>"
  have keep: "attempt_of i (?f r) = attempt_of i r" for r by (simp add: attempt_of_def)
  show ?thesis
  proof (cases "List.find (attempt_of i) (link_attempts d)")
    case None
    then have "\<not> list_ex (attempt_of i) (link_attempts d)" by (auto simp: find_None_iff list_ex_iff)
    then show ?thesis using None by (simp add: attempt_value_def record_link_failure_def nx find_append attempt_of_def)
  next
    case (Some r)
    then have "list_ex (attempt_of i) (link_attempts d)" using find_Some_in[OF Some] by (auto simp: list_ex_iff)
    then show ?thesis using Some by (simp add: attempt_value_def record_link_failure_def nx find_updated[of "attempt_of i" ?f, OF keep])
  qed
qed

lemma same_attempt_value:
  assumes "li_provider j = li_provider i" and "li_subject j = li_subject i"
  shows "attempt_value d j = attempt_value d i"
proof -
  have "attempt_of j = attempt_of i" using assms by (intro ext) (simp add: attempt_of_def)
  then show ?thesis by (simp add: attempt_value_def)
qed

lemma refused_guess:
  assumes "redeem_link_code i h now d = Inr (SrInvalidOrExpired, d')"
  shows "attempt_value d' i = Some (next_attempt (attempt_value d i) now)"
    and "attempt_value d i = Some (w, n, Some until) \<Longrightarrow> until \<le> now"
proof -
  have b: "blocked_until d i now = None" and r: "redeem_admitted i h now d = (SrInvalidOrExpired, d')"
    using assms by (auto simp: redeem_link_code_def redeem_in_transaction_def split: if_splits option.splits)
  have "d' = record_link_failure i (attempt_value d i) now d"
    using r by (auto simp: redeem_admitted_def split: option.splits if_splits)
  then show "attempt_value d' i = Some (next_attempt (attempt_value d i) now)" by (simp add: record_link_failure_value)
  show "until \<le> now" if "attempt_value d i = Some (w, n, Some until)"
    using b that by (simp add: blocked_until_def split: if_splits)
qed

text \<open>Collection forgets only what has lapsed.\<close>

lemma collection_lapses:
  assumes "collect_expired_link_state now limit d = Inr (n, d')"
    and "distinct (map (\<lambda>r. (la_provider r, la_subject r)) (link_attempts d))"
  shows "attempt_value d' i = attempt_value d i \<or> attempt_lapsed now (attempt_value d i) \<and> attempt_value d' i = None"
proof (cases "attempt_value d' i = attempt_value d i")
  case False
  then have "limit \<noteq> 0" using assms(1) by (cases "limit = 0") (simp_all add: collect_expired_link_state_def)
  then obtain m d1 where m: "link_attempts d1 = link_attempts d"
    and d': "link_attempts d' = delete_where (\<lambda>r. (la_provider r, la_subject r) \<in> set (expired_attempts now m d1)) (link_attempts d)"
  proof -
    let ?p = "\<lambda>c. lc_actor c \<in> set (expired_codes now limit d)"
    show ?thesis
      by (rule that[of "d\<lparr>link_codes := delete_where ?p (link_codes d)\<rparr>" "limit - changed ?p (link_codes d)"])
         (use assms(1) \<open>limit \<noteq> 0\<close> in \<open>auto simp: collect_expired_link_state_def Let_def\<close>)
  qed
  let ?key = "\<lambda>r. (la_provider r, la_subject r)" and ?q = "\<lambda>r. (la_provider r, la_subject r) \<in> set (expired_attempts now m d1)"
  have of: "attempt_of i = (\<lambda>r. ?key r = (li_provider i, li_subject i))" by (auto simp: attempt_of_def)
  have hit: "(li_provider i, li_subject i) \<in> set (expired_attempts now m d1)"
  proof (rule ccontr)
    assume "(li_provider i, li_subject i) \<notin> set (expired_attempts now m d1)"
    then have "List.find (\<lambda>r. ?key r = (li_provider i, li_subject i)) (delete_where ?q (link_attempts d))
        = List.find (\<lambda>r. ?key r = (li_provider i, li_subject i)) (link_attempts d)"
      by (intro find_delete_where) auto
    then show False using False by (simp add: attempt_value_def d' of)
  qed
  then obtain r where r: "r \<in> set (link_attempts d)" "attempt_over now r" "?key r = (li_provider i, li_subject i)"
    using m by (auto simp: expired_attempts_def dest!: in_set_takeD)
  have "List.find (\<lambda>s. ?key s = ?key r) (link_attempts d) = Some r" by (rule find_key[OF assms(2) r(1)])
  then have "attempt_value d i = Some (la_window r, la_failures r, la_blocked r)" using r(3) by (simp add: attempt_value_def of)
  then have "attempt_lapsed now (attempt_value d i)" using r(2) by (auto simp: attempt_lapsed_def attempt_over_def split: option.splits)
  moreover have "attempt_value d' i = None" using hit by (auto simp: attempt_value_def d' of find_None_all)
  ultimately show ?thesis by blast
qed simp

text \<open>
  C37. Guessing is limited. In any ten minutes at most eight wrong or expired codes of one identity
  are examined: three that end an attempt window that was already open and five of a new one, after
  which it is blocked for ten minutes. A code that it redeems in between, which consumes the code,
  forgets its failures, and then five more can be examined.
\<close>

theorem link_guesses_bounded:
  assumes "guessing i t d k s d'" and "attempt_ok (attempt_value d i)" and "t + ATTEMPT_WINDOW_MILLIS \<le> i64_max"
  shows "k \<le> 8 + 5 * s"
proof -
  have "attempt_ok (attempt_value d' i) \<and> 0 \<le> guesses_left t (attempt_value d' i)
      \<and> int k + guesses_left t (attempt_value d' i) \<le> guesses_left t (attempt_value d i) + 5 * int s"
    using assms(1)
  proof induction
    case none
    then show ?case using assms(2) by (auto simp: attempt_ok_def guesses_left_def split: option.splits)
  next
    case (guess k s d1 j h now d2)
    note v = same_attempt_value[OF guess.hyps(2,3)]
    note g = refused_guess[OF guess.hyps(4)]
    note u = guess_uses_one[of "attempt_value d1 i" t now, OF _ guess.hyps(5,6) assms(3)]
    have "attempt_value d2 i = Some (next_attempt (attempt_value d1 i) now)" using g(1) by (simp add: v)
    moreover have "until \<le> now" if "attempt_value d1 i = Some (w, n, Some until)" for w n until
      using g(2) that by (simp add: v)
    ultimately show ?case using u guess.IH by auto
  next
    case (redeem k s d1 j h now out d2 a)
    have "attempt_value d2 i = None"
      using redeemed_attempts[OF redeem.hyps(4,5)] same_attempt_value[OF redeem.hyps(2,3)] by simp
    then show ?case using redeem.IH by (simp add: attempt_ok_def) (simp add: guesses_left_def)
  next
    case (other k s d1 d2)
    then show ?case by simp
  next
    case (lapse k s d1 now d2)
    have "guesses_left t None \<le> guesses_left t (attempt_value d1 i)"
      using lapse_frees_none[OF _ lapse.hyps(2-4)] lapse.IH by blast
    then show ?case using lapse.IH lapse.hyps(5) by (simp add: attempt_ok_def) (simp add: guesses_left_def)
  qed
  moreover have "guesses_left t (attempt_value d i) \<le> 8"
    using assms(2) by (auto simp: attempt_ok_def guesses_left_def split: option.splits)
  ultimately show ?thesis by linarith
qed

text \<open>A command that was redeemed is answered from its record.\<close>

lemma link_command_once:
  assumes "redeem_link_code_once x k i h now d = Inr (out, d1)" and "command_roundtrip x" and "find_command d k = None"
    and "find_command d2 k = find_command d1 k" and "\<not> blank_identity j"
  shows "redeem_link_code_once x k j h' later d2 = Inr (out, d2)"
proof -
  have key: "\<not> (blank (ck_gateway k) \<or> blank (ck_external k))" and i: "\<not> blank_identity i"
    using assms(1) by (auto simp: redeem_link_code_once_def split: if_splits)
  obtain s d0 where s: "redeem_in_transaction i h now d = (s, d0)" by (metis surj_pair)
  have cmds: "gateway_commands d0 = gateway_commands d"
    using s by (auto simp: redeem_in_transaction_def redeem_admitted_def record_link_failure_def consume_code_and_attempts_def
        split: option.splits if_splits prod.splits)
  have out: "out = link_command_outcome (gateway_outcome s)"
    and d1: "gateway_commands d1 = gateway_commands d @ [\<lparr>gc_gateway = ck_gateway k, gc_external = ck_external k,
       gc_kind = ''identity_link'', gc_outcome = write_command x (gateway_outcome s), gc_created = now\<rparr>]"
    using assms(1,3) key i s cmds by (auto simp: redeem_link_code_once_def Let_def)
  have "find_command d1 k = Some \<lparr>gc_gateway = ck_gateway k, gc_external = ck_external k,
       gc_kind = ''identity_link'', gc_outcome = write_command x (gateway_outcome s), gc_created = now\<rparr>"
    using assms(3) d1 by (simp add: find_command_def find_append)
  then show ?thesis using assms(2,4,5) key out by (simp add: redeem_link_code_once_def command_roundtrip_def)
qed

section \<open>Witnesses\<close>

definition sample_identity :: link_identity where
  "sample_identity = \<lparr>li_provider = ''telegram'', li_subject = ''7'', li_username = Some ''u''\<rparr>"

definition sample_offer :: db where
  "sample_offer = empty_db\<lparr>actors := [\<lparr>ac_id = ''a'', ac_enabled = True, ac_tools = ''[]'', ac_next_seq = 1, ac_created = 0\<rparr>],
     link_codes := [\<lparr>lc_actor = ''a'', lc_hash = ''h'', lc_created = 0, lc_expires = 100\<rparr>]\<rparr>"

definition sample_bound :: db where
  "sample_bound = commit_state sample_offer (redeem_link_code sample_identity (Some ''h'') 50 sample_offer)"

theorem link_code_once_witness:
  "redeem_link_code sample_identity (Some ''h'') 50 sample_offer = Inr (SrLinked ''a'', sample_bound)
   \<and> (\<exists>r. List.find (identity_of sample_identity) (identities sample_bound) = Some r \<and> id_actor r = ''a'')"
proof -
  have "case redeem_link_code sample_identity (Some ''h'') 50 sample_offer of Inr (out, d') \<Rightarrow> out = SrLinked ''a'' | Inl e \<Rightarrow> False"
    by code_simp
  then have r: "redeem_link_code sample_identity (Some ''h'') 50 sample_offer = Inr (SrLinked ''a'', sample_bound)"
    unfolding sample_bound_def by (auto split: sum.splits prod.splits)
  have k: "distinct (map lc_hash (link_codes sample_offer))" by code_simp
  show ?thesis using link_code_once [OF r _ k, of "''a''" sample_bound] r by blast
qed

theorem link_guesses_bounded_witness:
  "\<exists>d'. guessing sample_identity 0 sample_offer 1 0 d' \<and> (1::nat) \<le> 8 + 5 * 0"
proof -
  obtain d' where d': "redeem_link_code sample_identity (Some ''wrong'') 50 sample_offer = Inr (SrInvalidOrExpired, d')"
    by (simp add: redeem_link_code_def blank_identity_def redeem_in_transaction_def redeem_admitted_def blocked_until_def
        attempt_value_def sample_offer_def empty_db_def code_actor_def code_valid_def sample_identity_def blank_iff is_space_def)
  have "(0::timestamp) \<le> 50" "50 < 0 + ATTEMPT_WINDOW_MILLIS" by (simp_all add: ATTEMPT_WINDOW_MILLIS_def)
  then have g: "guessing sample_identity 0 sample_offer (Suc 0) 0 d'"
    by (rule guessing.guess[OF guessing.none refl refl d'])
  moreover from link_guesses_bounded [OF g] have "Suc 0 \<le> 8 + 5 * 0"
    by (simp add: attempt_ok_def attempt_value_def sample_offer_def empty_db_def ATTEMPT_WINDOW_MILLIS_def i64_max_def)
  ultimately show ?thesis by auto
qed

end
