(* ===== verification/Actors.thy ===== *)
theory Actors
  imports Identity_Link Payload_Codec "HOL-Library.Word"
begin

text \<open>
  Actors and their administration, from \<open>runtime/sqlite/actors.rs\<close> and
  \<open>runtime/actor_admin.rs\<close>: bootstrap, lookup, listing, the enabled flag, the granted tools and
  deletion, with the foreign keys of the schema (\<open>runtime/migrations/\<close>), their
  \<open>ON DELETE CASCADE\<close> and the trigger that keeps \<open>outbox_deliveries\<close> append-only.
\<close>

section \<open>Reading actors\<close>

record runtime_actor =
  ra_id :: actor_id
  ra_enabled :: bool
  ra_tools :: "string list"

record actor_details =
  ad_actor :: runtime_actor
  ad_identities :: "link_identity list"
  ad_active :: bool

record mutation_outcome =
  mo_actor :: runtime_actor
  mo_changed :: bool

datatype bootstrap_outcome = BtCreated | BtAlreadyInitialized
datatype create_outcome = CtCreated runtime_actor | CtExisting runtime_actor
datatype delete_mode = EmptyOnly | ForceDelete
datatype delete_outcome = DoDeleted "string list" | DoNotFound | DoNonempty | DoBusy | DoUnresolvedDelivery

definition runtime_actor_of :: "ext \<Rightarrow> actor_id \<Rightarrow> bool \<Rightarrow> string \<Rightarrow> error + runtime_actor" where
  "runtime_actor_of x a enabled tools_json =
     ebind (lift_read (read_tools x tools_json)) (\<lambda>tools. Inr \<lparr>ra_id = a, ra_enabled = enabled, ra_tools = tools\<rparr>)"

definition actor_row_of :: "db \<Rightarrow> actor_id \<Rightarrow> actor_row option" where
  "actor_row_of d a = List.find (\<lambda>r. ac_id r = a) (actors d)"

definition load_actor :: "ext \<Rightarrow> actor_id \<Rightarrow> db \<Rightarrow> error + runtime_actor option" where
  "load_actor x a d =
     (case actor_row_of d a of
        None \<Rightarrow> Inr None
      | Some r \<Rightarrow> ebind (runtime_actor_of x a (ac_enabled r) (ac_tools r)) (\<lambda>actor. Inr (Some actor)))"

definition resolve_identity :: "ext \<Rightarrow> string \<Rightarrow> string \<Rightarrow> db \<Rightarrow> error + runtime_actor option" where
  "resolve_identity x provider subject d =
     (case List.find (\<lambda>(i, r). id_provider i = provider \<and> id_subject i = subject)
             (inner_join (\<lambda>i r. ac_id r = id_actor i) (identities d) (actors d)) of
        None \<Rightarrow> Inr None
      | Some (i, r) \<Rightarrow> ebind (runtime_actor_of x (ac_id r) (ac_enabled r) (ac_tools r)) (\<lambda>actor. Inr (Some actor)))"

definition list_actors :: "ext \<Rightarrow> db \<Rightarrow> error + runtime_actor list" where
  "list_actors x d = emap (\<lambda>r. runtime_actor_of x (ac_id r) (ac_enabled r) (ac_tools r)) (sort_key ac_id (actors d))"

definition unfinished_work :: "work_item_row \<Rightarrow> bool" where
  "unfinished_work w \<longleftrightarrow>
     wi_state w \<notin> {WiCompleted, WiCancelled, WiFailedTerminal, WiBlockedUnknownOutcome, WiBlockedMalformed}"

definition has_active_work :: "actor_id \<Rightarrow> db \<Rightarrow> bool" where
  "has_active_work a d \<longleftrightarrow>
     list_ex (\<lambda>l. al_actor l = a) (leases d) \<or>
     list_ex (\<lambda>r. rn_actor r = a \<and> rn_state r = RunActive) (runs d) \<or>
     list_ex (\<lambda>w. wi_actor w = a \<and> unfinished_work w) (work_items d)"

definition actor_identities :: "actor_id \<Rightarrow> db \<Rightarrow> link_identity list" where
  "actor_identities a d =
     map (\<lambda>i. \<lparr>li_provider = id_provider i, li_subject = id_subject i, li_username = id_username i\<rparr>)
       (sort_key (\<lambda>i. (id_provider i, id_subject i)) (filter (\<lambda>i. id_actor i = a) (identities d)))"

definition load_actor_details :: "ext \<Rightarrow> actor_id \<Rightarrow> db \<Rightarrow> error + actor_details option" where
  "load_actor_details x a d =
     (case actor_row_of d a of
        None \<Rightarrow> Inr None
      | Some r \<Rightarrow> ebind (runtime_actor_of x a (ac_enabled r) (ac_tools r)) (\<lambda>actor.
          Inr (Some \<lparr>ad_actor = actor, ad_identities = actor_identities a d, ad_active = has_active_work a d\<rparr>)))"

section \<open>Creating and changing actors\<close>

text \<open>
  \<open>ensure_initial_actor\<close> looks at the actors before its transaction (in the database \<open>seen\<close>) and
  again inside it (in \<open>d\<close>).
\<close>

definition ensure_initial_actor ::
    "ext \<Rightarrow> actor_id \<Rightarrow> string list \<Rightarrow> timestamp \<Rightarrow> db \<Rightarrow> db \<Rightarrow> bootstrap_outcome tx" where
  "ensure_initial_actor x a tools now seen d =
     ebind (parse_workspace_safe a) (\<lambda>a'.
       if actors seen \<noteq> [] \<or> actors d \<noteq> [] then Inr (BtAlreadyInitialized, d)
       else Inr (BtCreated, d\<lparr>actors := actors d @ [\<lparr>ac_id = a', ac_enabled = True, ac_tools = write_tools x tools,
                                ac_next_seq = 0, ac_created = now\<rparr>]\<rparr>))"

definition create_actor :: "ext \<Rightarrow> actor_id \<Rightarrow> timestamp \<Rightarrow> db \<Rightarrow> create_outcome tx" where
  "create_actor x a now d =
     ebind (parse_workspace_safe a) (\<lambda>a'.
       let created = actor_row_of d a' = None;
           d1 = (if created
                 then d\<lparr>actors := actors d @ [\<lparr>ac_id = a', ac_enabled = True, ac_tools = ''[]'', ac_next_seq = 0,
                          ac_created = now\<rparr>]\<rparr>
                 else d) in
       ebind (from_option (Sql ''Query returned no rows'') (actor_row_of d1 a')) (\<lambda>r.
       ebind (runtime_actor_of x a' (ac_enabled r) (ac_tools r)) (\<lambda>actor.
         Inr (if created then CtCreated actor else CtExisting actor, d1))))"

definition set_actor_enabled :: "ext \<Rightarrow> actor_id \<Rightarrow> bool \<Rightarrow> db \<Rightarrow> mutation_outcome option tx" where
  "set_actor_enabled x a enabled d =
     (case actor_row_of d a of
        None \<Rightarrow> Inr (None, d)
      | Some r \<Rightarrow>
          let changes = ac_enabled r \<noteq> enabled;
              d1 = (if changes
                    then d\<lparr>actors := update_where (\<lambda>r. ac_id r = a) (\<lambda>r. r\<lparr>ac_enabled := enabled\<rparr>) (actors d)\<rparr>
                    else d) in
          ebind (runtime_actor_of x a enabled (ac_tools r)) (\<lambda>actor.
            Inr (Some \<lparr>mo_actor = actor, mo_changed = changes\<rparr>, d1)))"

text \<open>A \<open>BTreeSet<String>\<close> is its members in order.\<close>

definition tool_set :: "string list \<Rightarrow> string list" where
  "tool_set tools = remdups (sort tools)"

definition mutate_actor_tools :: "ext \<Rightarrow> actor_id \<Rightarrow> string \<Rightarrow> bool \<Rightarrow> db \<Rightarrow> mutation_outcome option tx" where
  "mutate_actor_tools x a tool grant d =
     (case actor_row_of d a of
        None \<Rightarrow> Inr (None, d)
      | Some r \<Rightarrow>
          ebind (lift_read (read_tools x (ac_tools r))) (\<lambda>stored.
            let tools = tool_set stored;
                changes = (if grant then tool \<notin> set tools else tool \<in> set tools);
                tools' = (if grant then tool_set (tool # tools) else filter (\<lambda>t. t \<noteq> tool) tools);
                tools_json = write_tools x tools';
                d1 = (if changes
                      then d\<lparr>actors := update_where (\<lambda>r. ac_id r = a) (\<lambda>r. r\<lparr>ac_tools := tools_json\<rparr>) (actors d)\<rparr>
                      else d) in
            ebind (runtime_actor_of x a (ac_enabled r) tools_json) (\<lambda>actor.
              Inr (Some \<lparr>mo_actor = actor, mo_changed = changes\<rparr>, d1))))"

definition grant_actor_tool :: "ext \<Rightarrow> actor_id \<Rightarrow> string \<Rightarrow> db \<Rightarrow> mutation_outcome option tx" where
  "grant_actor_tool x a tool d = mutate_actor_tools x a tool True d"

definition revoke_actor_tool :: "ext \<Rightarrow> actor_id \<Rightarrow> string \<Rightarrow> db \<Rightarrow> mutation_outcome option tx" where
  "revoke_actor_tool x a tool d = mutate_actor_tools x a tool False d"

section \<open>Deleting an actor\<close>

text \<open>The identifiers of what an actor owns.\<close>

definition works_of :: "actor_id \<Rightarrow> db \<Rightarrow> work_item_id list" where
  "works_of a d = map wi_id (filter (\<lambda>w. wi_actor w = a) (work_items d))"

definition events_of :: "actor_id \<Rightarrow> db \<Rightarrow> event_id list" where
  "events_of a d = map ev_id (filter (\<lambda>e. ev_actor e = a) (events d))"

definition runs_of :: "actor_id \<Rightarrow> db \<Rightarrow> run_id list" where
  "runs_of a d = map rn_id (filter (\<lambda>r. rn_actor r = a) (runs d))"

definition outbox_owned :: "actor_id \<Rightarrow> db \<Rightarrow> outbox_id list" where
  "outbox_owned a d = map ob_id (filter (\<lambda>o1. ob_actor o1 = a) (outbox d))"

definition requests_of :: "actor_id \<Rightarrow> db \<Rightarrow> request_id list" where
  "requests_of a d = map lr_id (filter (\<lambda>l. lr_actor l = a) (local_requests d))"

definition attempts_of :: "actor_id \<Rightarrow> db \<Rightarrow> attempt_id list" where
  "attempts_of a d = map ta_id (filter (\<lambda>t. ta_run t \<in> set (runs_of a d)) (attempts d))"

definition actor_nonempty :: "actor_id \<Rightarrow> db \<Rightarrow> bool" where
  "actor_nonempty a d \<longleftrightarrow>
     list_ex (\<lambda>i. id_actor i = a) (identities d) \<or> list_ex (\<lambda>l. al_actor l = a) (leases d) \<or>
     list_ex (\<lambda>w. wi_actor w = a) (work_items d) \<or> list_ex (\<lambda>e. ev_actor e = a) (events d) \<or>
     list_ex (\<lambda>r. rn_actor r = a) (runs d) \<or> list_ex (\<lambda>m. rm_actor m = a) (recent d) \<or>
     list_ex (\<lambda>o1. ob_actor o1 = a) (outbox d) \<or> list_ex (\<lambda>f. af_actor f = a) (artifacts d) \<or>
     list_ex (\<lambda>l. lr_actor l = a) (local_requests d) \<or> list_ex (\<lambda>c. lc_actor c = a) (link_codes d)"

definition unresolved_delivery :: "actor_id \<Rightarrow> db \<Rightarrow> bool" where
  "unresolved_delivery a d \<longleftrightarrow>
     list_ex (\<lambda>(b, l). lr_actor l = a \<and> rb_state b \<in> {BnPending, BnDelivering, BnFailedRetryable})
       (inner_join (\<lambda>b l. lr_id l = rb_request b) (bundles d) (local_requests d)) \<or>
     list_ex (\<lambda>(g, o1). ob_actor o1 = a \<and> gd_state g \<in> {GdPending, GdDelivering, GdFailedRetryable, GdOutcomeUnknown})
       (inner_join (\<lambda>g o1. gd_source g = Some (ob_id o1)) (gateway_deliveries d) (outbox d))"

definition artifact_paths :: "actor_id \<Rightarrow> db \<Rightarrow> string list" where
  "artifact_paths a d = sort (map af_path (filter (\<lambda>f. af_actor f = a) (artifacts d)))"

text \<open>
  \<open>DELETE FROM actors\<close> with every \<open>ON DELETE CASCADE\<close> it sets off: rows naming the actor, and
  rows naming a work item, event, run or outbox row that goes with it.
\<close>

definition gone_runs :: "actor_id \<Rightarrow> db \<Rightarrow> run_id list" where
  "gone_runs a d = map rn_id (filter (\<lambda>r. rn_actor r = a \<or> rn_work r \<in> set (works_of a d)) (runs d))"

definition gone_outbox_row :: "actor_id \<Rightarrow> db \<Rightarrow> outbox_row \<Rightarrow> bool" where
  "gone_outbox_row a d o1 \<longleftrightarrow>
     ob_actor o1 = a \<or> ob_work o1 \<in> set (works_of a d) \<or> ob_run o1 \<in> set (gone_runs a d)"

definition gone_outbox :: "actor_id \<Rightarrow> db \<Rightarrow> outbox_id list" where
  "gone_outbox a d = map ob_id (filter (gone_outbox_row a d) (outbox d))"

definition delete_actor_cascading :: "actor_id \<Rightarrow> db \<Rightarrow> db" where
  "delete_actor_cascading a d =
     d\<lparr>actors := delete_where (\<lambda>r. ac_id r = a) (actors d),
       identities := delete_where (\<lambda>i. id_actor i = a) (identities d),
       work_items := delete_where (\<lambda>w. wi_actor w = a) (work_items d),
       events := delete_where (\<lambda>e. ev_actor e = a) (events d),
       leases := delete_where (\<lambda>l. al_actor l = a) (leases d),
       runs := delete_where (\<lambda>r. rn_actor r = a \<or> rn_work r \<in> set (works_of a d)) (runs d),
       run_events := delete_where (\<lambda>r. re_run r \<in> set (gone_runs a d) \<or> re_event r \<in> set (events_of a d)) (run_events d),
       recent := delete_where (\<lambda>m. rm_actor m = a \<or> rm_work m \<in> set (works_of a d) \<or> rm_run m \<in> set (gone_runs a d)) (recent d),
       attempts := delete_where (\<lambda>t. ta_run t \<in> set (gone_runs a d)) (attempts d),
       artifacts := delete_where (\<lambda>f. af_actor f = a) (artifacts d),
       outbox := delete_where (gone_outbox_row a d) (outbox d),
       link_codes := delete_where (\<lambda>c. lc_actor c = a) (link_codes d),
       gateway_streams := delete_where (\<lambda>s. gs_work s \<in> set (works_of a d)) (gateway_streams d),
       receipts := delete_where (\<lambda>w. wr_event w \<in> set (events_of a d)) (receipts d),
       latest_routes := delete_where (\<lambda>r. tr_actor r = a) (latest_routes d),
       deferred := delete_where (\<lambda>w. dw_actor w = a \<or> dw_outbox w \<in> set (gone_outbox a d)) (deferred d),
       actor_deletions := delete_where (\<lambda>x. dl_actor x = a) (actor_deletions d)\<rparr>"

text \<open>
  The foreign keys of the schema, migration by migration. SQLite enforces them at the end of each
  statement, and at the commit under \<open>PRAGMA defer_foreign_keys\<close>.
\<close>

definition names :: "('r \<Rightarrow> 'k) \<Rightarrow> 'k list \<Rightarrow> 'r list \<Rightarrow> bool" where
  "names k keys rows \<longleftrightarrow> list_all (\<lambda>r. k r \<in> set keys) rows"

definition names_if :: "('r \<Rightarrow> 'k option) \<Rightarrow> 'k list \<Rightarrow> 'r list \<Rightarrow> bool" where
  "names_if k keys rows \<longleftrightarrow> list_all (\<lambda>r. case k r of None \<Rightarrow> True | Some v \<Rightarrow> v \<in> set keys) rows"

definition core_references :: "db \<Rightarrow> bool" where
  "core_references d \<longleftrightarrow>
     names id_actor (map ac_id (actors d)) (identities d) \<and>
     names wi_actor (map ac_id (actors d)) (work_items d) \<and>
     names ev_actor (map ac_id (actors d)) (events d) \<and>
     names_if ev_work (map wi_id (work_items d)) (events d) \<and>
     names al_actor (map ac_id (actors d)) (leases d) \<and>
     names rn_actor (map ac_id (actors d)) (runs d) \<and>
     names rn_work (map wi_id (work_items d)) (runs d) \<and>
     names re_run (map rn_id (runs d)) (run_events d) \<and>
     names re_event (map ev_id (events d)) (run_events d) \<and>
     names rm_actor (map ac_id (actors d)) (recent d) \<and>
     names rm_work (map wi_id (work_items d)) (recent d) \<and>
     names rm_run (map rn_id (runs d)) (recent d) \<and>
     names ta_run (map rn_id (runs d)) (attempts d)"

definition serve_references :: "db \<Rightarrow> bool" where
  "serve_references d \<longleftrightarrow>
     names af_actor (map ac_id (actors d)) (artifacts d) \<and>
     names_if af_attempt (map ta_id (attempts d)) (artifacts d) \<and>
     names lr_actor (map ac_id (actors d)) (local_requests d) \<and>
     names lr_event (map ev_id (events d)) (local_requests d) \<and>
     names_if lr_work (map wi_id (work_items d)) (local_requests d) \<and>
     names_if lr_bundle (map rb_id (bundles d)) (local_requests d) \<and>
     names rb_request (map lr_id (local_requests d)) (bundles d) \<and>
     names ob_actor (map ac_id (actors d)) (outbox d) \<and>
     names ob_work (map wi_id (work_items d)) (outbox d) \<and>
     names ob_run (map rn_id (runs d)) (outbox d) \<and>
     names od_outbox (map ob_id (outbox d)) (outbox_deliveries d) \<and>
     names od_bundle (map rb_id (bundles d)) (outbox_deliveries d) \<and>
     names ct_request (map lr_id (local_requests d)) (cancel_targets d)"

definition gateway_references :: "db \<Rightarrow> bool" where
  "gateway_references d \<longleftrightarrow>
     names_if gd_source (map ob_id (outbox d)) (gateway_deliveries d) \<and>
     names gs_work (map wi_id (work_items d)) (gateway_streams d)"

definition webhook_references :: "db \<Rightarrow> bool" where
  "webhook_references d \<longleftrightarrow>
     names wr_event (map ev_id (events d)) (receipts d) \<and>
     names tr_actor (map ac_id (actors d)) (latest_routes d) \<and>
     names dw_outbox (map ob_id (outbox d)) (deferred d) \<and>
     names dw_actor (map ac_id (actors d)) (deferred d)"

definition references_hold :: "db \<Rightarrow> bool" where
  "references_hold d \<longleftrightarrow>
     core_references d \<and> serve_references d \<and> names lc_actor (map ac_id (actors d)) (link_codes d) \<and>
     gateway_references d \<and> names dl_actor (map ac_id (actors d)) (actor_deletions d) \<and> webhook_references d"

definition commit_checked :: "'a \<Rightarrow> db \<Rightarrow> 'a tx" where
  "commit_checked out d = (if references_hold d then Inr (out, d) else Inl (Sql ''FOREIGN KEY constraint failed''))"

text \<open>The statements of a forced deletion, in their order.\<close>

definition request_deletion :: "actor_id \<Rightarrow> timestamp \<Rightarrow> db \<Rightarrow> error + db" where
  "request_deletion a now d =
     ebind (insert_unique dl_actor \<lparr>dl_actor = a, dl_requested = now\<rparr> (actor_deletions d))
       (\<lambda>rows. Inr (d\<lparr>actor_deletions := rows\<rparr>))"

definition delete_gateway_deliveries :: "actor_id \<Rightarrow> db \<Rightarrow> db" where
  "delete_gateway_deliveries a d =
     d\<lparr>gateway_deliveries :=
         delete_where (\<lambda>g. case gd_source g of None \<Rightarrow> False | Some s \<Rightarrow> s \<in> set (outbox_owned a d)) (gateway_deliveries d)\<rparr>"

definition deletable :: "db \<Rightarrow> outbox_delivery_row \<Rightarrow> bool" where
  "deletable d r \<longleftrightarrow>
     list_ex (\<lambda>(o1, x). ob_id o1 = od_outbox r)
       (inner_join (\<lambda>o1 x. dl_actor x = ob_actor o1) (outbox d) (actor_deletions d))"

definition delete_outbox_deliveries :: "actor_id \<Rightarrow> db \<Rightarrow> error + db" where
  "delete_outbox_deliveries a d =
     (let p = (\<lambda>r. od_outbox r \<in> set (outbox_owned a d)) in
      if list_all (deletable d) (filter p (outbox_deliveries d))
      then Inr (d\<lparr>outbox_deliveries := delete_where p (outbox_deliveries d)\<rparr>)
      else Inl (Sql ''outbox_deliveries are append-only''))"

definition delete_cancel_targets :: "actor_id \<Rightarrow> db \<Rightarrow> db" where
  "delete_cancel_targets a d =
     d\<lparr>cancel_targets := delete_where (\<lambda>c. ct_request c \<in> set (requests_of a d)) (cancel_targets d)\<rparr>"

definition quarantined_for :: "actor_id \<Rightarrow> db \<Rightarrow> quarantine_row \<Rightarrow> bool" where
  "quarantined_for a d q =
     (case qr_kind q of
        LeWorkItem \<Rightarrow> qr_entity q \<in> set (works_of a d)
      | LeRun \<Rightarrow> qr_entity q \<in> set (runs_of a d)
      | LeEvent \<Rightarrow> qr_entity q \<in> set (events_of a d)
      | LeToolAttempt \<Rightarrow> qr_entity q \<in> set (attempts_of a d))"

definition delete_legacy :: "actor_id \<Rightarrow> db \<Rightarrow> db" where
  "delete_legacy a d =
     d\<lparr>quarantine := delete_where (quarantined_for a d) (quarantine d),
       outbox_archive := delete_where (\<lambda>x. ax_actor x = a) (outbox_archive d)\<rparr>"

definition delete_requests :: "actor_id \<Rightarrow> db \<Rightarrow> db" where
  "delete_requests a d =
     d\<lparr>bundles := delete_where (\<lambda>b. rb_request b \<in> set (requests_of a d)) (bundles d),
       local_requests := delete_where (\<lambda>l. lr_actor l = a) (local_requests d)\<rparr>"

definition force_delete :: "actor_id \<Rightarrow> timestamp \<Rightarrow> db \<Rightarrow> error + db" where
  "force_delete a now d =
     ebind (request_deletion a now d) (\<lambda>d1.
     ebind (delete_outbox_deliveries a (delete_gateway_deliveries a d1)) (\<lambda>d2.
       Inr (delete_actor_cascading a (delete_requests a (delete_legacy a (delete_cancel_targets a d2))))))"

definition delete_actor :: "actor_id \<Rightarrow> delete_mode \<Rightarrow> timestamp \<Rightarrow> db \<Rightarrow> delete_outcome tx" where
  "delete_actor a mode now d =
     (case actor_row_of d a of
        None \<Rightarrow> Inr (DoNotFound, d)
      | Some r \<Rightarrow>
          if mode = EmptyOnly
          then (if actor_nonempty a d then Inr (DoNonempty, d)
                else commit_checked (DoDeleted []) (delete_actor_cascading a d))
          else if ac_enabled r \<or> has_active_work a d then Inr (DoBusy, d)
          else if unresolved_delivery a d then Inr (DoUnresolvedDelivery, d)
          else ebind (force_delete a now d) (commit_checked (DoDeleted (artifact_paths a d))))"

section \<open>Administration\<close>

datatype admin_command =
    AcList | AcShow actor_id | AcCreate actor_id | AcEnable actor_id | AcDisable actor_id
  | AcDelete actor_id bool | AcToolsList actor_id | AcToolsGrant actor_id string | AcToolsRevoke actor_id string

datatype admin_result =
    ArActors "runtime_actor list" | ArActor actor_details bool | ArTools actor_id "string list" | ArDeleted actor_id

text \<open>
  \<open>ActorAdministration\<close>: the removal of an actor's attachment directory is a function of the file
  system and its answer a parameter. The state is the database, the counter behind
  \<open>ActorDirectorySignals\<close> and the artifact files handed to \<open>remove_deleted_artifacts\<close>. Every store
  operation is a transaction of its own, so an error after one of them leaves its effect.
\<close>

record administration =
  adm_default :: actor_id
  adm_known :: "string list"
  adm_remove_attachments :: "actor_id \<Rightarrow> error + unit"

record admin_state =
  as_db :: db
  as_signal :: "64 word"
  as_removed :: "string list"

type_synonym 'a admin = "admin_state \<Rightarrow> (error + 'a) \<times> admin_state"

definition administration_new :: "actor_id \<Rightarrow> string list \<Rightarrow> (actor_id \<Rightarrow> error + unit) \<Rightarrow> administration" where
  "administration_new owner known remove =
     \<lparr>adm_default = owner, adm_known = tool_set (''*'' # known), adm_remove_attachments = remove\<rparr>"

definition in_store :: "(db \<Rightarrow> 'a tx) \<Rightarrow> 'a admin" where
  "in_store f s =
     (case f (as_db s) of Inl e \<Rightarrow> (Inl e, s) | Inr (out, d) \<Rightarrow> (Inr out, s\<lparr>as_db := d\<rparr>))"

definition abind :: "'a admin \<Rightarrow> ('a \<Rightarrow> 'b admin) \<Rightarrow> 'b admin" where
  "abind m k s = (case m s of (Inl e, s1) \<Rightarrow> (Inl e, s1) | (Inr v, s1) \<Rightarrow> k v s1)"

definition areturn :: "error + 'a \<Rightarrow> 'a admin" where
  "areturn r s = (r, s)"

definition notify :: "unit admin" where
  "notify s = (Inr (), s\<lparr>as_signal := as_signal s + 1\<rparr>)"

definition notify_if :: "bool \<Rightarrow> unit admin" where
  "notify_if b = (if b then notify else areturn (Inr ()))"

definition no_such_actor :: "actor_id \<Rightarrow> error" where
  "no_such_actor a = Bail (''actor '' @ a @ '' does not exist'')"

definition admin_details :: "ext \<Rightarrow> actor_id \<Rightarrow> actor_details admin" where
  "admin_details x a s = areturn (ebind (load_actor_details x a (as_db s)) (from_option (no_such_actor a))) s"

definition admin_set_enabled :: "ext \<Rightarrow> administration \<Rightarrow> actor_id \<Rightarrow> bool \<Rightarrow> admin_result admin" where
  "admin_set_enabled x adm a enabled =
     (if \<not> enabled \<and> a = adm_default adm then areturn (Inl (Bail ''default actor cannot be disabled''))
      else abind (in_store (set_actor_enabled x a enabled)) (\<lambda>found.
           abind (areturn (from_option (no_such_actor a) found)) (\<lambda>out.
           abind (notify_if (mo_changed out)) (\<lambda>_.
           abind (admin_details x a) (\<lambda>ad. areturn (Inr (ArActor ad (mo_changed out))))))))"

definition admin_mutate_tool :: "ext \<Rightarrow> administration \<Rightarrow> actor_id \<Rightarrow> string \<Rightarrow> bool \<Rightarrow> admin_result admin" where
  "admin_mutate_tool x adm a tool grant =
     (if tool \<notin> set (adm_known adm) then areturn (Inl (Bail (''unknown tool: '' @ tool)))
      else abind (in_store (if grant then grant_actor_tool x a tool else revoke_actor_tool x a tool)) (\<lambda>found.
           abind (areturn (from_option (no_such_actor a) found)) (\<lambda>out.
           abind (notify_if (mo_changed out)) (\<lambda>_.
           abind (admin_details x a) (\<lambda>ad. areturn (Inr (ArActor ad (mo_changed out))))))))"

definition admin_removed :: "administration \<Rightarrow> actor_id \<Rightarrow> bool \<Rightarrow> string list \<Rightarrow> admin_result admin" where
  "admin_removed adm a forced paths s =
     abind notify (\<lambda>_.
     abind (areturn (if forced
        then (case adm_remove_attachments adm a of
                Inl e \<Rightarrow> Inl (Bail (''actor '' @ a @ '' was deleted, but attachment cleanup failed''))
              | Inr u \<Rightarrow> Inr u)
        else Inr ())) (\<lambda>_. areturn (Inr (ArDeleted a)))) (s\<lparr>as_removed := as_removed s @ paths\<rparr>)"

definition admin_delete :: "administration \<Rightarrow> timestamp \<Rightarrow> actor_id \<Rightarrow> bool \<Rightarrow> admin_result admin" where
  "admin_delete adm now a forced =
     (if a = adm_default adm then areturn (Inl (Bail ''default actor cannot be deleted''))
      else abind (in_store (delete_actor a (if forced then ForceDelete else EmptyOnly) now)) (\<lambda>out.
        case out of
          DoDeleted paths \<Rightarrow> admin_removed adm a forced paths
        | DoNotFound \<Rightarrow> areturn (Inl (no_such_actor a))
        | DoNonempty \<Rightarrow> areturn (Inl (Bail (''actor '' @ a @ '' is not empty; disable it and use --force'')))
        | DoBusy \<Rightarrow> areturn (Inl (Bail (''actor '' @ a @ '' is busy'')))
        | DoUnresolvedDelivery \<Rightarrow> areturn (Inl (Bail (''actor '' @ a @ '' has unresolved delivery'')))))"

definition admin_create :: "ext \<Rightarrow> actor_id \<Rightarrow> timestamp \<Rightarrow> admin_result admin" where
  "admin_create x a now =
     abind (in_store (create_actor x a now)) (\<lambda>out.
       let changes = (case out of CtCreated _ \<Rightarrow> True | CtExisting _ \<Rightarrow> False) in
       abind (notify_if changes) (\<lambda>_.
       abind (admin_details x a) (\<lambda>ad. areturn (Inr (ArActor ad changes)))))"

definition execute_admin :: "ext \<Rightarrow> administration \<Rightarrow> timestamp \<Rightarrow> admin_command \<Rightarrow> admin_result admin" where
  "execute_admin x adm now cmd =
     (case cmd of
        AcList \<Rightarrow> (\<lambda>s. areturn (ebind (list_actors x (as_db s)) (\<lambda>found. Inr (ArActors found))) s)
      | AcShow a \<Rightarrow> abind (admin_details x a) (\<lambda>ad. areturn (Inr (ArActor ad False)))
      | AcCreate a \<Rightarrow> admin_create x a now
      | AcEnable a \<Rightarrow> admin_set_enabled x adm a True
      | AcDisable a \<Rightarrow> admin_set_enabled x adm a False
      | AcDelete a forced \<Rightarrow> admin_delete adm now a forced
      | AcToolsList a \<Rightarrow> abind (admin_details x a) (\<lambda>ad. areturn (Inr (ArTools a (ra_tools (ad_actor ad)))))
      | AcToolsGrant a tool \<Rightarrow> admin_mutate_tool x adm a tool True
      | AcToolsRevoke a tool \<Rightarrow> admin_mutate_tool x adm a tool False)"

section \<open>What a forced deletion does\<close>

text \<open>
  The abstract deletion: every table without the rows of the actor, a row that has no actor column
  belonging to the actor of the run, work item, event, outbox row or request it hangs from.
\<close>

definition without_actor :: "actor_id \<Rightarrow> db \<Rightarrow> db" where
  "without_actor a d =
     d\<lparr>actors := delete_where (\<lambda>r. ac_id r = a) (actors d),
       identities := delete_where (\<lambda>i. id_actor i = a) (identities d),
       work_items := delete_where (\<lambda>w. wi_actor w = a) (work_items d),
       events := delete_where (\<lambda>e. ev_actor e = a) (events d),
       leases := delete_where (\<lambda>l. al_actor l = a) (leases d),
       runs := delete_where (\<lambda>r. rn_actor r = a) (runs d),
       run_events := delete_where (\<lambda>r. re_run r \<in> set (runs_of a d)) (run_events d),
       recent := delete_where (\<lambda>m. rm_actor m = a) (recent d),
       attempts := delete_where (\<lambda>t. ta_run t \<in> set (runs_of a d)) (attempts d),
       artifacts := delete_where (\<lambda>f. af_actor f = a) (artifacts d),
       local_requests := delete_where (\<lambda>l. lr_actor l = a) (local_requests d),
       bundles := delete_where (\<lambda>b. rb_request b \<in> set (requests_of a d)) (bundles d),
       outbox := delete_where (\<lambda>o1. ob_actor o1 = a) (outbox d),
       outbox_deliveries := delete_where (\<lambda>r. od_outbox r \<in> set (outbox_owned a d)) (outbox_deliveries d),
       cancel_targets := delete_where (\<lambda>c. ct_request c \<in> set (requests_of a d)) (cancel_targets d),
       link_codes := delete_where (\<lambda>c. lc_actor c = a) (link_codes d),
       gateway_deliveries := delete_where (\<lambda>g. gd_source g \<in> Some ` set (outbox_owned a d)) (gateway_deliveries d),
       gateway_streams := delete_where (\<lambda>s. gs_work s \<in> set (works_of a d)) (gateway_streams d),
       receipts := delete_where (\<lambda>w. wr_event w \<in> set (events_of a d)) (receipts d),
       latest_routes := delete_where (\<lambda>r. tr_actor r = a) (latest_routes d),
       deferred := delete_where (\<lambda>w. dw_actor w = a) (deferred d),
       quarantine := delete_where (quarantined_for a d) (quarantine d),
       outbox_archive := delete_where (\<lambda>x. ax_actor x = a) (outbox_archive d)\<rparr>"

text \<open>A row that names its actor and a parent row names the actor of the parent.\<close>

definition same_owner ::
    "('p \<Rightarrow> 'k) \<Rightarrow> ('p \<Rightarrow> actor_id) \<Rightarrow> 'p list \<Rightarrow> ('r \<Rightarrow> 'k option) \<Rightarrow> ('r \<Rightarrow> actor_id) \<Rightarrow> 'r list \<Rightarrow> bool" where
  "same_owner k own parents f act rows \<longleftrightarrow>
     list_all (\<lambda>r. list_all (\<lambda>p. f r = Some (k p) \<longrightarrow> own p = act r) parents) rows"

definition well_owned :: "db \<Rightarrow> bool" where
  "well_owned d \<longleftrightarrow>
     same_owner wi_id wi_actor (work_items d) (\<lambda>r. Some (rn_work r)) rn_actor (runs d) \<and>
     same_owner wi_id wi_actor (work_items d) ev_work ev_actor (events d) \<and>
     same_owner wi_id wi_actor (work_items d) (\<lambda>m. Some (rm_work m)) rm_actor (recent d) \<and>
     same_owner rn_id rn_actor (runs d) (\<lambda>m. Some (rm_run m)) rm_actor (recent d) \<and>
     same_owner wi_id wi_actor (work_items d) (\<lambda>o1. Some (ob_work o1)) ob_actor (outbox d) \<and>
     same_owner rn_id rn_actor (runs d) (\<lambda>o1. Some (ob_run o1)) ob_actor (outbox d) \<and>
     same_owner ob_id ob_actor (outbox d) (\<lambda>w. Some (dw_outbox w)) dw_actor (deferred d) \<and>
     same_owner ev_id ev_actor (events d) (\<lambda>l. Some (lr_event l)) lr_actor (local_requests d) \<and>
     same_owner wi_id wi_actor (work_items d) lr_work lr_actor (local_requests d) \<and>
     same_owner (\<lambda>(t, r). ta_id t) (\<lambda>(t, r). rn_actor r) (inner_join (\<lambda>t r. rn_id r = ta_run t) (attempts d) (runs d))
       af_attempt af_actor (artifacts d) \<and>
     same_owner (\<lambda>(b, l). rb_id b) (\<lambda>(b, l). lr_actor l)
       (inner_join (\<lambda>b l. lr_id l = rb_request b) (bundles d) (local_requests d)) lr_bundle lr_actor (local_requests d) \<and>
     same_owner (\<lambda>(b, l). rb_id b) (\<lambda>(b, l). lr_actor l)
       (inner_join (\<lambda>b l. lr_id l = rb_request b) (bundles d) (local_requests d))
       (\<lambda>(r, o1). Some (od_bundle r)) (\<lambda>(r, o1). ob_actor o1)
       (inner_join (\<lambda>r o1. ob_id o1 = od_outbox r) (outbox_deliveries d) (outbox d)) \<and>
     same_owner ev_id ev_actor (events d) (\<lambda>(e, r). Some (re_event e)) (\<lambda>(e, r). rn_actor r)
       (inner_join (\<lambda>e r. rn_id r = re_run e) (run_events d) (runs d))"

lemma same_ownerD:
  "same_owner k own parents f act rows \<Longrightarrow> r \<in> set rows \<Longrightarrow> p \<in> set parents \<Longrightarrow> f r = Some (k p) \<Longrightarrow> own p = act r"
  by (auto simp: same_owner_def list_all_iff)

lemma names_iff: "names k keys rows \<longleftrightarrow> k ` set rows \<subseteq> set keys"
  by (auto simp: names_def list_all_iff)

lemma names_if_iff: "names_if k keys rows \<longleftrightarrow> (\<forall>r \<in> set rows. \<forall>v. k r = Some v \<longrightarrow> v \<in> set keys)"
  by (auto simp: names_if_def list_all_iff split: option.splits)

lemma delete_where_cong:
  "rows = rows' \<Longrightarrow> (\<And>r. r \<in> set rows' \<Longrightarrow> p r = q r) \<Longrightarrow> delete_where p rows = delete_where q rows'"
  by (auto simp: delete_where_def intro: filter_cong)

lemma in_owned:
  "v \<in> set (works_of a d) \<longleftrightarrow> (\<exists>w \<in> set (work_items d). wi_id w = v \<and> wi_actor w = a)"
  "v \<in> set (events_of a d) \<longleftrightarrow> (\<exists>e \<in> set (events d). ev_id e = v \<and> ev_actor e = a)"
  "v \<in> set (runs_of a d) \<longleftrightarrow> (\<exists>r \<in> set (runs d). rn_id r = v \<and> rn_actor r = a)"
  "v \<in> set (outbox_owned a d) \<longleftrightarrow> (\<exists>o1 \<in> set (outbox d). ob_id o1 = v \<and> ob_actor o1 = a)"
  "v \<in> set (requests_of a d) \<longleftrightarrow> (\<exists>l \<in> set (local_requests d). lr_id l = v \<and> lr_actor l = a)"
  by (auto simp: works_of_def events_of_def runs_of_def outbox_owned_def requests_of_def)

text \<open>In a database whose rows agree on their owner a row of another actor has no parent of the actor.\<close>

lemma work_owner:
  assumes "same_owner wi_id wi_actor (work_items d) f act rows" and "r \<in> set rows" and "f r = Some v"
  shows "v \<in> set (works_of a d) \<Longrightarrow> act r = a"
  using same_ownerD[OF assms(1,2)] assms(3) by (auto simp: in_owned)

lemma run_owner:
  assumes "same_owner rn_id rn_actor (runs d) f act rows" and "r \<in> set rows" and "f r = Some v"
  shows "v \<in> set (runs_of a d) \<Longrightarrow> act r = a"
  using same_ownerD[OF assms(1,2)] assms(3) by (auto simp: in_owned)

lemma event_owner:
  assumes "same_owner ev_id ev_actor (events d) f act rows" and "r \<in> set rows" and "f r = Some v"
  shows "v \<in> set (events_of a d) \<Longrightarrow> act r = a"
  using same_ownerD[OF assms(1,2)] assms(3) by (auto simp: in_owned)

lemma outbox_owner:
  assumes "same_owner ob_id ob_actor (outbox d) f act rows" and "r \<in> set rows" and "f r = Some v"
  shows "v \<in> set (outbox_owned a d) \<Longrightarrow> act r = a"
  using same_ownerD[OF assms(1,2)] assms(3) by (auto simp: in_owned)

lemma well_owned_works:
  assumes "well_owned d"
  shows "same_owner wi_id wi_actor (work_items d) (\<lambda>r. Some (rn_work r)) rn_actor (runs d)"
    and "same_owner wi_id wi_actor (work_items d) ev_work ev_actor (events d)"
    and "same_owner wi_id wi_actor (work_items d) (\<lambda>m. Some (rm_work m)) rm_actor (recent d)"
    and "same_owner wi_id wi_actor (work_items d) (\<lambda>o1. Some (ob_work o1)) ob_actor (outbox d)"
    and "same_owner wi_id wi_actor (work_items d) lr_work lr_actor (local_requests d)"
  using assms unfolding well_owned_def by simp_all

lemma well_owned_others:
  assumes "well_owned d"
  shows "same_owner rn_id rn_actor (runs d) (\<lambda>m. Some (rm_run m)) rm_actor (recent d)"
    and "same_owner rn_id rn_actor (runs d) (\<lambda>o1. Some (ob_run o1)) ob_actor (outbox d)"
    and "same_owner ob_id ob_actor (outbox d) (\<lambda>w. Some (dw_outbox w)) dw_actor (deferred d)"
    and "same_owner ev_id ev_actor (events d) (\<lambda>l. Some (lr_event l)) lr_actor (local_requests d)"
  using assms unfolding well_owned_def by simp_all

lemma gone_runs_owned:
  assumes "well_owned d" and "r \<in> set (runs d)"
  shows "(rn_actor r = a \<or> rn_work r \<in> set (works_of a d)) = (rn_actor r = a)"
  using work_owner[OF well_owned_works(1)[OF assms(1)] assms(2)] by auto

lemma gone_runs_eq: "well_owned d \<Longrightarrow> gone_runs a d = runs_of a d"
  unfolding gone_runs_def runs_of_def by (intro arg_cong[where f = "map rn_id"] filter_cong refl gone_runs_owned)

lemma gone_outbox_row_eq:
  assumes "well_owned d" and "o1 \<in> set (outbox d)"
  shows "gone_outbox_row a d o1 = (ob_actor o1 = a)"
  using work_owner[OF well_owned_works(4)[OF assms(1)] assms(2)] run_owner[OF well_owned_others(2)[OF assms(1)] assms(2)]
  unfolding gone_outbox_row_def gone_runs_eq[OF assms(1)] by auto

lemma gone_outbox_eq: "well_owned d \<Longrightarrow> gone_outbox a d = outbox_owned a d"
  unfolding gone_outbox_def outbox_owned_def by (intro arg_cong[where f = "map ob_id"] filter_cong refl gone_outbox_row_eq)

lemma gone_recent_owned:
  assumes "well_owned d" and "m \<in> set (recent d)"
  shows "(rm_actor m = a \<or> rm_work m \<in> set (works_of a d) \<or> rm_run m \<in> set (runs_of a d)) = (rm_actor m = a)"
  using work_owner[OF well_owned_works(3)[OF assms(1)] assms(2)] run_owner[OF well_owned_others(1)[OF assms(1)] assms(2)]
  by auto

lemma gone_deferred_owned:
  assumes "well_owned d" and "w \<in> set (deferred d)"
  shows "(dw_actor w = a \<or> dw_outbox w \<in> set (gone_outbox a d)) = (dw_actor w = a)"
  using outbox_owner[OF well_owned_others(3)[OF assms(1)] assms(2)] unfolding gone_outbox_eq[OF assms(1)] by auto

text \<open>A run event of an event of the actor is one of a run of the actor.\<close>

lemma run_event_owned:
  assumes "well_owned d" and "core_references d" and "e \<in> set (run_events d)"
  shows "(re_run e \<in> set (runs_of a d) \<or> re_event e \<in> set (events_of a d)) = (re_run e \<in> set (runs_of a d))"
proof -
  obtain r where r: "r \<in> set (runs d)" "rn_id r = re_run e"
    using assms(2,3) by (auto simp: core_references_def names_iff)
  have "same_owner ev_id ev_actor (events d) (\<lambda>(e, r). Some (re_event e)) (\<lambda>(e, r). rn_actor r)
      (inner_join (\<lambda>e r. rn_id r = re_run e) (run_events d) (runs d))"
    using assms(1) by (simp add: well_owned_def)
  from event_owner[OF this, of "(e, r)" "re_event e" a]
  have "re_event e \<in> set (events_of a d) \<Longrightarrow> rn_actor r = a" using r assms(3) by simp
  then show ?thesis using r by (auto simp: in_owned)
qed

text \<open>The steps before the cascade leave the tables it looks at.\<close>

lemma cascade_frame:
  "delete_actor_cascading a (d\<lparr>actor_deletions := ds, gateway_deliveries := gs, outbox_deliveries := os,
       cancel_targets := cs, quarantine := qs, outbox_archive := xs, bundles := bs, local_requests := ls\<rparr>) =
   (delete_actor_cascading a d)\<lparr>gateway_deliveries := gs, outbox_deliveries := os, cancel_targets := cs, quarantine := qs,
       outbox_archive := xs, bundles := bs, local_requests := ls, actor_deletions := delete_where (\<lambda>x. dl_actor x = a) ds\<rparr>"
  by (intro db.equality)
     (simp_all add: delete_actor_cascading_def gone_outbox_def gone_outbox_row_def[abs_def] gone_runs_def
        works_of_def events_of_def)

lemma owned_frame [simp]:
  "works_of a (d\<lparr>actor_deletions := ds, gateway_deliveries := gs, outbox_deliveries := os, cancel_targets := cs\<rparr>) = works_of a d"
  "events_of a (d\<lparr>actor_deletions := ds, gateway_deliveries := gs, outbox_deliveries := os, cancel_targets := cs\<rparr>) = events_of a d"
  "runs_of a (d\<lparr>actor_deletions := ds, gateway_deliveries := gs, outbox_deliveries := os, cancel_targets := cs\<rparr>) = runs_of a d"
  "attempts_of a (d\<lparr>actor_deletions := ds, gateway_deliveries := gs, outbox_deliveries := os, cancel_targets := cs\<rparr>) = attempts_of a d"
  "outbox_owned a (d\<lparr>actor_deletions := ds\<rparr>) = outbox_owned a d"
  "outbox_owned a (d\<lparr>actor_deletions := ds, gateway_deliveries := gs\<rparr>) = outbox_owned a d"
  "requests_of a (d\<lparr>actor_deletions := ds, gateway_deliveries := gs, outbox_deliveries := os\<rparr>) = requests_of a d"
  "requests_of a (d\<lparr>actor_deletions := ds, gateway_deliveries := gs, outbox_deliveries := os, cancel_targets := cs,
      quarantine := qs, outbox_archive := xs\<rparr>) = requests_of a d"
  by (simp_all add: works_of_def events_of_def runs_of_def attempts_of_def outbox_owned_def requests_of_def)

lemma quarantined_frame [simp]:
  "quarantined_for a (d\<lparr>actor_deletions := ds, gateway_deliveries := gs, outbox_deliveries := os, cancel_targets := cs\<rparr>) =
   quarantined_for a d"
  by (rule ext) (simp add: quarantined_for_def split: legacy_entity.split)

lemma source_owned: "(case s of None \<Rightarrow> False | Some v \<Rightarrow> v \<in> set vs) = (s \<in> Some ` set vs)"
  by (cases s) auto

lemma outbox_deliveries_deletable:
  assumes "r \<in> set (filter (\<lambda>r. od_outbox r \<in> set (outbox_owned a d)) rows)"
  shows "deletable (d\<lparr>actor_deletions := [\<lparr>dl_actor = a, dl_requested = now\<rparr>], gateway_deliveries := gs\<rparr>) r"
  using assms by (auto simp: deletable_def list_ex_iff in_owned intro!: bexI[of _ "(_, _)"])

lemma force_delete_owned:
  assumes "well_owned d" and "references_hold d" and "actor_deletions d = []"
  shows "force_delete a now d = Inr (without_actor a d)"
proof -
  have core: "core_references d" using assms(2) by (simp add: references_hold_def)
  have cascade: "delete_actor_cascading a d = (without_actor a d)
      \<lparr>local_requests := local_requests d, bundles := bundles d, outbox_deliveries := outbox_deliveries d,
       cancel_targets := cancel_targets d, gateway_deliveries := gateway_deliveries d, quarantine := quarantine d,
       outbox_archive := outbox_archive d\<rparr>"
    using assms(3)
    by (intro db.equality)
       (simp_all add: delete_actor_cascading_def without_actor_def gone_runs_owned[OF assms(1)]
        gone_outbox_row_eq[OF assms(1)] gone_recent_owned[OF assms(1)] gone_deferred_owned[OF assms(1)] run_event_owned[OF assms(1) core]
        gone_runs_eq[OF assms(1)] cong: delete_where_cong)
  have only: "delete_where (\<lambda>x. dl_actor x = a) [\<lparr>dl_actor = a, dl_requested = now\<rparr>] = []"
    by (simp add: delete_where_def)
  have ok: "list_all (deletable (d\<lparr>actor_deletions := [\<lparr>dl_actor = a, dl_requested = now\<rparr>], gateway_deliveries := gs\<rparr>))
      (filter (\<lambda>r. od_outbox r \<in> set (outbox_owned a d)) (outbox_deliveries d))" for gs
    using outbox_deliveries_deletable by (simp only: list_all_iff) blast
  show ?thesis
    unfolding force_delete_def request_deletion_def delete_gateway_deliveries_def delete_outbox_deliveries_def
      delete_cancel_targets_def delete_legacy_def delete_requests_def Let_def
    using assms(3)
    by (simp add: insert_unique_def ok only cascade_frame cascade source_owned)
       (intro db.equality; simp add: without_actor_def)
qed

text \<open>A reference survives when no remaining row names a parent that goes.\<close>

lemma names_retained:
  assumes "names k (map key parents) rows"
    and "\<And>r p. r \<in> set rows \<Longrightarrow> p \<in> set parents \<Longrightarrow> key p = k r \<Longrightarrow> P p \<Longrightarrow> q r"
  shows "names k (map key (delete_where P parents)) (delete_where q rows)"
  using assms unfolding names_iff by (fastforce simp: image_iff)

lemma names_if_retained:
  assumes "names_if k (map key parents) rows"
    and "\<And>r p. r \<in> set rows \<Longrightarrow> p \<in> set parents \<Longrightarrow> k r = Some (key p) \<Longrightarrow> P p \<Longrightarrow> q r"
  shows "names_if k (map key (delete_where P parents)) (delete_where q rows)"
  using assms unfolding names_if_iff by (fastforce simp: image_iff)

lemma same_owner_goes:
  assumes "same_owner key own parents f act rows" and "r \<in> set rows" and "p \<in> set parents" and "f r = Some (key p)" and "own p = a"
  shows "act r = a"
  using same_ownerD[OF assms(1-4)] assms(5) by simp

lemma without_actor_tables:
  "actors (without_actor a d) = delete_where (\<lambda>r. ac_id r = a) (actors d)"
  "identities (without_actor a d) = delete_where (\<lambda>i. id_actor i = a) (identities d)"
  "work_items (without_actor a d) = delete_where (\<lambda>w. wi_actor w = a) (work_items d)"
  "events (without_actor a d) = delete_where (\<lambda>e. ev_actor e = a) (events d)"
  "leases (without_actor a d) = delete_where (\<lambda>l. al_actor l = a) (leases d)"
  "runs (without_actor a d) = delete_where (\<lambda>r. rn_actor r = a) (runs d)"
  "run_events (without_actor a d) = delete_where (\<lambda>r. re_run r \<in> set (runs_of a d)) (run_events d)"
  "recent (without_actor a d) = delete_where (\<lambda>m. rm_actor m = a) (recent d)"
  "attempts (without_actor a d) = delete_where (\<lambda>t. ta_run t \<in> set (runs_of a d)) (attempts d)"
  "artifacts (without_actor a d) = delete_where (\<lambda>f. af_actor f = a) (artifacts d)"
  "local_requests (without_actor a d) = delete_where (\<lambda>l. lr_actor l = a) (local_requests d)"
  "bundles (without_actor a d) = delete_where (\<lambda>b. rb_request b \<in> set (requests_of a d)) (bundles d)"
  "outbox (without_actor a d) = delete_where (\<lambda>o1. ob_actor o1 = a) (outbox d)"
  "outbox_deliveries (without_actor a d) = delete_where (\<lambda>r. od_outbox r \<in> set (outbox_owned a d)) (outbox_deliveries d)"
  "cancel_targets (without_actor a d) = delete_where (\<lambda>c. ct_request c \<in> set (requests_of a d)) (cancel_targets d)"
  "link_codes (without_actor a d) = delete_where (\<lambda>c. lc_actor c = a) (link_codes d)"
  "gateway_deliveries (without_actor a d) = delete_where (\<lambda>g. gd_source g \<in> Some ` set (outbox_owned a d)) (gateway_deliveries d)"
  "gateway_streams (without_actor a d) = delete_where (\<lambda>s. gs_work s \<in> set (works_of a d)) (gateway_streams d)"
  "receipts (without_actor a d) = delete_where (\<lambda>w. wr_event w \<in> set (events_of a d)) (receipts d)"
  "latest_routes (without_actor a d) = delete_where (\<lambda>r. tr_actor r = a) (latest_routes d)"
  "deferred (without_actor a d) = delete_where (\<lambda>w. dw_actor w = a) (deferred d)"
  "quarantine (without_actor a d) = delete_where (quarantined_for a d) (quarantine d)"
  "outbox_archive (without_actor a d) = delete_where (\<lambda>x. ax_actor x = a) (outbox_archive d)"
  by (simp_all add: without_actor_def)

lemmas owner_goes = well_owned_works[THEN same_owner_goes] well_owned_others[THEN same_owner_goes]

lemma core_references_kept:
  assumes "well_owned d" and "core_references d"
  shows "core_references (without_actor a d)"
proof -
  have "names re_event (map ev_id (delete_where (\<lambda>e. ev_actor e = a) (events d)))
      (delete_where (\<lambda>r. re_run r \<in> set (runs_of a d)) (run_events d))"
  proof (rule names_retained)
    show "names re_event (map ev_id (events d)) (run_events d)" using assms(2) by (simp add: core_references_def)
    fix r p
    assume "r \<in> set (run_events d)" and "p \<in> set (events d)" and "ev_id p = re_event r" and "ev_actor p = a"
    then show "re_run r \<in> set (runs_of a d)"
      using run_event_owned[OF assms, of r a] in_owned(2)[of "re_event r" a d] by blast
  qed
  then show ?thesis
    using assms(2) unfolding core_references_def without_actor_tables
    by (elim conjE, intro conjI)
       (assumption | (erule names_retained names_if_retained, auto simp: in_owned dest: owner_goes[OF assms(1)])[1])+
qed

lemma artifact_attempt_goes:
  assumes "well_owned d" and "f \<in> set (artifacts d)" and "t \<in> set (attempts d)"
    and "af_attempt f = Some (ta_id t)" and "ta_run t \<in> set (runs_of a d)"
  shows "af_actor f = a"
proof -
  obtain r where r: "r \<in> set (runs d)" "rn_id r = ta_run t" "rn_actor r = a" using assms(5) by (auto simp: in_owned)
  have "same_owner (\<lambda>(t, r). ta_id t) (\<lambda>(t, r). rn_actor r) (inner_join (\<lambda>t r. rn_id r = ta_run t) (attempts d) (runs d))
      af_attempt af_actor (artifacts d)"
    using assms(1) by (simp add: well_owned_def)
  from same_ownerD[OF this assms(2), of "(t, r)"] show ?thesis using r assms(3,4) by simp
qed

lemma bundle_owner_goes:
  assumes "b \<in> set (bundles d)" and "rb_request b \<in> set (requests_of a d)"
    and "same_owner (\<lambda>(b, l). rb_id b) (\<lambda>(b, l). lr_actor l)
       (inner_join (\<lambda>b l. lr_id l = rb_request b) (bundles d) (local_requests d)) f act rows"
    and "r \<in> set rows" and "f r = Some (rb_id b)"
  shows "act r = a"
proof -
  obtain l where l: "l \<in> set (local_requests d)" "lr_id l = rb_request b" "lr_actor l = a" using assms(2) by (auto simp: in_owned)
  from same_ownerD[OF assms(3,4), of "(b, l)"] show ?thesis using l assms(1,5) by simp
qed

lemma outbox_delivery_goes:
  assumes "well_owned d" and "serve_references d" and "r \<in> set (outbox_deliveries d)"
    and "b \<in> set (bundles d)" and "rb_id b = od_bundle r" and "rb_request b \<in> set (requests_of a d)"
  shows "od_outbox r \<in> set (outbox_owned a d)"
proof -
  obtain o1 where o1: "o1 \<in> set (outbox d)" "ob_id o1 = od_outbox r"
    using assms(2,3) by (auto simp: serve_references_def names_iff)
  have own: "same_owner (\<lambda>(b, l). rb_id b) (\<lambda>(b, l). lr_actor l)
       (inner_join (\<lambda>b l. lr_id l = rb_request b) (bundles d) (local_requests d))
       (\<lambda>(r, o1). Some (od_bundle r)) (\<lambda>(r, o1). ob_actor o1)
       (inner_join (\<lambda>r o1. ob_id o1 = od_outbox r) (outbox_deliveries d) (outbox d))"
    using assms(1) by (simp add: well_owned_def)
  from bundle_owner_goes[OF assms(4,6) own, of "(r, o1)"] have "ob_actor o1 = a" using o1 assms(3,5) by simp
  then show ?thesis using o1 by (auto simp: in_owned)
qed

lemma serve_references_kept:
  assumes "well_owned d" and "serve_references d"
  shows "serve_references (without_actor a d)"
proof -
  have own: "same_owner (\<lambda>(b, l). rb_id b) (\<lambda>(b, l). lr_actor l)
       (inner_join (\<lambda>b l. lr_id l = rb_request b) (bundles d) (local_requests d)) lr_bundle lr_actor (local_requests d)"
    using assms(1) by (simp add: well_owned_def)
  have a1: "names_if af_attempt (map ta_id (delete_where (\<lambda>t. ta_run t \<in> set (runs_of a d)) (attempts d)))
      (delete_where (\<lambda>f. af_actor f = a) (artifacts d))"
    by (rule names_if_retained) (use assms(2) artifact_attempt_goes[OF assms(1)] in \<open>simp_all add: serve_references_def\<close>)
  have a2: "names_if lr_bundle (map rb_id (delete_where (\<lambda>b. rb_request b \<in> set (requests_of a d)) (bundles d)))
      (delete_where (\<lambda>l. lr_actor l = a) (local_requests d))"
    by (rule names_if_retained) (use assms(2) bundle_owner_goes[OF _ _ own] in \<open>simp_all add: serve_references_def\<close>)
  have a3: "names od_bundle (map rb_id (delete_where (\<lambda>b. rb_request b \<in> set (requests_of a d)) (bundles d)))
      (delete_where (\<lambda>r. od_outbox r \<in> set (outbox_owned a d)) (outbox_deliveries d))"
    by (rule names_retained) (use assms(2) outbox_delivery_goes[OF assms] in \<open>simp_all add: serve_references_def\<close>)
  show ?thesis
    using assms(2) a1 a2 a3 unfolding serve_references_def without_actor_tables
    by (elim conjE, intro conjI)
       (assumption | (erule names_retained names_if_retained, auto simp: in_owned dest: owner_goes[OF assms(1)])[1])+
qed

lemma references_kept:
  assumes "well_owned d" and "references_hold d" and "actor_deletions d = []"
  shows "references_hold (without_actor a d)"
proof -
  have "core_references d" "serve_references d" and rest: "names lc_actor (map ac_id (actors d)) (link_codes d)"
    "gateway_references d" "webhook_references d"
    using assms(2) by (simp_all add: references_hold_def)
  then have "core_references (without_actor a d)" "serve_references (without_actor a d)"
    using core_references_kept[OF assms(1)] serve_references_kept[OF assms(1)] by simp_all
  moreover have "names lc_actor (map ac_id (actors (without_actor a d))) (link_codes (without_actor a d))"
    using rest(1) unfolding without_actor_tables by (rule names_retained) simp
  moreover have "gateway_references (without_actor a d)"
    using rest(2) unfolding gateway_references_def without_actor_tables
    by (elim conjE, intro conjI) ((erule names_retained names_if_retained, auto simp: in_owned inj_image_mem_iff)[1])+
  moreover have "webhook_references (without_actor a d)"
    using rest(3) unfolding webhook_references_def without_actor_tables
    by (elim conjE, intro conjI)
       ((erule names_retained names_if_retained, auto simp: in_owned dest: owner_goes[OF assms(1)])[1])+
  moreover have "names dl_actor (map ac_id (actors (without_actor a d))) (actor_deletions (without_actor a d))"
    using assms(3) by (simp add: without_actor_def names_def)
  ultimately show ?thesis by (simp add: references_hold_def)
qed

section \<open>Deletion and grants\<close>

text \<open>
  C18. A forced deletion of a disabled actor with no work under way and no delivery open succeeds,
  whatever else the database holds: no foreign key and no trigger stands in its way. It reports the
  files of the actor's artifacts, removes exactly the rows that belong to the actor, leaves every
  row of the others, and leaves no reference dangling.
\<close>

theorem forced_deletion_complete:
  assumes "well_owned d" and "references_hold d" and "actor_deletions d = []"
    and "actor_row_of d a = Some r" and "\<not> ac_enabled r" and "\<not> has_active_work a d" and "\<not> unresolved_delivery a d"
  shows "delete_actor a ForceDelete now d = Inr (DoDeleted (artifact_paths a d), without_actor a d)
    \<and> references_hold (without_actor a d)"
  using assms references_kept[OF assms(1-3), of a]
  by (simp_all add: delete_actor_def force_delete_owned commit_checked_def)

section \<open>What administration keeps\<close>

lemma admin_plumbing [tx_simps]:
  "snd (areturn r s) = s"
  "as_db (snd (notify_if b s)) = as_db s"
  "snd (admin_details x a s) = s"
  by (simp_all add: areturn_def notify_if_def notify_def admin_details_def)

lemma in_store_db: "as_db (snd (in_store f s)) = commit_state (as_db s) (f (as_db s))"
  by (auto simp: in_store_def split: sum.splits prod.splits)

text \<open>What a command does to the database is what its store operation does.\<close>

definition admin_effect :: "ext \<Rightarrow> administration \<Rightarrow> timestamp \<Rightarrow> admin_command \<Rightarrow> db \<Rightarrow> db" where
  "admin_effect x adm now cmd d =
     (case cmd of
        AcCreate a \<Rightarrow> commit_state d (create_actor x a now d)
      | AcEnable a \<Rightarrow> commit_state d (set_actor_enabled x a True d)
      | AcDisable a \<Rightarrow> if a = adm_default adm then d else commit_state d (set_actor_enabled x a False d)
      | AcDelete a forced \<Rightarrow>
          if a = adm_default adm then d else commit_state d (delete_actor a (if forced then ForceDelete else EmptyOnly) now d)
      | AcToolsGrant a tool \<Rightarrow> if tool \<in> set (adm_known adm) then commit_state d (grant_actor_tool x a tool d) else d
      | AcToolsRevoke a tool \<Rightarrow> if tool \<in> set (adm_known adm) then commit_state d (revoke_actor_tool x a tool d) else d
      | _ \<Rightarrow> d)"

lemma abind_db:
  assumes "\<And>v s1. m s = (Inr v, s1) \<Longrightarrow> as_db (snd (k v s1)) = as_db s1"
  shows "as_db (snd (abind m k s)) = as_db (snd (m s))"
  using assms by (auto simp: abind_def split: prod.splits sum.splits)

lemma shown_db: "as_db (snd (abind (admin_details x a) (\<lambda>ad. areturn (f ad)) s)) = as_db s"
  by (auto simp: abind_def admin_details_def areturn_def split: sum.splits)

lemma answering_db:
  "as_db (snd (abind (notify_if b) (\<lambda>_. abind (admin_details x a) (\<lambda>ad. areturn (f ad))) s)) = as_db s"
  by (subst abind_db) (simp_all add: shown_db tx_simps)

lemma found_db:
  "as_db (snd (abind (in_store f) (\<lambda>found. abind (areturn (g found)) (\<lambda>out.
      abind (notify_if (b out)) (\<lambda>_. abind (admin_details x a) (\<lambda>ad. areturn (h ad out))))) s)) =
   commit_state (as_db s) (f (as_db s))"
proof -
  have "as_db (snd (abind (areturn (g found)) (\<lambda>out.
      abind (notify_if (b out)) (\<lambda>_. abind (admin_details x a) (\<lambda>ad. areturn (h ad out)))) s1)) = as_db s1" for found s1
    by (subst abind_db) (simp_all add: answering_db tx_simps)
  then show ?thesis by (subst abind_db) (simp_all add: in_store_db)
qed

lemma removed_db: "as_db (snd (admin_removed adm a forced paths s)) = as_db s"
  by (auto simp: admin_removed_def abind_def notify_def areturn_def split: sum.splits)

lemma execute_admin_db: "as_db (snd (execute_admin x adm now cmd s)) = admin_effect x adm now cmd (as_db s)"
proof (cases cmd)
  case (AcCreate a)
  have "as_db (snd (admin_create x a now s)) = commit_state (as_db s) (create_actor x a now (as_db s))"
    unfolding admin_create_def Let_def by (subst abind_db) (simp_all add: answering_db in_store_db)
  then show ?thesis using AcCreate by (simp add: execute_admin_def admin_effect_def)
next
  case (AcDelete a forced)
  have "as_db (snd (abind (in_store f) (\<lambda>out. case out of DoDeleted paths \<Rightarrow> admin_removed adm a forced paths
      | DoNotFound \<Rightarrow> areturn e1 | DoNonempty \<Rightarrow> areturn e2 | DoBusy \<Rightarrow> areturn e3 | DoUnresolvedDelivery \<Rightarrow> areturn e4) s))
      = commit_state (as_db s) (f (as_db s))" for f e1 e2 e3 e4
    by (subst abind_db) (auto simp: in_store_db removed_db tx_simps split: delete_outcome.splits)
  then show ?thesis using AcDelete by (simp add: execute_admin_def admin_effect_def admin_delete_def tx_simps)
qed (simp_all add: execute_admin_def admin_effect_def admin_set_enabled_def admin_mutate_tool_def found_db
      shown_db tx_simps)

definition enabled_actor :: "db \<Rightarrow> actor_id \<Rightarrow> bool" where
  "enabled_actor d a \<longleftrightarrow> (\<exists>r. actor_row_of d a = Some r \<and> ac_enabled r)"

lemma create_keeps_enabled: "enabled_actor d b \<Longrightarrow> enabled_actor (commit_state d (create_actor x a now d)) b"
  by (cases "create_actor x a now d")
     (auto simp: create_actor_def Let_def ebind_eq_Inr enabled_actor_def actor_row_of_def find_append
       split: if_splits option.splits)

lemma set_enabled_keeps_enabled:
  assumes "enabled_actor d b" and "enabled \<or> a \<noteq> b"
  shows "enabled_actor (commit_state d (set_actor_enabled x a enabled d)) b"
proof (cases "set_actor_enabled x a enabled d")
  case (Inr res)
  then obtain out d' where res: "set_actor_enabled x a enabled d = Inr (out, d')" by (cases res) auto
  let ?f = "\<lambda>r. r\<lparr>ac_enabled := enabled\<rparr>"
  have "actors d' = actors d \<or> actors d' = update_where (\<lambda>r. ac_id r = a) ?f (actors d)"
    using res by (auto simp: set_actor_enabled_def Let_def ebind_eq_Inr split: option.splits if_splits)
  moreover have "actor_row_of (d\<lparr>actors := update_where (\<lambda>r. ac_id r = a) ?f (actors d)\<rparr>) b
      = map_option (if b = a then ?f else id) (actor_row_of d b)"
    by (simp add: actor_row_of_def find_update_where)
  ultimately show ?thesis using assms res by (auto simp: enabled_actor_def actor_row_of_def)
qed (use assms(1) in simp)

lemma mutate_tools_keeps_enabled:
  assumes "enabled_actor d b"
  shows "enabled_actor (commit_state d (mutate_actor_tools x a tool grant d)) b"
proof (cases "mutate_actor_tools x a tool grant d")
  case (Inr res)
  then obtain out d' where res: "mutate_actor_tools x a tool grant d = Inr (out, d')" by (cases res) auto
  then have "actors d' = actors d \<or> (\<exists>v. actors d' = update_where (\<lambda>r. ac_id r = a) (\<lambda>r. r\<lparr>ac_tools := v\<rparr>) (actors d))"
    by (auto simp: mutate_actor_tools_def Let_def ebind_eq_Inr split: option.splits if_splits)
  moreover have "actor_row_of (d\<lparr>actors := update_where (\<lambda>r. ac_id r = a) (\<lambda>r. r\<lparr>ac_tools := v\<rparr>) (actors d)\<rparr>) b
      = map_option (if b = a then (\<lambda>r. r\<lparr>ac_tools := v\<rparr>) else id) (actor_row_of d b)" for v
    by (simp add: actor_row_of_def find_update_where)
  ultimately show ?thesis using assms res by (auto simp: enabled_actor_def actor_row_of_def)
qed (use assms in simp)

lemma force_delete_actors:
  assumes "force_delete a now d = Inr d'"
  shows "actors d' = delete_where (\<lambda>r. ac_id r = a) (actors d)"
  using assms
  by (auto simp: force_delete_def request_deletion_def delete_gateway_deliveries_def delete_outbox_deliveries_def Let_def
      delete_cancel_targets_def delete_legacy_def delete_requests_def delete_actor_cascading_def ebind_eq_Inr split: if_splits)

lemma delete_keeps_others:
  assumes "b \<noteq> a"
  shows "actor_row_of (commit_state d (delete_actor a mode now d)) b = actor_row_of d b"
proof -
  have other: "List.find (\<lambda>r. ac_id r = b) (delete_where (\<lambda>r. ac_id r = a) rows) = List.find (\<lambda>r. ac_id r = b) rows" for rows
    by (rule find_delete_where) (use assms in simp)
  have "actors (commit_state d (delete_actor a mode now d)) \<in> {actors d, delete_where (\<lambda>r. ac_id r = a) (actors d)}"
    by (cases "force_delete a now d")
       (auto simp: delete_actor_def commit_checked_def delete_actor_cascading_def dest: force_delete_actors
         split: option.splits if_splits)
  then show ?thesis using other by (auto simp: actor_row_of_def)
qed

lemma effect_keeps_default:
  assumes "enabled_actor d (adm_default adm)"
  shows "enabled_actor (admin_effect x adm now cmd d) (adm_default adm)"
  using assms create_keeps_enabled set_enabled_keeps_enabled mutate_tools_keeps_enabled
  by (auto simp: admin_effect_def grant_actor_tool_def revoke_actor_tool_def split: admin_command.split)
     (simp_all add: enabled_actor_def delete_keeps_others)

text \<open>
  C29. No sequence of administration commands disables or deletes the default actor.
\<close>

theorem default_actor_kept:
  assumes "enabled_actor (as_db s) (adm_default adm)"
  shows "enabled_actor (as_db (foldl (\<lambda>s (now, cmd). snd (execute_admin x adm now cmd s)) s cmds)) (adm_default adm)"
  using assms by (induction cmds arbitrary: s) (auto simp: execute_admin_db effect_keeps_default)

text \<open>Tool sets: sorted, without repetition, and determined by their members.\<close>

definition tools_roundtrip :: "ext \<Rightarrow> bool" where
  "tools_roundtrip x \<longleftrightarrow> (\<forall>ts. read_tools x (write_tools x ts) = Inr ts)"

lemma tool_set_props [simp]: "set (tool_set ts) = set ts" "distinct (tool_set ts)" "sorted (tool_set ts)"
  by (simp_all add: tool_set_def sorted_remdups)

lemma tool_set_unique: "sorted xs \<Longrightarrow> distinct xs \<Longrightarrow> set xs = set ts \<Longrightarrow> xs = tool_set ts"
  by (intro sorted_distinct_set_unique) simp_all

lemma tool_set_grant [simp]: "tool_set (t # tool_set ts) = tool_set (t # ts)"
  by (rule tool_set_unique) simp_all

lemma tool_set_again [simp]: "tool_set (tool_set ts) = tool_set ts"
  by (rule tool_set_unique[symmetric]) simp_all

lemma tool_set_revoke: "t \<notin> set ts \<Longrightarrow> filter (\<lambda>u. u \<noteq> t) (tool_set (t # ts)) = tool_set ts"
  by (rule tool_set_unique) (auto intro: sorted_wrt_filter)

lemma actor_row_updated:
  assumes "actor_row_of d a = Some r" and "\<And>r. ac_id (f r) = ac_id r"
  shows "actor_row_of (d\<lparr>actors := update_where (\<lambda>r. ac_id r = a) f (actors d)\<rparr>) a = Some (f r)"
  using assms by (simp add: actor_row_of_def find_update_where)

lemma update_where_twice:
  "(\<And>r. p (f r) = p r) \<Longrightarrow> update_where p g (update_where p f rows) = update_where p (\<lambda>r. g (f r)) rows"
  by (auto simp: update_where_def)

text \<open>
  Granting a tool an actor does not have and revoking it gives back the tools it had. Both are
  reported as changes, granting it twice is not one, the answers and the stored text carry the tools
  in order and without repetition, and nothing else of any actor changes.
\<close>

theorem tool_grant_revoked:
  assumes "tools_roundtrip x" and "actor_row_of d a = Some r" and "read_tools x (ac_tools r) = Inr ts" and "t \<notin> set ts"
  shows "\<exists>d1. grant_actor_tool x a t d =
        Inr (Some \<lparr>mo_actor = \<lparr>ra_id = a, ra_enabled = ac_enabled r, ra_tools = tool_set (t # ts)\<rparr>, mo_changed = True\<rparr>, d1) \<and>
      grant_actor_tool x a t d1 =
        Inr (Some \<lparr>mo_actor = \<lparr>ra_id = a, ra_enabled = ac_enabled r, ra_tools = tool_set (t # ts)\<rparr>, mo_changed = False\<rparr>, d1) \<and>
      revoke_actor_tool x a t d1 =
        Inr (Some \<lparr>mo_actor = \<lparr>ra_id = a, ra_enabled = ac_enabled r, ra_tools = tool_set ts\<rparr>, mo_changed = True\<rparr>,
          d\<lparr>actors := update_where (\<lambda>r. ac_id r = a) (\<lambda>r. r\<lparr>ac_tools := write_tools x (tool_set ts)\<rparr>) (actors d)\<rparr>)"
proof -
  let ?upd = "\<lambda>tools r. r\<lparr>ac_tools := write_tools x tools\<rparr>"
  let ?d1 = "d\<lparr>actors := update_where (\<lambda>r. ac_id r = a) (?upd (tool_set (t # ts))) (actors d)\<rparr>"
  have rt: "read_tools x (write_tools x us) = Inr us" for us using assms(1) by (simp add: tools_roundtrip_def)
  have found: "actor_row_of ?d1 a = Some (?upd (tool_set (t # ts)) r)" by (rule actor_row_updated[OF assms(2)]) simp
  have tools: "tool_set (t # t # ts) = tool_set (t # ts)" by (rule tool_set_unique) simp_all
  have "grant_actor_tool x a t d =
      Inr (Some \<lparr>mo_actor = \<lparr>ra_id = a, ra_enabled = ac_enabled r, ra_tools = tool_set (t # ts)\<rparr>, mo_changed = True\<rparr>, ?d1)"
    using assms(2-4) by (simp add: grant_actor_tool_def mutate_actor_tools_def runtime_actor_of_def rt Let_def)
  moreover have "grant_actor_tool x a t ?d1 =
      Inr (Some \<lparr>mo_actor = \<lparr>ra_id = a, ra_enabled = ac_enabled r, ra_tools = tool_set (t # ts)\<rparr>, mo_changed = False\<rparr>, ?d1)"
    unfolding grant_actor_tool_def mutate_actor_tools_def found by (simp add: runtime_actor_of_def rt Let_def tools)
  moreover have "revoke_actor_tool x a t ?d1 =
      Inr (Some \<lparr>mo_actor = \<lparr>ra_id = a, ra_enabled = ac_enabled r, ra_tools = tool_set ts\<rparr>, mo_changed = True\<rparr>,
        d\<lparr>actors := update_where (\<lambda>r. ac_id r = a) (?upd (tool_set ts)) (actors d)\<rparr>)"
    unfolding revoke_actor_tool_def mutate_actor_tools_def found
    by (simp add: runtime_actor_of_def rt Let_def tool_set_revoke[OF assms(4)] update_where_twice)
  ultimately show ?thesis by blast
qed

section \<open>Witnesses\<close>

text \<open>Tools written as their number and their length-prefixed names.\<close>

definition tools_ext :: ext where
  "tools_ext = codec_ext\<lparr>write_tools := (\<lambda>ts. enc_text (show_nat (length ts)) @ concat (map enc_text ts)),
     read_tools := (\<lambda>t. if t = ''[]'' then Inr [] else case dec_text t of (n, rest) \<Rightarrow> Inr (dec_texts (read_nat n) rest))\<rparr>"

lemma tools_ext_roundtrip: "tools_roundtrip tools_ext"
proof -
  have "hd (enc_text s @ t) \<noteq> CHR ''[''" for s t
  proof -
    have "show_nat (length s) \<noteq> []" by (simp add: show_nat.simps)
    then have "is_digit (hd (show_nat (length s)))" using show_nat_digits hd_in_set by blast
    moreover have "\<not> is_digit (CHR ''['')" by (simp add: is_digit_def)
    ultimately show ?thesis using \<open>show_nat (length s) \<noteq> []\<close> by (metis append_is_Nil_conv enc_text_def hd_append2)
  qed
  then have "enc_text s @ t \<noteq> ''[]''" for s t by (metis list.sel(1))
  then show ?thesis by (simp add: tools_roundtrip_def tools_ext_def dec_enc_texts)
qed

definition sample_owned :: db where
  "sample_owned = empty_db\<lparr>
     actors := [\<lparr>ac_id = ''a'', ac_enabled = False, ac_tools = ''[]'', ac_next_seq = 1, ac_created = 0\<rparr>,
                \<lparr>ac_id = ''b'', ac_enabled = True, ac_tools = ''[]'', ac_next_seq = 0, ac_created = 0\<rparr>],
     identities := [\<lparr>id_provider = ''telegram'', id_subject = ''7'', id_actor = ''a'', id_username = None\<rparr>,
                    \<lparr>id_provider = ''telegram'', id_subject = ''8'', id_actor = ''b'', id_username = None\<rparr>],
     work_items := [\<lparr>wi_id = ''w'', wi_actor = ''a'', wi_kind = WkInteractive, wi_audience = ActorPrivate,
                      wi_state = WiCompleted, wi_failures = 0, wi_next_attempt = None, wi_last_error = None,
                      wi_cancel_at = None, wi_created = 0, wi_updated = 0\<rparr>],
     runs := [\<lparr>rn_id = ''r'', rn_actor = ''a'', rn_work = ''w'', rn_state = RunCompleted, rn_generation = 1,
                rn_observed = 0, rn_route = None, rn_policy = ActorTools, rn_source = None, rn_created = 0, rn_updated = 0\<rparr>],
     outbox := [\<lparr>ob_id = ''o'', ob_key = ''k'', ob_actor = ''a'', ob_work = ''w'', ob_run = ''r'', ob_class = ''final'',
                  ob_audience = ActorPrivate, ob_payload = [], ob_created = 0\<rparr>],
     gateway_deliveries := [\<lparr>gd_id = ''g'', gd_key = ''k'', gd_source = Some ''o'',
                  gd_route = \<lparr>dr_gateway = ''telegram'', dr_address = ''7'', dr_reply_to = None, dr_max_text = 9, dr_max_caption = 9\<rparr>,
                  gd_ordinal = 0, gd_payload = [], gd_state = GdDelivered, gd_attempts = 1, gd_next = None, gd_owner = None,
                  gd_expires = None, gd_remote = None, gd_error_class = None, gd_error = None, gd_retry_safe = False,
                  gd_created = 0, gd_updated = 0\<rparr>],
     artifacts := [\<lparr>af_id = ''f'', af_actor = ''a'', af_attempt = None, af_state = AfReferenced, af_path = ''/x'',
                  af_display = ''x'', af_media = ''y'', af_size = Some 1, af_sha256 = Some (replicate 64 CHR ''0''), af_owner = None,
                  af_expires = None, af_created = 0, af_updated = 0\<rparr>]\<rparr>"

theorem forced_deletion_complete_witness:
  "delete_actor ''a'' ForceDelete 9 sample_owned = Inr (DoDeleted [''/x''], without_actor ''a'' sample_owned)
   \<and> identities (without_actor ''a'' sample_owned)
       = [\<lparr>id_provider = ''telegram'', id_subject = ''8'', id_actor = ''b'', id_username = None\<rparr>]"
proof -
  have "well_owned sample_owned" by code_simp
  moreover have "references_hold sample_owned" by code_simp
  moreover have "actor_deletions sample_owned = []" by code_simp
  moreover have "actor_row_of sample_owned ''a'' =
      Some \<lparr>ac_id = ''a'', ac_enabled = False, ac_tools = ''[]'', ac_next_seq = 1, ac_created = 0\<rparr>" by code_simp
  moreover have "\<not> has_active_work ''a'' sample_owned" by code_simp
  moreover have "\<not> unresolved_delivery ''a'' sample_owned" by code_simp
  moreover have "artifact_paths ''a'' sample_owned = [''/x'']" by code_simp
  moreover have "identities (without_actor ''a'' sample_owned)
       = [\<lparr>id_provider = ''telegram'', id_subject = ''8'', id_actor = ''b'', id_username = None\<rparr>]" by code_simp
  ultimately show ?thesis using forced_deletion_complete [of sample_owned "''a''" _ 9] by auto
qed

definition sample_administration :: administration where
  "sample_administration = administration_new ''b'' [''bash''] (\<lambda>_. Inr ())"

definition sample_admin_state :: admin_state where
  "sample_admin_state = \<lparr>as_db = sample_owned, as_signal = 0, as_removed = []\<rparr>"

theorem default_actor_kept_witness:
  "enabled_actor (as_db (foldl (\<lambda>s (now, cmd). snd (execute_admin tools_ext sample_administration now cmd s)) sample_admin_state
     [(1, AcDisable ''b''), (2, AcDelete ''b'' True), (3, AcDelete ''a'' True)])) ''b''"
proof -
  have "adm_default sample_administration = ''b''" by (simp add: sample_administration_def administration_new_def)
  moreover have "enabled_actor (as_db sample_admin_state) ''b''"
    by (simp add: enabled_actor_def actor_row_of_def sample_admin_state_def sample_owned_def)
  ultimately show ?thesis using default_actor_kept [of sample_admin_state sample_administration] by metis
qed

theorem tool_grant_revoked_witness:
  "\<exists>d1. revoke_actor_tool tools_ext ''b'' ''bash'' d1 =
     Inr (Some \<lparr>mo_actor = \<lparr>ra_id = ''b'', ra_enabled = True, ra_tools = []\<rparr>, mo_changed = True\<rparr>,
       sample_owned\<lparr>actors := update_where (\<lambda>r. ac_id r = ''b'') (\<lambda>r. r\<lparr>ac_tools := write_tools tools_ext []\<rparr>) (actors sample_owned)\<rparr>)"
proof -
  have f: "actor_row_of sample_owned ''b'' =
      Some \<lparr>ac_id = ''b'', ac_enabled = True, ac_tools = ''[]'', ac_next_seq = 0, ac_created = 0\<rparr>" by code_simp
  have r: "read_tools tools_ext ''[]'' = Inr []" by (simp add: tools_ext_def)
  have e: "tool_set [] = []" by (simp add: tool_set_def)
  from tool_grant_revoked [OF tools_ext_roundtrip f, of "[]" "''bash''"] show ?thesis using r e by auto
qed

text \<open>
  An identifier with white space around it passes the protocol's check, is created trimmed, and
  the answer is then that it does not exist.
\<close>

lemma untrimmed_create_misreported:
  "fst (execute_admin tools_ext sample_administration 1 (AcCreate '' alice'') sample_admin_state) = Inl (no_such_actor '' alice'')
   \<and> actor_row_of (as_db (snd (execute_admin tools_ext sample_administration 1 (AcCreate '' alice'') sample_admin_state))) ''alice'' \<noteq> None"
  by code_simp

end
