(* ===== verification/Artifact_Store.thy ===== *)
theory Artifact_Store
  imports Attempts Payload_Codec
begin

text \<open>
  The rows of the artifacts, from \<open>runtime/sqlite/artifacts.rs\<close>. A tool's file is staged under a
  lease that the copying process renews, then committed together with the outcome of its attempt; a
  staging whose lease has lapsed is claimed and removed by the garbage collector. The \<open>u64\<close> sizes
  are naturals.
\<close>

section \<open>Staging\<close>

definition MAX_ACTOR_BYTES :: int where
  "MAX_ACTOR_BYTES = 2 * 1024 * 1024 * 1024"

definition MAX_ARTIFACT_BYTES :: int where
  "MAX_ARTIFACT_BYTES = 256 * 1024 * 1024"

record begin_artifact =
  ba_id :: artifact_id
  ba_actor :: actor_id
  ba_attempt :: attempt_id
  ba_path :: string
  ba_display :: string
  ba_media :: string
  ba_size :: nat
  ba_caption :: "string option"
  ba_owner :: string
  ba_until :: timestamp

record artifact_lease =
  sl_id :: artifact_id
  sl_actor :: actor_id
  sl_attempt :: attempt_id
  sl_path :: string
  sl_owner :: string
  sl_expires :: timestamp

record expired_artifact =
  ea_id :: artifact_id
  ea_path :: string
  ea_owner :: string

record referenced_artifact =
  rf_id :: artifact_id
  rf_path :: string
  rf_size :: nat
  rf_sha256 :: string

text \<open>The keys, the foreign keys and the check of \<open>INSERT INTO artifacts\<close>.\<close>

definition insert_artifact :: "artifact_row \<Rightarrow> db \<Rightarrow> error + db" where
  "insert_artifact r d =
     (if af_id r \<in> af_id ` set (artifacts d) \<or> af_path r \<in> af_path ` set (artifacts d)
      then Inl (Sql ''UNIQUE constraint failed'')
      else if af_actor r \<notin> ac_id ` set (actors d) \<or> (case af_attempt r of None \<Rightarrow> False | Some t \<Rightarrow> t \<notin> ta_id ` set (attempts d))
      then Inl (Sql ''FOREIGN KEY constraint failed'')
      else Inr (d\<lparr>artifacts := artifacts d @ [r]\<rparr>))"

definition begin_staging :: "begin_artifact \<Rightarrow> timestamp \<Rightarrow> db \<Rightarrow> artifact_lease tx" where
  "begin_staging c now d =
     (if MAX_ARTIFACT_BYTES < int (ba_size c) then Inl (Bail ''artifact exceeds the 256 MiB per-file limit'')
      else ebind (insert_artifact
             \<lparr>af_id = ba_id c, af_actor = ba_actor c, af_attempt = Some (ba_attempt c), af_state = AfStaging,
              af_path = ba_path c, af_display = ba_display c, af_media = ba_media c, af_size = Some (int (ba_size c)),
              af_sha256 = None, af_owner = Some (ba_owner c), af_expires = Some (ba_until c), af_created = now, af_updated = now\<rparr> d)
           (\<lambda>d1. Inr (\<lparr>sl_id = ba_id c, sl_actor = ba_actor c, sl_attempt = ba_attempt c, sl_path = ba_path c,
                       sl_owner = ba_owner c, sl_expires = ba_until c\<rparr>, d1)))"

definition staged_under :: "artifact_lease \<Rightarrow> artifact_row \<Rightarrow> bool" where
  "staged_under l r \<longleftrightarrow>
     af_id r = sl_id l \<and> af_state r = AfStaging \<and> af_owner r = Some (sl_owner l) \<and> af_expires r = Some (sl_expires l)"

definition renew_staging :: "artifact_lease \<Rightarrow> timestamp \<Rightarrow> db \<Rightarrow> artifact_lease tx" where
  "renew_staging l until d =
     ebind (require (changed (staged_under l) (artifacts d) = 1) (Bail ''stale artifact staging lease'')) (\<lambda>_.
       Inr (l\<lparr>sl_expires := until\<rparr>,
            d\<lparr>artifacts := update_where (staged_under l) (\<lambda>r. r\<lparr>af_expires := Some until, af_updated := until\<rparr>) (artifacts d)\<rparr>))"

section \<open>Committing an execution\<close>

definition artifact_run_valid :: "attached_run \<Rightarrow> timestamp \<Rightarrow> db \<Rightarrow> bool" where
  "artifact_run_valid run now d \<longleftrightarrow>
     list_ex (\<lambda>(r, l). rn_id r = ar_run run \<and> rn_work r = ar_work run \<and> rn_state r = RunActive
         \<and> al_actor l = ls_actor (ar_lease run) \<and> al_owner l = ls_owner (ar_lease run)
         \<and> al_generation l = ls_generation (ar_lease run) \<and> now \<le> al_expires l
         \<and> rn_generation r = ls_generation (ar_lease run))
       (inner_join (\<lambda>r l. al_actor l = rn_actor r) (runs d) (leases d))"

definition content_row :: "actor_id \<Rightarrow> string \<Rightarrow> nat \<Rightarrow> artifact_row \<Rightarrow> bool" where
  "content_row a sha n r \<longleftrightarrow>
     af_actor r = a \<and> af_state r = AfReferenced \<and> af_sha256 r = Some sha \<and> af_size r = Some (int n)"

definition retained_bytes :: "actor_id \<Rightarrow> db \<Rightarrow> int" where
  "retained_bytes a d =
     sum_list (map (\<lambda>r. case af_size r of None \<Rightarrow> 0 | Some n \<Rightarrow> n)
       (filter (\<lambda>r. af_actor r = a \<and> af_state r = AfReferenced) (artifacts d)))"

definition lease_covers :: "attached_run \<Rightarrow> attempt_id \<Rightarrow> managed_artifact \<Rightarrow> artifact_lease \<Rightarrow> timestamp \<Rightarrow> bool" where
  "lease_covers run attempt m l now \<longleftrightarrow>
     ma_id m = sl_id l \<and> sl_actor l = ls_actor (ar_lease run) \<and> sl_attempt l = attempt \<and> now \<le> sl_expires l"

definition staged_for :: "attempt_id \<Rightarrow> artifact_lease \<Rightarrow> artifact_row \<Rightarrow> bool" where
  "staged_for attempt l r \<longleftrightarrow> staged_under l r \<and> af_actor r = sl_actor l \<and> af_attempt r = Some attempt"

text \<open>The \<open>UPDATE\<close> that turns a staging into a referenced artifact, with the constraints it may break.\<close>

definition promote_artifact :: "managed_artifact \<Rightarrow> artifact_lease \<Rightarrow> timestamp \<Rightarrow> db \<Rightarrow> error + db" where
  "promote_artifact m l now d =
     (let p = (\<lambda>r. af_id r = sl_id l \<and> af_state r = AfStaging) in
      if list_ex (\<lambda>r. af_path r = ma_path m \<and> \<not> p r) (artifacts d) \<and> list_ex p (artifacts d)
      then Inl (Sql ''UNIQUE constraint failed'')
      else if (MAX_ARTIFACT_BYTES < int (ma_size m) \<or> length (ma_sha256 m) \<noteq> 64) \<and> list_ex p (artifacts d)
      then Inl (Sql ''CHECK constraint failed'')
      else ebind (require (changed p (artifacts d) = 1) (Bail ''artifact changed during commit'')) (\<lambda>_.
        Inr (d\<lparr>artifacts := update_where p
               (\<lambda>r. r\<lparr>af_state := AfReferenced, af_attempt := None, af_path := ma_path m, af_size := Some (int (ma_size m)),
                      af_sha256 := Some (ma_sha256 m), af_owner := None, af_expires := None, af_updated := now\<rparr>) (artifacts d)\<rparr>)))"

definition commit_artifact ::
    "ext \<Rightarrow> attached_run \<Rightarrow> attempt_id \<Rightarrow> timestamp \<Rightarrow> managed_artifact \<Rightarrow> artifact_lease \<Rightarrow> db \<Rightarrow> error + (managed_artifact \<times> db)" where
  "commit_artifact x run attempt now m l d =
     ebind (require (lease_covers run attempt m l now) (Bail ''invalid artifact staging lease'')) (\<lambda>_.
     ebind (require (list_ex (staged_for attempt l) (artifacts d)) (Bail ''stale artifact staging lease'')) (\<lambda>_.
       case List.find (content_row (sl_actor l) (ma_sha256 m) (ma_size m)) (artifacts d) of
         Some r \<Rightarrow>
           ebind (require (af_path r = ma_path m) (Bail ''referenced artifact has a non-canonical managed path'')) (\<lambda>_.
           ebind (from_option (Bail ''invalid UUID'') (parse_uuid x (af_id r))) (\<lambda>i.
             Inr (m\<lparr>ma_id := i, ma_path := af_path r\<rparr>,
                  d\<lparr>artifacts := delete_where (\<lambda>s. af_id s = sl_id l \<and> af_state s = AfStaging) (artifacts d)\<rparr>)))
       | None \<Rightarrow>
           ebind (require (sat_add (retained_bytes (sl_actor l) d) (int (ma_size m)) \<le> MAX_ACTOR_BYTES)
                    (Bail ''actor retained artifact quota exceeds 2 GiB'')) (\<lambda>_.
           ebind (promote_artifact m l now d) (\<lambda>d1. Inr (m, d1)))))"

fun commit_artifacts ::
    "ext \<Rightarrow> attached_run \<Rightarrow> attempt_id \<Rightarrow> timestamp \<Rightarrow> managed_artifact list \<Rightarrow> artifact_lease list \<Rightarrow> db
      \<Rightarrow> error + (managed_artifact list \<times> db)" where
  "commit_artifacts x run attempt now (m # ms) (l # ls) d =
     ebind (commit_artifact x run attempt now m l d) (\<lambda>(m', d1).
     ebind (commit_artifacts x run attempt now ms ls d1) (\<lambda>(ms', d2). Inr (m' # ms', d2)))"
| "commit_artifacts x run attempt now ms ls d = Inr (ms, d)"

text \<open>\<open>files\<close> is what the file system says of a path: the size of a regular file.\<close>

definition files_durable :: "(string \<Rightarrow> nat option) \<Rightarrow> managed_artifact list \<Rightarrow> bool" where
  "files_durable files ms \<longleftrightarrow> list_all (\<lambda>m. files (ma_path m) = Some (ma_size m)) ms"

definition commit_staged_execution ::
    "ext \<Rightarrow> (string \<Rightarrow> nat option) \<Rightarrow> attached_run \<Rightarrow> attempt_id \<Rightarrow> durable_tool_execution \<Rightarrow> artifact_lease list
      \<Rightarrow> timestamp \<Rightarrow> db \<Rightarrow> unit tx" where
  "commit_staged_execution x files run attempt e ls now d =
     ebind (require (files_durable files (de_artifacts e)) (Bail ''managed artifact is not a durable regular file'')) (\<lambda>_.
     ebind (require (artifact_run_valid run now d) (Bail ''stale actor lease'')) (\<lambda>_.
     ebind (commit_artifacts x run attempt now (de_artifacts e) ls d) (\<lambda>(ms, d1).
     ebind (require (length (de_artifacts e) = length ls) (Bail ''artifact lease count does not match execution'')) (\<lambda>_.
     let p = (\<lambda>t. ta_id t = attempt \<and> ta_run t = ar_run run \<and> ta_state t = AtRunning) in
     ebind (require (changed p (attempts d1) = 1) (Bail ''attempt is not running'')) (\<lambda>_.
       Inr ((), d1\<lparr>attempts := update_where p
          (\<lambda>t. t\<lparr>ta_state := AtSucceeded, ta_outcome := Some (write_outcome x (AoSucceeded (e\<lparr>de_artifacts := ms\<rparr>))),
                 ta_updated := now\<rparr>) (attempts d1)\<rparr>))))))"

section \<open>Collecting and looking up\<close>

definition staging_lapsed :: "timestamp \<Rightarrow> artifact_row \<Rightarrow> bool" where
  "staging_lapsed now r \<longleftrightarrow> af_state r = AfStaging \<and> (case af_expires r of None \<Rightarrow> False | Some t \<Rightarrow> t < now)"

definition gc_owner :: "string \<Rightarrow> string" where
  "gc_owner uuid = ''gc:'' @ uuid"

text \<open>One row of the claim, after the rows were selected.\<close>

definition claim_staging ::
    "ext \<Rightarrow> string \<Rightarrow> timestamp \<Rightarrow> artifact_row \<Rightarrow> expired_artifact list \<times> db \<Rightarrow> error + (expired_artifact list \<times> db)" where
  "claim_staging x owner now r s =
     (case s of (claimed, d) \<Rightarrow>
        let p = (\<lambda>q. af_id q = af_id r \<and> staging_lapsed now q);
            d1 = d\<lparr>artifacts := update_where p
                    (\<lambda>q. q\<lparr>af_owner := Some owner, af_expires := Some (plus_millis now 30000), af_updated := now\<rparr>) (artifacts d)\<rparr> in
        if changed p (artifacts d) = 1
        then ebind (from_option (Bail ''invalid UUID'') (parse_uuid x (af_id r))) (\<lambda>i.
               Inr (claimed @ [\<lparr>ea_id = i, ea_path = af_path r, ea_owner = owner\<rparr>], d1))
        else Inr (claimed, d1))"

definition lapsed_stagings :: "timestamp \<Rightarrow> nat \<Rightarrow> db \<Rightarrow> artifact_row list" where
  "lapsed_stagings now limit d =
     take limit (sort_key (\<lambda>r. (case af_expires r of None \<Rightarrow> 0 | Some t \<Rightarrow> t, af_id r)) (filter (staging_lapsed now) (artifacts d)))"

definition claim_expired_staging :: "ext \<Rightarrow> string \<Rightarrow> timestamp \<Rightarrow> nat \<Rightarrow> db \<Rightarrow> expired_artifact list tx" where
  "claim_expired_staging x uuid now limit d =
     efold (claim_staging x (gc_owner uuid) now) (lapsed_stagings now limit d) ([], d)"

definition claimed_row :: "expired_artifact \<Rightarrow> artifact_row \<Rightarrow> bool" where
  "claimed_row e r \<longleftrightarrow> af_id r = ea_id e \<and> af_state r = AfStaging \<and> af_owner r = Some (ea_owner e)"

definition complete_claimed_staging :: "expired_artifact \<Rightarrow> db \<Rightarrow> bool tx" where
  "complete_claimed_staging e d =
     Inr (changed (claimed_row e) (artifacts d) = 1, d\<lparr>artifacts := delete_where (claimed_row e) (artifacts d)\<rparr>)"

definition renew_gc_claim :: "expired_artifact \<Rightarrow> timestamp \<Rightarrow> timestamp \<Rightarrow> db \<Rightarrow> bool tx" where
  "renew_gc_claim e now until d =
     (let p = (\<lambda>r. claimed_row e r \<and> (case af_expires r of None \<Rightarrow> False | Some t \<Rightarrow> now \<le> t)) in
      Inr (changed p (artifacts d) = 1,
           d\<lparr>artifacts := update_where p (\<lambda>r. r\<lparr>af_expires := Some until, af_updated := now\<rparr>) (artifacts d)\<rparr>))"

definition artifact_path_exists :: "string \<Rightarrow> db \<Rightarrow> bool" where
  "artifact_path_exists path d \<longleftrightarrow> list_ex (\<lambda>r. af_path r = path) (artifacts d)"

definition find_referenced_artifact :: "ext \<Rightarrow> actor_id \<Rightarrow> string \<Rightarrow> nat \<Rightarrow> db \<Rightarrow> error + referenced_artifact option" where
  "find_referenced_artifact x a sha n d =
     (if i64_max < int n then Inl (Bail ''out of range integral type conversion attempted'')
      else case List.find (content_row a sha n) (artifacts d) of
        None \<Rightarrow> Inr None
      | Some r \<Rightarrow>
          ebind (from_option (Bail ''invalid UUID'') (parse_uuid x (af_id r))) (\<lambda>i.
            Inr (Some \<lparr>rf_id = i, rf_path = af_path r, rf_size = n, rf_sha256 = sha\<rparr>)))"

section \<open>What every operation keeps\<close>

abbreviation referenced :: "artifact_row \<Rightarrow> bool" where
  "referenced r \<equiv> af_state r = AfReferenced"

definition content_of :: "artifact_row \<Rightarrow> actor_id \<times> string option \<times> int option" where
  "content_of r = (af_actor r, af_sha256 r, af_size r)"

definition artifact_row_ok :: "artifact_row \<Rightarrow> bool" where
  "artifact_row_ok r \<longleftrightarrow>
     (if referenced r
      then af_expires r = None \<and> af_owner r = None \<and> af_attempt r = None
        \<and> (case af_size r of None \<Rightarrow> False | Some n \<Rightarrow> 0 \<le> n \<and> n \<le> MAX_ARTIFACT_BYTES)
        \<and> (case af_sha256 r of None \<Rightarrow> False | Some h \<Rightarrow> length h = 64)
      else af_expires r \<noteq> None \<and> af_sha256 r = None)"

text \<open>
  One row for an identifier and for a path, one referenced row for a content of an actor, and no
  more than the quota for any actor.
\<close>

definition artifacts_ok :: "db \<Rightarrow> bool" where
  "artifacts_ok d \<longleftrightarrow>
     distinct (map af_id (artifacts d)) \<and> distinct (map af_path (artifacts d)) \<and>
     list_all artifact_row_ok (artifacts d) \<and>
     distinct (map content_of (filter referenced (artifacts d))) \<and>
     list_all (\<lambda>r. retained_bytes (af_actor r) d \<le> MAX_ACTOR_BYTES) (artifacts d)"

lemma retained_filter:
  "retained_bytes a d = sum_list (map (\<lambda>r. case af_size r of None \<Rightarrow> 0 | Some n \<Rightarrow> n)
     (filter (\<lambda>r. af_actor r = a) (filter referenced (artifacts d))))"
  by (simp add: retained_bytes_def conj_commute)

lemma retained_le:
  assumes "artifacts_ok d"
  shows "retained_bytes a d \<le> MAX_ACTOR_BYTES"
proof (cases "\<exists>r \<in> set (artifacts d). af_actor r = a")
  case True
  then show ?thesis using assms by (auto simp: artifacts_ok_def list_all_iff)
next
  case False
  then have "filter (\<lambda>r. af_actor r = a \<and> referenced r) (artifacts d) = []" by (auto simp: filter_empty_conv)
  then show ?thesis by (simp only: retained_bytes_def) (simp add: MAX_ACTOR_BYTES_def)
qed

lemma referenced_update:
  assumes "\<And>r. p r \<Longrightarrow> \<not> referenced r \<and> \<not> referenced (f r)"
  shows "filter referenced (update_where p f rows) = filter referenced rows"
  using assms by (induction rows) (auto simp del: artifact_state.exhaust)

lemma referenced_delete:
  assumes "\<And>r. p r \<Longrightarrow> \<not> referenced r"
  shows "filter referenced (delete_where p rows) = filter referenced rows"
  using assms by (induction rows) (auto simp: delete_where_def)

text \<open>Steps that touch stagings only.\<close>

lemma ok_same_referenced:
  assumes "artifacts_ok d" and "filter referenced (artifacts d') = filter referenced (artifacts d)"
    and "distinct (map af_id (artifacts d'))" and "distinct (map af_path (artifacts d'))"
    and "\<And>r. r \<in> set (artifacts d') \<Longrightarrow> artifact_row_ok r"
  shows "artifacts_ok d'"
  using assms retained_le[OF assms(1)]
  by (auto simp: artifacts_ok_def list_all_iff retained_filter simp del: filter_filter)

definition keeps_artifacts :: "db \<Rightarrow> db \<Rightarrow> bool" where
  "keeps_artifacts d d' \<longleftrightarrow> artifacts_ok d' \<and> set (filter referenced (artifacts d)) \<subseteq> set (artifacts d')"

lemma keeps_refl: "artifacts_ok d \<Longrightarrow> keeps_artifacts d d"
  by (auto simp: keeps_artifacts_def)

lemma keeps_trans:
  "keeps_artifacts d d' \<Longrightarrow> keeps_artifacts d' d'' \<Longrightarrow> keeps_artifacts d d''"
  by (auto simp: keeps_artifacts_def)

lemma keeps_staging_update:
  assumes "artifacts_ok d" and "artifacts d' = update_where p f (artifacts d)"
    and "\<And>r. p r \<Longrightarrow> \<not> referenced r \<and> \<not> referenced (f r) \<and> af_id (f r) = af_id r \<and> af_path (f r) = af_path r"
    and "\<And>r. p r \<Longrightarrow> artifact_row_ok r \<Longrightarrow> artifact_row_ok (f r)"
  shows "keeps_artifacts d d'"
proof -
  have same: "filter referenced (artifacts d') = filter referenced (artifacts d)"
    unfolding assms(2) by (rule referenced_update) (use assms(3) in blast)
  have "map af_id (artifacts d') = map af_id (artifacts d)" "map af_path (artifacts d') = map af_path (artifacts d)"
    unfolding assms(2) by (rule map_update_where; use assms(3) in simp)+
  moreover have "artifact_row_ok r" if "r \<in> set (artifacts d')" for r
    using that assms(1,4) unfolding assms(2) by (elim in_update_whereE) (auto simp: artifacts_ok_def list_all_iff split: if_splits)
  ultimately have "artifacts_ok d'" using assms(1) by (intro ok_same_referenced[OF assms(1) same]) (simp_all add: artifacts_ok_def)
  moreover have "set (filter referenced (artifacts d)) \<subseteq> set (artifacts d')" unfolding same[symmetric] by auto
  ultimately show ?thesis by (simp add: keeps_artifacts_def)
qed

lemma keeps_staging_delete:
  assumes "artifacts_ok d" and "artifacts d' = delete_where p (artifacts d)" and "\<And>r. p r \<Longrightarrow> \<not> referenced r"
  shows "keeps_artifacts d d'"
proof -
  have same: "filter referenced (artifacts d') = filter referenced (artifacts d)"
    unfolding assms(2) by (rule referenced_delete) (fact assms(3))
  have "artifacts_ok d'" using assms(1)
    by (intro ok_same_referenced[OF assms(1) same])
       (auto simp: assms(2) artifacts_ok_def list_all_iff intro: distinct_map_delete_where)
  moreover have "set (filter referenced (artifacts d)) \<subseteq> set (artifacts d')" unfolding same[symmetric] by auto
  ultimately show ?thesis by (simp add: keeps_artifacts_def)
qed

lemma keeps_begin:
  assumes "artifacts_ok d" and "artifacts d' = artifacts d @ [r]" and "\<not> referenced r" and "artifact_row_ok r"
    and "af_id r \<notin> af_id ` set (artifacts d)" and "af_path r \<notin> af_path ` set (artifacts d)"
  shows "keeps_artifacts d d'"
proof -
  have "artifacts_ok d'"
    by (rule ok_same_referenced[OF assms(1)]) (use assms in \<open>auto simp: artifacts_ok_def list_all_iff\<close>)
  then show ?thesis by (auto simp: keeps_artifacts_def assms(2))
qed

lemma keeps_promote:
  assumes "artifacts_ok d" and "artifacts d = us @ r # vs" and "artifacts d' = us @ r' # vs"
    and "\<not> referenced r" and "referenced r'" and "artifact_row_ok r'" and "af_id r' = af_id r" and "af_actor r' = af_actor r"
    and "af_path r' \<notin> af_path ` set (us @ vs)" and "content_of r' \<notin> content_of ` set (filter referenced (artifacts d))"
    and "retained_bytes (af_actor r) d + the (af_size r') \<le> MAX_ACTOR_BYTES"
  shows "keeps_artifacts d d'"
proof -
  have size: "(case af_size r' of None \<Rightarrow> 0 | Some n \<Rightarrow> n) = the (af_size r')"
    using assms(5,6) by (auto simp: artifact_row_ok_def split: option.splits)
  have "retained_bytes (af_actor q) d' \<le> MAX_ACTOR_BYTES" for q
    using retained_le[OF assms(1), of "af_actor q"] assms(4,5,8,11) size
    by (cases "af_actor q = af_actor r") (simp_all add: retained_bytes_def assms(2,3))
  then have "artifacts_ok d'"
    using assms(1,4-10) unfolding artifacts_ok_def assms(2,3) by (auto simp: list_all_iff)
  moreover have "set (filter referenced (artifacts d)) \<subseteq> set (artifacts d')" using assms(4) by (auto simp: assms(2,3))
  ultimately show ?thesis by (simp add: keeps_artifacts_def)
qed

lemma begin_staging_keeps:
  assumes "artifacts_ok d" and "begin_staging c now d = Inr (l, d')"
  shows "keeps_artifacts d d'"
proof -
  let ?r = "\<lparr>af_id = ba_id c, af_actor = ba_actor c, af_attempt = Some (ba_attempt c), af_state = AfStaging,
      af_path = ba_path c, af_display = ba_display c, af_media = ba_media c, af_size = Some (int (ba_size c)),
      af_sha256 = None, af_owner = Some (ba_owner c), af_expires = Some (ba_until c), af_created = now, af_updated = now\<rparr>"
  have "insert_artifact ?r d = Inr d'"
    using assms(2) by (auto simp: begin_staging_def ebind_eq_Inr split: if_splits)
  then have "artifacts d' = artifacts d @ [?r]" "af_id ?r \<notin> af_id ` set (artifacts d)" "af_path ?r \<notin> af_path ` set (artifacts d)"
    by (auto simp: insert_artifact_def split: if_splits)
  then show ?thesis by (intro keeps_begin[OF assms(1), of d' ?r]) (simp_all add: artifact_row_ok_def)
qed

lemma promote_keeps:
  assumes "artifacts_ok d" and "promote_artifact m l now d = Inr d'" and "list_ex (staged_for t l) (artifacts d)"
    and "List.find (content_row (sl_actor l) (ma_sha256 m) (ma_size m)) (artifacts d) = None"
    and "sat_add (retained_bytes (sl_actor l) d) (int (ma_size m)) \<le> MAX_ACTOR_BYTES"
  shows "keeps_artifacts d d'"
proof -
  let ?p = "\<lambda>r. af_id r = sl_id l \<and> af_state r = AfStaging"
  let ?f = "\<lambda>r. r\<lparr>af_state := AfReferenced, af_attempt := None, af_path := ma_path m, af_size := Some (int (ma_size m)),
      af_sha256 := Some (ma_sha256 m), af_owner := None, af_expires := None, af_updated := now\<rparr>"
  obtain r where r: "r \<in> set (artifacts d)" "staged_for t l r" using assms(3) by (auto simp: list_ex_iff)
  then have p: "?p r" and actor: "af_actor r = sl_actor l" by (auto simp: staged_for_def staged_under_def)
  have ids: "distinct (map af_id (artifacts d))" using assms(1) by (simp add: artifacts_ok_def)
  obtain us vs where rows: "artifacts d = us @ r # vs" using r(1) by (auto simp: in_set_conv_decomp)
  have others: "\<not> ?p s" if "s \<in> set us \<union> set vs" for s
    using that ids p unfolding rows by (auto simp: image_iff)
  have "list_ex ?p (artifacts d)" using r(1) p by (auto simp: list_ex_iff)
  then have d': "artifacts d' = update_where ?p ?f (artifacts d)"
    and path: "\<And>s. s \<in> set (artifacts d) \<Longrightarrow> af_path s = ma_path m \<Longrightarrow> ?p s"
    and size: "int (ma_size m) \<le> MAX_ARTIFACT_BYTES" and sha: "length (ma_sha256 m) = 64"
    using assms(2) by (auto simp: promote_artifact_def Let_def ebind_eq_Inr list_ex_iff split: if_splits)
  have "update_where ?p ?f us = us" "update_where ?p ?f vs = vs" using others by (auto intro: update_where_id)
  then have new: "artifacts d' = us @ ?f r # vs" using p by (simp add: d' rows)
  show ?thesis
  proof (rule keeps_promote[OF assms(1) rows new])
    show "artifact_row_ok (?f r)" using size sha by (simp add: artifact_row_ok_def)
    show "af_path (?f r) \<notin> af_path ` set (us @ vs)" using path others by (force simp: rows)
    show "content_of (?f r) \<notin> content_of ` set (filter referenced (artifacts d))"
      using assms(4) actor by (auto simp: find_None_all content_of_def content_row_def)
    show "retained_bytes (af_actor r) d + the (af_size (?f r)) \<le> MAX_ACTOR_BYTES"
      using assms(5) actor by (simp add: sat_add_def MAX_ACTOR_BYTES_def i64_max_def i64_min_def)
  qed (use p in simp_all)
qed

lemma commit_artifact_cases:
  assumes "commit_artifact x run attempt now m l d = Inr (m', d')"
  obtains (existing) r i where "List.find (content_row (sl_actor l) (ma_sha256 m) (ma_size m)) (artifacts d) = Some r"
      and "af_path r = ma_path m" and "parse_uuid x (af_id r) = Some i" and "m' = m\<lparr>ma_id := i, ma_path := af_path r\<rparr>"
      and "d' = d\<lparr>artifacts := delete_where (\<lambda>s. af_id s = sl_id l \<and> af_state s = AfStaging) (artifacts d)\<rparr>"
      and "list_ex (staged_for attempt l) (artifacts d)" and "lease_covers run attempt m l now"
    | (fresh) "List.find (content_row (sl_actor l) (ma_sha256 m) (ma_size m)) (artifacts d) = None"
      and "sat_add (retained_bytes (sl_actor l) d) (int (ma_size m)) \<le> MAX_ACTOR_BYTES"
      and "promote_artifact m l now d = Inr d'" and "m' = m"
      and "list_ex (staged_for attempt l) (artifacts d)" and "lease_covers run attempt m l now"
proof -
  have covers: "lease_covers run attempt m l now" and staged: "list_ex (staged_for attempt l) (artifacts d)"
    using assms unfolding commit_artifact_def by (auto elim!: ebindE)
  show thesis
  proof (cases "List.find (content_row (sl_actor l) (ma_sha256 m) (ma_size m)) (artifacts d)")
    case None
    then show thesis using assms covers staged
      by (intro fresh) (auto simp: commit_artifact_def elim!: ebindE)
  next
    case (Some r)
    then obtain i where "af_path r = ma_path m" "parse_uuid x (af_id r) = Some i" "m' = m\<lparr>ma_id := i, ma_path := af_path r\<rparr>"
      "d' = d\<lparr>artifacts := delete_where (\<lambda>s. af_id s = sl_id l \<and> af_state s = AfStaging) (artifacts d)\<rparr>"
      using assms covers staged by (auto simp: commit_artifact_def elim!: ebindE)
    then show thesis using Some covers staged by (intro existing)
  qed
qed

lemma commit_artifact_keeps:
  assumes "artifacts_ok d" and "commit_artifact x run attempt now m l d = Inr (m', d')"
  shows "keeps_artifacts d d'"
  using assms(2)
proof (cases rule: commit_artifact_cases)
  case (existing r i)
  then show ?thesis
    by (intro keeps_staging_delete[OF assms(1), of d' "\<lambda>s. af_id s = sl_id l \<and> af_state s = AfStaging"]) auto
next
  case fresh
  then show ?thesis by (intro promote_keeps[OF assms(1)])
qed

lemma commit_artifacts_keeps:
  assumes "artifacts_ok d" and "commit_artifacts x run attempt now ms ls d = Inr (ms', d')"
  shows "keeps_artifacts d d'"
  using assms
proof (induction x run attempt now ms ls d arbitrary: ms' d' rule: commit_artifacts.induct)
  case (1 x run attempt now m ms l ls d)
  then obtain m1 d1 ms1 where one: "commit_artifact x run attempt now m l d = Inr (m1, d1)"
    and rest: "commit_artifacts x run attempt now ms ls d1 = Inr (ms1, d')"
    by (auto simp: ebind_eq_Inr)
  have k: "keeps_artifacts d d1" by (rule commit_artifact_keeps[OF 1(2) one])
  then have "keeps_artifacts d1 d'" using 1(1)[OF _ rest] by (simp add: keeps_artifacts_def)
  with k show ?case by (rule keeps_trans)
qed (auto simp: keeps_refl)

lemma commit_execution_keeps:
  assumes "artifacts_ok d" and "commit_staged_execution x files run attempt e ls now d = Inr ((), d')"
  shows "keeps_artifacts d d'"
proof -
  obtain ms d1 where c: "commit_artifacts x run attempt now (de_artifacts e) ls d = Inr (ms, d1)"
    and same: "artifacts d' = artifacts d1"
    using assms(2) by (auto simp: commit_staged_execution_def ebind_eq_Inr Let_def split: prod.splits)
  from commit_artifacts_keeps[OF assms(1) c] show ?thesis
    by (simp add: keeps_artifacts_def artifacts_ok_def retained_bytes_def same)
qed

lemma claim_staging_keeps:
  assumes "artifacts_ok (snd s)" and "claim_staging x owner now r s = Inr t"
  shows "keeps_artifacts (snd s) (snd t)"
proof -
  obtain claimed d where s: "s = (claimed, d)" by (cases s)
  let ?p = "\<lambda>q. af_id q = af_id r \<and> staging_lapsed now q"
  let ?f = "\<lambda>q. q\<lparr>af_owner := Some owner, af_expires := Some (plus_millis now 30000), af_updated := now\<rparr>"
  have "artifacts (snd t) = update_where ?p ?f (artifacts d)"
    using assms(2) by (auto simp: s claim_staging_def Let_def ebind_eq_Inr split: if_splits)
  then show ?thesis using assms(1) unfolding s
    by (auto simp: staging_lapsed_def artifact_row_ok_def intro!: keeps_staging_update)
qed

lemma claim_expired_keeps:
  assumes "artifacts_ok d" and "claim_expired_staging x uuid now limit d = Inr (claimed, d')"
  shows "keeps_artifacts d d'"
proof -
  have "keeps_artifacts d (snd (claimed, d'))"
    using assms(2) unfolding claim_expired_staging_def
  proof (rule efold_invariant[where P = "\<lambda>s. keeps_artifacts d (snd s)"])
    show "keeps_artifacts d (snd ([], d))" using assms(1) by (simp add: keeps_refl)
    fix r s t
    assume k: "keeps_artifacts d (snd s)" and c: "claim_staging x (gc_owner uuid) now r s = Inr t"
    then have "artifacts_ok (snd s)" by (simp add: keeps_artifacts_def)
    from keeps_trans[OF k claim_staging_keeps[OF this c]] show "keeps_artifacts d (snd t)" .
  qed
  then show ?thesis by simp
qed

inductive artifact_step :: "ext \<Rightarrow> db \<Rightarrow> db \<Rightarrow> bool" for x where
  begins: "begin_staging c now d = Inr (l, d') \<Longrightarrow> artifact_step x d d'"
| renews: "renew_staging l until d = Inr (l', d') \<Longrightarrow> artifact_step x d d'"
| commits: "commit_staged_execution x files run attempt e ls now d = Inr ((), d') \<Longrightarrow> artifact_step x d d'"
| claims: "claim_expired_staging x uuid now limit d = Inr (claimed, d') \<Longrightarrow> artifact_step x d d'"
| completes: "complete_claimed_staging c d = Inr (b, d') \<Longrightarrow> artifact_step x d d'"
| keeps_claim: "renew_gc_claim c now until d = Inr (b, d') \<Longrightarrow> artifact_step x d d'"
| others: "artifacts d' = artifacts d \<Longrightarrow> artifact_step x d d'"

lemma artifact_step_keeps:
  assumes "artifact_step x d d'" and "artifacts_ok d"
  shows "keeps_artifacts d d'"
  using assms
proof cases
  case (renews l until l')
  then show ?thesis using assms(2)
    by (auto simp: renew_staging_def ebind_eq_Inr staged_under_def artifact_row_ok_def intro!: keeps_staging_update)
next
  case (completes c b)
  then show ?thesis using assms(2)
    by (auto simp: complete_claimed_staging_def claimed_row_def intro!: keeps_staging_delete)
next
  case (keeps_claim c now until b)
  then show ?thesis using assms(2)
    by (auto simp: renew_gc_claim_def Let_def claimed_row_def artifact_row_ok_def intro!: keeps_staging_update)
next
  case others
  then show ?thesis using assms(2) by (auto simp: keeps_artifacts_def artifacts_ok_def retained_bytes_def)
qed (auto intro: begin_staging_keeps[OF assms(2)] commit_execution_keeps[OF assms(2)] claim_expired_keeps[OF assms(2)])

text \<open>
  C19. Committed artifacts are permanent and accounted for. Whatever the staging, committing and
  collecting operations do, in any order and whatever else happens to the database meanwhile, a
  referenced artifact is neither changed nor removed; no actor ever holds more than 2 GiB of them,
  none twice with the same content, and no two rows share a path.
\<close>

theorem artifacts_stay_sound:
  assumes "(artifact_step x)\<^sup>*\<^sup>* d d'" and "artifacts_ok d"
  shows "artifacts_ok d' \<and> retained_bytes a d' \<le> MAX_ACTOR_BYTES \<and> set (filter referenced (artifacts d)) \<subseteq> set (artifacts d')"
proof -
  from assms have "keeps_artifacts d d'"
  proof induction
    case base
    then show ?case by (rule keeps_refl)
  next
    case (step d1 d2)
    then show ?case using artifact_step_keeps keeps_trans by (auto simp: keeps_artifacts_def)
  qed
  then show ?thesis using retained_le by (simp add: keeps_artifacts_def)
qed

section \<open>What a commit leaves\<close>

definition artifact_stored :: "actor_id \<Rightarrow> managed_artifact \<Rightarrow> db \<Rightarrow> bool" where
  "artifact_stored a m d \<longleftrightarrow>
     (\<exists>r \<in> set (artifacts d). af_id r = ma_id m \<and> referenced r \<and> af_actor r = a \<and> af_path r = ma_path m
        \<and> af_sha256 r = Some (ma_sha256 m) \<and> af_size r = Some (int (ma_size m)))"

definition staging_gone :: "artifact_lease \<Rightarrow> db \<Rightarrow> bool" where
  "staging_gone l d \<longleftrightarrow> (\<forall>r \<in> set (artifacts d). af_id r = sl_id l \<longrightarrow> referenced r)"

definition canonical_ids :: "ext \<Rightarrow> db \<Rightarrow> bool" where
  "canonical_ids x d \<longleftrightarrow> list_all (\<lambda>r. parse_uuid x (af_id r) = Some (af_id r)) (artifacts d)"

lemma stored_kept: "artifact_stored a m d \<Longrightarrow> keeps_artifacts d d' \<Longrightarrow> artifact_stored a m d'"
  by (fastforce simp: artifact_stored_def keeps_artifacts_def)

text \<open>No commit makes a staging, changes an identifier or makes up a row.\<close>

lemma commit_artifact_rows:
  assumes "commit_artifact x run attempt now m l d = Inr (m', d')" and "r' \<in> set (artifacts d')"
  obtains r where "r \<in> set (artifacts d)" and "af_id r' = af_id r" and "referenced r \<Longrightarrow> referenced r'"
    and "af_id r = sl_id l \<Longrightarrow> referenced r'"
  using assms(1)
proof (cases rule: commit_artifact_cases)
  case (existing r i)
  then show thesis using that[of r'] assms(2) by auto (metis artifact_state.exhaust)
next
  case fresh
  let ?p = "\<lambda>r. af_id r = sl_id l \<and> af_state r = AfStaging"
  have "artifacts d' = update_where ?p (\<lambda>r. r\<lparr>af_state := AfReferenced, af_attempt := None, af_path := ma_path m,
      af_size := Some (int (ma_size m)), af_sha256 := Some (ma_sha256 m), af_owner := None, af_expires := None,
      af_updated := now\<rparr>) (artifacts d)"
    using fresh(3) by (auto simp: promote_artifact_def Let_def ebind_eq_Inr split: if_splits)
  from assms(2)[unfolded this] obtain r where r: "r \<in> set (artifacts d)" and r': "r' = (if ?p r then r\<lparr>af_state := AfReferenced,
      af_attempt := None, af_path := ma_path m, af_size := Some (int (ma_size m)), af_sha256 := Some (ma_sha256 m),
      af_owner := None, af_expires := None, af_updated := now\<rparr> else r)"
    by (rule in_update_whereE)
  show thesis by (rule that[OF r]) (use r' in \<open>auto split: if_splits intro: artifact_state.exhaust\<close>)
qed

lemma commit_artifact_stores:
  assumes "commit_artifact x run attempt now m l d = Inr (m', d')" and "canonical_ids x d"
  shows "artifact_stored (ls_actor (ar_lease run)) m' d' \<and> m' = m\<lparr>ma_id := ma_id m'\<rparr> \<and> staging_gone l d' \<and> canonical_ids x d'"
proof -
  have canon: "parse_uuid x (af_id r) = Some (af_id r)" if "r \<in> set (artifacts d)" for r
    using assms(2) that by (simp add: canonical_ids_def list_all_iff)
  have "canonical_ids x d'" unfolding canonical_ids_def list_all_iff
  proof
    fix r' assume "r' \<in> set (artifacts d')"
    from commit_artifact_rows[OF assms(1) this] canon show "parse_uuid x (af_id r') = Some (af_id r')" by metis
  qed
  moreover have "staging_gone l d'" unfolding staging_gone_def
    using commit_artifact_rows[OF assms(1)] by metis
  moreover have "artifact_stored (ls_actor (ar_lease run)) m' d' \<and> m' = m\<lparr>ma_id := ma_id m'\<rparr>"
    using assms(1)
  proof (cases rule: commit_artifact_cases)
    case (existing r i)
    have r: "r \<in> set (artifacts d)" "content_row (sl_actor l) (ma_sha256 m) (ma_size m) r" using find_Some_in[OF existing(1)] by auto
    then have "i = af_id r" using canon existing(3) by simp
    moreover have "r \<in> set (artifacts d')" using r existing(5) by (auto simp: content_row_def)
    ultimately show ?thesis using r existing(2,4,7)
      by (auto simp: artifact_stored_def content_row_def lease_covers_def intro!: bexI[of _ r])
  next
    case fresh
    obtain r where r: "r \<in> set (artifacts d)" "staged_for attempt l r" using fresh(5) by (auto simp: list_ex_iff)
    let ?p = "\<lambda>r. af_id r = sl_id l \<and> af_state r = AfStaging"
    let ?f = "\<lambda>r. r\<lparr>af_state := AfReferenced, af_attempt := None, af_path := ma_path m,
      af_size := Some (int (ma_size m)), af_sha256 := Some (ma_sha256 m), af_owner := None, af_expires := None, af_updated := now\<rparr>"
    have d': "artifacts d' = update_where ?p ?f (artifacts d)"
      using fresh(3) by (auto simp: promote_artifact_def Let_def ebind_eq_Inr split: if_splits)
    have p: "?p r" using r(2) by (simp add: staged_for_def staged_under_def)
    have "(if ?p r then ?f r else r) \<in> set (artifacts d')" unfolding d' set_update_where using r(1) by (rule imageI)
    then have "?f r \<in> set (artifacts d')" using p by simp
    then show ?thesis using r(2) fresh(4,6)
      by (auto simp: artifact_stored_def staged_for_def staged_under_def lease_covers_def intro!: bexI[of _ "?f r"])
  qed
  ultimately show ?thesis by blast
qed

lemma staging_stays_gone:
  assumes "staging_gone l d" and "commit_artifact x run attempt now m k d = Inr (m', d')"
  shows "staging_gone l d'"
  unfolding staging_gone_def
proof (intro ballI impI)
  fix r' assume r': "r' \<in> set (artifacts d')" "af_id r' = sl_id l"
  from commit_artifact_rows[OF assms(2) r'(1)] obtain r where "r \<in> set (artifacts d)" "af_id r' = af_id r" "referenced r \<Longrightarrow> referenced r'"
    by metis
  then show "referenced r'" using assms(1) r'(2) by (simp add: staging_gone_def)
qed

lemma commit_artifacts_store:
  assumes "commit_artifacts x run attempt now ms ls d = Inr (ms', d')" and "canonical_ids x d" and "artifacts_ok d"
    and "length ms = length ls"
  shows "list_all2 (\<lambda>m m'. artifact_stored (ls_actor (ar_lease run)) m' d' \<and> m' = m\<lparr>ma_id := ma_id m'\<rparr>) ms ms'
    \<and> (\<forall>l. l \<in> set ls \<or> staging_gone l d \<longrightarrow> staging_gone l d')"
  using assms
proof (induction x run attempt now ms ls d arbitrary: ms' d' rule: commit_artifacts.induct)
  case (1 x run attempt now m ms l ls d)
  then obtain m1 d1 ms1 where one: "commit_artifact x run attempt now m l d = Inr (m1, d1)"
    and rest: "commit_artifacts x run attempt now ms ls d1 = Inr (ms1, d')" and ms': "ms' = m1 # ms1"
    by (auto simp: ebind_eq_Inr)
  note stored = commit_artifact_stores[OF one 1(3)]
  have ok: "artifacts_ok d1" using commit_artifact_keeps[OF 1(4) one] by (simp add: keeps_artifacts_def)
  have k: "keeps_artifacts d1 d'" by (rule commit_artifacts_keeps[OF ok rest])
  have len: "length ms = length ls" using 1(5) by simp
  have canon: "canonical_ids x d1" using stored by blast
  note ih = 1(1)[OF rest canon ok len]
  have "artifact_stored (ls_actor (ar_lease run)) m1 d' \<and> m1 = m\<lparr>ma_id := ma_id m1\<rparr>" using stored stored_kept[OF _ k] by blast
  moreover have "staging_gone k d'" if "k \<in> set (l # ls) \<or> staging_gone k d" for k
    using ih that stored staging_stays_gone[OF _ one] by auto
  ultimately show ?case using ih by (simp add: ms')
qed simp_all

lemma commit_artifacts_attempts:
  "commit_artifacts x run attempt now ms ls d = Inr (ms', d') \<Longrightarrow> attempts d' = attempts d"
proof (induction x run attempt now ms ls d arbitrary: ms' d' rule: commit_artifacts.induct)
  case (1 x run attempt now m ms l ls d)
  then obtain m1 d1 ms1 where one: "commit_artifact x run attempt now m l d = Inr (m1, d1)"
    and rest: "commit_artifacts x run attempt now ms ls d1 = Inr (ms1, d')"
    by (auto simp: ebind_eq_Inr)
  have "attempts d1 = attempts d"
    using one by (cases rule: commit_artifact_cases) (auto simp: promote_artifact_def Let_def ebind_eq_Inr split: if_splits)
  then show ?case using 1(1)[OF rest] by simp
qed simp_all

text \<open>
  C31. What a tool produced is committed together with its outcome. After \<open>commit_staged_execution\<close>
  the recovery of the attempt returns a success whose artifacts are those of the execution, under
  the identifiers of referenced rows of the actor with the same path, hash and size, and none of
  the stagings is left for the collector.
\<close>

theorem commit_recoverable:
  assumes "commit_staged_execution x files run attempt e ls now d = Inr ((), d')" and "artifacts_ok d" and "canonical_ids x d"
    and "outcome_roundtrip x" and "distinct (map ta_id (attempts d))"
  shows "\<exists>ms. recover_attempt x attempt d' = Inr (ArTerminal (AoSucceeded (e\<lparr>de_artifacts := ms\<rparr>)), d')
     \<and> list_all2 (\<lambda>m m'. artifact_stored (ls_actor (ar_lease run)) m' d' \<and> m' = m\<lparr>ma_id := ma_id m'\<rparr>) (de_artifacts e) ms
     \<and> (\<forall>l \<in> set ls. staging_gone l d')"
proof -
  let ?p = "\<lambda>t. ta_id t = attempt \<and> ta_run t = ar_run run \<and> ta_state t = AtRunning"
  let ?f = "\<lambda>ms t. t\<lparr>ta_state := AtSucceeded, ta_outcome := Some (write_outcome x (AoSucceeded (e\<lparr>de_artifacts := ms\<rparr>))),
      ta_updated := now\<rparr>"
  obtain ms d1 where c: "commit_artifacts x run attempt now (de_artifacts e) ls d = Inr (ms, d1)"
    and len: "length (de_artifacts e) = length ls" and one: "changed ?p (attempts d1) = Suc 0"
    and d': "d' = d1\<lparr>attempts := update_where ?p (?f ms) (attempts d1)\<rparr>"
    using assms(1) by (auto simp: commit_staged_execution_def ebind_eq_Inr Let_def split: prod.splits)
  have keys: "distinct (map ta_id (attempts d1))" using assms(5) commit_artifacts_attempts[OF c] by simp
  obtain t where t: "t \<in> set (attempts d1)" "?p t" using changed_oneE[OF one] by metis
  have "?f ms t \<in> set (attempts d')" using t by (force simp: d' set_update_where)
  moreover have "distinct (map ta_id (attempts d'))" using keys by (simp add: d' map_update_where)
  ultimately have "List.find (\<lambda>s. ta_id s = ta_id (?f ms t)) (attempts d') = Some (?f ms t)" by (intro find_key)
  then have found: "List.find (\<lambda>s. ta_id s = attempt) (attempts d') = Some (?f ms t)" using t by simp
  have "recover_attempt x attempt d' = Inr (ArTerminal (AoSucceeded (e\<lparr>de_artifacts := ms\<rparr>)), d')"
    using assms(4) by (simp add: recover_attempt_def found outcome_roundtrip_def)
  moreover have "artifacts d' = artifacts d1" by (simp add: d')
  ultimately show ?thesis
    using commit_artifacts_store[OF c assms(3,2) len] by (auto simp: artifact_stored_def staging_gone_def)
qed

section \<open>Stagings and their collector\<close>

interpretation renewing_staging: fenced
  "\<lambda>(l, until) now. renew_staging l until" "\<lambda>d (l, until) now. list_ex (staged_under l) (artifacts d)"
  by unfold_locales (auto simp: renew_staging_def list_ex_iff require_def changed_eq_0[THEN iffD2])

interpretation completing_claim: fenced
  "\<lambda>c now. complete_claimed_staging c" "\<lambda>d c now. list_ex (claimed_row c) (artifacts d)"
  by unfold_locales (auto simp: complete_claimed_staging_def list_ex_iff delete_where_def filter_id_conv intro!: db.equality)

definition claim_live :: "expired_artifact \<Rightarrow> timestamp \<Rightarrow> artifact_row \<Rightarrow> bool" where
  "claim_live c now r \<longleftrightarrow> claimed_row c r \<and> (\<exists>t. af_expires r = Some t \<and> now \<le> t)"

interpretation renewing_claim: fenced
  "\<lambda>(c, until) now. renew_gc_claim c now until" "\<lambda>d (c, until) now. list_ex (claim_live c now) (artifacts d)"
proof unfold_locales
  fix d :: db and c :: "expired_artifact \<times> timestamp" and now
  assume gone: "\<not> (case c of (c, until) \<Rightarrow> \<lambda>now. list_ex (claim_live c now) (artifacts d)) now"
  obtain e until where c: "c = (e, until)" by (cases c)
  have "update_where (\<lambda>r. claimed_row e r \<and> (case af_expires r of None \<Rightarrow> False | Some t \<Rightarrow> now \<le> t)) f (artifacts d) = artifacts d" for f
    using gone by (intro update_where_id) (auto simp: c claim_live_def list_ex_iff split: option.splits)
  then show "commit_state d ((case c of (c, until) \<Rightarrow> \<lambda>now. renew_gc_claim c now until) now d) = d"
    by (simp add: c renew_gc_claim_def Let_def)
qed

text \<open>A commit needs every staging it was given a lease of.\<close>

lemma commit_artifact_staging:
  assumes "commit_artifact x run attempt now m l d = Inr (m', d')" and "r \<in> set (artifacts d')" and "\<not> referenced r"
  shows "r \<in> set (artifacts d)"
  using assms(1)
proof (cases rule: commit_artifact_cases)
  case (existing q i)
  then show ?thesis using assms(2) by simp
next
  case fresh
  then show ?thesis using assms(2,3)
    by (auto simp: promote_artifact_def Let_def ebind_eq_Inr set_update_where split: if_splits)
qed

lemma commit_artifacts_staged:
  assumes "commit_artifacts x run attempt now ms ls d = Inr (ms', d')" and "length ms = length ls" and "l \<in> set ls"
  shows "list_ex (staged_under l) (artifacts d)"
  using assms
proof (induction x run attempt now ms ls d arbitrary: ms' d' rule: commit_artifacts.induct)
  case (1 x run attempt now m ms k ls d)
  then obtain m1 d1 ms1 where one: "commit_artifact x run attempt now m k d = Inr (m1, d1)"
    and rest: "commit_artifacts x run attempt now ms ls d1 = Inr (ms1, d')"
    by (auto simp: ebind_eq_Inr)
  show ?case
  proof (cases "l = k")
    case True
    then have "list_ex (staged_for attempt l) (artifacts d)" using one by (auto elim: commit_artifact_cases)
    then show ?thesis by (auto simp: list_ex_iff staged_for_def)
  next
    case False
    then have "list_ex (staged_under l) (artifacts d1)" using 1(1)[OF rest] 1(3,4) by simp
    then show ?thesis using commit_artifact_staging[OF one] by (auto simp: list_ex_iff staged_under_def)
  qed
qed simp_all

lemma commit_needs_staging:
  assumes "l \<in> set ls" and "\<not> list_ex (staged_under l) (artifacts d)"
  shows "commit_state d (commit_staged_execution x files run attempt e ls now d) = d"
proof (cases "commit_staged_execution x files run attempt e ls now d")
  case (Inr res)
  then obtain d' where "commit_staged_execution x files run attempt e ls now d = Inr ((), d')" by (cases res) auto
  then obtain ms d1 where "commit_artifacts x run attempt now (de_artifacts e) ls d = Inr (ms, d1)" "length (de_artifacts e) = length ls"
    by (auto simp: commit_staged_execution_def ebind_eq_Inr Let_def split: prod.splits)
  from commit_artifacts_staged[OF this assms(1)] assms(2) show ?thesis by simp
qed simp

text \<open>What a claim round returns and leaves.\<close>

definition held_by_collector :: "string \<Rightarrow> timestamp \<Rightarrow> expired_artifact \<Rightarrow> db \<Rightarrow> bool" where
  "held_by_collector uuid now c d \<longleftrightarrow> ea_owner c = gc_owner uuid \<and>
     (\<exists>r \<in> set (artifacts d). claimed_row c r \<and> af_path r = ea_path c \<and> af_expires r = Some (plus_millis now 30000))"

lemma same_key:
  assumes "distinct (map af_id rows)" and "map (\<lambda>r. (af_id r, af_path r)) rows' = map (\<lambda>r. (af_id r, af_path r)) rows"
    and "r \<in> set rows" and "r' \<in> set rows'" and "af_id r' = af_id r"
  shows "af_path r' = af_path r"
proof -
  have "(af_id r', af_path r') \<in> set (map (\<lambda>r. (af_id r, af_path r)) rows')" using assms(4) by simp
  then have "(af_id r', af_path r') \<in> set (map (\<lambda>r. (af_id r, af_path r)) rows)" by (simp only: assms(2))
  then obtain q where "q \<in> set rows" "af_id q = af_id r'" "af_path q = af_path r'" by auto
  moreover from this have "q = r" using distinct_key_eq[OF assms(1) _ assms(3), of q] assms(5) by simp
  ultimately show ?thesis by simp
qed

lemma staging_round:
  assumes "claim_expired_staging x uuid now limit d = Inr (claimed, d')" and "canonical_ids x d"
    and "distinct (map af_id (artifacts d))"
  shows "map (\<lambda>r. (af_id r, af_path r)) (artifacts d') = map (\<lambda>r. (af_id r, af_path r)) (artifacts d)"
    and "c \<in> set claimed \<Longrightarrow> held_by_collector uuid now c d'"
    and "c \<in> set claimed \<Longrightarrow> \<exists>r \<in> set (artifacts d). af_id r = ea_id c \<and> staging_lapsed now r"
proof -
  let ?same = "\<lambda>d'. map (\<lambda>r. (af_id r, af_path r)) (artifacts d') = map (\<lambda>r. (af_id r, af_path r)) (artifacts d)"
  let ?P = "\<lambda>s. ?same (snd s) \<and> (\<forall>c \<in> set (fst s). held_by_collector uuid now c (snd s)
      \<and> (\<exists>r \<in> set (artifacts d). af_id r = ea_id c \<and> staging_lapsed now r))"
  have "?P (claimed, d')"
    using assms(1) unfolding claim_expired_staging_def
  proof (rule efold_invariant[where P = ?P])
    fix r s t
    assume "r \<in> set (lapsed_stagings now limit d)" and P: "?P s" and step: "claim_staging x (gc_owner uuid) now r s = Inr t"
    then have r: "r \<in> set (artifacts d)" "staging_lapsed now r"
      by (auto simp: lapsed_stagings_def dest: in_set_takeD)
    obtain cs d1 where s: "s = (cs, d1)" by (cases s)
    let ?p = "\<lambda>q. af_id q = af_id r \<and> staging_lapsed now q"
    let ?f = "\<lambda>q. q\<lparr>af_owner := Some (gc_owner uuid), af_expires := Some (plus_millis now 30000), af_updated := now\<rparr>"
    define d2 where "d2 = d1\<lparr>artifacts := update_where ?p ?f (artifacts d1)\<rparr>"
    have rows: "artifacts d2 = update_where ?p ?f (artifacts d1)" by (simp add: d2_def)
    have same: "?same d2"
      using P by (simp add: s rows map_update_where)
    have kept: "held_by_collector uuid now c d2" if held: "held_by_collector uuid now c d1" for c
    proof -
      from held obtain q where q: "q \<in> set (artifacts d1)" "claimed_row c q" "af_path q = ea_path c"
        "af_expires q = Some (plus_millis now 30000)" "ea_owner c = gc_owner uuid" by (auto simp: held_by_collector_def)
      have "(if ?p q then ?f q else q) \<in> set (artifacts d2)" unfolding rows set_update_where using q(1) by (rule imageI)
      then show ?thesis using q
        by (auto simp: held_by_collector_def claimed_row_def intro!: bexI[of _ "if ?p q then ?f q else q"])
    qed
    show "?P t"
    proof (cases "changed ?p (artifacts d1) = 1")
      case True
      then obtain q where q: "q \<in> set (artifacts d1)" "?p q" by (auto elim: changed_oneE)
      have path: "af_path q = af_path r" by (rule same_key[OF assms(3) _ r(1) q(1)]) (use P q(2) s in simp_all)
      have canon: "parse_uuid x (af_id r) = Some (af_id r)" using assms(2) r(1) by (simp add: canonical_ids_def list_all_iff)
      let ?c = "\<lparr>ea_id = af_id r, ea_path = af_path r, ea_owner = gc_owner uuid\<rparr>"
      have t: "t = (cs @ [?c], d2)" using step True canon by (simp add: s claim_staging_def Let_def d2_def)
      have "?f q \<in> set (artifacts d2)" unfolding rows set_update_where using q by (force simp: image_iff)
      then have "held_by_collector uuid now ?c d2"
        using q(2) path by (auto simp: held_by_collector_def claimed_row_def staging_lapsed_def intro!: bexI[of _ "?f q"])
      moreover have "\<exists>r' \<in> set (artifacts d). af_id r' = ea_id ?c \<and> staging_lapsed now r'" using r by auto
      ultimately show ?thesis using P same kept by (auto simp: t s)
    next
      case False
      then have "t = (cs, d2)" using step by (simp add: s claim_staging_def Let_def d2_def)
      then show ?thesis using P same kept by (auto simp: s)
    qed
  qed simp
  then show "?same d'" and "c \<in> set claimed \<Longrightarrow> held_by_collector uuid now c d'"
    and "c \<in> set claimed \<Longrightarrow> \<exists>r \<in> set (artifacts d). af_id r = ea_id c \<and> staging_lapsed now r"
    by auto
qed

text \<open>
  C30. A staging belongs to its copier until its lease has lapsed and to one collector afterwards.
  What a round claims had lapsed; from then on the copier can neither renew its lease nor commit,
  and until the claim lapses in turn no other round claims the same staging.
\<close>

theorem collector_exclusive:
  assumes "claim_expired_staging x uuid now limit d = Inr (claimed, d')" and "artifacts_ok d" and "canonical_ids x d"
    and "c \<in> set claimed" and "sl_id l = ea_id c" and "sl_owner l \<noteq> gc_owner uuid" and "l \<in> set ls"
  shows "(\<exists>r \<in> set (artifacts d). af_id r = ea_id c \<and> staging_lapsed now r)
     \<and> commit_state d' (renew_staging l until d') = d'
     \<and> commit_state d' (commit_staged_execution x files run attempt e ls t d') = d'
     \<and> (t \<le> plus_millis now 30000 \<longrightarrow> claim_expired_staging x uuid' t limit' d' = Inr (claimed', d'') \<longrightarrow> ea_id c \<notin> ea_id ` set claimed')"
proof -
  have ids: "distinct (map af_id (artifacts d))" using assms(2) by (simp add: artifacts_ok_def)
  note round = staging_round[OF assms(1,3) ids]
  have "map fst (map (\<lambda>r. (af_id r, af_path r)) (artifacts d')) = map fst (map (\<lambda>r. (af_id r, af_path r)) (artifacts d))"
    by (simp only: round(1))
  then have same: "map af_id (artifacts d') = map af_id (artifacts d)" by (simp add: comp_def)
  then have ids': "distinct (map af_id (artifacts d'))" using ids by simp
  have by_ids: "canonical_ids x db \<longleftrightarrow> list_all (\<lambda>i. parse_uuid x i = Some i) (map af_id (artifacts db))" for db
    by (simp add: canonical_ids_def list_all_iff)
  have canon: "canonical_ids x d'" using assms(3) by (simp only: by_ids same)
  obtain r where r: "r \<in> set (artifacts d')" "claimed_row c r" "af_expires r = Some (plus_millis now 30000)" "ea_owner c = gc_owner uuid"
    using round(2)[OF assms(4)] by (auto simp: held_by_collector_def)
  have "\<not> list_ex (staged_under l) (artifacts d')"
  proof
    assume "list_ex (staged_under l) (artifacts d')"
    then obtain q where q: "q \<in> set (artifacts d')" "staged_under l q" by (auto simp: list_ex_iff)
    then have "q = r" using distinct_key_eq[OF ids' q(1) r(1)] r(2) assms(5) by (simp add: staged_under_def claimed_row_def)
    then show False using q(2) r(2,4) assms(6) by (simp add: staged_under_def claimed_row_def)
  qed
  then have "commit_state d' (renew_staging l until d') = d'" "commit_state d' (commit_staged_execution x files run attempt e ls t d') = d'"
    using renewing_staging.without_token[of d' "(l, until)" now] commit_needs_staging[OF assms(7)] by simp_all
  moreover have "ea_id c \<notin> ea_id ` set claimed'"
    if "t \<le> plus_millis now 30000" and again: "claim_expired_staging x uuid' t limit' d' = Inr (claimed', d'')"
  proof
    assume "ea_id c \<in> ea_id ` set claimed'"
    then obtain c' where "c' \<in> set claimed'" "ea_id c' = ea_id c" by auto
    then obtain q where "q \<in> set (artifacts d')" "af_id q = ea_id c" "staging_lapsed t q"
      using staging_round(3)[OF again canon ids'] by metis
    moreover from this have "q = r" using r(1,2) distinct_key_eq[OF ids' _ r(1), of q] by (simp add: claimed_row_def)
    ultimately show False using r(3) that(1) by (simp add: staging_lapsed_def)
  qed
  ultimately show ?thesis using round(3)[OF assms(4)] by blast
qed

section \<open>Witnesses\<close>

definition sample_begin :: begin_artifact where
  "sample_begin = \<lparr>ba_id = ''f1'', ba_actor = ''a'', ba_attempt = ''t1'', ba_path = ''/s/f1'', ba_display = ''x'', ba_media = ''y'',
     ba_size = 3, ba_caption = None, ba_owner = ''u1'', ba_until = 90\<rparr>"

definition sample_staging :: artifact_lease where
  "sample_staging = \<lparr>sl_id = ''f1'', sl_actor = ''a'', sl_attempt = ''t1'', sl_path = ''/s/f1'', sl_owner = ''u1'', sl_expires = 90\<rparr>"

definition sample_staged :: db where
  "sample_staged = commit_state sample_running (begin_staging sample_begin 60 sample_running)"

definition sample_execution :: durable_tool_execution where
  "sample_execution = \<lparr>de_observation = ''ok'', de_artifacts = [\<lparr>ma_id = ''f1'', ma_path = ''/h'', ma_display_name = ''x'',
     ma_media_type = ''y'', ma_size = 3, ma_sha256 = replicate 64 CHR ''0'', ma_caption = None\<rparr>]\<rparr>"

definition sample_committed :: db where
  "sample_committed = commit_state sample_staged
     (commit_staged_execution codec_ext (\<lambda>p. Some 3) sample_run ''t1'' sample_execution [sample_staging] 70 sample_staged)"

lemma sample_commit:
  "commit_staged_execution codec_ext (\<lambda>p. Some 3) sample_run ''t1'' sample_execution [sample_staging] 70 sample_staged
     = Inr ((), sample_committed)"
proof -
  have "case commit_staged_execution codec_ext (\<lambda>p. Some 3) sample_run ''t1'' sample_execution [sample_staging] 70 sample_staged of
      Inr (out, d') \<Rightarrow> True | Inl e \<Rightarrow> False"
    by code_simp
  then show ?thesis unfolding sample_committed_def by (rule tx_succeeds) simp
qed

lemma sample_staged_ok: "artifacts_ok sample_staged" "canonical_ids codec_ext sample_staged" "distinct (map ta_id (attempts sample_staged))"
  by code_simp+

theorem artifacts_stay_sound_witness:
  "(artifact_step codec_ext)\<^sup>*\<^sup>* sample_staged sample_committed \<and> artifacts_ok sample_committed \<and> retained_bytes ''a'' sample_committed = 3"
proof -
  have s: "(artifact_step codec_ext)\<^sup>*\<^sup>* sample_staged sample_committed"
    by (rule r_into_rtranclp, rule artifact_step.commits, rule sample_commit)
  have "retained_bytes ''a'' sample_committed = 3" by code_simp
  then show ?thesis using artifacts_stay_sound [OF s sample_staged_ok(1)] s by blast
qed

theorem commit_recoverable_witness:
  "\<exists>ms. recover_attempt codec_ext ''t1'' sample_committed = Inr (ArTerminal (AoSucceeded (sample_execution\<lparr>de_artifacts := ms\<rparr>)), sample_committed)
     \<and> length ms = 1"
proof -
  obtain ms where ms: "recover_attempt codec_ext ''t1'' sample_committed = Inr (ArTerminal (AoSucceeded (sample_execution\<lparr>de_artifacts := ms\<rparr>)), sample_committed)"
    and all: "list_all2 (\<lambda>m m'. artifact_stored (ls_actor (ar_lease sample_run)) m' sample_committed \<and> m' = m\<lparr>ma_id := ma_id m'\<rparr>)
      (de_artifacts sample_execution) ms"
    using commit_recoverable [OF sample_commit sample_staged_ok(1,2) codec_outcomes sample_staged_ok(3)] by blast
  have "length ms = 1" using list_all2_lengthD[OF all] by (simp add: sample_execution_def)
  with ms show ?thesis by blast
qed

definition sample_collected :: db where
  "sample_collected = commit_state sample_staged (claim_expired_staging codec_ext ''u'' 95 256 sample_staged)"

theorem collector_exclusive_witness:
  "claim_expired_staging codec_ext ''u'' 95 256 sample_staged = Inr ([\<lparr>ea_id = ''f1'', ea_path = ''/s/f1'', ea_owner = ''gc:u''\<rparr>], sample_collected)
   \<and> commit_state sample_collected (commit_staged_execution codec_ext (\<lambda>p. Some 3) sample_run ''t1'' sample_execution [sample_staging] 96
        sample_collected) = sample_collected"
proof -
  have "case claim_expired_staging codec_ext ''u'' 95 256 sample_staged of
      Inr (out, d') \<Rightarrow> out = [\<lparr>ea_id = ''f1'', ea_path = ''/s/f1'', ea_owner = ''gc:u''\<rparr>] | Inl e \<Rightarrow> False"
    by code_simp
  then have c: "claim_expired_staging codec_ext ''u'' 95 256 sample_staged
      = Inr ([\<lparr>ea_id = ''f1'', ea_path = ''/s/f1'', ea_owner = ''gc:u''\<rparr>], sample_collected)"
    unfolding sample_collected_def by (rule tx_succeeds) simp
  show ?thesis
    using collector_exclusive [OF c sample_staged_ok(1,2), of _ sample_staging "[sample_staging]"] c
    by (simp add: sample_staging_def gc_owner_def)
qed

text \<open>
  A run whose lease expires at this very moment can still commit artifacts, while every other
  operation of the run is already refused.
\<close>

definition sample_expiring :: db where
  "sample_expiring = commit_state sample_running (begin_staging (sample_begin\<lparr>ba_until := 110\<rparr>) 60 sample_running)"

lemma commit_at_expiry:
  "list_all (\<lambda>l. al_expires l \<le> 100) (leases sample_expiring)
   \<and> isl (finish_attempt codec_ext sample_run ''t1'' AoCancelledKnown 100 sample_expiring)
   \<and> \<not> isl (commit_staged_execution codec_ext (\<lambda>p. Some 3) sample_run ''t1'' sample_execution [sample_staging\<lparr>sl_expires := 110\<rparr>] 100
        sample_expiring)"
  by code_simp

end
