(* ===== verification/Quantum.thy ===== *)
theory Quantum
  imports Artifact_Store Failures Busy_Retry "HOL-Library.Sublist"
begin

text \<open>
  A quantum of an actor: the runner of \<open>runtime/runner.rs\<close> with the staging of
  \<open>runtime/artifacts.rs\<close>, composed from the store operations of the other theories.

  The code is a sequence of awaits. Between two of them anything may happen to the database, time
  passes, and the task that keeps the lease may renew it: that is a \<open>moment\<close>, and the \<open>world\<close> says
  what happens at each, what the model and the tools answer and in which order the branches of a
  \<open>select!\<close> fire. The theorems quantify over the world.
\<close>

section \<open>Answers on a bounded route\<close>

definition RETICULUM_GATEWAY_PREFIX :: string where
  "RETICULUM_GATEWAY_PREFIX = ''reticulum:''"

definition RETICULUM_RESPONSE_CHARS :: nat where
  "RETICULUM_RESPONSE_CHARS = 500"

definition RETICULUM_RESPONSE_PREFIX_CHARS :: nat where
  "RETICULUM_RESPONSE_PREFIX_CHARS = RETICULUM_RESPONSE_CHARS - 3"

definition RETICULUM_RESPONSE_INSTRUCTIONS :: string where
  "RETICULUM_RESPONSE_INSTRUCTIONS = ''Reticulum airtime is scarce. Answer directly and completely in at most 500 Unicode characters. Omit preambles, repetition, and optional detail.''"

definition is_reticulum_route :: "delivery_route option \<Rightarrow> bool" where
  "is_reticulum_route route = (case route of None \<Rightarrow> False | Some r \<Rightarrow> prefix RETICULUM_GATEWAY_PREFIX (dr_gateway r))"

definition ends_sentence :: "char \<Rightarrow> bool" where
  "ends_sentence c \<longleftrightarrow> c \<in> {CHR ''.'', CHR ''!'', CHR ''?'', CHR 0x0A}"

definition trim_end :: "string \<Rightarrow> string" where
  "trim_end s = rev (dropWhile is_space (rev s))"

text \<open>Up to the last end of a sentence, or all of it when there is none.\<close>

definition sentences :: "string \<Rightarrow> string" where
  "sentences s = (if list_ex ends_sentence s then rev (dropWhile (\<lambda>c. \<not> ends_sentence c) (rev s)) else s)"

definition bounded_reticulum_response :: "delivery_route option \<Rightarrow> string \<Rightarrow> string" where
  "bounded_reticulum_response route text =
     (if \<not> is_reticulum_route route \<or> length text \<le> RETICULUM_RESPONSE_CHARS then text
      else trim_end (sentences (take RETICULUM_RESPONSE_PREFIX_CHARS text)) @ ''...'')"

section \<open>What a quantum knows and meets\<close>

datatype run_once_outcome = RoIdle | RoCompleted | RoYielded | RoCancelled | RoWaitingForDecision

datatype agent_activity =
    AaModelStepStarted | AaDescription string | AaToolStarted string | AaToolFinished string bool
  | AaCompleted | AaCancelled | AaFailed

record file_artifact =
  fa_path :: string
  fa_display :: string
  fa_media :: string
  fa_caption :: "string option"

record tool_execution =
  te_observation :: string
  te_artifacts :: "file_artifact list"

record llm_request =
  lq_messages :: "message list"
  lq_tools :: "string list"

record llm_response =
  lp_content :: string
  lp_calls :: "llm_tool_call list"

record tool_call_context =
  tx_attempt :: attempt_id
  tx_authorized :: "string list"

record runner_limits =
  rl_max_events :: nat
  rl_max_model_steps :: nat
  rl_max_tool_steps :: nat
  rl_recent_messages :: nat
  rl_lease_millis :: nat

text \<open>What the runner was built with: its limits, the tools, and the causes behind an error.\<close>

record runner =
  ru_limits :: runner_limits
  ru_instructions :: "string option"
  ru_definitions :: "string list"
  ru_capabilities :: "string \<Rightarrow> tool_capabilities option"
  ru_causes :: "error \<Rightarrow> cause list"

datatype quantum_error = QeAuthority string | QeError error

fun quantum_error_text :: "quantum_error \<Rightarrow> string" where
  "quantum_error_text (QeAuthority m) = m"
| "quantum_error_text (QeError e) = err_text e"

text \<open>What others see of a quantum, in order.\<close>

datatype quantum_event =
    QvIncorporated "request_id list"
  | QvActivity attached_run agent_activity
  | QvText attached_run string
  | QvModel attached_run llm_request
  | QvTool attached_run attempt_id string string "string list"
  | QvTerminalized failure_fence

text \<open>
  A renewal by the heartbeat task: what others did before it, and its time. A moment: the renewals,
  what others did after them, the time, whether the wall deadline has elapsed, an error of SQLite
  itself, and fresh identifiers.
\<close>

record moment =
  mo_beats :: "((db \<Rightarrow> db) \<times> timestamp) list"
  mo_others :: "db \<Rightarrow> db"
  mo_now :: timestamp
  mo_elapsed :: bool
  mo_failure :: "error option"
  mo_ids :: id_supply

text \<open>The branch of a \<open>select!\<close> that fires, or a piece of text the model streams.\<close>

datatype 'a wake = WkDeadline | WkHeartbeat | WkDone 'a | WkSignal bool | WkDelta string

text \<open>What the file system answers while an artifact is staged.\<close>

record staging_answer =
  sg_size :: "error + nat"
  sg_id :: artifact_id
  sg_owner :: string
  sg_partial :: string
  sg_partial_ok :: "error + unit"
  sg_renewals :: nat
  sg_copied :: "error + string"
  sg_final :: "string \<Rightarrow> string"
  sg_final_ok :: "error + unit"
  sg_placed :: "referenced_artifact option \<Rightarrow> error + unit"

record staging_world =
  sw_root :: "error + unit"
  sw_item :: "nat \<Rightarrow> staging_answer"
  sw_synced :: "error + unit"
  sw_files :: "string \<Rightarrow> nat option"

record world =
  wo_moment :: "nat \<Rightarrow> moment"
  wo_model :: "nat \<Rightarrow> llm_request \<Rightarrow> (error + llm_response) wake list"
  wo_tool :: "nat \<Rightarrow> string \<Rightarrow> string \<Rightarrow> tool_call_context \<Rightarrow> (error + tool_execution) wake list"
  wo_staging :: "nat \<Rightarrow> staging_world"

record heartbeat =
  hb_alive :: bool
  hb_lease :: actor_lease
  hb_error :: "string option"

record quantum =
  qu_db :: db
  qu_step :: nat
  qu_lease :: actor_lease
  qu_latest :: actor_lease
  qu_heartbeat :: heartbeat
  qu_task :: bool
  qu_run :: attached_run
  qu_fence :: "failure_fence option"
  qu_activity :: "attached_run option"
  qu_progress :: quantum_progress
  qu_messages :: "message list"
  qu_tool_steps :: nat
  qu_cancelled :: bool
  qu_trace :: "quantum_event list"

text \<open>
  The \<open>?\<close> operator and the early returns of the block inside \<open>run_leased\<close>; \<open>Hangs\<close> is an await
  that is never woken again, \<open>Panics\<close> an \<open>unreachable!()\<close>.
\<close>

datatype 'a flow = Go 'a | Leave run_once_outcome | Fails quantum_error | Hangs | Panics

type_synonym 'a step = "quantum \<Rightarrow> 'a flow \<times> quantum"

definition qbind :: "'a step \<Rightarrow> ('a \<Rightarrow> 'b step) \<Rightarrow> 'b step" where
  "qbind m k s =
     (case m s of
        (Go v, s1) \<Rightarrow> k v s1
      | (Leave out, s1) \<Rightarrow> (Leave out, s1)
      | (Fails e, s1) \<Rightarrow> (Fails e, s1)
      | (Hangs, s1) \<Rightarrow> (Hangs, s1)
      | (Panics, s1) \<Rightarrow> (Panics, s1))"

definition qreturn :: "'a flow \<Rightarrow> 'a step" where
  "qreturn f s = (f, s)"

definition qmodify :: "(quantum \<Rightarrow> quantum) \<Rightarrow> unit step" where
  "qmodify f s = (Go (), f s)"

definition qget :: "(quantum \<Rightarrow> 'a step) \<Rightarrow> 'a step" where
  "qget k s = k s s"

definition qlift :: "error + 'a \<Rightarrow> 'a step" where
  "qlift r = qreturn (case r of Inl e \<Rightarrow> Fails (QeError e) | Inr v \<Rightarrow> Go v)"

text \<open>A \<open>Result\<close> that is inspected instead of returned.\<close>

definition qtry :: "'a step \<Rightarrow> (error + 'a) step" where
  "qtry m s =
     (case m s of
        (Go v, s1) \<Rightarrow> (Go (Inr v), s1)
      | (Fails (QeError e), s1) \<Rightarrow> (Go (Inl e), s1)
      | (Fails (QeAuthority e), s1) \<Rightarrow> (Go (Inl (Bail e)), s1)
      | (Leave out, s1) \<Rightarrow> (Leave out, s1)
      | (Hangs, s1) \<Rightarrow> (Hangs, s1)
      | (Panics, s1) \<Rightarrow> (Panics, s1))"

definition emit :: "quantum_event \<Rightarrow> unit step" where
  "emit e = qmodify (\<lambda>s. s\<lparr>qu_trace := qu_trace s @ [e]\<rparr>)"

definition publish_activity :: "agent_activity \<Rightarrow> unit step" where
  "publish_activity a = qget (\<lambda>s. emit (QvActivity (qu_run s) a))"

text \<open>\<open>duration_millis\<close> of the lease duration.\<close>

definition duration_millis :: "nat \<Rightarrow> error + int" where
  "duration_millis n = (if int n \<le> i64_max then Inr (int n) else Inl (Bail ''out of range integral type conversion attempted''))"

text \<open>One turn of the heartbeat task.\<close>

definition beat :: "runner \<Rightarrow> (db \<Rightarrow> db) \<times> timestamp \<Rightarrow> quantum \<Rightarrow> quantum" where
  "beat ru b s =
     (case b of (others, now) \<Rightarrow>
      let d = others (qu_db s); h = qu_heartbeat s in
      if \<not> hb_alive h then s\<lparr>qu_db := d\<rparr>
      else case duration_millis (rl_lease_millis (ru_limits ru)) of
        Inl e \<Rightarrow> s\<lparr>qu_db := d, qu_heartbeat := h\<lparr>hb_alive := False, hb_error := Some (err_text e)\<rparr>\<rparr>
      | Inr millis \<Rightarrow>
          (case renew_lease (hb_lease h) now (plus_millis now millis) d of
             Inl e \<Rightarrow> s\<lparr>qu_db := d, qu_heartbeat := h\<lparr>hb_alive := False, hb_error := Some (err_text e)\<rparr>\<rparr>
           | Inr (renewed, d1) \<Rightarrow> s\<lparr>qu_db := d1, qu_heartbeat := h\<lparr>hb_lease := renewed\<rparr>, qu_latest := renewed\<rparr>))"

definition pass :: "runner \<Rightarrow> world \<Rightarrow> moment step" where
  "pass ru w s =
     (let m = wo_moment w (qu_step s);
          s1 = fold (beat ru) (mo_beats m) s in
      (Go m, s1\<lparr>qu_db := mo_others m (qu_db s1), qu_step := Suc (qu_step s1)\<rparr>))"

text \<open>A call of the store: a moment passes and the transaction is made.\<close>

definition in_tx :: "(db \<Rightarrow> 'a tx) \<Rightarrow> 'a step" where
  "in_tx f s =
     (case f (qu_db s) of
        Inl e \<Rightarrow> (Fails (QeError e), s)
      | Inr (v, d) \<Rightarrow> (Go v, s\<lparr>qu_db := d\<rparr>))"

definition store :: "runner \<Rightarrow> world \<Rightarrow> (moment \<Rightarrow> db \<Rightarrow> 'a tx) \<Rightarrow> 'a step" where
  "store ru w f =
     qbind (pass ru w) (\<lambda>m. case mo_failure m of Some e \<Rightarrow> qreturn (Fails (QeError e)) | None \<Rightarrow> in_tx (f m))"

definition store_read :: "runner \<Rightarrow> world \<Rightarrow> (db \<Rightarrow> error + 'a) \<Rightarrow> 'a step" where
  "store_read ru w f = store ru w (\<lambda>m d. ebind (f d) (\<lambda>v. Inr (v, d)))"

fun progress_rank :: "quantum_progress \<Rightarrow> nat" where
  "progress_rank QpNone = 0"
| "progress_rank QpModelCheckpoint = 1"
| "progress_rank QpKnownToolOutcome = 2"
| "progress_rank QpFinalized = 3"

definition advance_progress :: "quantum_progress \<Rightarrow> unit step" where
  "advance_progress committed =
     qmodify (\<lambda>s. if progress_rank (qu_progress s) < progress_rank committed then s\<lparr>qu_progress := committed\<rparr> else s)"

section \<open>Keeping the lease\<close>

definition adopt_lease :: "actor_lease \<Rightarrow> quantum \<Rightarrow> quantum" where
  "adopt_lease l s =
     (let run = (qu_run s)\<lparr>ar_lease := l\<rparr> in
      s\<lparr>qu_lease := l, qu_run := run, qu_fence := Some (fence_of run), qu_activity := Some run\<rparr>)"

definition sync_execution_lease :: "unit step" where
  "sync_execution_lease =
     qget (\<lambda>s. case hb_error (qu_heartbeat s) of
       Some e \<Rightarrow> qreturn (Fails (QeAuthority e))
     | None \<Rightarrow> qmodify (adopt_lease (hb_lease (qu_heartbeat s))))"

definition start_execution_heartbeat :: "unit step" where
  "start_execution_heartbeat =
     qmodify (\<lambda>s. s\<lparr>qu_task := True, qu_heartbeat := \<lparr>hb_alive = True, hb_lease = qu_lease s, hb_error = None\<rparr>\<rparr>)"

definition as_authority :: "'a step \<Rightarrow> 'a step" where
  "as_authority m s =
     (case m s of
        (Fails e, s1) \<Rightarrow> (Fails (QeAuthority (quantum_error_text e)), s1)
      | r \<Rightarrow> r)"

definition stop_execution_heartbeat :: "runner \<Rightarrow> world \<Rightarrow> unit step" where
  "stop_execution_heartbeat ru w =
     qget (\<lambda>s. if \<not> qu_task s then qreturn (Go ())
       else qbind (pass ru w) (\<lambda>_.
            qbind (qmodify (\<lambda>s. s\<lparr>qu_task := False, qu_heartbeat := (qu_heartbeat s)\<lparr>hb_alive := False\<rparr>\<rparr>)) (\<lambda>_.
            qbind sync_execution_lease (\<lambda>_.
            qbind (as_authority (qlift (duration_millis (rl_lease_millis (ru_limits ru))))) (\<lambda>millis.
            qbind (as_authority (qget (\<lambda>s. store ru w (\<lambda>m. renew_lease (qu_lease s) (mo_now m) (plus_millis (mo_now m) millis))))) (\<lambda>l.
              qmodify (\<lambda>s. adopt_lease l (s\<lparr>qu_latest := l\<rparr>))))))))"

section \<open>Waiting for the model or a tool\<close>

datatype 'a execution_wait = EwCompleted 'a | EwCancelled | EwYielded

definition exceeded :: error where
  "exceeded = Bail ''model or tool execution exceeded wall-time limit''"

definition newer_control :: "runner \<Rightarrow> world \<Rightarrow> control_event option step" where
  "newer_control ru w =
     qget (\<lambda>s. store ru w (\<lambda>m. newer_control_event (qu_lease s) (ar_observed (qu_run s)) (mo_now m)))"

definition cancel_quantum :: "ext \<Rightarrow> runner \<Rightarrow> world \<Rightarrow> control_event \<Rightarrow> unit step" where
  "cancel_quantum x ru w control =
     qbind (qget (\<lambda>s. store ru w (\<lambda>m. cancel_run x (mo_ids m) (qu_run s) control (mo_now m)))) (\<lambda>_.
     qbind (advance_progress QpFinalized) (\<lambda>_. publish_activity AaCancelled))"

definition cancel_context :: "unit step" where
  "cancel_context = qmodify (\<lambda>s. s\<lparr>qu_cancelled := True\<rparr>)"

definition execution_timeout :: "ext \<Rightarrow> runner \<Rightarrow> world \<Rightarrow> bool step" where
  "execution_timeout x ru w =
     qbind cancel_context (\<lambda>_.
     qbind (newer_control ru w) (\<lambda>found.
       case found of
         Some control \<Rightarrow>
           if cv_kind control = CancelRequested then qbind (cancel_quantum x ru w control) (\<lambda>_. qreturn (Go True))
           else qreturn (Go False)
       | None \<Rightarrow> qreturn (Go False)))"

text \<open>What happens once the wall deadline has elapsed.\<close>

definition deadline_passed :: "ext \<Rightarrow> runner \<Rightarrow> world \<Rightarrow> 'a flow \<Rightarrow> 'a step" where
  "deadline_passed x ru w cancelled =
     qbind (stop_execution_heartbeat ru w) (\<lambda>_.
     qbind (execution_timeout x ru w) (\<lambda>stopped.
       if stopped then qreturn cancelled else qreturn (Fails (QeError exceeded))))"

definition execution_boundary :: "ext \<Rightarrow> runner \<Rightarrow> world \<Rightarrow> unit step" where
  "execution_boundary x ru w =
     qbind (pass ru w) (\<lambda>m.
       if \<not> mo_elapsed m then sync_execution_lease
       else deadline_passed x ru w (Leave RoCancelled))"

definition control_signalled :: "ext \<Rightarrow> runner \<Rightarrow> world \<Rightarrow> control_event \<Rightarrow> 'a execution_wait step" where
  "control_signalled x ru w control =
     qbind cancel_context (\<lambda>_.
       case cv_kind control of
         CancelRequested \<Rightarrow> qbind (cancel_quantum x ru w control) (\<lambda>_. qreturn (Go EwCancelled))
       | UserMessage \<Rightarrow>
           qbind (pass ru w) (\<lambda>m.
             if mo_elapsed m then deadline_passed x ru w (Go EwCancelled) else qreturn (Go EwYielded))
       | ExternalCompletion \<Rightarrow> qreturn Panics)"

fun await_loop :: "ext \<Rightarrow> runner \<Rightarrow> world \<Rightarrow> attached_run \<Rightarrow> 'a wake list \<Rightarrow> 'a execution_wait step" where
  "await_loop x ru w started [] = qreturn Hangs"
| "await_loop x ru w started (k # ks) =
     (case k of
        WkDeadline \<Rightarrow> deadline_passed x ru w (Go EwCancelled)
      | WkHeartbeat \<Rightarrow> qbind (pass ru w) (\<lambda>_. qbind sync_execution_lease (\<lambda>_. await_loop x ru w started ks))
      | WkDone v \<Rightarrow> qbind (pass ru w) (\<lambda>_. qbind sync_execution_lease (\<lambda>_. qreturn (Go (EwCompleted v))))
      | WkSignal ok \<Rightarrow>
          qbind (pass ru w) (\<lambda>_. qbind sync_execution_lease (\<lambda>_.
            if \<not> ok then await_loop x ru w started ks
            else qbind (newer_control ru w) (\<lambda>found.
              case found of None \<Rightarrow> await_loop x ru w started ks | Some control \<Rightarrow> control_signalled x ru w control)))
      | WkDelta text \<Rightarrow> qbind (emit (QvText started text)) (\<lambda>_. await_loop x ru w started ks))"

definition await_execution :: "ext \<Rightarrow> runner \<Rightarrow> world \<Rightarrow> 'a wake list \<Rightarrow> 'a execution_wait step" where
  "await_execution x ru w ks =
     qget (\<lambda>started.
     qbind (pass ru w) (\<lambda>m.
     qbind sync_execution_lease (\<lambda>_.
       if mo_elapsed m then deadline_passed x ru w (Go EwCancelled)
       else await_loop x ru w (qu_run started) ks)))"

section \<open>Staging what a tool produced\<close>

fun renewals :: "runner \<Rightarrow> world \<Rightarrow> nat \<Rightarrow> artifact_lease \<Rightarrow> (error option \<times> artifact_lease) step" where
  "renewals ru w 0 l = qreturn (Go (None, l))"
| "renewals ru w (Suc n) l =
     qbind (qtry (store ru w (\<lambda>m. renew_staging l (plus_millis (mo_now m) 30000)))) (\<lambda>r.
       case r of Inl e \<Rightarrow> qreturn (Go (Some e, l)) | Inr l' \<Rightarrow> renewals ru w n l')"

definition copy_and_hash :: "runner \<Rightarrow> world \<Rightarrow> staging_answer \<Rightarrow> artifact_lease \<Rightarrow> (string \<times> artifact_lease) step" where
  "copy_and_hash ru w a l =
     qbind (renewals ru w (sg_renewals a) l) (\<lambda>(failed, l').
     qbind (qlift (sg_copied a)) (\<lambda>sha.
       case failed of Some e \<Rightarrow> qreturn (Fails (QeError e)) | None \<Rightarrow> qreturn (Go (sha, l'))))"

definition prepare_artifact ::
    "runner \<Rightarrow> world \<Rightarrow> attached_run \<Rightarrow> attempt_id \<Rightarrow> staging_answer \<Rightarrow> file_artifact
      \<Rightarrow> (managed_artifact \<times> artifact_lease) step" where
  "prepare_artifact ru w run attempt a file =
     qbind (qlift (sg_size a)) (\<lambda>n.
     qbind (qlift (sg_partial_ok a)) (\<lambda>_.
     qbind (store ru w (\<lambda>m. begin_staging
       \<lparr>ba_id = sg_id a, ba_actor = ls_actor (ar_lease run), ba_attempt = attempt, ba_path = sg_partial a,
        ba_display = fa_display file, ba_media = fa_media file, ba_size = n, ba_caption = fa_caption file,
        ba_owner = sg_owner a, ba_until = plus_millis (mo_now m) 30000\<rparr> (mo_now m))) (\<lambda>l.
     qbind (copy_and_hash ru w a l) (\<lambda>(sha, l').
     qbind (qlift (sg_final_ok a)) (\<lambda>_.
       qreturn (Go (\<lparr>ma_id = sg_id a, ma_path = sg_final a sha, ma_display_name = fa_display file,
                     ma_media_type = fa_media file, ma_size = n, ma_sha256 = sha, ma_caption = fa_caption file\<rparr>, l')))))))"

fun prepare_artifacts ::
    "runner \<Rightarrow> world \<Rightarrow> attached_run \<Rightarrow> attempt_id \<Rightarrow> (nat \<Rightarrow> staging_answer) \<Rightarrow> nat \<Rightarrow> file_artifact list
      \<Rightarrow> (managed_artifact \<times> artifact_lease) list step" where
  "prepare_artifacts ru w run attempt answers i [] = qreturn (Go [])"
| "prepare_artifacts ru w run attempt answers i (file # files) =
     qbind (prepare_artifact ru w run attempt (answers i) file) (\<lambda>p.
     qbind (prepare_artifacts ru w run attempt answers (Suc i) files) (\<lambda>ps. qreturn (Go (p # ps))))"

text \<open>Putting the copies in their places, next to what is already referenced.\<close>

fun place_artifacts ::
    "ext \<Rightarrow> runner \<Rightarrow> world \<Rightarrow> attached_run \<Rightarrow> (nat \<Rightarrow> staging_answer) \<Rightarrow> nat \<Rightarrow> managed_artifact list \<Rightarrow> unit step" where
  "place_artifacts x ru w run answers i [] = qreturn (Go ())"
| "place_artifacts x ru w run answers i (m # ms) =
     qbind (store_read ru w (find_referenced_artifact x (ls_actor (ar_lease run)) (ma_sha256 m) (ma_size m))) (\<lambda>found.
     qbind (qlift (case found of
               Some r \<Rightarrow> if rf_path r \<noteq> ma_path m then Inl (Bail ''referenced artifact is outside its canonical path'')
                         else sg_placed (answers i) found
             | None \<Rightarrow> sg_placed (answers i) None)) (\<lambda>_.
       place_artifacts x ru w run answers (Suc i) ms))"

definition stage_execution ::
    "ext \<Rightarrow> runner \<Rightarrow> world \<Rightarrow> attempt_id \<Rightarrow> tool_execution \<Rightarrow> durable_tool_execution step" where
  "stage_execution x ru w attempt e =
     qget (\<lambda>s. let run = qu_run s; sw = wo_staging w (qu_step s) in
     qbind (qlift (sw_root sw)) (\<lambda>_.
     qbind (prepare_artifacts ru w run attempt (sw_item sw) 0 (te_artifacts e)) (\<lambda>ps.
     qbind (place_artifacts x ru w run (sw_item sw) 0 (map fst ps)) (\<lambda>_.
     qbind (qlift (sw_synced sw)) (\<lambda>_.
     qbind (store ru w (\<lambda>m. commit_staged_execution x (sw_files sw) run attempt
              \<lparr>de_observation = te_observation e, de_artifacts = map fst ps\<rparr> (map snd ps) (mo_now m))) (\<lambda>_.
     qbind (store ru w (\<lambda>m. recover_attempt x attempt)) (\<lambda>recovery.
       case recovery of
         ArTerminal (AoSucceeded durable) \<Rightarrow> qreturn (Go durable)
       | _ \<Rightarrow> qreturn (Fails (QeError (Bail ''committed artifact execution is not recoverable'')))))))))) "

end
