(* ===== verification/Runner.thy ===== *)
theory Runner
  imports Quantum
begin

text \<open>
  The quantum itself, from \<open>runtime/runner.rs\<close>: taking up the attempts an earlier quantum left, the
  model steps with their tool calls, the answer, and around them the lease, the heartbeat and the
  books of failures. The observations are those of \<open>agent/tool_observation.rs\<close>.
\<close>

section \<open>Observations\<close>

definition system_message :: "string \<Rightarrow> message" where
  "system_message text =
     \<lparr>ms_role = RoleSystem, ms_content = push_text [] text, ms_tool_calls = [], ms_tool_call_id = None\<rparr>"

definition observed_success :: "ext \<Rightarrow> string \<Rightarrow> string" where
  "observed_success x r = render_json x (JObject [(''ok'', JBool True), (''result'', JString r)])"

definition observed_failure :: "ext \<Rightarrow> string \<Rightarrow> string" where
  "observed_failure x e = render_json x (JObject [(''ok'', JBool False), (''error'', JString e)])"

fun observation_for_outcome :: "ext \<Rightarrow> attempt_outcome \<Rightarrow> string" where
  "observation_for_outcome x (AoSucceeded e) = observed_success x (de_observation e)"
| "observation_for_outcome x (AoFailedKnown m) = observed_failure x m"
| "observation_for_outcome x AoCancelledKnown = observed_failure x ''tool call cancelled''"

fun executed_outcome :: "error + durable_tool_execution \<Rightarrow> attempt_outcome" where
  "executed_outcome (Inl e) = AoFailedKnown (err_text e)"
| "executed_outcome (Inr e) = AoSucceeded e"

definition not_allowed :: "string \<Rightarrow> attempt_outcome" where
  "not_allowed name = AoFailedKnown (''tool is not allowed for this event: '' @ name)"

section \<open>Calling a tool\<close>

fun returned :: "'a execution_wait \<Rightarrow> 'a step" where
  "returned (EwCompleted v) = qreturn (Go v)"
| "returned EwCancelled = qreturn (Leave RoCancelled)"
| "returned EwYielded = qreturn (Leave RoYielded)"

text \<open>
  The part that both loops share: the call counts against the budget, the attempt is marked
  running, the tool is called, and what it produced is staged. The event \<open>QvTool\<close> stands for the
  call of \<open>tools.execute\<close>.
\<close>

definition call_tool ::
    "ext \<Rightarrow> runner \<Rightarrow> world \<Rightarrow> string list \<Rightarrow> attempt_id \<Rightarrow> string \<Rightarrow> string
      \<Rightarrow> (error + durable_tool_execution) step" where
  "call_tool x ru w authorized i name args =
     qbind (qmodify (\<lambda>s. s\<lparr>qu_tool_steps := Suc (qu_tool_steps s)\<rparr>)) (\<lambda>_.
     qbind (qget (\<lambda>s. store ru w (\<lambda>m. mark_attempt_running (qu_run s) i (mo_now m)))) (\<lambda>_.
     qbind (publish_activity (AaToolStarted name)) (\<lambda>_.
     qbind (qget (\<lambda>s. emit (QvTool (qu_run s) i name args authorized))) (\<lambda>_.
     qbind (qget (\<lambda>s. await_execution x ru w
              (wo_tool w (qu_step s) name args \<lparr>tx_attempt = i, tx_authorized = authorized\<rparr>))) (\<lambda>waited.
     qbind (returned waited) (\<lambda>execution.
       case execution of
         Inl e \<Rightarrow> qreturn (Go (Inl e))
       | Inr e \<Rightarrow> qtry (stage_execution x ru w i e)))))))"

definition finish_failed :: "ext \<Rightarrow> runner \<Rightarrow> world \<Rightarrow> attempt_id \<Rightarrow> error + durable_tool_execution \<Rightarrow> unit step" where
  "finish_failed x ru w i r =
     (case r of
        Inr e \<Rightarrow> qreturn (Go ())
      | Inl e \<Rightarrow> qget (\<lambda>s. store ru w (\<lambda>m. finish_attempt x (qu_run s) i (executed_outcome r) (mo_now m))))"

definition tool_finished :: "string \<Rightarrow> error + durable_tool_execution \<Rightarrow> unit step" where
  "tool_finished name r = publish_activity (AaToolFinished name (\<not> isl r))"

section \<open>Taking up the attempts of an earlier quantum\<close>

definition wait_for_decision :: "ext \<Rightarrow> runner \<Rightarrow> world \<Rightarrow> tool_attempt \<Rightarrow> 'a step" where
  "wait_for_decision x ru w a =
     qbind (if at_state a = AtWaitingForDecision then qreturn (Go ())
            else qget (\<lambda>s. store ru w (\<lambda>m. block_unknown_attempt (qu_run s) (at_attempt a) (mo_now m)))) (\<lambda>_.
     qbind (execution_boundary x ru w) (\<lambda>_. qreturn (Leave RoWaitingForDecision)))"

definition refuse_attempt :: "ext \<Rightarrow> runner \<Rightarrow> world \<Rightarrow> tool_attempt \<Rightarrow> attempt_recovery \<Rightarrow> attempt_outcome step" where
  "refuse_attempt x ru w a recovery =
     (case recovery of
        ArMayInvoke \<Rightarrow>
          qbind (qget (\<lambda>s. store ru w (\<lambda>m.
            reject_prepared_attempt x (qu_run s) (at_attempt a) (not_allowed (at_tool a)) (mo_now m)))) (\<lambda>_.
            qreturn (Go (not_allowed (at_tool a))))
      | ArTerminal out \<Rightarrow> qreturn (Go out)
      | ArOutcomeUnknown \<Rightarrow> wait_for_decision x ru w a)"

definition resume_attempt :: "ext \<Rightarrow> runner \<Rightarrow> world \<Rightarrow> tool_attempt \<Rightarrow> attempt_recovery \<Rightarrow> attempt_outcome step" where
  "resume_attempt x ru w a recovery =
     (case recovery of
        ArMayInvoke \<Rightarrow>
          qget (\<lambda>s. if rl_max_tool_steps (ru_limits ru) \<le> qu_tool_steps s
            then qbind (execution_boundary x ru w) (\<lambda>_. qreturn (Leave RoYielded))
            else qbind (call_tool x ru w [at_tool a] (at_attempt a) (at_tool a) (at_args a)) (\<lambda>r.
                 qbind (finish_failed x ru w (at_attempt a) r) (\<lambda>_.
                 qbind (tool_finished (at_tool a) r) (\<lambda>_. qreturn (Go (executed_outcome r))))))
      | ArTerminal out \<Rightarrow> qreturn (Go out)
      | ArOutcomeUnknown \<Rightarrow> wait_for_decision x ru w a)"

definition names_call :: "string \<Rightarrow> message list \<Rightarrow> bool" where
  "names_call call ms \<longleftrightarrow> list_ex (\<lambda>m. list_ex (\<lambda>c. tc_id c = call) (ms_tool_calls m)) ms"

text \<open>The call, unless the context has it already, and its result.\<close>

definition recovered_messages :: "ext \<Rightarrow> tool_attempt \<Rightarrow> attempt_outcome \<Rightarrow> message list \<Rightarrow> message list" where
  "recovered_messages x a out ms =
     (if names_call (at_call a) ms then []
      else [assistant_tool_calls [] [\<lparr>tc_id = at_call a, tc_name = at_tool a, tc_arguments = at_args a\<rparr>]])
     @ [tool_result (at_call a) (observation_for_outcome x out)]"

definition checkpoint :: "ext \<Rightarrow> runner \<Rightarrow> world \<Rightarrow> event_id list \<Rightarrow> attempt_id list \<Rightarrow> message list \<Rightarrow> unit step" where
  "checkpoint x ru w es ids ms =
     qget (\<lambda>s. store ru w (\<lambda>m. checkpoint_run x
       \<lparr>ck_run = qu_run s, ck_events = es, ck_attempts = ids, ck_messages = ms\<rparr> (mo_now m)))"

definition extend_messages :: "message list \<Rightarrow> unit step" where
  "extend_messages ms = qmodify (\<lambda>s. s\<lparr>qu_messages := qu_messages s @ ms\<rparr>)"

definition recover_one :: "ext \<Rightarrow> runner \<Rightarrow> world \<Rightarrow> tool_attempt \<Rightarrow> unit step" where
  "recover_one x ru w a =
     qbind (execution_boundary x ru w) (\<lambda>_.
     qbind (store ru w (\<lambda>m. recover_attempt x (at_attempt a))) (\<lambda>recovery.
     qbind (qget (\<lambda>s. if \<not> policy_allows (ar_policy (qu_run s)) (at_tool a)
              then refuse_attempt x ru w a recovery else resume_attempt x ru w a recovery)) (\<lambda>out.
     qget (\<lambda>s. let ms = recovered_messages x a out (qu_messages s) in
     qbind (checkpoint x ru w [] [at_attempt a] ms) (\<lambda>_.
     qbind (advance_progress QpKnownToolOutcome) (\<lambda>_. extend_messages ms))))))"

fun recover_attempts :: "ext \<Rightarrow> runner \<Rightarrow> world \<Rightarrow> tool_attempt list \<Rightarrow> unit step" where
  "recover_attempts x ru w [] = qreturn (Go ())"
| "recover_attempts x ru w (a # as) = qbind (recover_one x ru w a) (\<lambda>_. recover_attempts x ru w as)"

section \<open>A model step\<close>

definition llm_request_for :: "runner \<Rightarrow> attached_run \<Rightarrow> message list \<Rightarrow> llm_request" where
  "llm_request_for ru run ms =
     \<lparr>lq_messages =
        (if is_reticulum_route (ar_route run) then [system_message RETICULUM_RESPONSE_INSTRUCTIONS] else [])
        @ (case ru_instructions ru of None \<Rightarrow> [] | Some t \<Rightarrow> [system_message t]) @ ms,
      lq_tools = filter (policy_allows (ar_policy run)) (ru_definitions ru)\<rparr>"

definition obey_control :: "ext \<Rightarrow> runner \<Rightarrow> world \<Rightarrow> control_event \<Rightarrow> 'a step" where
  "obey_control x ru w control =
     (case cv_kind control of
        CancelRequested \<Rightarrow> qbind (cancel_quantum x ru w control) (\<lambda>_. qreturn (Leave RoCancelled))
      | UserMessage \<Rightarrow> qbind (execution_boundary x ru w) (\<lambda>_. qreturn (Leave RoYielded))
      | ExternalCompletion \<Rightarrow> qreturn Panics)"

definition ask_model :: "ext \<Rightarrow> runner \<Rightarrow> world \<Rightarrow> llm_response step" where
  "ask_model x ru w =
     qget (\<lambda>s. let request = llm_request_for ru (qu_run s) (qu_messages s) in
     qbind (publish_activity AaModelStepStarted) (\<lambda>_.
     qbind (emit (QvModel (qu_run s) request)) (\<lambda>_.
     qbind (await_execution x ru w (wo_model w (qu_step s) request)) (\<lambda>waited.
     qbind (returned waited) qlift))))"

text \<open>A run attached to the lease: its fence, its context, and the checkpoint that incorporates its events.\<close>

definition attach :: "ext \<Rightarrow> runner \<Rightarrow> world \<Rightarrow> attached_run option step" where
  "attach x ru w =
     qget (\<lambda>s. store ru w (\<lambda>m. attach_next_run x (mo_ids m) (rl_max_events (ru_limits ru)) (qu_lease s) (mo_now m)))"

definition adopt_run :: "ext \<Rightarrow> runner \<Rightarrow> world \<Rightarrow> attached_run \<Rightarrow> unit step" where
  "adopt_run x ru w run =
     qbind (qmodify (\<lambda>s. s\<lparr>qu_run := run, qu_fence := Some (fence_of run), qu_activity := Some run\<rparr>)) (\<lambda>_.
     qbind (qget (\<lambda>s. store_read ru w
              (load_recent_context x (ls_actor (qu_lease s)) (ar_audience run) (rl_recent_messages (ru_limits ru))))) (\<lambda>context.
     qbind (qmodify (\<lambda>s. s\<lparr>qu_messages := context @ ar_messages run\<rparr>)) (\<lambda>_.
       checkpoint x ru w (ar_sources run) [] (ar_messages run))))"

definition final_command :: "moment \<Rightarrow> attached_run \<Rightarrow> string \<Rightarrow> finalize_command" where
  "final_command m run content =
     \<lparr>fz_run = run, fz_events = ar_sources run, fz_messages = [assistant_message content],
      fz_outbox = [\<lparr>ni_id = mo_ids m [0], ni_key = ''run:'' @ ar_run run @ '':final'',
         ni_class = (if ar_source run = None then ''interactive_reply'' else ''webhook_notification''),
         ni_audience = ar_audience run, ni_payload = OpText content\<rparr>]\<rparr>"

definition answer :: "ext \<Rightarrow> runner \<Rightarrow> world \<Rightarrow> string \<Rightarrow> unit step" where
  "answer x ru w text =
     qget (\<lambda>s. let content = bounded_reticulum_response (ar_route (qu_run s)) text in
     qbind (store ru w (\<lambda>m. finalize_run x (subsupply (mo_ids m) 1) (final_command m (qu_run s) content) (mo_now m))) (\<lambda>out.
       case out of
         FoCompleted \<Rightarrow>
           qbind (advance_progress QpFinalized) (\<lambda>_.
           qbind (publish_activity AaCompleted) (\<lambda>_. qreturn (Leave RoCompleted)))
       | FoPreempted newest \<Rightarrow>
           qbind (attach x ru w) (\<lambda>attached. case attached of
             None \<Rightarrow> qreturn (Fails (QeError (Bail ''preempted run was not resumable'')))
           | Some run \<Rightarrow> adopt_run x ru w run)))"

text \<open>Every call the policy allows becomes an attempt; the others stay without one.\<close>

definition prepare_call :: "ext \<Rightarrow> runner \<Rightarrow> world \<Rightarrow> llm_tool_call \<Rightarrow> (llm_tool_call \<times> tool_attempt option) step" where
  "prepare_call x ru w c =
     qget (\<lambda>s. if \<not> policy_allows (ar_policy (qu_run s)) (tc_name c) then qreturn (Go (c, None))
       else case ru_capabilities ru (tc_name c) of
         None \<Rightarrow> qreturn (Fails (QeError (Bail (''unknown tool: '' @ tc_name c))))
       | Some caps \<Rightarrow>
           qbind (store ru w (\<lambda>m. prepare_attempt x (qu_run s)
             \<lparr>na_id = mo_ids m [], na_call = tc_id c, na_tool = tc_name c, na_args = tc_arguments c, na_caps = caps\<rparr>
             (mo_now m))) (\<lambda>a. qreturn (Go (c, Some a))))"

fun prepare_calls :: "ext \<Rightarrow> runner \<Rightarrow> world \<Rightarrow> llm_tool_call list \<Rightarrow> (llm_tool_call \<times> tool_attempt option) list step" where
  "prepare_calls x ru w [] = qreturn (Go [])"
| "prepare_calls x ru w (c # cs) =
     qbind (prepare_call x ru w c) (\<lambda>p. qbind (prepare_calls x ru w cs) (\<lambda>ps. qreturn (Go (p # ps))))"

text \<open>
  The calls one after the other, with the messages and attempts to checkpoint. The first attempt
  beyond the budget ends the loop, and with it everything after it.
\<close>

fun run_calls ::
    "ext \<Rightarrow> runner \<Rightarrow> world \<Rightarrow> (llm_tool_call \<times> tool_attempt option) list \<Rightarrow> message list \<Rightarrow> attempt_id list
      \<Rightarrow> (bool \<times> message list \<times> attempt_id list) step" where
  "run_calls x ru w [] ms ids = qreturn (Go (False, ms, ids))"
| "run_calls x ru w ((c, None) # cs) ms ids =
     run_calls x ru w cs (ms @ [tool_result (tc_id c) (observation_for_outcome x (not_allowed (tc_name c)))]) ids"
| "run_calls x ru w ((c, Some a) # cs) ms ids =
     qget (\<lambda>s. if rl_max_tool_steps (ru_limits ru) \<le> qu_tool_steps s then qreturn (Go (True, ms, ids))
       else qbind (call_tool x ru w [] (at_attempt a) (tc_name c) (tc_arguments c)) (\<lambda>r.
            qbind (tool_finished (tc_name c) r) (\<lambda>_.
            qbind (finish_failed x ru w (at_attempt a) r) (\<lambda>_.
              run_calls x ru w cs (ms @ [tool_result (tc_id c) (observation_for_outcome x (executed_outcome r))])
                (ids @ [at_attempt a])))))"

definition checkpoint_calls :: "ext \<Rightarrow> runner \<Rightarrow> world \<Rightarrow> bool \<times> message list \<times> attempt_id list \<Rightarrow> unit step" where
  "checkpoint_calls x ru w = (\<lambda>(exhausted, ms, ids).
     qbind (if ms = [] then qreturn (Go ())
            else qbind (checkpoint x ru w [] ids ms) (\<lambda>_.
                 qbind (advance_progress QpKnownToolOutcome) (\<lambda>_. extend_messages ms))) (\<lambda>_.
       if exhausted then qbind (execution_boundary x ru w) (\<lambda>_. qreturn (Leave RoYielded))
       else qreturn (Go ())))"

definition use_tools :: "ext \<Rightarrow> runner \<Rightarrow> world \<Rightarrow> llm_response \<Rightarrow> unit step" where
  "use_tools x ru w response =
     qbind (if lp_content response = [] then qreturn (Go ())
            else publish_activity (AaDescription (lp_content response))) (\<lambda>_.
     let assistant = assistant_tool_calls (lp_content response) (lp_calls response) in
     qbind (prepare_calls x ru w (lp_calls response)) (\<lambda>prepared.
     qbind (checkpoint x ru w [] [] [assistant]) (\<lambda>_.
     qbind (advance_progress QpModelCheckpoint) (\<lambda>_.
     qbind (extend_messages [assistant]) (\<lambda>_.
     qbind (run_calls x ru w prepared [] []) (checkpoint_calls x ru w))))))"

definition model_step :: "ext \<Rightarrow> runner \<Rightarrow> world \<Rightarrow> unit step" where
  "model_step x ru w =
     qbind (execution_boundary x ru w) (\<lambda>_.
     qbind (newer_control ru w) (\<lambda>found.
       case found of
         Some control \<Rightarrow> obey_control x ru w control
       | None \<Rightarrow>
           qbind (ask_model x ru w) (\<lambda>response.
             if lp_calls response = [] then answer x ru w (lp_content response) else use_tools x ru w response)))"

fun model_steps :: "ext \<Rightarrow> runner \<Rightarrow> world \<Rightarrow> nat \<Rightarrow> unit step" where
  "model_steps x ru w 0 = qreturn (Go ())"
| "model_steps x ru w (Suc n) = qbind (model_step x ru w) (\<lambda>_. model_steps x ru w n)"

section \<open>Under the lease\<close>

text \<open>The \<open>async\<close> block: what leaves it is its value.\<close>

definition async_block :: "run_once_outcome step \<Rightarrow> run_once_outcome step" where
  "async_block m s = (case m s of (Leave out, s1) \<Rightarrow> (Go out, s1) | r \<Rightarrow> r)"

definition execute_run :: "ext \<Rightarrow> runner \<Rightarrow> world \<Rightarrow> run_once_outcome step" where
  "execute_run x ru w =
     qbind (qget (\<lambda>s. store_read ru w (unresolved_attempts x (qu_run s)))) (\<lambda>as.
     qbind (recover_attempts x ru w as) (\<lambda>_.
     qbind (model_steps x ru w (rl_max_model_steps (ru_limits ru))) (\<lambda>_.
     qbind (execution_boundary x ru w) (\<lambda>_. qreturn (Go RoYielded)))))"

text \<open>The block and then the cleanup, whose error comes first.\<close>

definition with_cleanup :: "run_once_outcome step \<Rightarrow> unit step \<Rightarrow> run_once_outcome step" where
  "with_cleanup m c s =
     (case m s of
        (Go out, s1) \<Rightarrow> qbind c (\<lambda>_. qreturn (Go out)) s1
      | (Fails e, s1) \<Rightarrow> qbind c (\<lambda>_. qreturn (Fails e)) s1
      | r \<Rightarrow> r)"

definition run_leased :: "ext \<Rightarrow> runner \<Rightarrow> world \<Rightarrow> run_once_outcome step" where
  "run_leased x ru w =
     qbind (attach x ru w) (\<lambda>attached.
       case attached of
         None \<Rightarrow> qreturn (Go RoIdle)
       | Some run \<Rightarrow>
           qbind (adopt_run x ru w run) (\<lambda>_.
           qbind (emit (QvIncorporated (ar_requests run))) (\<lambda>_.
           qbind start_execution_heartbeat (\<lambda>_.
             with_cleanup (async_block (execute_run x ru w)) (stop_execution_heartbeat ru w)))))"

section \<open>The books\<close>

record quantum_report =
  qr_work :: "work_item_id option"
  qr_outcome :: run_once_outcome
  qr_progress :: quantum_progress

datatype quantum_failure = QfRecoverable failure_disposition | QfAuthority quantum_error

definition lower_char :: "char \<Rightarrow> char" where
  "lower_char c = (if CHR ''A'' \<le> c \<and> c \<le> CHR ''Z'' then char_of (of_char c + 32 :: nat) else c)"

definition authority_error :: "runner \<Rightarrow> quantum_error \<Rightarrow> bool" where
  "authority_error ru e =
     (case e of
        QeAuthority m \<Rightarrow> True
      | QeError e \<Rightarrow> is_authority_failure (ru_causes ru e)
          \<or> sublist ''unsupported runtime schema'' (map lower_char (err_text e)))"

text \<open>The state at the start: under the lease, with no run attached yet.\<close>

definition unattached :: "actor_lease \<Rightarrow> attached_run" where
  "unattached l =
     \<lparr>ar_lease = l, ar_work = [], ar_run = [], ar_observed = 0, ar_sources = [], ar_requests = [],
      ar_audience = ActorPrivate, ar_route = None, ar_policy = SkillsOnly, ar_source = None, ar_messages = []\<rparr>"

definition leased_quantum :: "db \<Rightarrow> actor_lease \<Rightarrow> quantum" where
  "leased_quantum d l =
     \<lparr>qu_db = d, qu_step = 1, qu_lease = l, qu_latest = l,
      qu_heartbeat = \<lparr>hb_alive = False, hb_lease = l, hb_error = None\<rparr>, qu_task = False,
      qu_run = unattached l, qu_fence = None, qu_activity = None, qu_progress = QpNone, qu_messages = [],
      qu_tool_steps = 0, qu_cancelled = False, qu_trace = []\<rparr>"

text \<open>The lease the heartbeat left last goes into the run that is reported on, and into its fence.\<close>

definition latest_lease :: "unit step" where
  "latest_lease =
     qmodify (\<lambda>s. let s1 = s\<lparr>qu_lease := qu_latest s\<rparr> in
       case qu_activity s of
         None \<Rightarrow> s1
       | Some run \<Rightarrow> (let run1 = run\<lparr>ar_lease := qu_latest s\<rparr> in
           s1\<lparr>qu_activity := Some run1, qu_fence := Some (fence_of run1)\<rparr>))"

definition publish_failed :: "unit step" where
  "publish_failed =
     qget (\<lambda>s. case qu_activity s of None \<Rightarrow> qreturn (Go ()) | Some run \<Rightarrow> emit (QvActivity run AaFailed))"

definition report_progress :: "runner \<Rightarrow> world \<Rightarrow> run_once_outcome \<Rightarrow> quantum_report step" where
  "report_progress ru w out =
     qget (\<lambda>s. qbind (case qu_fence s of
         Some f \<Rightarrow> if qu_progress s \<noteq> QpNone then store ru w (\<lambda>m. record_progress f (mo_now m)) else qreturn (Go ())
       | None \<Rightarrow> qreturn (Go ())) (\<lambda>_.
       qreturn (Go \<lparr>qr_work = map_option ff_work (qu_fence s), qr_outcome = out, qr_progress = qu_progress s\<rparr>)))"

definition log_disposition :: "failure_fence \<Rightarrow> failure_disposition \<Rightarrow> unit step" where
  "log_disposition f d = (if d = FdTerminalized then emit (QvTerminalized f) else qreturn (Go ()))"

definition report_failure :: "ext \<Rightarrow> runner \<Rightarrow> world \<Rightarrow> quantum_error \<Rightarrow> failure_disposition step" where
  "report_failure x ru w e =
     qget (\<lambda>s. case qu_fence s of
         Some f \<Rightarrow>
           if \<not> authority_error ru e
           then qbind (store ru w (\<lambda>m. record_failure x (mo_ids m) f (quantum_error_text e) (qu_progress s) (mo_now m))) (\<lambda>d.
                qbind (log_disposition f d) (\<lambda>_. qreturn (Go d)))
           else qreturn (Fails e)
       | None \<Rightarrow> qreturn (Fails e))"

text \<open>
  What \<open>run_quantum\<close> answers: a report, or a failure that was put on the books, or the error that
  shows the authority is gone. An error is the failure as soon as there is one, and the lease is
  released in either case.
\<close>

definition settled :: "('a \<Rightarrow> quantum_failure + quantum_report) \<Rightarrow> 'a step \<Rightarrow> (quantum_failure + quantum_report) step" where
  "settled f m s =
     (case m s of
        (Go v, s1) \<Rightarrow> (Go (f v), s1)
      | (Fails e, s1) \<Rightarrow> (Go (Inl (QfAuthority e)), s1)
      | (Leave out, s1) \<Rightarrow> (Leave out, s1)
      | (Hangs, s1) \<Rightarrow> (Hangs, s1)
      | (Panics, s1) \<Rightarrow> (Panics, s1))"

definition classify :: "ext \<Rightarrow> runner \<Rightarrow> world \<Rightarrow> run_once_outcome flow \<Rightarrow> (quantum_failure + quantum_report) step" where
  "classify x ru w r =
     (case r of
        Go out \<Rightarrow> settled Inr (report_progress ru w out)
      | Fails e \<Rightarrow> settled (\<lambda>d. Inl (QfRecoverable d)) (qbind publish_failed (\<lambda>_. report_failure x ru w e))
      | Leave out \<Rightarrow> qreturn (Leave out)
      | Hangs \<Rightarrow> qreturn Hangs
      | Panics \<Rightarrow> qreturn Panics)"

definition release :: "runner \<Rightarrow> world \<Rightarrow> quantum_failure + quantum_report \<Rightarrow> (quantum_failure + quantum_report) step" where
  "release ru w classified s =
     (case qget (\<lambda>s. store ru w (\<lambda>m. release_lease (qu_lease s))) s of
        (Fails e, s1) \<Rightarrow> (Go (case classified of Inl f \<Rightarrow> Inl f | Inr report \<Rightarrow> Inl (QfAuthority e)), s1)
      | (_, s1) \<Rightarrow> (Go classified, s1))"

definition under_lease :: "ext \<Rightarrow> runner \<Rightarrow> world \<Rightarrow> (quantum_failure + quantum_report) step" where
  "under_lease x ru w s =
     (case run_leased x ru w s of
        (r, s1) \<Rightarrow> qbind latest_lease (\<lambda>_. qbind (classify x ru w r) (release ru w)) s1)"

text \<open>Without a lease nothing happens, and there is no quantum to speak of.\<close>

definition run_quantum ::
    "ext \<Rightarrow> runner \<Rightarrow> world \<Rightarrow> actor_id \<Rightarrow> string \<Rightarrow> db
      \<Rightarrow> (quantum_failure + quantum_report) flow \<times> db \<times> quantum option" where
  "run_quantum x ru w actor owner d =
     (let m = wo_moment w 0; d0 = mo_others m d in
      case duration_millis (rl_lease_millis (ru_limits ru)) of
        Inl e \<Rightarrow> (Go (Inl (QfAuthority (QeError e))), d, None)
      | Inr millis \<Rightarrow>
        (case (case mo_failure m of Some e \<Rightarrow> Inl e
               | None \<Rightarrow> acquire_ready_actor_for actor owner (mo_now m) (plus_millis (mo_now m) millis) d0) of
           Inl e \<Rightarrow> (Go (Inl (QfAuthority (QeError e))), d0, None)
         | Inr (None, d1) \<Rightarrow> (Go (Inr \<lparr>qr_work = None, qr_outcome = RoIdle, qr_progress = QpNone\<rparr>), d1, None)
         | Inr (Some l, d1) \<Rightarrow>
             (case under_lease x ru w (leased_quantum d1 l) of (r, s) \<Rightarrow> (r, qu_db s, Some s))))"

text \<open>\<open>run_once\<close>: the same for whichever actor is ready first, without the books.\<close>

definition give_back :: "runner \<Rightarrow> world \<Rightarrow> run_once_outcome flow \<Rightarrow> run_once_outcome step" where
  "give_back ru w r =
     qbind (qtry (qget (\<lambda>s. store ru w (\<lambda>m. release_lease (qu_lease s))))) (\<lambda>released.
       qreturn (case r of
         Go out \<Rightarrow> (case released of Inl e \<Rightarrow> Fails (QeError e) | Inr u \<Rightarrow> Go out)
       | _ \<Rightarrow> r))"

definition once_leased :: "ext \<Rightarrow> runner \<Rightarrow> world \<Rightarrow> run_once_outcome step" where
  "once_leased x ru w s =
     (case run_leased x ru w s of (r, s1) \<Rightarrow>
        if r = Hangs \<or> r = Panics then (r, s1)
        else qbind (qmodify (\<lambda>s. s\<lparr>qu_lease := qu_latest s\<rparr>)) (\<lambda>_.
             qbind (case r of Fails e \<Rightarrow> publish_failed | _ \<Rightarrow> qreturn (Go ())) (\<lambda>_. give_back ru w r)) s1)"

definition run_once ::
    "ext \<Rightarrow> runner \<Rightarrow> world \<Rightarrow> string \<Rightarrow> db \<Rightarrow> run_once_outcome flow \<times> db \<times> quantum option" where
  "run_once x ru w owner d =
     (let m = wo_moment w 0; d0 = mo_others m d in
      case duration_millis (rl_lease_millis (ru_limits ru)) of
        Inl e \<Rightarrow> (Fails (QeError e), d, None)
      | Inr millis \<Rightarrow>
        (case (case mo_failure m of Some e \<Rightarrow> Inl e
               | None \<Rightarrow> acquire_ready_actor owner (mo_now m) (plus_millis (mo_now m) millis) d0) of
           Inl e \<Rightarrow> (Fails (QeError e), d0, None)
         | Inr (None, d1) \<Rightarrow> (Go RoIdle, d1, None)
         | Inr (Some l, d1) \<Rightarrow> (case once_leased x ru w (leased_quantum d1 l) of (r, s) \<Rightarrow> (r, qu_db s, Some s))))"

end
