(* ===== verification/Attempt_Frame.thy ===== *)
theory Attempt_Frame
  imports Artifact_Store Failures
begin

text \<open>
  What the operations a quantum makes do to the table of attempts: leases, contexts and artifacts
  leave it alone, checkpoints and cancellations move its rows along the lifecycle. Every one of
  them lets the attempts grow in the sense of \<open>Attempts\<close>.
\<close>

named_theorems grows \<open>operations that only move attempts forward\<close>

lemmas [grows] = prepare_grows recover_grows block_grows

lemma mark_grows [grows]: "mark_attempt_running run i now d = Inr (u, d') \<Longrightarrow> attempts_grow d d'"
  by (rule attempt_step_grows[OF attempt_step.start])

lemma reject_grows [grows]: "reject_prepared_attempt x run i out now d = Inr (u, d') \<Longrightarrow> attempts_grow d d'"
  by (rule attempt_step_grows[OF attempt_step.reject])

lemma finish_grows [grows]: "finish_attempt x run i out now d = Inr (u, d') \<Longrightarrow> attempts_grow d d'"
  by (rule attempt_step_grows[OF attempt_step.finish])

section \<open>Leases and reads\<close>

lemma renew_lease_grows [grows]: "renew_lease ls now until d = Inr (l, d') \<Longrightarrow> attempts_grow d d'"
  by (auto simp: renew_lease_def split: if_splits)

lemma release_lease_grows [grows]: "release_lease ls d = Inr (u, d') \<Longrightarrow> attempts_grow d d'"
  by (auto simp: release_lease_def)

lemma newer_control_grows [grows]: "newer_control_event ls observed now d = Inr (c, d') \<Longrightarrow> attempts_grow d d'"
  by (auto dest: newer_control_event_reads)

lemma read_grows [grows]: "ebind (f d) (\<lambda>v. Inr (v, d)) = Inr (v, d') \<Longrightarrow> attempts_grow d d'"
  by (auto simp: ebind_eq_Inr)

section \<open>Attaching a run\<close>

lemma claim_events_attempts: "claim_events n a p now d = Inr d' \<Longrightarrow> attempts d' = attempts d"
  unfolding claim_events_def
  by (erule efold_invariant[where P = "\<lambda>s. attempts s = attempts d"]) (auto simp: claim_event_def ebind_eq_Inr)

lemma assign_work_item_attempts: "assign_work_item i a now d = Inr d' \<Longrightarrow> attempts d' = attempts d"
  by (auto simp: assign_work_item_def ebind_eq_Inr Let_def split: option.splits)

lemma start_run_attempts:
  assumes "start_run uid ls now d = Inr (p, d')"
  shows "attempts d' = attempts d"
proof -
  obtain d1 where 1: "assign_work_item (uid [0]) (ls_actor ls) now d = Inr d1"
    using assms by (auto simp: start_run_def ebind_eq_Inr)
  then show ?thesis using assms assign_work_item_attempts[OF 1]
    by (cases "first_by (\<lambda>(e, w). (kind_rank (ev_kind e), ev_seq e)) (select_candidates d1 (ls_actor ls) now)")
       (auto simp: start_run_def ebind_eq_Inr)
qed

lemma finish_attach_attempts:
  assumes "finish_attach x ls now p d = Inr (run, d')"
  shows "attempts d' = attempts d"
proof -
  let ?rows = "load_run_events d (pk_run p)"
  show ?thesis using assms
    by (cases "emap (\<lambda>q. event_message x (ev_payload (fst q))) (filter (\<lambda>q. \<not> snd q) ?rows)";
        cases "first_bad_checkpoint x d (pk_work p)")
       (auto simp: finish_attach_def block_malformed_def record_run_def ebind_eq_Inr Let_def)
qed

lemma attach_attempts:
  assumes "attach_next_run x uid n ls now d = Inr (run, d')"
  shows "attempts d' = attempts d"
proof -
  obtain p d1 where picked: "(case pick_active_run d (ls_actor ls) now of
        Some p \<Rightarrow> Inr (Some p, d) | None \<Rightarrow> start_run uid ls now d) = Inr (p, d1)"
    and rest: "(case p of None \<Rightarrow> Inr (None, d)
       | Some p \<Rightarrow> ebind (claim_events n (ls_actor ls) p now d1) (finish_attach x ls now p)) = Inr (run, d')"
    using assms by (auto simp: attach_next_run_def ebind_eq_Inr split: if_splits)
  have "attempts d1 = attempts d" using picked start_run_attempts by (auto split: option.splits)
  then show ?thesis using rest
    by (auto simp: ebind_eq_Inr dest!: claim_events_attempts finish_attach_attempts split: option.splits)
qed

lemma attach_grows [grows]: "attach_next_run x uid n ls now d = Inr (run, d') \<Longrightarrow> attempts_grow d d'"
  by (auto dest: attach_attempts)

section \<open>Checkpoints and the end of a run\<close>

lemma checkpoint_attempt_grows: "checkpoint_attempt run i d = Inr d' \<Longrightarrow> attempts_grow d d'"
  by (auto simp: checkpoint_attempt_def ebind_eq_Inr Let_def attempt_move_def same_attempt_def intro!: attempts_grow_update)

lemma checkpoint_grows [grows]:
  assumes "checkpoint_run x c now d = Inr (u, d')"
  shows "attempts_grow d d'"
proof -
  obtain d1 d2 where 1: "incorporate_events (ck_run c) (ck_events c) d = Inr d1"
    and 2: "checkpoint_attempts (ck_run c) (ck_attempts c) d1 = Inr d2" and 3: "attempts d' = attempts d2"
    using assms by (auto simp: checkpoint_run_def insert_messages_def ebind_eq_Inr)
  have "attempts d1 = attempts d" using 1 unfolding incorporate_events_def
    by (auto simp: ebind_eq_Inr incorporate_event_def Let_def elim!: efold_invariant[where P = "\<lambda>s. attempts s = attempts d"])
  moreover have "attempts_grow d1 d2" using 2 unfolding checkpoint_attempts_def
    by (rule efold_invariant) (auto intro: attempts_grow_trans checkpoint_attempt_grows)
  ultimately show ?thesis using 3 by (simp add: attempts_grow_def)
qed

lemma complete_run_attempts: "complete_run x uid c now d = Inr (out, d') \<Longrightarrow> attempts d' = attempts d"
  by (erule complete_run_Inr, drule create_terminal_bundles_core) (simp add: close_run_def, drule core_tables(5), simp)

lemma finalize_grows [grows]: "finalize_run x uid c now d = Inr (out, d') \<Longrightarrow> attempts_grow d d'"
  by (auto simp: finalize_run_def ebind_eq_Inr split: option.splits dest: complete_run_attempts)

lemma cancel_grows [grows]:
  assumes "cancel_run x uid run c now d = Inr (u, d')"
  shows "attempts_grow d d'"
proof -
  obtain d1 d2 where 1: "accept_cancellation run c now d = Inr d1" and "core d2 = core d1" and 2: "d' = abandon_run run now d2"
    using assms by (auto simp: cancel_run_def ebind_eq_Inr split: if_splits dest: create_terminal_bundles_core)
  then have "attempts d' = attempts d1" using core_tables(5)[of d2 d1] by (simp add: abandon_run_def)
  moreover have "attempts_grow d d1" using 1
    by (auto simp: accept_cancellation_def ebind_eq_Inr Let_def same_attempt_def
        intro!: attempts_grow_update attempt_move_edge attempt_edge.intros)
  ultimately show ?thesis by (simp add: attempts_grow_def)
qed

section \<open>Artifacts\<close>

lemma begin_staging_grows [grows]: "begin_staging c now d = Inr (l, d') \<Longrightarrow> attempts_grow d d'"
  by (auto simp: begin_staging_def insert_artifact_def ebind_eq_Inr split: if_splits)

lemma renew_staging_grows [grows]: "renew_staging l until d = Inr (l', d') \<Longrightarrow> attempts_grow d d'"
  by (auto simp: renew_staging_def ebind_eq_Inr)

lemma commit_execution_grows [grows]:
  assumes "commit_staged_execution x files run attempt e ls now d = Inr (u, d')"
  shows "attempts_grow d d'"
proof -
  obtain ms d1 where 1: "commit_artifacts x run attempt now (de_artifacts e) ls d = Inr (ms, d1)"
    and 2: "attempts d' = update_where (\<lambda>t. ta_id t = attempt \<and> ta_run t = ar_run run \<and> ta_state t = AtRunning)
          (\<lambda>t. t\<lparr>ta_state := AtSucceeded, ta_outcome := Some (write_outcome x (AoSucceeded (e\<lparr>de_artifacts := ms\<rparr>))),
                 ta_updated := now\<rparr>) (attempts d1)"
    using assms by (auto simp: commit_staged_execution_def ebind_eq_Inr Let_def split: prod.splits)
  have "attempts_grow d1 d'"
    by (rule attempts_grow_update[OF 2]) (auto intro!: attempt_move_edge attempt_edge.intros simp: same_attempt_def)
  then show ?thesis using commit_artifacts_attempts[OF 1] by (simp add: attempts_grow_def)
qed

section \<open>The books of failures\<close>

lemma abandon_attempts_grows: "attempts_grow d (abandon_attempts run now d)"
proof -
  let ?d = "d\<lparr>attempts := update_where (\<lambda>t. ta_run t = run \<and> ta_state t = AtRunning)
      (\<lambda>t. t\<lparr>ta_state := AtOutcomeUnknown, ta_updated := now\<rparr>) (attempts d)\<rparr>"
  have "attempts_grow d ?d"
    by (rule attempts_grow_update[where p = "\<lambda>t. ta_run t = run \<and> ta_state t = AtRunning"
          and f = "\<lambda>t. t\<lparr>ta_state := AtOutcomeUnknown, ta_updated := now\<rparr>"])
       (auto simp: same_attempt_def intro!: attempt_move_edge attempt_edge.intros)
  moreover have "attempts_grow ?d (abandon_attempts run now d)"
    by (rule attempts_grow_update[where p = "\<lambda>t. ta_run t = run \<and> ta_state t = AtPrepared"
          and f = "\<lambda>t. t\<lparr>ta_state := AtCancelledKnown, ta_updated := now\<rparr>"])
       (auto simp: abandon_attempts_def same_attempt_def intro!: attempt_move_edge attempt_edge.intros)
  ultimately show ?thesis by (rule attempts_grow_trans)
qed

lemma terminate_run_grows:
  assumes "terminate_run x uid f e now r w d = Inr d'"
  shows "attempts_grow d d'"
proof -
  obtain requests eff route d1 where
    "create_terminal_bundles x (subsupply uid 1) (failing_context f r w route) requests
              [failure_intent (subsupply uid 0) r w e] LrFailedTerminal now d = Inr (eff, d1)"
    and d': "d' = fail_run (rn_id r) now (abandon_attempts (rn_id r) now
             (return_unincorporated (rn_id r) now (fail_incorporated (rn_id r) now d1)))"
    using assms by (auto simp: terminate_run_def ebind_eq_Inr)
  then have "attempts d1 = attempts d" using core_tables(5) create_terminal_bundles_core by metis
  then show ?thesis
    using abandon_attempts_grows[of "return_unincorporated (rn_id r) now (fail_incorporated (rn_id r) now d1)" "rn_id r" now] d'
    by (simp add: attempts_grow_def fail_run_def return_unincorporated_def fail_incorporated_def)
qed

lemma terminalize_grows:
  assumes "terminalize x uid f e now d = Inr (out, d')"
  shows "attempts_grow d d'"
proof -
  obtain d1 where "attempts_grow d d1" "attempts d' = attempts d1"
    using assms by (auto simp: terminalize_def fail_work_item_def ebind_eq_Inr split: option.split_asm prod.split_asm dest: terminate_run_grows)
  then show ?thesis by (simp add: attempts_grow_def)
qed

lemma record_failure_grows [grows]: "record_failure x uid f e p now d = Inr (out, d') \<Longrightarrow> attempts_grow d d'"
  by (auto simp: record_failure_def schedule_retry_def ebind_eq_Inr Let_def split: if_splits dest: terminalize_grows)

lemma record_progress_grows [grows]: "record_progress f now d = Inr (u, d') \<Longrightarrow> attempts_grow d d'"
  by (auto simp: record_progress_def ebind_eq_Inr)

lemma acquire_grows [grows]: "acquire_ready_actor_for a owner now until d = Inr (l, d') \<Longrightarrow> attempts_grow d d'"
  by (auto simp: acquire_ready_actor_for_def lease_result_def grant_lease_def Let_def split: if_splits option.splits)

end
