(* ===== verification/Quantum_Laws.thy ===== *)
theory Quantum_Laws
  imports Runner Attempt_Frame
begin

text \<open>
  How the steps of a quantum compose. A law is a relation between the states before and after a
  step, with the ways to get stuck that it excludes; the locale has the rules of the combinators
  for every such law. The law proved here is that of everything but the calls of the model and the
  tools: nothing is called, the run keeps its identity and the lease its holder, attempts only move
  forward, and the step neither panics nor, when every call ends or runs into the deadline, hangs.
\<close>

section \<open>Laws of steps\<close>

datatype stuck = Hung | Panicked

fun stuck_as :: "'a flow \<Rightarrow> stuck set" where
  "stuck_as Hangs = {Hung}"
| "stuck_as Panics = {Panicked}"
| "stuck_as _ = {}"

definition lawful :: "(quantum \<Rightarrow> quantum \<Rightarrow> bool) \<Rightarrow> stuck set \<Rightarrow> 'a step \<Rightarrow> quantum \<Rightarrow> bool" where
  "lawful R K m s \<longleftrightarrow> R s (snd (m s)) \<and> stuck_as (fst (m s)) \<inter> K = {}"

locale quantum_law =
  fixes R :: "quantum \<Rightarrow> quantum \<Rightarrow> bool"
    and K :: "stuck set"
  assumes refl: "R s s"
    and trans: "R s t \<Longrightarrow> R t u \<Longrightarrow> R s u"
begin

lemma return: "stuck_as f \<inter> K = {} \<Longrightarrow> lawful R K (qreturn f) s"
  by (simp add: lawful_def qreturn_def refl)

lemma bind:
  assumes "lawful R K m s" and "\<And>v s1. m s = (Go v, s1) \<Longrightarrow> lawful R K (k v) s1"
  shows "lawful R K (qbind m k) s"
proof -
  obtain f s1 where m: "m s = (f, s1)" by (cases "m s")
  show ?thesis
  proof (cases f)
    case (Go v)
    then have "lawful R K (k v) s1" using assms(2) m by simp
    then show ?thesis using assms(1) m Go by (auto simp: lawful_def qbind_def intro: trans)
  qed (use assms(1) m in \<open>auto simp: lawful_def qbind_def\<close>)
qed

lemma get: "lawful R K (k s) s \<Longrightarrow> lawful R K (qget k) s"
  by (simp add: lawful_def qget_def)

lemma modify: "R s (f s) \<Longrightarrow> lawful R K (qmodify f) s"
  by (simp add: lawful_def qmodify_def)

lemma lift: "lawful R K (qlift r) s"
  unfolding qlift_def by (rule return) (simp split: sum.split)

lemma attempt: "lawful R K m s \<Longrightarrow> lawful R K (qtry m) s"
  by (auto simp: lawful_def qtry_def split: prod.split flow.split quantum_error.split)

lemma authority: "lawful R K m s \<Longrightarrow> lawful R K (as_authority m) s"
  by (auto simp: lawful_def as_authority_def split: prod.split flow.split)

lemma weaken:
  assumes "lawful R' K' m s" and "\<And>t. R' s t \<Longrightarrow> R s t" and "K \<subseteq> K'"
  shows "lawful R K m s"
  using assms by (auto simp: lawful_def)

end

section \<open>The law of everything but the calls\<close>

definition loud :: "quantum_event \<Rightarrow> bool" where
  "loud e \<longleftrightarrow> (case e of QvModel run q \<Rightarrow> True | QvTool run i name args authorized \<Rightarrow> True | _ \<Rightarrow> False)"

definition lease_key :: "actor_lease \<Rightarrow> actor_id \<times> string \<times> int" where
  "lease_key l = (ls_actor l, ls_owner l, ls_generation l)"

definition tenant :: "actor_id \<times> string \<times> int \<Rightarrow> quantum \<Rightarrow> bool" where
  "tenant g s \<longleftrightarrow> lease_key (qu_lease s) = g \<and> lease_key (qu_latest s) = g \<and> lease_key (hb_lease (qu_heartbeat s)) = g"

text \<open>What others do between the moments of a quantum lets the attempts grow too.\<close>

definition tame :: "world \<Rightarrow> bool" where
  "tame w \<longleftrightarrow> (\<forall>n d. attempts_grow d (mo_others (wo_moment w n) d)
      \<and> (\<forall>b \<in> set (mo_beats (wo_moment w n)). attempts_grow d (fst b d)))"

definition wakes :: "'a wake list \<Rightarrow> bool" where
  "wakes ks \<longleftrightarrow> list_ex (\<lambda>k. case k of WkDeadline \<Rightarrow> True | WkDone v \<Rightarrow> True | _ \<Rightarrow> False) ks"

text \<open>Every call ends or is cut off by the deadline.\<close>

definition awake :: "world \<Rightarrow> bool" where
  "awake w \<longleftrightarrow> (\<forall>n q. wakes (wo_model w n q)) \<and> (\<forall>n name args c. wakes (wo_tool w n name args c))"

definition excluded :: "world \<Rightarrow> stuck set" where
  "excluded w = (if awake w then {Hung, Panicked} else {Panicked})"

definition calm :: "world \<Rightarrow> quantum \<Rightarrow> quantum \<Rightarrow> bool" where
  "calm w s t \<longleftrightarrow> filter loud (qu_trace t) = filter loud (qu_trace s) \<and> qu_tool_steps t = qu_tool_steps s
     \<and> (\<exists>l. qu_run t = (qu_run s)\<lparr>ar_lease := l\<rparr>)
     \<and> (tame w \<longrightarrow> attempts_grow (qu_db s) (qu_db t))
     \<and> (\<forall>g. tenant g s \<longrightarrow> tenant g t)"

lemma calm_trans: "calm w s t \<Longrightarrow> calm w t u \<Longrightarrow> calm w s u"
  unfolding calm_def by (auto intro: attempts_grow_trans)

lemma calm_refl: "calm w s s"
  by (auto simp: calm_def intro: exI[of _ "ar_lease (qu_run s)"])

interpretation calm: quantum_law "calm w" "excluded w" for w
  by unfold_locales (rule calm_refl, rule calm_trans)

abbreviation calmly :: "world \<Rightarrow> 'a step \<Rightarrow> quantum \<Rightarrow> bool" where
  "calmly w \<equiv> lawful (calm w) (excluded w)"

lemma stuck_Go [simp]: "stuck_as f = {} \<Longrightarrow> stuck_as f \<inter> excluded w = {}"
  by simp

named_theorems calm_steps \<open>steps that call nothing\<close>

lemmas [calm_steps] = calm.lift calm.return calm.bind calm.get calm.attempt calm.authority

lemma calmI:
  assumes "filter loud (qu_trace t) = filter loud (qu_trace s)" and "qu_tool_steps t = qu_tool_steps s"
    and "qu_run t = (qu_run s)\<lparr>ar_lease := l\<rparr>" and "tame w \<Longrightarrow> attempts_grow (qu_db s) (qu_db t)"
    and "\<And>g. tenant g s \<Longrightarrow> tenant g t"
  shows "calm w s t"
  using assms by (auto simp: calm_def)

lemma calm_same:
  assumes "qu_trace t = qu_trace s" and "qu_tool_steps t = qu_tool_steps s" and "qu_run t = qu_run s"
    and "qu_db t = qu_db s" and "qu_lease t = qu_lease s" and "qu_latest t = qu_latest s"
    and "hb_lease (qu_heartbeat t) = hb_lease (qu_heartbeat s)"
  shows "calm w s t"
  by (rule calmI[where l = "ar_lease (qu_run s)"]) (use assms in \<open>simp_all add: tenant_def\<close>)

lemma renewed_key: "renew_lease l now until d = Inr (l', d') \<Longrightarrow> lease_key l' = lease_key l"
  by (auto simp: renew_lease_def lease_key_def split: if_splits)

lemma calm_db:
  assumes "tame w \<Longrightarrow> attempts_grow (qu_db s) d"
  shows "calm w s (s\<lparr>qu_db := d\<rparr>)"
  by (rule calmI[where l = "ar_lease (qu_run s)"]) (use assms in \<open>simp_all add: tenant_def\<close>)

lemma calm_beat:
  assumes "tame w \<Longrightarrow> attempts_grow (qu_db s) (fst b (qu_db s))"
  shows "calm w s (beat ru b s)"
proof -
  obtain others now where b: "b = (others, now)" by (cases b)
  let ?d = "others (qu_db s)" and ?h = "qu_heartbeat s"
  have d: "calm w s (s\<lparr>qu_db := ?d\<rparr>)" by (rule calm_db) (use assms b in simp)
  have stops: "calm w s (s\<lparr>qu_db := ?d, qu_heartbeat := ?h\<lparr>hb_alive := False, hb_error := e\<rparr>\<rparr>)" for e
    by (rule calm_trans[OF d]) (rule calm_same; simp)
  show ?thesis
  proof (cases "hb_alive ?h")
    case False
    then show ?thesis using d by (simp add: beat_def b Let_def)
  next
    case alive: True
    show ?thesis
    proof (cases "duration_millis (rl_lease_millis (ru_limits ru))")
      case (Inl e)
      then show ?thesis using stops alive by (simp add: beat_def b Let_def)
    next
      case millis: (Inr n)
      show ?thesis
      proof (cases "renew_lease (hb_lease ?h) now (plus_millis now n) ?d")
        case (Inl e)
        then show ?thesis using stops alive millis by (simp add: beat_def b Let_def)
      next
        case (Inr p)
        obtain l d1 where p: "p = (l, d1)" by (cases p)
        have "calm w (s\<lparr>qu_db := ?d\<rparr>) (s\<lparr>qu_db := d1, qu_heartbeat := ?h\<lparr>hb_lease := l\<rparr>, qu_latest := l\<rparr>)"
        proof (rule calmI[where l = "ar_lease (qu_run s)"])
          show "tenant g (s\<lparr>qu_db := d1, qu_heartbeat := ?h\<lparr>hb_lease := l\<rparr>, qu_latest := l\<rparr>)" if "tenant g (s\<lparr>qu_db := ?d\<rparr>)" for g
            using that renewed_key[OF Inr[unfolded p]] by (simp add: tenant_def)
        qed (use renew_lease_grows[OF Inr[unfolded p]] in simp_all)
        then show ?thesis using calm_trans[OF d] alive millis Inr p by (simp add: beat_def b Let_def)
      qed
    qed
  qed
qed

lemma calm_beats:
  assumes "\<And>b d. b \<in> set bs \<Longrightarrow> tame w \<Longrightarrow> attempts_grow d (fst b d)"
  shows "calm w s (fold (beat ru) bs s)"
  using assms
proof (induction bs arbitrary: s)
  case (Cons b bs)
  have "calm w s (beat ru b s)" by (rule calm_beat) (use Cons.prems[of b] in simp)
  moreover have "calm w (beat ru b s) (fold (beat ru) bs (beat ru b s))" by (rule Cons.IH) (use Cons.prems in simp)
  ultimately show ?case by (auto intro: calm_trans)
qed (simp add: calm_refl)

lemma calm_pass [calm_steps]: "calmly w (pass ru w) s"
proof -
  let ?m = "wo_moment w (qu_step s)"
  let ?s = "fold (beat ru) (mo_beats ?m) s"
  have "calm w s ?s" by (rule calm_beats) (auto simp: tame_def)
  moreover have "calm w ?s (?s\<lparr>qu_db := mo_others ?m (qu_db ?s)\<rparr>)" by (rule calm_db) (auto simp: tame_def)
  moreover have "calm w t (t\<lparr>qu_step := n\<rparr>)" for t n by (rule calm_same) simp_all
  ultimately have "calm w s (?s\<lparr>qu_db := mo_others ?m (qu_db ?s), qu_step := Suc (qu_step ?s)\<rparr>)"
    by (blast intro: calm_trans)
  then show ?thesis by (simp add: lawful_def pass_def Let_def)
qed

text \<open>A transaction of the store, when it lets the attempts grow.\<close>

lemma calm_in_tx:
  assumes "\<And>v d. f (qu_db s) = Inr (v, d) \<Longrightarrow> attempts_grow (qu_db s) d"
  shows "calmly w (in_tx f) s"
  using assms by (auto simp: lawful_def in_tx_def calm_refl split: sum.split prod.split intro: calm_db)

lemma calm_store:
  assumes "\<And>m v d d'. f m d = Inr (v, d') \<Longrightarrow> attempts_grow d d'"
  shows "calmly w (store ru w f) s"
  unfolding store_def
  by (rule calm.bind[OF calm_pass]) (auto split: option.split intro!: calm.return calm_in_tx dest: assms)

lemma calm_store_read [calm_steps]: "calmly w (store_read ru w f) s"
  unfolding store_read_def by (rule calm_store) (rule read_grows)

lemma calm_emit [calm_steps]: "\<not> loud e \<Longrightarrow> calmly w (emit e) s"
  unfolding emit_def by (rule calm.modify, rule calmI[where l = "ar_lease (qu_run s)"]) (simp_all add: tenant_def)

lemma calm_activity [calm_steps]: "calmly w (publish_activity a) s"
  unfolding publish_activity_def by (rule calm.get, rule calm_emit) (simp add: loud_def)

lemma calm_progress [calm_steps]: "calmly w (advance_progress p) s"
  unfolding advance_progress_def by (rule calm.modify, rule calm_same) simp_all

lemma calm_messages [calm_steps]: "calmly w (extend_messages ms) s"
  unfolding extend_messages_def by (rule calm.modify, rule calm_same) simp_all

lemma calm_cancel_context [calm_steps]: "calmly w cancel_context s"
  unfolding cancel_context_def by (rule calm.modify, rule calm_same) simp_all

section \<open>Leases, boundaries and waiting\<close>

lemma calm_adopt_lease:
  assumes "\<And>g. tenant g s \<Longrightarrow> lease_key l = g"
  shows "calm w s (adopt_lease l s)"
proof (rule calmI[where l = l])
  show "tenant g (adopt_lease l s)" if "tenant g s" for g
    using assms[OF that] that by (simp add: adopt_lease_def Let_def tenant_def)
qed (simp_all add: adopt_lease_def Let_def)

lemma calm_sync [calm_steps]: "calmly w sync_execution_lease s"
  unfolding sync_execution_lease_def
  by (rule calm.get) (auto split: option.split intro!: calm.return calm.modify calm_adopt_lease simp: tenant_def)

lemma calm_start [calm_steps]: "calmly w start_execution_heartbeat s"
  unfolding start_execution_heartbeat_def
  by (rule calm.modify, rule calmI[where l = "ar_lease (qu_run s)"]) (simp_all add: tenant_def)

lemma beats_keep_lease: "qu_lease (fold (beat ru) bs s) = qu_lease s"
  by (induction bs arbitrary: s) (auto simp: beat_def Let_def split: prod.split sum.split)

lemma pass_keeps_lease [simp]: "qu_lease (snd (pass ru w s)) = qu_lease s"
  by (simp add: pass_def Let_def beats_keep_lease)

text \<open>A lease renewed by the store has the holder of the lease it renews.\<close>

lemma store_renewed:
  assumes "as_authority (store ru w (\<lambda>m. renew_lease (qu_lease s) (now m) (until m))) s = (Go l, s1)"
  shows "lease_key l = lease_key (qu_lease s1)"
proof -
  obtain m s2 where m: "pass ru w s = (Go m, s2)" by (simp add: pass_def Let_def)
  have "qu_lease s2 = qu_lease s" using pass_keeps_lease[of ru w s] m by simp
  then show ?thesis using assms m renewed_key
    by (auto simp: as_authority_def store_def qbind_def in_tx_def qreturn_def split: prod.split_asm flow.split_asm sum.split_asm option.split_asm)
qed

lemma calm_stop [calm_steps]: "calmly w (stop_execution_heartbeat ru w) s"
proof -
  have renew: "calmly w (qbind (as_authority (qget (\<lambda>s. store ru w (\<lambda>m. renew_lease (qu_lease s) (now m) (until m)))))
      (\<lambda>l. qmodify (\<lambda>s. adopt_lease l (s\<lparr>qu_latest := l\<rparr>)))) t" for now until t
  proof (rule calm.bind)
    show "calmly w (as_authority (qget (\<lambda>s. store ru w (\<lambda>m. renew_lease (qu_lease s) (now m) (until m))))) t"
      by (intro calm_steps calm_store) (erule renew_lease_grows)
    fix l t1
    assume "as_authority (qget (\<lambda>s. store ru w (\<lambda>m. renew_lease (qu_lease s) (now m) (until m)))) t = (Go l, t1)"
    then have key: "lease_key l = lease_key (qu_lease t1)"
      using store_renewed by (simp add: qget_def as_authority_def)
    have "calm w t1 (t1\<lparr>qu_latest := l\<rparr>)"
      by (rule calmI[where l = "ar_lease (qu_run t1)"]) (use key in \<open>simp_all add: tenant_def\<close>)
    moreover have "calm w (t1\<lparr>qu_latest := l\<rparr>) (adopt_lease l (t1\<lparr>qu_latest := l\<rparr>))"
      by (rule calm_adopt_lease) (use key in \<open>simp add: tenant_def\<close>)
    ultimately show "calmly w (qmodify (\<lambda>s. adopt_lease l (s\<lparr>qu_latest := l\<rparr>))) t1"
      by (intro calm.modify) (rule calm_trans)
  qed
  have "calm w t (t\<lparr>qu_task := False, qu_heartbeat := (qu_heartbeat t)\<lparr>hb_alive := False\<rparr>\<rparr>)" for t
    by (rule calm_same) simp_all
  then show ?thesis unfolding stop_execution_heartbeat_def
    by (intro calm.get) (auto intro!: calm_steps calm.modify renew)
qed

lemma calm_newer_control [calm_steps]: "calmly w (newer_control ru w) s"
  unfolding newer_control_def by (intro calm.get calm_store) (rule newer_control_grows)

lemma calm_cancel [calm_steps]: "calmly w (cancel_quantum x ru w c) s"
  unfolding cancel_quantum_def by (intro calm_steps calm_store) (rule cancel_grows)

lemma calm_timeout [calm_steps]: "calmly w (execution_timeout x ru w) s"
  unfolding execution_timeout_def by (intro calm_steps) (auto split: option.split intro!: calm_steps)

lemma calm_deadline: "stuck_as f \<inter> excluded w = {} \<Longrightarrow> calmly w (deadline_passed x ru w f) s"
  unfolding deadline_passed_def by (intro calm_steps) (auto intro!: calm_steps)

lemma calm_boundary [calm_steps]: "calmly w (execution_boundary x ru w) s"
  unfolding execution_boundary_def by (intro calm_steps) (auto intro!: calm_steps calm_deadline)

text \<open>The store answers with a cancellation or a message: \<open>unreachable!()\<close> is not reached.\<close>

lemma control_kinds:
  assumes "newer_control_event ls observed now d = Inr (Some c, d')"
  shows "cv_kind c \<noteq> ExternalCompletion"
proof -
  obtain e where e: "first_by (\<lambda>e. (if ev_kind e = CancelRequested then 0 else 1 :: nat, ev_seq e))
       (control_candidates d (ls_actor ls) observed) = Some e" "cv_kind c = ev_kind e"
    using assms by (auto simp: newer_control_event_def ebind_eq_Inr)
  then have "e \<in> set (control_candidates d (ls_actor ls) observed)"
    by (auto simp: first_by_def split: list.split_asm dest!: arg_cong[where f = set])
  then show ?thesis using e(2) by (auto simp: control_candidates_def)
qed

lemma newer_control_kind:
  assumes "newer_control ru w s = (Go (Some c), s1)"
  shows "cv_kind c \<noteq> ExternalCompletion"
  using assms control_kinds
  by (auto simp: newer_control_def qget_def store_def qbind_def in_tx_def qreturn_def
      split: prod.split_asm flow.split_asm sum.split_asm option.split_asm)

lemma calm_control:
  assumes "cv_kind c \<noteq> ExternalCompletion"
  shows "calmly w (control_signalled x ru w c) s"
  unfolding control_signalled_def using assms
  by (intro calm_steps) (auto split: event_kind.split intro!: calm_steps calm_deadline)

lemma calm_await_loop: "awake w \<longrightarrow> wakes ks \<Longrightarrow> calmly w (await_loop x ru w started ks) s"
proof (induction ks arbitrary: s)
  case Nil
  then have "stuck_as (Hangs :: 'b execution_wait flow) \<inter> excluded w = {}" by (simp add: wakes_def excluded_def)
  then show ?case by (simp add: calm.return)
next
  case (Cons k ks s)
  show ?case
  proof (cases "awake w \<longrightarrow> wakes ks")
    case True
    note rest = Cons.IH[OF True]
    have signal: "calmly w (qbind (newer_control ru w) (\<lambda>found. case found of
        None \<Rightarrow> await_loop x ru w started ks | Some control \<Rightarrow> control_signalled x ru w control)) t" for t
      by (rule calm.bind) (auto split: option.split intro!: calm_steps rest calm_control dest: newer_control_kind)
    show ?thesis
      by (cases k) (auto intro!: calm_steps calm_deadline rest signal simp: loud_def)
  next
    case False
    then have "case k of WkDeadline \<Rightarrow> True | WkDone v \<Rightarrow> True | _ \<Rightarrow> False"
      using Cons.prems by (simp add: wakes_def)
    then show ?thesis by (cases k) (auto intro!: calm_steps calm_deadline)
  qed
qed

lemma calm_await: "awake w \<longrightarrow> wakes ks \<Longrightarrow> calmly w (await_execution x ru w ks) s"
  unfolding await_execution_def by (intro calm_steps) (auto intro!: calm_steps calm_deadline calm_await_loop)

section \<open>Staging\<close>

lemma calm_renewals [calm_steps]: "calmly w (renewals ru w n l) s"
proof (induction n arbitrary: l s)
  case (Suc n)
  show ?case unfolding renewals.simps
    by (intro calm_steps calm_store) (auto split: sum.split intro!: calm_steps Suc dest: renew_staging_grows)
qed (simp add: calm.return)

lemma calm_copy [calm_steps]: "calmly w (copy_and_hash ru w a l) s"
  unfolding copy_and_hash_def
  by (intro calm_steps) (auto split: prod.split option.split intro!: calm_steps)

lemma calm_prepare_artifact [calm_steps]: "calmly w (prepare_artifact ru w run i a f) s"
  unfolding prepare_artifact_def
  by (intro calm_steps calm_store) (auto split: prod.split intro!: calm_steps dest: begin_staging_grows)

lemma calm_prepare_artifacts [calm_steps]: "calmly w (prepare_artifacts ru w run i as n fs) s"
  by (induction fs arbitrary: n s) (auto intro!: calm_steps)

lemma calm_place_artifacts [calm_steps]: "calmly w (place_artifacts x ru w run as n ms) s"
  by (induction ms arbitrary: n s) (auto intro!: calm_steps)

lemma calm_stage [calm_steps]: "calmly w (stage_execution x ru w i e) s"
  unfolding stage_execution_def Let_def
  by (intro calm_steps calm_store)
     (auto split: attempt_recovery.split attempt_outcome.split intro!: calm_steps dest: commit_execution_grows recover_grows)

end
