(* ===== verification/Runner_Safety.thy ===== *)
theory Runner_Safety
  imports Quantum_Laws
begin

text \<open>
  What a quantum may do, whatever the world answers: the tools it calls are allowed by the policy
  of the run, the calls stay within the limits, no attempt is called twice or after it was started
  before, and the lease is given back.
\<close>

section \<open>The calls of a trace\<close>

fun called_attempt :: "quantum_event \<Rightarrow> attempt_id option" where
  "called_attempt (QvTool run i name args authorized) = Some i"
| "called_attempt _ = None"

fun asks_model :: "quantum_event \<Rightarrow> bool" where
  "asks_model (QvModel run q) = True"
| "asks_model _ = False"

fun allowed_call :: "quantum_event \<Rightarrow> bool" where
  "allowed_call (QvTool run i name args authorized) = policy_allows (ar_policy run) name"
| "allowed_call _ = True"

definition tool_calls :: "quantum_event list \<Rightarrow> attempt_id list" where
  "tool_calls tr = List.map_filter called_attempt tr"

definition model_calls :: "quantum_event list \<Rightarrow> nat" where
  "model_calls tr = length (filter asks_model tr)"

lemma called_loud: "called_attempt e \<noteq> None \<Longrightarrow> loud e"
  by (cases e) (simp_all add: loud_def)

lemma asks_loud: "asks_model e \<Longrightarrow> loud e"
  by (cases e) (simp_all add: loud_def)

lemma allowed_quiet: "\<not> loud e \<Longrightarrow> allowed_call e"
  by (cases e) (simp_all add: loud_def)

lemma tool_calls_loud: "tool_calls (filter loud tr) = tool_calls tr"
proof (induction tr)
  case (Cons e tr)
  then show ?case using called_loud[of e] by (auto simp: tool_calls_def List.map_filter_def)
qed (simp add: tool_calls_def)

lemma model_calls_loud: "model_calls (filter loud tr) = model_calls tr"
  unfolding model_calls_def filter_filter by (rule arg_cong[where f = length], rule filter_cong) (auto dest: asks_loud)

lemma allowed_loud: "list_all allowed_call (filter loud tr) = list_all allowed_call tr"
  by (induction tr) (auto simp: allowed_quiet)

lemma tool_calls_append [simp]: "tool_calls (xs @ ys) = tool_calls xs @ tool_calls ys"
  by (simp add: tool_calls_def List.map_filter_def)

lemma model_calls_append [simp]: "model_calls (xs @ ys) = model_calls xs + model_calls ys"
  by (simp add: model_calls_def)

section \<open>The invariant of a quantum\<close>

text \<open>
  No attempt was called twice, and what was called is in the table, no longer prepared, and was
  not started when the quantum began.
\<close>

definition started :: "db \<Rightarrow> attempt_id \<Rightarrow> bool" where
  "started d i \<longleftrightarrow> list_ex (\<lambda>r. ta_id r = i \<and> ta_state r \<noteq> AtPrepared) (attempts d)"

definition called_once :: "db \<Rightarrow> quantum \<Rightarrow> bool" where
  "called_once d s \<longleftrightarrow> attempts_grow d (qu_db s) \<and> distinct (tool_calls (qu_trace s))
     \<and> (\<forall>i \<in> set (tool_calls (qu_trace s)). started (qu_db s) i \<and> \<not> started d i)"

definition sound :: "runner \<Rightarrow> world \<Rightarrow> db \<Rightarrow> actor_id \<times> string \<times> int \<Rightarrow> nat \<Rightarrow> quantum \<Rightarrow> bool" where
  "sound ru w d g k s \<longleftrightarrow> list_all allowed_call (qu_trace s)
     \<and> length (tool_calls (qu_trace s)) \<le> qu_tool_steps s \<and> qu_tool_steps s \<le> rl_max_tool_steps (ru_limits ru)
     \<and> model_calls (qu_trace s) \<le> k \<and> tenant g s
     \<and> (tame w \<and> distinct (map ta_id (attempts d)) \<longrightarrow> called_once d s)"

lemma sound_mono: "sound ru w d g k s \<Longrightarrow> k \<le> k' \<Longrightarrow> sound ru w d g k' s"
  by (simp add: sound_def)

lemma started_grows: "attempts_grow d d' \<Longrightarrow> started d i \<Longrightarrow> started d' i"
proof -
  assume g: "attempts_grow d d'" and "started d i"
  then obtain r where r: "r \<in> set (attempts d)" "ta_id r = i" "ta_state r \<noteq> AtPrepared"
    by (auto simp: started_def list_ex_iff)
  obtain r' where r': "r' \<in> set (attempts d')" "attempt_move r r'" by (rule attempts_grow_row[OF g r(1)])
  have "attempt_rank (ta_state r) \<le> attempt_rank (ta_state r')" using r'(2) edges_rank by (simp add: attempt_move_def)
  then have "ta_state r' \<noteq> AtPrepared" using r(3) by (cases "ta_state r") auto
  then show ?thesis using r r' by (auto simp: started_def list_ex_iff attempt_move_def same_attempt_def)
qed

lemma calm_traces:
  assumes "calm w s t"
  shows "tool_calls (qu_trace t) = tool_calls (qu_trace s)" "model_calls (qu_trace t) = model_calls (qu_trace s)"
    "list_all allowed_call (qu_trace t) = list_all allowed_call (qu_trace s)"
  using assms tool_calls_loud[of "qu_trace t"] tool_calls_loud[of "qu_trace s"]
    model_calls_loud[of "qu_trace t"] model_calls_loud[of "qu_trace s"]
    allowed_loud[of "qu_trace t"] allowed_loud[of "qu_trace s"]
  by (auto simp: calm_def)

lemma calm_sound:
  assumes "sound ru w d g k s" and "calm w s t"
  shows "sound ru w d g k t"
proof -
  have "called_once d t" if "tame w" "called_once d s"
  proof -
    have "attempts_grow (qu_db s) (qu_db t)" using that(1) assms(2) by (simp add: calm_def)
    then show ?thesis using that(2) calm_traces(1)[OF assms(2)]
      by (auto simp: called_once_def intro: attempts_grow_trans started_grows)
  qed
  moreover have "tenant g t" using assms by (cases g) (simp add: sound_def calm_def)
  moreover have "qu_tool_steps t = qu_tool_steps s" using assms(2) by (simp add: calm_def)
  ultimately show ?thesis using assms(1) calm_traces[OF assms(2)] by (simp add: sound_def)
qed

section \<open>Steps that ensure the invariant\<close>

definition ensures :: "world \<Rightarrow> (quantum \<Rightarrow> bool) \<Rightarrow> 'a step \<Rightarrow> quantum \<Rightarrow> bool" where
  "ensures w Q m s \<longleftrightarrow> Q (snd (m s)) \<and> stuck_as (fst (m s)) \<inter> excluded w = {}"

lemma ensures_bind:
  assumes "ensures w Q m s" and "\<And>v s1. m s = (Go v, s1) \<Longrightarrow> Q s1 \<Longrightarrow> ensures w Q (k v) s1"
  shows "ensures w Q (qbind m k) s"
proof -
  obtain f s1 where m: "m s = (f, s1)" by (cases "m s")
  show ?thesis by (cases f) (use assms m in \<open>auto simp: ensures_def qbind_def\<close>)
qed

lemma ensures_chain:
  assumes "ensures w P m s" and "\<And>t. P t \<Longrightarrow> Q t" and "\<And>v s1. m s = (Go v, s1) \<Longrightarrow> P s1 \<Longrightarrow> ensures w Q (k v) s1"
  shows "ensures w Q (qbind m k) s"
proof (rule ensures_bind)
  show "ensures w Q m s" using assms(1,2) by (simp add: ensures_def)
  show "ensures w Q (k v) s1" if "m s = (Go v, s1)" for v s1
    using assms(1,3) that by (simp add: ensures_def)
qed

lemma ensures_weaken: "ensures w P m s \<Longrightarrow> (\<And>t. P t \<Longrightarrow> Q t) \<Longrightarrow> ensures w Q m s"
  by (simp add: ensures_def)

lemma ensures_get: "ensures w Q (k s) s \<Longrightarrow> ensures w Q (qget k) s"
  by (simp add: ensures_def qget_def)

lemma ensures_return: "Q s \<Longrightarrow> stuck_as f \<inter> excluded w = {} \<Longrightarrow> ensures w Q (qreturn f) s"
  by (simp add: ensures_def qreturn_def)

lemma ensures_Go [intro]: "Q s \<Longrightarrow> ensures w Q (qreturn (Go v)) s"
  by (rule ensures_return) simp_all

text \<open>The invariant, with the policy of the run at hand.\<close>

definition under_policy :: "runner \<Rightarrow> world \<Rightarrow> db \<Rightarrow> actor_id \<times> string \<times> int \<Rightarrow> nat \<Rightarrow> execution_policy \<Rightarrow> quantum \<Rightarrow> bool" where
  "under_policy ru w d g k p s \<longleftrightarrow> sound ru w d g k s \<and> ar_policy (qu_run s) = p"

lemma calm_under: "under_policy ru w d g k p s \<Longrightarrow> calm w s t \<Longrightarrow> under_policy ru w d g k p t"
  by (auto simp: under_policy_def calm_def intro: calm_sound[unfolded calm_def])

lemma calm_ensures:
  assumes "calmly w m s" and "under_policy ru w d g k p s"
  shows "ensures w (under_policy ru w d g k p) m s"
  using assms calm_under by (auto simp: ensures_def lawful_def)

lemma calm_ensures_sound:
  assumes "calmly w m s" and "sound ru w d g k s"
  shows "ensures w (sound ru w d g k) m s"
  using assms calm_sound by (auto simp: ensures_def lawful_def)

text \<open>The mark in the store: the attempt was prepared, and it is started from now on.\<close>

lemma marked:
  assumes "store ru w (\<lambda>m. mark_attempt_running run i (now m)) s = (Go u, t)"
  obtains s1 where "calm w s s1" and "t = s1\<lparr>qu_db := qu_db t\<rparr>" and "calm w s1 t"
    and "distinct (map ta_id (attempts (qu_db s1))) \<longrightarrow> \<not> started (qu_db s1) i" and "started (qu_db t) i"
proof -
  obtain m s1 where p: "pass ru w s = (Go m, s1)" by (simp add: pass_def Let_def)
  obtain d1 where d1: "mark_attempt_running run i (now m) (qu_db s1) = Inr (u, d1)" and t: "t = s1\<lparr>qu_db := d1\<rparr>"
    using assms by (auto simp: store_def qbind_def p in_tx_def qreturn_def split: option.split_asm sum.split_asm)
  let ?p = "\<lambda>r. ta_id r = i \<and> ta_run r = ar_run run \<and> ta_state r = AtPrepared"
  have ch: "changed ?p (attempts (qu_db s1)) = Suc 0"
    and d1': "attempts d1 = update_where ?p (\<lambda>r. r\<lparr>ta_state := AtRunning, ta_outcome := None, ta_updated := now m\<rparr>) (attempts (qu_db s1))"
    using d1 by (auto simp: mark_attempt_running_def transition_attempt_def ebind_eq_Inr Let_def)
  obtain r0 where r0: "r0 \<in> set (attempts (qu_db s1))" "?p r0" using ch by (rule changed_oneE)
  show ?thesis
  proof (rule that)
    show "calm w s s1" using calm_pass[of w ru s] p by (simp add: lawful_def)
    show "t = s1\<lparr>qu_db := qu_db t\<rparr>" by (simp add: t)
    show "calm w s1 t" unfolding t by (rule calm_db) (rule mark_grows[OF d1])
    show "distinct (map ta_id (attempts (qu_db s1))) \<longrightarrow> \<not> started (qu_db s1) i"
    proof (intro impI notI)
      assume keys: "distinct (map ta_id (attempts (qu_db s1)))" and "started (qu_db s1) i"
      then obtain r where r: "r \<in> set (attempts (qu_db s1))" "ta_id r = i" "ta_state r \<noteq> AtPrepared"
        by (auto simp: started_def list_ex_iff)
      then show False using distinct_key_eq[OF keys r(1) r0(1)] r0(2) by simp
    qed
    have "r0\<lparr>ta_state := AtRunning, ta_outcome := None, ta_updated := now m\<rparr> \<in> set (attempts d1)"
      using r0 by (auto simp: d1' set_update_where)
    then show "started (qu_db t) i" using r0(2) unfolding t started_def list_ex_iff
      by (intro bexI[of _ "r0\<lparr>ta_state := AtRunning, ta_outcome := None, ta_updated := now m\<rparr>"]) simp_all
  qed
qed

section \<open>The calls\<close>

text \<open>The state once the attempt is marked and its call is in the trace.\<close>

lemma sound_call:
  assumes "sound ru w d g k s" and "qu_tool_steps s < rl_max_tool_steps (ru_limits ru)"
    and "policy_allows (ar_policy (qu_run s)) name"
    and "store ru w (\<lambda>m. mark_attempt_running run i (now m)) (s\<lparr>qu_tool_steps := Suc (qu_tool_steps s)\<rparr>) = (Go u, t)"
  shows "under_policy ru w d g k (ar_policy (qu_run s))
     (t\<lparr>qu_trace := qu_trace t @ [QvActivity r' a, QvTool (qu_run t) i name args authorized]\<rparr>)"
proof -
  let ?s = "s\<lparr>qu_tool_steps := Suc (qu_tool_steps s)\<rparr>"
  obtain s1 where m: "calm w ?s s1" "t = s1\<lparr>qu_db := qu_db t\<rparr>" "calm w s1 t"
    "distinct (map ta_id (attempts (qu_db s1))) \<longrightarrow> \<not> started (qu_db s1) i" "started (qu_db t) i"
    by (rule marked[OF assms(4)])
  have s1: "sound ru w d g k s1"
    by (rule calm_sound[OF _ m(1)]) (use assms(1,2) in \<open>auto simp: sound_def called_once_def tenant_def\<close>)
  have t: "sound ru w d g k t" by (rule calm_sound[OF s1 m(3)])
  have steps: "qu_tool_steps t = Suc (qu_tool_steps s)" "length (tool_calls (qu_trace t)) \<le> qu_tool_steps s"
    "ar_policy (qu_run t) = ar_policy (qu_run s)"
    using m(1,3) assms(1) calm_traces[OF m(1)] calm_traces[OF m(3)] by (auto simp: calm_def sound_def)
  have once: "i \<notin> set (tool_calls (qu_trace t)) \<and> \<not> started d i"
    if "tame w" "distinct (map ta_id (attempts d))"
  proof -
    have c: "called_once d s1" using s1 that by (simp add: sound_def)
    then have "\<not> started (qu_db s1) i" using m(4) that(2) by (auto simp: called_once_def attempts_grow_def)
    then show ?thesis using c calm_traces(1)[OF m(3)] started_grows by (auto simp: called_once_def)
  qed
  have c: "tool_calls [QvActivity r' a, QvTool (qu_run t) i name args authorized] = [i]"
    "model_calls [QvActivity r' a, QvTool (qu_run t) i name args authorized] = 0"
    by (simp_all add: tool_calls_def List.map_filter_def model_calls_def)
  show ?thesis using t steps assms(2,3) once m(5) by (auto simp: under_policy_def sound_def called_once_def tenant_def c)
qed

lemma bind_activity: "qbind (publish_activity a) k s = k () (s\<lparr>qu_trace := qu_trace s @ [QvActivity (qu_run s) a]\<rparr>)"
  by (simp add: publish_activity_def qget_def emit_def qmodify_def qbind_def)

lemma bind_emit: "qbind (qget (\<lambda>s. emit (e s))) k s = k () (s\<lparr>qu_trace := qu_trace s @ [e s]\<rparr>)"
  by (simp add: qget_def emit_def qmodify_def qbind_def)

lemma bind_get: "qbind (qget k) j s = qbind (k s) j s"
  by (simp add: qget_def qbind_def)

lemma bind_modify: "qbind (qmodify f) k s = k () (f s)"
  by (simp add: qmodify_def qbind_def)

lemma call_tool_under:
  assumes "under_policy ru w d g k p s" and "qu_tool_steps s < rl_max_tool_steps (ru_limits ru)" and "policy_allows p name"
  shows "ensures w (under_policy ru w d g k p) (call_tool x ru w authorized i name args) s"
proof -
  let ?s = "s\<lparr>qu_tool_steps := Suc (qu_tool_steps s)\<rparr>"
  let ?mark = "\<lambda>run. store ru w (\<lambda>m. mark_attempt_running run i (mo_now m))"
  let ?rest = "qbind (qget (\<lambda>s. await_execution x ru w
              (wo_tool w (qu_step s) name args \<lparr>tx_attempt = i, tx_authorized = authorized\<rparr>))) (\<lambda>waited.
     qbind (returned waited) (\<lambda>execution.
       case execution of Inl e \<Rightarrow> qreturn (Go (Inl e)) | Inr e \<Rightarrow> qtry (stage_execution x ru w i e)))"
  have rest: "calmly w ?rest t" for t
  proof (intro calm_steps calm_await)
    show "awake w \<longrightarrow> wakes (wo_tool w (qu_step t) name args \<lparr>tx_attempt = i, tx_authorized = authorized\<rparr>)"
      by (simp add: awake_def)
    show "calmly w (returned waited) t'" for waited t'
      by (cases waited) (auto intro!: calm_steps)
  qed (auto split: sum.split intro!: calm_steps)
  have s: "sound ru w d g k s" "ar_policy (qu_run s) = p" using assms(1) by (simp_all add: under_policy_def)
  have "ensures w (under_policy ru w d g k p) (qbind (?mark (qu_run s)) (\<lambda>_.
     qbind (publish_activity (AaToolStarted name)) (\<lambda>_.
     qbind (qget (\<lambda>s. emit (QvTool (qu_run s) i name args authorized))) (\<lambda>_. ?rest)))) ?s"
  proof (rule ensures_bind)
    have "under_policy ru w d g k p ?s" using assms(1,2) by (auto simp: under_policy_def sound_def called_once_def tenant_def)
    then show "ensures w (under_policy ru w d g k p) (?mark (qu_run s)) ?s"
      by (intro calm_ensures calm_store) (erule mark_grows)
    fix u t
    assume "?mark (qu_run s) ?s = (Go u, t)"
    from calm_ensures[OF rest sound_call[OF s(1) assms(2) _ this, unfolded s(2), OF assms(3)]]
    show "ensures w (under_policy ru w d g k p) (qbind (publish_activity (AaToolStarted name)) (\<lambda>_.
        qbind (qget (\<lambda>s. emit (QvTool (qu_run s) i name args authorized))) (\<lambda>_. ?rest))) t"
      by (simp add: ensures_def bind_activity bind_emit)
  qed
  then show ?thesis by (simp add: ensures_def call_tool_def bind_modify bind_get)
qed

section \<open>Both loops\<close>

lemma calm_then:
  assumes "calmly w m s" and "under_policy ru w d g k p s"
    and "\<And>v s1. m s = (Go v, s1) \<Longrightarrow> under_policy ru w d g k p s1 \<Longrightarrow> ensures w (under_policy ru w d g k p) (j v) s1"
  shows "ensures w (under_policy ru w d g k p) (qbind m j) s"
  by (rule ensures_bind[OF calm_ensures[OF assms(1,2)] assms(3)])

lemma calm_checkpoint [calm_steps]: "calmly w (checkpoint x ru w es ids ms) s"
  unfolding checkpoint_def by (intro calm_steps calm_store) (rule checkpoint_grows)

lemma calm_finish_failed [calm_steps]: "calmly w (finish_failed x ru w i r) s"
  unfolding finish_failed_def by (cases r) (auto intro!: calm_steps calm_store dest: finish_grows)

lemma calm_tool_finished [calm_steps]: "calmly w (tool_finished name r) s"
  unfolding tool_finished_def by (rule calm_activity)

lemma calm_wait_for_decision [calm_steps]: "calmly w (wait_for_decision x ru w a) s"
  unfolding wait_for_decision_def by (intro calm_steps) (auto intro!: calm_steps calm_store dest: block_grows)

lemma calm_refuse [calm_steps]: "calmly w (refuse_attempt x ru w a r) s"
  unfolding refuse_attempt_def by (cases r) (auto intro!: calm_steps calm_store dest: reject_grows)

lemma calm_obey: "cv_kind c \<noteq> ExternalCompletion \<Longrightarrow> calmly w (obey_control x ru w c) s"
  unfolding obey_control_def by (auto split: event_kind.split intro!: calm_steps)

lemma calm_attach [calm_steps]: "calmly w (attach x ru w) s"
  unfolding attach_def by (intro calm_steps calm_store) (rule attach_grows)

lemma calm_prepare_call [calm_steps]: "calmly w (prepare_call x ru w c) s"
  unfolding prepare_call_def
  by (intro calm_steps) (auto split: option.split intro!: calm_steps calm_store dest: prepare_grows)

lemma calm_prepare_calls [calm_steps]: "calmly w (prepare_calls x ru w cs) s"
  by (induction cs arbitrary: s) (auto intro!: calm_steps)

lemma calm_checkpoint_calls [calm_steps]: "calmly w (checkpoint_calls x ru w r) s"
  unfolding checkpoint_calls_def by (cases r) (auto intro!: calm_steps)

lemma resume_under:
  assumes "under_policy ru w d g k p s" and "policy_allows p (at_tool a)"
  shows "ensures w (under_policy ru w d g k p) (resume_attempt x ru w a r) s"
proof (cases "r = ArMayInvoke \<and> qu_tool_steps s < rl_max_tool_steps (ru_limits ru)")
  case True
  have "ensures w (under_policy ru w d g k p)
     (qbind (call_tool x ru w [at_tool a] (at_attempt a) (at_tool a) (at_args a)) (\<lambda>r.
                 qbind (finish_failed x ru w (at_attempt a) r) (\<lambda>_.
                 qbind (tool_finished (at_tool a) r) (\<lambda>_. qreturn (Go (executed_outcome r)))))) s"
    by (rule ensures_bind[OF call_tool_under]) (use assms True in \<open>auto intro!: calm_ensures calm_steps\<close>)
  then show ?thesis using True by (simp add: resume_attempt_def ensures_def qget_def)
next
  case False
  have "calmly w (resume_attempt x ru w a r) s"
    using False by (cases r) (auto simp: resume_attempt_def intro!: calm_steps)
  then show ?thesis by (rule calm_ensures[OF _ assms(1)])
qed

lemma recover_one_under:
  assumes "under_policy ru w d g k p s"
  shows "ensures w (under_policy ru w d g k p) (recover_one x ru w a) s"
  unfolding recover_one_def
proof (intro calm_then[OF calm_boundary assms], goal_cases)
  case (1 u s1)
  have recover: "calmly w (store ru w (\<lambda>m. recover_attempt x (at_attempt a))) s1"
    by (rule calm_store) (rule recover_grows)
  show ?case
  proof (rule calm_then[OF recover 1(2)], rule ensures_bind)
    fix recovery s2
    assume s2: "under_policy ru w d g k p s2"
    show "ensures w (under_policy ru w d g k p) (qget (\<lambda>s. if \<not> policy_allows (ar_policy (qu_run s)) (at_tool a)
              then refuse_attempt x ru w a recovery else resume_attempt x ru w a recovery)) s2"
    proof (rule ensures_get, split if_split, intro conjI impI)
      show "ensures w (under_policy ru w d g k p) (refuse_attempt x ru w a recovery) s2"
        by (rule calm_ensures[OF calm_refuse s2])
      assume "\<not> \<not> policy_allows (ar_policy (qu_run s2)) (at_tool a)"
      then show "ensures w (under_policy ru w d g k p) (resume_attempt x ru w a recovery) s2"
        using s2 by (intro resume_under) (auto simp: under_policy_def)
    qed
  qed (auto simp: Let_def intro!: calm_ensures calm_steps)
qed

lemma recover_attempts_under:
  "under_policy ru w d g k p s \<Longrightarrow> ensures w (under_policy ru w d g k p) (recover_attempts x ru w as) s"
  by (induction "as" arbitrary: s) (auto intro!: ensures_bind[OF recover_one_under])

lemma prepare_call_allowed:
  assumes "prepare_call x ru w c s = (Go (c', Some a), s1)"
  shows "c' = c \<and> policy_allows (ar_policy (qu_run s)) (tc_name c)"
  using assms by (auto simp: prepare_call_def qget_def qreturn_def qbind_def split: if_splits option.split_asm prod.split_asm flow.split_asm)

lemma prepare_calls_allowed:
  assumes "prepare_calls x ru w cs s = (Go ps, s1)" and "(c, Some a) \<in> set ps"
  shows "policy_allows (ar_policy (qu_run s)) (tc_name c)"
  using assms
proof (induction cs arbitrary: s ps s1)
  case (Cons c0 cs)
  obtain q s2 qs where q: "prepare_call x ru w c0 s = (Go q, s2)" and qs: "prepare_calls x ru w cs s2 = (Go qs, s1)"
    and ps: "ps = q # qs"
    using Cons.prems(1) by (auto simp: qbind_def qreturn_def split: prod.split_asm flow.split_asm)
  have "ar_policy (qu_run s2) = ar_policy (qu_run s)"
    using calm_prepare_call[of w x ru c0 s] q by (auto simp: lawful_def calm_def)
  then show ?case using Cons.IH[OF qs] Cons.prems(2) ps q prepare_call_allowed[of x ru w c0 s c a s2] by auto
qed (simp add: qreturn_def)

lemma run_calls_under:
  assumes "under_policy ru w d g k p s" and "\<And>c a. (c, Some a) \<in> set ps \<Longrightarrow> policy_allows p (tc_name c)"
  shows "ensures w (under_policy ru w d g k p) (run_calls x ru w ps ms ids) s"
  using assms
proof (induction ps arbitrary: s ms ids)
  case (Cons q ps)
  obtain c a where q: "q = (c, a)" by (cases q)
  show ?case
  proof (cases a)
    case None
    then show ?thesis using Cons q by simp
  next
    case (Some a')
    show ?thesis
    proof (cases "qu_tool_steps s < rl_max_tool_steps (ru_limits ru)")
      case True
      have rest: "ensures w (under_policy ru w d g k p) (run_calls x ru w ps ms' ids') t"
        if "under_policy ru w d g k p t" for t ms' ids'
        by (rule Cons.IH[OF that]) (rule Cons.prems(2), erule list.set_intros(2))
      have "ensures w (under_policy ru w d g k p)
        (qbind (call_tool x ru w [] (at_attempt a') (tc_name c) (tc_arguments c)) (\<lambda>r.
            qbind (tool_finished (tc_name c) r) (\<lambda>_.
            qbind (finish_failed x ru w (at_attempt a') r) (\<lambda>_.
              run_calls x ru w ps (ms @ [tool_result (tc_id c) (observation_for_outcome x (executed_outcome r))])
                (ids @ [at_attempt a']))))) s"
      proof (intro ensures_bind[OF call_tool_under] calm_then[OF calm_tool_finished] calm_then[OF calm_finish_failed] rest)
        show "policy_allows p (tc_name c)" using Cons.prems(2)[of c a'] q Some by simp
      qed (use Cons.prems(1) True in auto)
      then show ?thesis using True Some q by (simp add: ensures_def qget_def)
    qed (use Cons.prems(1) Some q in \<open>simp add: ensures_def qget_def qreturn_def\<close>)
  qed
qed auto

lemma use_tools_under:
  assumes "under_policy ru w d g k p s"
  shows "ensures w (under_policy ru w d g k p) (use_tools x ru w response) s"
proof -
  have describe: "calmly w (if lp_content response = [] then qreturn (Go ())
      else publish_activity (AaDescription (lp_content response))) t" for t
    by (auto intro!: calm_steps)
  have run: "ensures w (under_policy ru w d g k p) (qbind (run_calls x ru w ps [] []) (checkpoint_calls x ru w)) t"
    if "under_policy ru w d g k p t" "\<And>c a. (c, Some a) \<in> set ps \<Longrightarrow> policy_allows p (tc_name c)" for ps t
    by (rule ensures_bind[OF run_calls_under[OF that]]) (auto intro!: calm_ensures calm_steps)
  show ?thesis unfolding use_tools_def Let_def
    by (intro calm_then[OF describe assms] calm_then[OF calm_prepare_calls] calm_then[OF calm_checkpoint]
          calm_then[OF calm_progress] calm_then[OF calm_messages] run)
       (auto dest: prepare_calls_allowed simp: under_policy_def)
qed

section \<open>The model\<close>

lemma ask_model_under:
  assumes "under_policy ru w d g k p s"
  shows "ensures w (under_policy ru w d g (Suc k) p) (ask_model x ru w) s"
proof -
  let ?q = "llm_request_for ru (qu_run s) (qu_messages s)"
  let ?s = "s\<lparr>qu_trace := qu_trace s @ [QvActivity (qu_run s) AaModelStepStarted, QvModel (qu_run s) ?q]\<rparr>"
  have c: "tool_calls [QvActivity (qu_run s) AaModelStepStarted, QvModel (qu_run s) ?q] = []"
    "model_calls [QvActivity (qu_run s) AaModelStepStarted, QvModel (qu_run s) ?q] = 1"
    by (simp_all add: tool_calls_def List.map_filter_def model_calls_def)
  have s: "under_policy ru w d g (Suc k) p ?s" using assms by (auto simp: under_policy_def sound_def called_once_def tenant_def c)
  have "calmly w (returned waited) t" for waited :: "(error + llm_response) execution_wait" and t
    by (cases waited) (auto intro!: calm_steps)
  then have "calmly w (qbind (await_execution x ru w (wo_model w (qu_step s) ?q)) (\<lambda>waited. qbind (returned waited) qlift)) ?s"
    by (intro calm_steps calm_await) (simp add: awake_def)
  from calm_ensures[OF this s] show ?thesis
    by (simp add: ask_model_def ensures_def Let_def qget_def bind_activity)
       (simp add: qbind_def emit_def qmodify_def)
qed

lemma sound_run: "sound ru w d g k (s\<lparr>qu_run := run, qu_fence := f, qu_activity := a\<rparr>) = sound ru w d g k s"
  by (simp add: sound_def called_once_def tenant_def)

lemma sound_messages: "sound ru w d g k (s\<lparr>qu_messages := ms\<rparr>) = sound ru w d g k s"
  by (simp add: sound_def called_once_def tenant_def)

lemma ensures_modify: "Q (f s) \<Longrightarrow> ensures w Q (qmodify f) s"
  by (simp add: ensures_def qmodify_def)

lemma adopt_run_sound: "sound ru w d g k s \<Longrightarrow> ensures w (sound ru w d g k) (adopt_run x ru w run) s"
  unfolding adopt_run_def
  by (intro ensures_bind ensures_modify calm_ensures_sound[OF calm_checkpoint] calm_ensures_sound[OF calm.get[OF calm_store_read]])
     (simp_all add: sound_run sound_messages)

lemma answer_sound:
  assumes "sound ru w d g k s"
  shows "ensures w (sound ru w d g k) (answer x ru w text) s"
proof -
  have finish: "calmly w (qbind (advance_progress QpFinalized) (\<lambda>_. qbind (publish_activity AaCompleted)
      (\<lambda>_. qreturn (Leave RoCompleted)))) t" for t
    by (auto intro!: calm_steps)
  have resume: "ensures w (sound ru w d g k) (qbind (attach x ru w) (\<lambda>attached. case attached of
        None \<Rightarrow> qreturn (Fails (QeError (Bail ''preempted run was not resumable'')))
      | Some run \<Rightarrow> adopt_run x ru w run)) t" if "sound ru w d g k t" for t
    by (rule ensures_bind[OF calm_ensures_sound[OF calm_attach that]])
       (auto split: option.split intro!: adopt_run_sound ensures_return)
  show ?thesis unfolding answer_def Let_def
    by (rule ensures_get, rule ensures_bind, rule calm_ensures_sound[OF calm_store assms], erule finalize_grows)
       (auto split: finalize_outcome.split intro!: resume calm_ensures_sound[OF finish])
qed

lemma model_step_sound:
  assumes "sound ru w d g k s"
  shows "ensures w (sound ru w d g (Suc k)) (model_step x ru w) s"
proof -
  have up: "sound ru w d g (Suc k) t" if "under_policy ru w d g k p t" for t p
    using that by (auto simp: under_policy_def intro: sound_mono)
  have asked: "ensures w (sound ru w d g (Suc k)) (qbind (ask_model x ru w) (\<lambda>response.
             if lp_calls response = [] then answer x ru w (lp_content response) else use_tools x ru w response)) t"
    if "sound ru w d g k t" for t
  proof -
    have "ensures w (under_policy ru w d g (Suc k) (ar_policy (qu_run t))) (ask_model x ru w) t"
      by (rule ask_model_under) (use that in \<open>simp add: under_policy_def\<close>)
    then have "ensures w (sound ru w d g (Suc k)) (ask_model x ru w) t" by (rule ensures_weaken) (simp add: under_policy_def)
    then show ?thesis
    proof (rule ensures_bind)
      fix response t1
      assume t1: "sound ru w d g (Suc k) t1"
      then have "ensures w (under_policy ru w d g (Suc k) (ar_policy (qu_run t1))) (use_tools x ru w response) t1"
        by (intro use_tools_under) (simp add: under_policy_def)
      then have "ensures w (sound ru w d g (Suc k)) (use_tools x ru w response) t1"
        by (rule ensures_weaken) (simp add: under_policy_def)
      then show "ensures w (sound ru w d g (Suc k))
          (if lp_calls response = [] then answer x ru w (lp_content response) else use_tools x ru w response) t1"
        using answer_sound[OF t1] by simp
    qed
  qed
  have next_step: "sound ru w d g (Suc k) t" if "sound ru w d g k t" for t using that by (rule sound_mono) simp
  show ?thesis unfolding model_step_def
  proof (rule ensures_chain[OF calm_ensures_sound[OF calm_boundary assms]])
    fix u s1
    assume s1: "sound ru w d g k s1"
    show "ensures w (sound ru w d g (Suc k)) (qbind (newer_control ru w) (\<lambda>found. case found of
         Some control \<Rightarrow> obey_control x ru w control
       | None \<Rightarrow> qbind (ask_model x ru w) (\<lambda>response.
             if lp_calls response = [] then answer x ru w (lp_content response) else use_tools x ru w response))) s1"
    proof (rule ensures_chain[OF calm_ensures_sound[OF calm_newer_control s1]])
    fix found s2
    assume n: "newer_control ru w s1 = (Go found, s2)" and s2: "sound ru w d g k s2"
    show "ensures w (sound ru w d g (Suc k)) (case found of Some control \<Rightarrow> obey_control x ru w control
       | None \<Rightarrow> qbind (ask_model x ru w) (\<lambda>response.
             if lp_calls response = [] then answer x ru w (lp_content response) else use_tools x ru w response)) s2"
    proof (cases found)
      case (Some c)
      have "ensures w (sound ru w d g k) (obey_control x ru w c) s2"
        by (rule calm_ensures_sound[OF calm_obey s2]) (use newer_control_kind n Some in blast)
      then show ?thesis using Some by (auto simp: ensures_def intro: sound_mono)
    qed (simp add: asked[OF s2])
    qed (rule next_step)
  qed (rule next_step)
qed

lemma model_steps_sound:
  "sound ru w d g k s \<Longrightarrow> ensures w (sound ru w d g (k + n)) (model_steps x ru w n) s"
proof (induction n arbitrary: k s)
  case 0
  then show ?case by (auto simp: intro!: ensures_return)
next
  case (Suc n)
  show ?case unfolding model_steps.simps
  proof (rule ensures_chain[OF model_step_sound[OF Suc.prems]])
    show "ensures w (sound ru w d g (k + Suc n)) (model_steps x ru w n) t" if "sound ru w d g (Suc k) t" for t
      using Suc.IH[OF that] by simp
  qed (auto elim: sound_mono)
qed

section \<open>Around the loops\<close>

lemma execute_run_sound:
  assumes "sound ru w d g 0 s"
  shows "ensures w (sound ru w d g (rl_max_model_steps (ru_limits ru))) (execute_run x ru w) s"
proof -
  let ?n = "rl_max_model_steps (ru_limits ru)"
  have up: "sound ru w d g 0 t \<Longrightarrow> sound ru w d g ?n t" for t by (erule sound_mono) simp
  have recover: "ensures w (sound ru w d g 0) (recover_attempts x ru w as) t" if "sound ru w d g 0 t" for "as" t
    by (rule ensures_weaken[OF recover_attempts_under[where p = "ar_policy (qu_run t)"]])
       (use that in \<open>auto simp: under_policy_def\<close>)
  show ?thesis unfolding execute_run_def
  proof (rule ensures_chain[OF calm_ensures_sound[OF calm.get[OF calm_store_read] assms]])
    fix "as" s1
    assume "sound ru w d g 0 s1"
    then show "ensures w (sound ru w d g ?n) (qbind (recover_attempts x ru w as) (\<lambda>_.
        qbind (model_steps x ru w ?n) (\<lambda>_. qbind (execution_boundary x ru w) (\<lambda>_. qreturn (Go RoYielded))))) s1"
    proof (rule ensures_chain[OF recover])
      fix u s2
      assume "sound ru w d g 0 s2"
      from model_steps_sound[OF this, where x = x and n = ?n]
      have "ensures w (sound ru w d g ?n) (model_steps x ru w ?n) s2" by simp
      then show "ensures w (sound ru w d g ?n) (qbind (model_steps x ru w ?n) (\<lambda>_.
          qbind (execution_boundary x ru w) (\<lambda>_. qreturn (Go RoYielded)))) s2"
        by (rule ensures_bind) (auto intro!: calm_ensures_sound calm_steps)
    qed (rule up)
  qed (rule up)
qed

lemma ensures_async: "ensures w Q m s \<Longrightarrow> ensures w Q (async_block m) s"
  by (auto simp: ensures_def async_block_def split: prod.split flow.split)

lemma ensures_cleanup:
  assumes "ensures w Q m s" and "\<And>t. Q t \<Longrightarrow> ensures w Q c t"
  shows "ensures w Q (with_cleanup m c) s"
proof -
  have after: "ensures w Q (qbind c (\<lambda>_. qreturn f)) t" if "Q t" "stuck_as f = {}" for f t
    using that by (intro ensures_bind assms(2) ensures_return) auto
  obtain f s1 where m: "m s = (f, s1)" by (cases "m s")
  have q: "Q s1" "stuck_as f \<inter> excluded w = {}" using assms(1) m by (simp_all add: ensures_def)
  show ?thesis
  proof (cases f)
    case (Go out)
    then show ?thesis using after[OF q(1), of "Go out"] m by (simp add: ensures_def with_cleanup_def)
  next
    case (Fails e)
    then show ?thesis using after[OF q(1), of "Fails e"] m by (simp add: ensures_def with_cleanup_def)
  qed (use q m in \<open>simp_all add: ensures_def with_cleanup_def\<close>)
qed

lemma run_leased_sound:
  assumes "sound ru w d g 0 s"
  shows "ensures w (sound ru w d g (rl_max_model_steps (ru_limits ru))) (run_leased x ru w) s"
proof -
  let ?n = "rl_max_model_steps (ru_limits ru)"
  have up: "sound ru w d g 0 t \<Longrightarrow> sound ru w d g ?n t" for t by (erule sound_mono) simp
  have body: "ensures w (sound ru w d g ?n)
      (with_cleanup (async_block (execute_run x ru w)) (stop_execution_heartbeat ru w)) t" if "sound ru w d g 0 t" for t
    by (intro ensures_cleanup ensures_async execute_run_sound that calm_ensures_sound[OF calm_stop])
  have run: "ensures w (sound ru w d g ?n) (qbind (adopt_run x ru w run) (\<lambda>_.
           qbind (emit (QvIncorporated (ar_requests run))) (\<lambda>_. qbind start_execution_heartbeat (\<lambda>_.
             with_cleanup (async_block (execute_run x ru w)) (stop_execution_heartbeat ru w))))) t"
    if "sound ru w d g 0 t" for run t
    by (rule ensures_chain[OF adopt_run_sound[OF that] up],
        assumption, rule ensures_chain[OF calm_ensures_sound[OF calm_emit]], simp add: loud_def, assumption, erule up,
        rule ensures_chain[OF calm_ensures_sound[OF calm_start]], assumption, erule up, erule body)
  show ?thesis unfolding run_leased_def
    by (rule ensures_chain[OF calm_ensures_sound[OF calm_attach assms]], erule up)
       (auto split: option.split intro: up run)
qed

end
