(* ===== verification/Quantum_Sample.thy ===== *)
theory Quantum_Sample
  imports Runner
begin

text \<open>
  One quantum, run in the kernel. It takes up the prepared attempt of an active run, calls the tool
  under a renewed lease, asks the model, and answers. Each transaction of the store is evaluated
  on its own, and the states between them have names, so that the steps of the quantum only rewrite
  small terms.
\<close>

section \<open>The world\<close>

definition lean_runner :: runner where
  "lean_runner = \<lparr>ru_limits = \<lparr>rl_max_events = 8, rl_max_model_steps = 1, rl_max_tool_steps = 1, rl_recent_messages = 8,
       rl_lease_millis = 1000\<rparr>, ru_instructions = None, ru_definitions = [''bash''],
     ru_capabilities = (\<lambda>n. None), ru_causes = (\<lambda>e. [])\<rparr>"

definition lean_moment :: "nat \<Rightarrow> moment" where
  "lean_moment n = \<lparr>mo_beats = (if n = 9 then [(\<lambda>d. d, 59)] else []), mo_others = (\<lambda>d. d), mo_now = 50 + int n,
     mo_elapsed = False, mo_failure = None, mo_ids = sample_ids\<rparr>"

definition no_staging :: staging_world where
  "no_staging = \<lparr>sw_root = Inr (), sw_item = (\<lambda>k. \<lparr>sg_size = Inr 0, sg_id = [], sg_owner = [], sg_partial = [],
        sg_partial_ok = Inr (), sg_renewals = 0, sg_copied = Inr [], sg_final = (\<lambda>h. h), sg_final_ok = Inr (),
        sg_placed = (\<lambda>f. Inr ())\<rparr>), sw_synced = Inr (), sw_files = (\<lambda>p. None)\<rparr>"

definition lean_world :: world where
  "lean_world = \<lparr>wo_moment = lean_moment,
     wo_model = (\<lambda>n q. [WkDelta ''do'', WkDelta ''ne'', WkDone (Inr \<lparr>lp_content = ''done'', lp_calls = []\<rparr>)]),
     wo_tool = (\<lambda>n name args c. [WkHeartbeat, WkDone (Inr \<lparr>te_observation = ''ok'', te_artifacts = []\<rparr>)]),
     wo_staging = (\<lambda>n. no_staging)\<rparr>"

section \<open>The transactions, in order\<close>

definition after :: "'a tx \<Rightarrow> db" where
  "after r = (case r of Inl e \<Rightarrow> empty_db | Inr (v, d) \<Rightarrow> d)"

lemma after_tx: "case r of Inl e \<Rightarrow> False | Inr (out, d) \<Rightarrow> out = v \<Longrightarrow> r = Inr (v, after r)"
  by (auto simp: after_def split: sum.splits)

definition lean_run :: "timestamp \<Rightarrow> attached_run" where
  "lean_run t = sample_run\<lparr>ar_lease := sample_lease ''p'' 4 t\<rparr>"

definition lean_call :: message where
  "lean_call = assistant_tool_calls [] [\<lparr>tc_id = ''c1'', tc_name = ''bash'', tc_arguments = ''{}''\<rparr>]"

definition lean_result :: message where
  "lean_result = tool_result ''c1'' ''{}''"

definition lean_final :: "timestamp \<Rightarrow> finalize_command" where
  "lean_final t = \<lparr>fz_run = lean_run t, fz_events = [''e''], fz_messages = [assistant_message ''done''],
      fz_outbox = [\<lparr>ni_id = sample_ids [0], ni_key = ''run:r:final'', ni_class = ''interactive_reply'',
         ni_audience = ActorPrivate, ni_payload = OpText ''done''\<rparr>]\<rparr>"

definition "lean1 = after (acquire_ready_actor_for ''a'' ''p'' 50 1050 sample_prepared)"
definition "lean2 = after (attach_next_run sample_ext sample_ids 8 (sample_lease ''p'' 4 1050) 51 lean1)"
definition "lean3 = after (checkpoint_run sample_ext \<lparr>ck_run = lean_run 1050, ck_events = [''e''], ck_attempts = [], ck_messages = []\<rparr> 53 lean2)"
definition "lean4 = after (mark_attempt_running (lean_run 1050) ''t1'' 57 lean3)"
definition "lean5 = after (renew_lease (sample_lease ''p'' 4 1050) 59 1059 lean4)"
definition "lean6 = after (commit_staged_execution sample_ext (\<lambda>p. None) (lean_run 1059) ''t1'' \<lparr>de_observation = ''ok'', de_artifacts = []\<rparr> [] 61 lean5)"
definition "lean7 = after (checkpoint_run sample_ext \<lparr>ck_run = lean_run 1059, ck_events = [], ck_attempts = [''t1''], ck_messages = [lean_call, lean_result]\<rparr> 63 lean6)"
definition "lean8 = after (finalize_run sample_ext (subsupply sample_ids (Suc 0)) (lean_final 1059) 68 lean7)"
definition "lean9 = after (renew_lease (sample_lease ''p'' 4 1059) 70 1070 lean8)"
definition "lean10 = after (record_progress (fence_of (lean_run 1070)) 71 lean9)"
definition "lean11 = after (release_lease (sample_lease ''p'' 4 1070) lean10)"

lemma lean_tx1:
  "acquire_ready_actor_for ''a'' ''p'' 50 1050 sample_prepared = Inr (Some (sample_lease ''p'' 4 1050), lean1)"
  unfolding lean1_def by (rule after_tx) code_simp

lemma lean_tx2:
  "attach_next_run sample_ext sample_ids 8 (sample_lease ''p'' 4 1050) 51 lean1 = Inr (Some (lean_run 1050), lean2)"
  unfolding lean2_def by (rule after_tx) code_simp

lemma lean_tx2r:
  "load_recent_context sample_ext ''a'' ActorPrivate 8 lean2 = Inr []"
  by code_simp

lemma lean_tx3:
  "checkpoint_run sample_ext \<lparr>ck_run = lean_run 1050, ck_events = [''e''], ck_attempts = [], ck_messages = []\<rparr> 53 lean2 = Inr ((), lean3)"
  unfolding lean3_def by (rule after_tx) code_simp

lemma lean_tx3r:
  "unresolved_attempts sample_ext (lean_run 1050) lean3 = Inr [\<lparr>at_attempt = ''t1'', at_call = ''c1'', at_tool = ''bash'', at_args = ''{}'', at_caps = conservative_capabilities, at_state = AtPrepared\<rparr>]"
  by code_simp

lemma lean_tx3s:
  "recover_attempt sample_ext ''t1'' lean3 = Inr (ArMayInvoke, lean3)"
  by code_simp

lemma lean_tx4:
  "mark_attempt_running (lean_run 1050) ''t1'' 57 lean3 = Inr ((), lean4)"
  unfolding lean4_def by (rule after_tx) code_simp

lemma lean_tx5:
  "renew_lease (sample_lease ''p'' 4 1050) 59 1059 lean4 = Inr (sample_lease ''p'' 4 1059, lean5)"
  unfolding lean5_def by (rule after_tx) code_simp

lemma lean_tx6:
  "commit_staged_execution sample_ext (\<lambda>p. None) (lean_run 1059) ''t1'' \<lparr>de_observation = ''ok'', de_artifacts = []\<rparr> [] 61 lean5 = Inr ((), lean6)"
  unfolding lean6_def by (rule after_tx) code_simp

lemma lean_tx6s:
  "recover_attempt sample_ext ''t1'' lean6 = Inr (ArTerminal (AoSucceeded \<lparr>de_observation = ''ok'', de_artifacts = []\<rparr>), lean6)"
  by code_simp

lemma lean_tx7:
  "checkpoint_run sample_ext \<lparr>ck_run = lean_run 1059, ck_events = [], ck_attempts = [''t1''], ck_messages = [lean_call, lean_result]\<rparr> 63 lean6 = Inr ((), lean7)"
  unfolding lean7_def by (rule after_tx) code_simp

lemma lean_tx7s:
  "newer_control_event (sample_lease ''p'' 4 1059) 1 65 lean7 = Inr (None, lean7)"
  by code_simp

lemma lean_tx8:
  "finalize_run sample_ext (subsupply sample_ids (Suc 0)) (lean_final 1059) 68 lean7 = Inr (FoCompleted, lean8)"
  unfolding lean8_def by (rule after_tx) code_simp

lemma lean_tx9:
  "renew_lease (sample_lease ''p'' 4 1059) 70 1070 lean8 = Inr (sample_lease ''p'' 4 1070, lean9)"
  unfolding lean9_def by (rule after_tx) code_simp

lemma lean_tx10:
  "record_progress (fence_of (lean_run 1070)) 71 lean9 = Inr ((), lean10)"
  unfolding lean10_def by (rule after_tx) code_simp

lemma lean_tx11:
  "release_lease (sample_lease ''p'' 4 1070) lean10 = Inr ((), lean11)"
  by (simp add: lean11_def after_def release_lease_def)

section \<open>The steps\<close>

text \<open>The defining equations, applied to a state, with the monad unfolded.\<close>

lemmas monad_steps = qbind_def qget_def qreturn_def qmodify_def

lemmas quantum_steps = qlift_def[THEN fun_cong] emit_def[THEN fun_cong] publish_activity_def[THEN fun_cong] store_def[THEN fun_cong]
  store_read_def[THEN fun_cong] advance_progress_def[THEN fun_cong] sync_execution_lease_def[THEN fun_cong]
  start_execution_heartbeat_def[THEN fun_cong] stop_execution_heartbeat_def[THEN fun_cong] newer_control_def[THEN fun_cong]
  execution_boundary_def[THEN fun_cong] 
  await_loop.simps[THEN fun_cong] await_execution_def[THEN fun_cong] 
  prepare_artifacts.simps[THEN fun_cong] place_artifacts.simps[THEN fun_cong] 
  stage_execution_def[THEN fun_cong] returned.simps[THEN fun_cong] call_tool_def[THEN fun_cong] finish_failed_def[THEN fun_cong]
  tool_finished_def[THEN fun_cong] resume_attempt_def[THEN fun_cong]
  checkpoint_def[THEN fun_cong] extend_messages_def[THEN fun_cong] recover_one_def[THEN fun_cong] recover_attempts.simps[THEN fun_cong]
  ask_model_def[THEN fun_cong] attach_def[THEN fun_cong] adopt_run_def[THEN fun_cong]
  answer_def[THEN fun_cong] model_step_def[THEN fun_cong] model_steps.simps[THEN fun_cong] execute_run_def[THEN fun_cong]
  latest_lease_def[THEN fun_cong] publish_failed_def[THEN fun_cong] report_progress_def[THEN fun_cong]
  classify_def[THEN fun_cong]

lemmas quantum_runs = quantum_steps[unfolded monad_steps]

lemmas leased_runs = run_leased_def[THEN fun_cong, unfolded monad_steps]

lemmas quantum_plain = in_tx_def qtry_def as_authority_def async_block_def with_cleanup_def settled_def release_def under_lease_def adopt_lease_def
  duration_millis_def i64_max_def plus_millis_def sat_add_def i64_min_def

lemmas lean_txs = lean_tx1 lean_tx2 lean_tx2r lean_tx3 lean_tx3r lean_tx3s lean_tx4 lean_tx5 lean_tx6 lean_tx6s lean_tx7 lean_tx7s
  lean_tx8 lean_tx9 lean_tx10 lean_tx11

lemma lean_simps: "wo_moment lean_world = lean_moment" "wo_tool lean_world n nm a c = [WkHeartbeat, WkDone (Inr \<lparr>te_observation = ''ok'', te_artifacts = []\<rparr>)]"
  "wo_model lean_world n q = [WkDelta ''do'', WkDelta ''ne'', WkDone (Inr \<lparr>lp_content = ''done'', lp_calls = []\<rparr>)]"
  "wo_staging lean_world n = no_staging"
  "rl_max_events (ru_limits lean_runner) = 8" "rl_max_model_steps (ru_limits lean_runner) = Suc 0" "rl_max_tool_steps (ru_limits lean_runner) = 1"
  "rl_recent_messages (ru_limits lean_runner) = 8" "rl_lease_millis (ru_limits lean_runner) = 1000" 
  by (simp_all add: lean_world_def lean_runner_def)

lemma lean_moment_simps: "mo_now (lean_moment n) = 50 + int n" "mo_elapsed (lean_moment n) = False" 
  "mo_failure (lean_moment n) = None" "mo_ids (lean_moment n) = sample_ids" "mo_others (lean_moment n) d = d"
  by (simp_all add: lean_moment_def)

lemma beat_step: "qu_step (beat ru b s) = qu_step s"
  by (auto simp: beat_def Let_def split: prod.split sum.split)

lemma lean_pass: "pass lean_runner lean_world s = (Go (lean_moment (qu_step s)), 
   (if qu_step s = 9 then beat lean_runner (\<lambda>d. d, 59) s else s)\<lparr>qu_step := Suc (qu_step s)\<rparr>)"
  by (simp add: pass_def Let_def lean_simps lean_moment_def beat_step)

lemma lean_run_simps: "ar_lease (lean_run t) = sample_lease ''p'' 4 t" "(lean_run t)\<lparr>ar_lease := sample_lease ''p'' 4 u\<rparr> = lean_run u"
  "ar_sources (lean_run t) = [''e'']" "ar_messages (lean_run t) = []" "ar_audience (lean_run t) = ActorPrivate"
  "ar_policy (lean_run t) = ActorTools" "ar_route (lean_run t) = None" "ar_observed (lean_run t) = 1" "ar_work (lean_run t) = ''w''"
  "ar_requests (lean_run t) = []"
  "ls_actor (sample_lease p g t) = ''a''"
  by (simp_all add: lean_run_def sample_run_def sample_lease_def)

lemma no_staging_simps: "sw_root no_staging = Inr ()" "sw_synced no_staging = Inr ()" "sw_files no_staging = (\<lambda>p. None)"
  by (simp_all add: no_staging_def)

lemma lean_final: "final_command (lean_moment n) (lean_run t) ''done'' = lean_final t"
  by (simp add: final_command_def lean_moment_def lean_final_def lean_run_def sample_run_def)

lemma lean_recovered: "recovered_messages sample_ext \<lparr>at_attempt = ''t1'', at_call = ''c1'', at_tool = ''bash'', at_args = ''{}'', at_caps = conservative_capabilities, at_state = AtPrepared\<rparr> (AoSucceeded e) [] = [lean_call, lean_result]"
  by (simp add: recovered_messages_def names_call_def lean_call_def lean_result_def observed_success_def sample_ext_def)

lemma unbounded_response: "bounded_reticulum_response None text = text"
  by (simp add: bounded_reticulum_response_def is_reticulum_route_def)

lemmas lean_eval = no_staging_simps lean_final lean_recovered unbounded_response lean_simps lean_moment_simps lean_pass lean_run_simps lean_txs Let_def quantum_plain quantum_runs

definition lean_trace :: "quantum_event list" where
  "lean_trace = [QvIncorporated [], QvActivity (lean_run 1050) (AaToolStarted ''bash''),
     QvTool (lean_run 1050) ''t1'' ''bash'' ''{}'' [''bash''], QvActivity (lean_run 1059) (AaToolFinished ''bash'' True),
     QvActivity (lean_run 1059) AaModelStepStarted,
     QvModel (lean_run 1059) (llm_request_for lean_runner (lean_run 1059) [lean_call, lean_result]),
     QvText (lean_run 1059) ''do'', QvText (lean_run 1059) ''ne'', QvActivity (lean_run 1059) AaCompleted]"

lemma lean_leased: "\<exists>s. run_leased sample_ext lean_runner lean_world (leased_quantum lean1 (sample_lease ''p'' 4 1050)) = (Go RoCompleted, s)
    \<and> qu_db s = lean9 \<and> qu_lease s = sample_lease ''p'' 4 1070 \<and> qu_latest s = sample_lease ''p'' 4 1070 \<and> qu_trace s = lean_trace
    \<and> qu_activity s = Some (lean_run 1070) \<and> qu_progress s = QpFinalized \<and> qu_step s = 21"
  by (simp add: leased_quantum_def leased_runs lean_eval monad_steps beat_def policy_allows_def lean_trace_def)

lemma lean_quantum:
  obtains s where "run_quantum sample_ext lean_runner lean_world ''a'' ''p'' sample_prepared =
    (Go (Inr \<lparr>qr_work = Some ''w'', qr_outcome = RoCompleted, qr_progress = QpFinalized\<rparr>), lean11, Some s)"
    and "qu_trace s = lean_trace"
proof -
  obtain s where l: "run_leased sample_ext lean_runner lean_world (leased_quantum lean1 (sample_lease ''p'' 4 1050)) = (Go RoCompleted, s)"
    and s: "qu_db s = lean9" "qu_lease s = sample_lease ''p'' 4 1070" "qu_latest s = sample_lease ''p'' 4 1070" "qu_trace s = lean_trace"
    "qu_activity s = Some (lean_run 1070)" "qu_progress s = QpFinalized" "qu_step s = 21"
    using lean_leased by blast
  have w: "ff_work (fence_of (lean_run 1070)) = ''w''" by (simp add: fence_of_def lean_run_simps)
  have "\<exists>t. under_lease sample_ext lean_runner lean_world (leased_quantum lean1 (sample_lease ''p'' 4 1050)) =
    (Go (Inr \<lparr>qr_work = Some ''w'', qr_outcome = RoCompleted, qr_progress = QpFinalized\<rparr>), t) \<and> qu_db t = lean11 \<and> qu_trace t = lean_trace"
    by (simp add: l s w lean_eval monad_steps)
  then obtain t where "under_lease sample_ext lean_runner lean_world (leased_quantum lean1 (sample_lease ''p'' 4 1050)) =
    (Go (Inr \<lparr>qr_work = Some ''w'', qr_outcome = RoCompleted, qr_progress = QpFinalized\<rparr>), t)" "qu_db t = lean11" "qu_trace t = lean_trace"
    by blast
  then show ?thesis
    by (intro that[of t]) (simp_all add: run_quantum_def lean_simps lean_moment_simps lean_tx1 duration_millis_def i64_max_def
        plus_millis_def sat_add_def i64_min_def Let_def)
qed
end
