(* ===== verification/Quantum_Guarantees.thy ===== *)
theory Quantum_Guarantees
  imports Runner_Safety Quantum_Sample
begin

text \<open>
  The properties of a whole quantum, from the grant of the lease to its release, and the runs of
  the model that witness them.
\<close>

section \<open>The way out\<close>

text \<open>Outside the \<open>async\<close> block nothing leaves early.\<close>

definition stays :: "'a step \<Rightarrow> bool" where
  "stays m \<longleftrightarrow> (\<forall>s out. fst (m s) \<noteq> Leave out)"

named_theorems staying \<open>steps that do not leave\<close>

lemma stays_bind [staying]: "stays m \<Longrightarrow> (\<And>v. stays (k v)) \<Longrightarrow> stays (qbind m k)"
  by (auto simp: stays_def qbind_def split: prod.split flow.split) (metis fst_conv)

lemma stays_get [staying]: "(\<And>s. stays (k s)) \<Longrightarrow> stays (qget k)"
  by (auto simp: stays_def qget_def)

lemma stays_modify [staying]: "stays (qmodify f)"
  by (simp add: stays_def qmodify_def)

lemma stays_return [staying]: "(\<And>out. f \<noteq> Leave out) \<Longrightarrow> stays (qreturn f)"
  by (simp add: stays_def qreturn_def)

lemma stays_lift [staying]: "stays (qlift r)"
  by (simp add: stays_def qlift_def qreturn_def split: sum.split)

lemma stays_authority [staying]: "stays m \<Longrightarrow> stays (as_authority m)"
  by (auto simp: stays_def as_authority_def split: prod.split flow.split) (metis fst_conv)

lemma stays_store [staying]: "stays (store ru w f)"
  by (auto simp: stays_def store_def qbind_def pass_def Let_def in_tx_def qreturn_def split: prod.split option.split sum.split)

lemma stays_store_read [staying]: "stays (store_read ru w f)"
  unfolding store_read_def by (rule stays_store)

lemma stays_pass [staying]: "stays (pass ru w)"
  by (simp add: stays_def pass_def Let_def)

lemma stays_emit [staying]: "stays (emit e)"
  unfolding emit_def by (rule stays_modify)

lemma stays_sync [staying]: "stays sync_execution_lease"
  unfolding sync_execution_lease_def by (rule stays_get) (auto split: option.split intro!: staying)

lemma stays_stop [staying]: "stays (stop_execution_heartbeat ru w)"
  unfolding stop_execution_heartbeat_def by (rule stays_get) (auto intro!: staying)

lemma stays_adopt [staying]: "stays (adopt_run x ru w run)"
  unfolding adopt_run_def checkpoint_def by (intro staying)

lemma stays_async [staying]: "stays (async_block m)"
  by (auto simp: stays_def async_block_def split: prod.split flow.split)

lemma stays_cleanup [staying]:
  assumes "stays m" and "stays c"
  shows "stays (with_cleanup m c)"
proof -
  have "stays (qbind c (\<lambda>_. qreturn f))" if "\<And>out. f \<noteq> Leave out" for f
    by (intro staying assms(2) that)
  then show ?thesis using assms(1)
    by (auto simp: stays_def with_cleanup_def split: prod.split flow.split) (metis fst_conv)+
qed

lemma stays_run_leased: "stays (run_leased x ru w)"
  unfolding run_leased_def attach_def start_execution_heartbeat_def
  by (intro staying) (auto split: option.split intro!: staying)

lemma stays_report_progress: "stays (report_progress ru w out)"
  unfolding report_progress_def by (rule stays_get) (auto split: option.split intro!: staying)

lemma stays_report_failure: "stays (qbind publish_failed (\<lambda>_. report_failure x ru w e))"
  unfolding publish_failed_def report_failure_def log_disposition_def
  by (intro staying) (auto split: option.split intro!: staying)

lemma settled_answers:
  assumes "stays m" and "stuck_as (fst (m s)) = {}"
  shows "\<exists>ans. fst (settled f m s) = Go ans"
  using assms by (cases "m s"; cases "fst (m s)") (auto simp: settled_def stays_def, metis fst_conv)

section \<open>The books keep the invariant\<close>

lemma calm_publish_failed [calm_steps]: "calmly w publish_failed s"
  unfolding publish_failed_def by (intro calm_steps) (auto simp: loud_def split: option.split intro!: calm_steps)

lemma calm_report_failure [calm_steps]: "calmly w (report_failure x ru w e) s"
  unfolding report_failure_def log_disposition_def
  by (intro calm_steps) (auto simp: loud_def split: option.split intro!: calm_steps calm_store dest: record_failure_grows)

lemma calm_report_progress [calm_steps]: "calmly w (report_progress ru w out) s"
  unfolding report_progress_def
  by (intro calm_steps) (auto split: option.split intro!: calm_steps calm_store dest: record_progress_grows)

lemma calm_settled: "calmly w m s \<Longrightarrow> calmly w (settled f m) s"
  by (auto simp: lawful_def settled_def split: prod.split flow.split)

lemma calm_latest_lease: "calmly w latest_lease s"
  unfolding latest_lease_def Let_def
  by (rule calm.modify, rule calmI[where l = "ar_lease (qu_run s)"]) (simp_all add: tenant_def split: option.split)

lemma calm_classify: "stuck_as r \<inter> excluded w = {} \<Longrightarrow> calmly w (classify x ru w r) s"
  unfolding classify_def by (cases r) (auto intro!: calm_steps calm_settled)

lemma calm_release: "calmly w (release ru w c) s"
proof -
  have "calmly w (qget (\<lambda>s. store ru w (\<lambda>m. release_lease (qu_lease s)))) s"
    by (intro calm_steps calm_store) (rule release_lease_grows)
  then show ?thesis by (auto simp: lawful_def release_def split: prod.split flow.split)
qed

lemma under_lease_sound:
  assumes "sound ru w d g 0 s"
  shows "ensures w (sound ru w d g (rl_max_model_steps (ru_limits ru))) (under_lease x ru w) s"
proof -
  obtain r s1 where r: "run_leased x ru w s = (r, s1)" by (cases "run_leased x ru w s")
  have s1: "sound ru w d g (rl_max_model_steps (ru_limits ru)) s1" "stuck_as r \<inter> excluded w = {}"
    using run_leased_sound[OF assms, of x] r by (simp_all add: ensures_def)
  have "calmly w (qbind latest_lease (\<lambda>_. qbind (classify x ru w r) (release ru w))) s1"
    by (intro calm.bind calm_latest_lease calm_classify calm_release s1(2))
  from calm_ensures_sound[OF this s1(1)] show ?thesis by (simp add: ensures_def under_lease_def r)
qed

section \<open>The lease is given back\<close>

lemma released:
  assumes "release ru w c s = (Go (Inr report), t)"
  shows "c = Inr report \<and> list_all (\<lambda>l. \<not> lease_matches (qu_lease t) l) (leases (qu_db t))"
proof -
  obtain m s1 where p: "pass ru w s = (Go m, s1)" by (simp add: pass_def Let_def)
  have "qu_lease s1 = qu_lease s" using pass_keeps_lease[of ru w s] p by simp
  then show ?thesis using assms
    by (auto simp: release_def qget_def store_def qbind_def p in_tx_def qreturn_def release_lease_def delete_where_def list_all_iff
        split: option.split_asm sum.split_asm)
qed

lemma calm_unstuck: "calmly w m s \<Longrightarrow> awake w \<Longrightarrow> stuck_as (fst (m s)) = {}"
  by (cases "fst (m s)") (auto simp: lawful_def excluded_def)

lemma release_answers: "\<exists>ans. fst (release ru w c s) = Go ans"
  by (simp add: release_def split: prod.split flow.split)

lemma classify_answers:
  assumes "stuck_as r = {}" and "\<And>out. r \<noteq> Leave out" and "awake w"
  shows "\<exists>c. fst (classify x ru w r s) = Go c"
proof (cases r)
  case (Go out)
  then show ?thesis
    using settled_answers[OF stays_report_progress calm_unstuck[OF calm_report_progress assms(3)]] by (simp add: classify_def)
next
  case (Fails e)
  have "calmly w (qbind publish_failed (\<lambda>_. report_failure x ru w e)) s" by (intro calm_steps)
  then show ?thesis using Fails settled_answers[OF stays_report_failure calm_unstuck[OF _ assms(3)]] by (simp add: classify_def)
qed (use assms in auto)

lemma under_lease_answers:
  assumes "sound ru w d g 0 s" and "awake w"
  shows "\<exists>ans t. under_lease x ru w s = (Go ans, t)"
proof -
  obtain r s1 where r: "run_leased x ru w s = (r, s1)" by (cases "run_leased x ru w s")
  have "stuck_as r \<inter> {Hung, Panicked} = {}"
    using run_leased_sound[OF assms(1), of x] r assms(2) by (simp add: ensures_def excluded_def)
  then have unstuck: "stuck_as r = {}" by (cases r) auto
  have left: "r \<noteq> Leave out" for out
    using stays_run_leased[of x ru w] r by (auto simp: stays_def dest: spec[of _ s])
  let ?s = "snd (latest_lease s1)"
  have latest: "qbind latest_lease j s1 = j () ?s" for j :: "unit \<Rightarrow> (quantum_failure + quantum_report) step"
    by (simp add: latest_lease_def qmodify_def qbind_def)
  obtain c where "fst (classify x ru w r ?s) = Go c" using classify_answers[OF unstuck left assms(2)] by blast
  then obtain s2 where c: "classify x ru w r ?s = (Go c, s2)" by (cases "classify x ru w r ?s") simp
  obtain ans where "fst (release ru w c s2) = Go ans" using release_answers by blast
  then obtain s3 where "release ru w c s2 = (Go ans, s3)" by (cases "release ru w c s2") simp
  then have "under_lease x ru w s = (Go ans, s3)" unfolding under_lease_def r by (simp add: latest) (simp add: qbind_def c)
  then show ?thesis by blast
qed

lemma under_lease_releases:
  assumes "under_lease x ru w s = (Go (Inr report), t)"
  shows "list_all (\<lambda>l. \<not> lease_matches (qu_lease t) l) (leases (qu_db t))"
proof -
  obtain r s1 where r: "run_leased x ru w s = (r, s1)" by (cases "run_leased x ru w s")
  obtain c s2 where "release ru w c s2 = (Go (Inr report), t)"
    using assms unfolding under_lease_def r
    by (auto simp: qbind_def latest_lease_def qmodify_def Let_def split: prod.split_asm flow.split_asm)
  then show ?thesis using released by blast
qed

lemma leased_sound:
  assumes "tame w \<Longrightarrow> attempts_grow d d1"
  shows "sound ru w d (lease_key l) 0 (leased_quantum d1 l)"
  using assms by (simp add: sound_def leased_quantum_def tool_calls_def model_calls_def called_once_def tenant_def List.map_filter_def)

lemma granted_to:
  assumes "acquire_ready_actor_for actor owner now until d = Inr (Some l, d1)"
  shows "ls_actor l = actor" and "ls_owner l = owner"
  using assms by (auto simp: acquire_ready_actor_for_def lease_result_def split: if_splits option.split_asm)

lemma run_quantum_leased:
  assumes "run_quantum x ru w actor owner d = (r, d', Some s)"
  obtains l d1 where "under_lease x ru w (leased_quantum d1 l) = (r, s)" and "d' = qu_db s"
    and "ls_actor l = actor" and "ls_owner l = owner"
    and "sound ru w d (lease_key l) 0 (leased_quantum d1 l)"
    and "sound ru w d (lease_key l) (rl_max_model_steps (ru_limits ru)) s"
proof -
  let ?m = "wo_moment w 0"
  obtain millis l d1 where a: "acquire_ready_actor_for actor owner (mo_now ?m) (plus_millis (mo_now ?m) millis) (mo_others ?m d) = Inr (Some l, d1)"
    and u: "under_lease x ru w (leased_quantum d1 l) = (r, s)" and d': "d' = qu_db s"
    using assms by (auto simp: run_quantum_def Let_def split: sum.split_asm option.split_asm prod.split_asm)
  have start: "sound ru w d (lease_key l) 0 (leased_quantum d1 l)"
  proof (rule leased_sound)
    assume "tame w"
    then have "attempts_grow d (mo_others ?m d)" by (simp add: tame_def)
    then show "attempts_grow d d1" by (rule attempts_grow_trans) (rule acquire_grows[OF a])
  qed
  show ?thesis
  proof (rule that[OF u d' granted_to[OF a] start])
    show "sound ru w d (lease_key l) (rl_max_model_steps (ru_limits ru)) s"
      using under_lease_sound[OF start, of x] u by (simp add: ensures_def)
  qed
qed

section \<open>What a quantum guarantees\<close>

text \<open>
  C4. Tools obey the policy. Every tool a quantum calls is allowed by the execution policy of the
  run it is called for, whatever the model asks for, whatever was prepared by earlier quanta, and
  whatever happens in between.
\<close>

theorem quantum_obeys_policy:
  assumes "run_quantum x ru w actor owner d = (r, d', Some s)"
    and "QvTool run i name args authorized \<in> set (qu_trace s)"
  shows "policy_allows (ar_policy run) name"
proof -
  obtain l where "sound ru w d (lease_key l) (rl_max_model_steps (ru_limits ru)) s"
    by (rule run_quantum_leased[OF assms(1)])
  then have "list_all allowed_call (qu_trace s)" by (simp add: sound_def)
  then show ?thesis using assms(2) by (force simp: list_all_iff)
qed

text \<open>
  C3. Tools run once. While others only move attempts forward, a quantum calls no attempt twice,
  calls none that was started before it began, and leaves every attempt it called started.
\<close>

theorem quantum_calls_once:
  assumes "run_quantum x ru w actor owner d = (r, d', Some s)" and "tame w" and "distinct (map ta_id (attempts d))"
  shows "distinct (tool_calls (qu_trace s)) \<and> (\<forall>i \<in> set (tool_calls (qu_trace s)). \<not> started d i \<and> started d' i)"
proof -
  obtain l where "d' = qu_db s" "sound ru w d (lease_key l) (rl_max_model_steps (ru_limits ru)) s"
    by (rule run_quantum_leased[OF assms(1)])
  then show ?thesis using assms(2,3) by (simp add: sound_def called_once_def)
qed

text \<open>C27. A quantum stays within its limits, for the model and, over both loops, for the tools.\<close>

theorem quantum_within_limits:
  assumes "run_quantum x ru w actor owner d = (r, d', Some s)"
  shows "length (tool_calls (qu_trace s)) \<le> rl_max_tool_steps (ru_limits ru)
     \<and> model_calls (qu_trace s) \<le> rl_max_model_steps (ru_limits ru)"
proof -
  obtain l where "sound ru w d (lease_key l) (rl_max_model_steps (ru_limits ru)) s"
    by (rule run_quantum_leased[OF assms(1)])
  then show ?thesis by (simp add: sound_def)
qed

text \<open>
  C5. A quantum answers. In no world does a quantum reach one of its \<open>unreachable!()\<close>, and when every
  call of the model and of a tool ends or is cut off by the deadline, it returns a report or a
  failure.
\<close>

theorem quantum_answers:
  "fst (run_quantum x ru w actor owner d) \<noteq> Panics
     \<and> (awake w \<longrightarrow> (\<exists>ans. fst (run_quantum x ru w actor owner d) = Go ans))"
proof -
  obtain r d' q where q: "run_quantum x ru w actor owner d = (r, d', q)" by (metis prod_cases3)
  show ?thesis
  proof (cases q)
    case None
    then show ?thesis using q by (auto simp: run_quantum_def Let_def split: sum.split_asm option.split_asm prod.split_asm)
  next
    case (Some s)
    obtain l d1 where u: "under_lease x ru w (leased_quantum d1 l) = (r, s)"
      and start: "sound ru w d (lease_key l) 0 (leased_quantum d1 l)"
      by (rule run_quantum_leased[OF q[unfolded Some]])
    have "r \<noteq> Panics" using under_lease_sound[OF start, of x] u by (auto simp: ensures_def excluded_def split: if_splits)
    moreover have "\<exists>ans. r = Go ans" if "awake w" using under_lease_answers[OF start that, of x] u by auto
    ultimately show ?thesis using q by auto
  qed
qed

text \<open>
  C28. The lease is given back. After a quantum that reports, nobody holds the actor under the
  lease it worked with, renewed as often as it may have been.
\<close>

theorem quantum_releases_lease:
  assumes "run_quantum x ru w actor owner d = (Go (Inr report), d', Some s)"
  shows "ls_actor (qu_lease s) = actor \<and> ls_owner (qu_lease s) = owner
     \<and> (\<forall>now. \<not> lease_current d' (qu_lease s) now)"
proof -
  obtain l d1 where u: "under_lease x ru w (leased_quantum d1 l) = (Go (Inr report), s)" and d': "d' = qu_db s"
    and l: "ls_actor l = actor" "ls_owner l = owner" "sound ru w d (lease_key l) (rl_max_model_steps (ru_limits ru)) s"
    by (rule run_quantum_leased[OF assms])
  have "lease_key (qu_lease s) = lease_key l" using l(3) by (simp add: sound_def tenant_def)
  then show ?thesis using l(1,2) under_lease_releases[OF u] d'
    by (auto simp: lease_key_def lease_current_iff list_all_iff)
qed

text \<open>
  The first attempt beyond the budget ends the calls of a step. What follows it in the answer of
  the model is dropped with it, also calls the policy refuses: they have no attempt that a later
  quantum could take up, and so never get a result.
\<close>

lemma exhausted_budget_drops_refusals:
  assumes "rl_max_tool_steps (ru_limits ru) \<le> qu_tool_steps s"
  shows "run_calls x ru w ((c, Some a) # refused) ms ids s = (Go (True, ms, ids), s)"
  using assms by (simp add: qget_def qreturn_def)

section \<open>Answers on a bounded route\<close>

lemma trim_end_prefix: "prefix (trim_end s) s"
  by (metis suffix_dropWhile suffix_to_prefix rev_rev_ident trim_end_def)

lemma sentences_prefix: "prefix (sentences s) s"
proof (cases "list_ex ends_sentence s")
  case True
  then show ?thesis by (metis sentences_def suffix_dropWhile suffix_to_prefix rev_rev_ident)
qed (simp add: sentences_def)

text \<open>An answer over Reticulum has at most 500 characters: the whole text, or a beginning of it and an ellipsis.\<close>

lemma reticulum_answer_bounded:
  assumes "is_reticulum_route route"
  shows "length (bounded_reticulum_response route t) \<le> 500
     \<and> (bounded_reticulum_response route t = t
        \<or> (\<exists>p. prefix p t \<and> bounded_reticulum_response route t = p @ ''...''))"
proof (cases "length t \<le> RETICULUM_RESPONSE_CHARS")
  case True
  then show ?thesis by (simp add: bounded_reticulum_response_def RETICULUM_RESPONSE_CHARS_def)
next
  case False
  let ?p = "trim_end (sentences (take RETICULUM_RESPONSE_PREFIX_CHARS t))"
  have p: "prefix ?p (take RETICULUM_RESPONSE_PREFIX_CHARS t)"
    using trim_end_prefix sentences_prefix prefix_order.trans by blast
  have "length ?p \<le> 497"
    using prefix_length_le[OF p] by (simp add: RETICULUM_RESPONSE_PREFIX_CHARS_def RETICULUM_RESPONSE_CHARS_def)
  moreover have "prefix ?p t" using p take_is_prefix prefix_order.trans by blast
  ultimately show ?thesis using False assms by (auto simp: bounded_reticulum_response_def)
qed

section \<open>Witnesses\<close>

lemma lean_called: "tool_calls lean_trace = [''t1'']" "model_calls lean_trace = 1"
  by (simp_all add: lean_trace_def tool_calls_def model_calls_def List.map_filter_def)

lemma lean_world_tame: "tame lean_world"
  by (auto simp: tame_def lean_world_def lean_moment_def)

lemma lean_world_awake: "awake lean_world"
  by (simp add: awake_def wakes_def lean_world_def)

theorem quantum_obeys_policy_witness:
  "QvTool (lean_run 1050) ''t1'' ''bash'' ''{}'' [''bash''] \<in> set lean_trace
     \<and> policy_allows (ar_policy (lean_run 1050)) ''bash''"
proof -
  obtain s where s: "run_quantum sample_ext lean_runner lean_world ''a'' ''p'' sample_prepared =
      (Go (Inr \<lparr>qr_work = Some ''w'', qr_outcome = RoCompleted, qr_progress = QpFinalized\<rparr>), lean11, Some s)"
    and t: "qu_trace s = lean_trace" by (rule lean_quantum)
  have "QvTool (lean_run 1050) ''t1'' ''bash'' ''{}'' [''bash''] \<in> set lean_trace" by (simp add: lean_trace_def)
  then show ?thesis using quantum_obeys_policy [OF s] t by metis
qed

theorem quantum_calls_once_witness:
  "tool_calls lean_trace = [''t1''] \<and> \<not> started sample_prepared ''t1'' \<and> started lean11 ''t1''"
proof -
  obtain s where s: "run_quantum sample_ext lean_runner lean_world ''a'' ''p'' sample_prepared =
      (Go (Inr \<lparr>qr_work = Some ''w'', qr_outcome = RoCompleted, qr_progress = QpFinalized\<rparr>), lean11, Some s)"
    and t: "qu_trace s = lean_trace" by (rule lean_quantum)
  show ?thesis using quantum_calls_once [OF s lean_world_tame sample_attempt_keys(1)] by (simp add: t lean_called)
qed

theorem quantum_within_limits_witness:
  "length (tool_calls lean_trace) \<le> rl_max_tool_steps (ru_limits lean_runner)
     \<and> model_calls lean_trace \<le> rl_max_model_steps (ru_limits lean_runner)"
proof -
  obtain s where s: "run_quantum sample_ext lean_runner lean_world ''a'' ''p'' sample_prepared =
      (Go (Inr \<lparr>qr_work = Some ''w'', qr_outcome = RoCompleted, qr_progress = QpFinalized\<rparr>), lean11, Some s)"
    and t: "qu_trace s = lean_trace" by (rule lean_quantum)
  show ?thesis using quantum_within_limits [OF s] by (simp add: t)
qed

theorem quantum_answers_witness:
  "awake lean_world \<and> (\<exists>ans. fst (run_quantum sample_ext lean_runner lean_world ''a'' ''p'' sample_prepared) = Go ans)"
  using quantum_answers [of sample_ext lean_runner lean_world "''a''" "''p''" sample_prepared] lean_world_awake by blast

theorem quantum_releases_lease_witness:
  "\<exists>l. ls_actor l = ''a'' \<and> ls_owner l = ''p'' \<and> (\<forall>now. \<not> lease_current lean11 l now)"
proof -
  obtain s where s: "run_quantum sample_ext lean_runner lean_world ''a'' ''p'' sample_prepared =
      (Go (Inr \<lparr>qr_work = Some ''w'', qr_outcome = RoCompleted, qr_progress = QpFinalized\<rparr>), lean11, Some s)"
    by (rule lean_quantum)
  show ?thesis using quantum_releases_lease [OF s] by (intro exI[of _ "qu_lease s"]) blast
qed

end
