(* ===== verification/Ipc_Protocol.thy ===== *)
theory Ipc_Protocol
  imports Actors "HOL-Library.Word"
begin

unbundle bit_operations_syntax

text \<open>
  \<open>runtime/ipc/protocol.rs\<close>: the messages of the local socket, what a receiver checks of them, and
  the frames that carry them. Bytes are characters; the JSON text of a message and the derived
  part of its decoding are serde's and a parameter, the checks the code writes itself are here.
\<close>

section \<open>Messages\<close>

definition PROTOCOL_VERSION :: nat where "PROTOCOL_VERSION = 1"
definition FRAME_HEADER_TIMEOUT :: nat where "FRAME_HEADER_TIMEOUT = 5000"
definition FRAME_BODY_TIMEOUT :: nat where "FRAME_BODY_TIMEOUT = 30000"

datatype client_request_body =
    CrSubmit request_id string
  | CrResume request_id
  | CrAckFinal request_id bundle_id "delivery_id list"
  | CrCancel request_id cancel_id
  | CrIssueLinkCode request_id "actor_id option"
  | CrActorAdmin request_id admin_command

datatype activity_event =
    EvModelStepStarted | EvDescription string | EvToolStarted string | EvToolFinished string bool
  | EvActivityCompleted | EvActivityCancelled | EvActivityFailed

datatype protocol_error_code =
    InvalidUtf8 | InvalidJson | UnsupportedVersion | InvalidUuid | InvalidRequest | ZeroLengthFrame
  | FrameTooLarge | IncompleteFrame | HeaderTimeout | BodyTimeout | WriteTimeout

datatype server_event_body =
    SvAccepted request_id work_item_id int
  | SvCancelAccepted request_id cancel_id "request_id list"
  | SvAckAccepted request_id bundle_id
  | SvActivity request_id activity_event
  | SvTextDelta request_id string
  | SvStreamGap request_id
  | SvFinalBegin request_id bundle_id bool "manifest_entry list"
  | SvFinalChunk request_id bundle_id delivery_id nat string
  | SvFinalEnd request_id bundle_id string
  | SvRequestError request_id string string
  | SvProtocolError protocol_error_code string
  | SvShuttingDown "request_id option" "string option"
  | SvLinkCodeIssued request_id string int
  | SvActorAdminResult request_id admin_result

record client_request =
  cr_version :: nat
  cr_body :: client_request_body

record server_event =
  se_version :: nat
  se_body :: server_event_body

definition client_request_new :: "client_request_body \<Rightarrow> client_request" where
  "client_request_new b = \<lparr>cr_version = PROTOCOL_VERSION, cr_body = b\<rparr>"

definition server_event_new :: "server_event_body \<Rightarrow> server_event" where
  "server_event_new b = \<lparr>se_version = PROTOCOL_VERSION, se_body = b\<rparr>"

lemma se_body_new [simp]: "se_body (server_event_new b) = b"
  by (simp add: server_event_new_def)

lemma server_event_new_eq [simp]: "server_event_new a = server_event_new b \<longleftrightarrow> a = b"
  by (simp add: server_event_new_def)

record protocol_failure =
  pf_code :: protocol_error_code
  pf_message :: string

definition failure :: "protocol_error_code \<Rightarrow> string \<Rightarrow> protocol_failure" where
  "failure c m = \<lparr>pf_code = c, pf_message = m\<rparr>"

lemma pf_code_failure [simp]: "pf_code (failure c m) = c"
  by (simp add: failure_def)

section \<open>Activities\<close>

text \<open>
  The derived serializer of an activity, and the deserializer the code writes by hand: the allowed
  keys of each type are checked before the derived reading of the fields.
\<close>

fun write_activity :: "activity_event \<Rightarrow> json" where
  "write_activity EvModelStepStarted = JObject [(''type'', JString ''model_step_started'')]"
| "write_activity (EvDescription d) = JObject [(''type'', JString ''description''), (''description'', JString d)]"
| "write_activity (EvToolStarted n) = JObject [(''type'', JString ''tool_started''), (''name'', JString n)]"
| "write_activity (EvToolFinished n s) =
     JObject [(''type'', JString ''tool_finished''), (''name'', JString n), (''succeeded'', JBool s)]"
| "write_activity EvActivityCompleted = JObject [(''type'', JString ''completed'')]"
| "write_activity EvActivityCancelled = JObject [(''type'', JString ''cancelled'')]"
| "write_activity EvActivityFailed = JObject [(''type'', JString ''failed'')]"

definition activity_keys :: "string \<Rightarrow> string list option" where
  "activity_keys kind =
     (if kind \<in> {''model_step_started'', ''completed'', ''cancelled'', ''failed''} then Some [''type'']
      else if kind = ''description'' then Some [''type'', ''description'']
      else if kind = ''tool_started'' then Some [''type'', ''name'']
      else if kind = ''tool_finished'' then Some [''type'', ''name'', ''succeeded'']
      else None)"

definition json_bool :: "json option \<Rightarrow> bool option" where
  "json_bool j = (case j of Some (JBool b) \<Rightarrow> Some b | _ \<Rightarrow> None)"

definition read_activity_wire :: "json \<Rightarrow> string \<Rightarrow> activity_event option" where
  "read_activity_wire j kind =
     (if kind = ''model_step_started'' then Some EvModelStepStarted
      else if kind = ''description'' then map_option EvDescription (json_str (json_get j ''description''))
      else if kind = ''tool_started'' then map_option EvToolStarted (json_str (json_get j ''name''))
      else if kind = ''tool_finished''
      then Option.bind (json_str (json_get j ''name''))
             (\<lambda>n. map_option (EvToolFinished n) (json_bool (json_get j ''succeeded'')))
      else if kind = ''completed'' then Some EvActivityCompleted
      else if kind = ''cancelled'' then Some EvActivityCancelled
      else if kind = ''failed'' then Some EvActivityFailed else None)"

definition read_activity :: "json \<Rightarrow> string + activity_event" where
  "read_activity j =
     (case j of
        JObject fs \<Rightarrow>
          (case json_str (json_get j ''type'') of
             None \<Rightarrow> Inl ''activity event type is required''
           | Some kind \<Rightarrow>
               (case activity_keys kind of
                  None \<Rightarrow> Inl ''unknown activity event type''
                | Some allowed \<Rightarrow>
                    if \<exists>k \<in> set (map fst fs). k \<notin> set allowed
                    then Inl ''activity event contains an unknown field''
                    else from_option ''missing or invalid field'' (read_activity_wire j kind)))
      | _ \<Rightarrow> Inl ''activity event must be an object'')"

lemma read_write_activity: "read_activity (write_activity a) = Inr a"
  by (cases a) (simp_all add: read_activity_def activity_keys_def read_activity_wire_def json_get_def json_str_def
      json_bool_def)

section \<open>Identifiers on the wire\<close>

definition UUID_FIELDS :: "string list" where
  "UUID_FIELDS = [''request_id'', ''work_item_id'', ''bundle_id'', ''delivery_id'', ''cancel_id'']"

definition UUID_LISTS :: "string list" where
  "UUID_LISTS = [''delivery_ids'', ''affected_request_ids'']"

definition parse_wire_uuid :: "ext \<Rightarrow> string \<Rightarrow> string \<Rightarrow> protocol_failure + unit" where
  "parse_wire_uuid x field raw =
     (case parse_uuid x raw of Some _ \<Rightarrow> Inr () | None \<Rightarrow> Inl (failure InvalidUuid (field @ '' is not a UUID'')))"

definition wire_strings :: "json list \<Rightarrow> string list" where
  "wire_strings js = List.map_filter (\<lambda>j. json_str (Some j)) js"

definition check_wire_field :: "ext \<Rightarrow> string \<Rightarrow> json \<Rightarrow> protocol_failure + unit" where
  "check_wire_field x name v =
     (case (if name \<in> set UUID_FIELDS then json_str (Some v) else None) of
        Some raw \<Rightarrow> parse_wire_uuid x name raw
      | None \<Rightarrow>
          (if name \<in> set UUID_LISTS
           then case v of JArray js \<Rightarrow> efold (\<lambda>raw _. parse_wire_uuid x name raw) (wire_strings js) ()
                | _ \<Rightarrow> Inr ()
           else Inr ()))"

fun validate_wire_uuids :: "ext \<Rightarrow> json \<Rightarrow> protocol_failure + unit"
  and validate_wire_fields :: "ext \<Rightarrow> (string \<times> json) list \<Rightarrow> protocol_failure + unit"
  and validate_wire_items :: "ext \<Rightarrow> json list \<Rightarrow> protocol_failure + unit" where
  "validate_wire_uuids x (JObject fs) = validate_wire_fields x fs"
| "validate_wire_uuids x (JArray js) = validate_wire_items x js"
| "validate_wire_uuids x JNull = Inr ()"
| "validate_wire_uuids x (JBool b) = Inr ()"
| "validate_wire_uuids x (JNumber n) = Inr ()"
| "validate_wire_uuids x (JString s) = Inr ()"
| "validate_wire_fields x [] = Inr ()"
| "validate_wire_fields x ((name, v) # rest) =
     ebind (check_wire_field x name v) (\<lambda>_. ebind (validate_wire_uuids x v) (\<lambda>_. validate_wire_fields x rest))"
| "validate_wire_items x [] = Inr ()"
| "validate_wire_items x (j # js) = ebind (validate_wire_uuids x j) (\<lambda>_. validate_wire_items x js)"

text \<open>The reference: a field with a name occurs somewhere in a value, at any depth.\<close>

inductive field_in :: "json \<Rightarrow> string \<Rightarrow> json \<Rightarrow> bool" where
  here: "(name, v) \<in> set fs \<Longrightarrow> field_in (JObject fs) name v"
| in_field: "(k, u) \<in> set fs \<Longrightarrow> field_in u name v \<Longrightarrow> field_in (JObject fs) name v"
| in_item: "u \<in> set js \<Longrightarrow> field_in u name v \<Longrightarrow> field_in (JArray js) name v"

inductive_cases field_in_leafE: "field_in JNull name v" "field_in (JBool b) name v" "field_in (JNumber s) name v"
  "field_in (JString s) name v"
inductive_simps field_in_object: "field_in (JObject fs) name v"
inductive_simps field_in_array: "field_in (JArray js) name v"

lemma field_in_cons:
  "field_in (JObject ((k, u) # fs)) name v \<longleftrightarrow> (name = k \<and> v = u) \<or> field_in u name v \<or> field_in (JObject fs) name v"
  "field_in (JArray (u # js)) name v \<longleftrightarrow> field_in u name v \<or> field_in (JArray js) name v"
  by (auto simp: field_in_object field_in_array)

lemma field_in_nil: "\<not> field_in (JObject []) name v" "\<not> field_in (JArray []) name v"
  by (simp_all add: field_in_object field_in_array)

definition wire_field_ok :: "ext \<Rightarrow> string \<Rightarrow> json \<Rightarrow> bool" where
  "wire_field_ok x name v \<longleftrightarrow>
     (\<forall>raw. v = JString raw \<and> name \<in> set UUID_FIELDS \<longrightarrow> parse_uuid x raw \<noteq> None) \<and>
     (\<forall>js raw. v = JArray js \<and> JString raw \<in> set js \<and> name \<in> set UUID_LISTS \<longrightarrow> parse_uuid x raw \<noteq> None)"

lemma wire_strings_set: "raw \<in> set (wire_strings js) \<longleftrightarrow> JString raw \<in> set js"
  by (induction js) (auto simp: wire_strings_def map_filter_simps json_str_def split: json.splits option.splits)

lemma efold_unit_checks: "efold (\<lambda>a _. f a) as () = Inr () \<longleftrightarrow> (\<forall>a \<in> set as. f a = Inr ())"
  by (induction as) (auto simp: ebind_eq_Inr)

lemma check_wire_field_ok: "check_wire_field x name v = Inr () \<longleftrightarrow> wire_field_ok x name v"
proof -
  have disjoint: "name \<in> set UUID_FIELDS \<Longrightarrow> name \<notin> set UUID_LISTS"
    by (auto simp: UUID_FIELDS_def UUID_LISTS_def)
  have parses: "parse_wire_uuid x name raw = Inr () \<longleftrightarrow> parse_uuid x raw \<noteq> None" for raw
    by (auto simp: parse_wire_uuid_def split: option.splits)
  show ?thesis
  proof (cases v)
    case (JString raw)
    then show ?thesis using parses[of raw] by (auto simp: check_wire_field_def wire_field_ok_def json_str_def)
  next
    case (JArray js)
    then show ?thesis using disjoint
      by (auto simp: check_wire_field_def wire_field_ok_def json_str_def efold_unit_checks parses wire_strings_set)
  qed (simp_all add: check_wire_field_def wire_field_ok_def json_str_def)
qed

lemma validate_wire_equiv:
  "validate_wire_uuids x j = Inr () \<longleftrightarrow> (\<forall>name v. field_in j name v \<longrightarrow> wire_field_ok x name v)"
  "validate_wire_fields x fs = Inr () \<longleftrightarrow> (\<forall>name v. field_in (JObject fs) name v \<longrightarrow> wire_field_ok x name v)"
  "validate_wire_items x js = Inr () \<longleftrightarrow> (\<forall>name v. field_in (JArray js) name v \<longrightarrow> wire_field_ok x name v)"
proof (induction x j and x fs and x js rule: validate_wire_uuids_validate_wire_fields_validate_wire_items.induct)
  case (8 x name v rest)
  show ?case
  proof (cases "wire_field_ok x name v \<and> validate_wire_uuids x v = Inr ()")
    case True
    then show ?thesis using 8 by (simp add: ebind_eq_Inr check_wire_field_ok field_in_cons)
  next
    case False
    then show ?thesis using 8(1) by (simp add: ebind_eq_Inr check_wire_field_ok field_in_cons) blast
  qed
next
  case (10 x j js)
  show ?case
  proof (cases "validate_wire_uuids x j = Inr ()")
    case True
    then show ?thesis using 10 by (simp add: ebind_eq_Inr field_in_cons)
  next
    case False
    then show ?thesis using 10(1) by (simp add: ebind_eq_Inr field_in_cons) blast
  qed
qed (auto elim: field_in_leafE simp: field_in_nil)

section \<open>What a receiver accepts\<close>

definition number_u64 :: "json option \<Rightarrow> nat option" where
  "number_u64 j =
     (case j of Some (JNumber s) \<Rightarrow> if s \<noteq> [] \<and> list_all is_digit s \<and> read_nat s < 2 ^ 64 then Some (read_nat s) else None
      | _ \<Rightarrow> None)"

definition require_v1 :: "nat \<Rightarrow> string + unit" where
  "require_v1 v = require (v = PROTOCOL_VERSION) ''unsupported protocol version''"

fun command_actor :: "admin_command \<Rightarrow> actor_id option" where
  "command_actor AcList = None"
| "command_actor (AcShow a) = Some a"
| "command_actor (AcCreate a) = Some a"
| "command_actor (AcEnable a) = Some a"
| "command_actor (AcDisable a) = Some a"
| "command_actor (AcDelete a f) = Some a"
| "command_actor (AcToolsList a) = Some a"
| "command_actor (AcToolsGrant a t) = Some a"
| "command_actor (AcToolsRevoke a t) = Some a"

fun body_actor :: "client_request_body \<Rightarrow> actor_id option" where
  "body_actor (CrIssueLinkCode q a) = a"
| "body_actor (CrActorAdmin q c) = command_actor c"
| "body_actor (CrSubmit q t) = None"
| "body_actor (CrResume q) = None"
| "body_actor (CrAckFinal q b ds) = None"
| "body_actor (CrCancel q c) = None"

definition workspace_safe :: "actor_id \<Rightarrow> bool" where
  "workspace_safe a \<longleftrightarrow> \<not> isl (parse_workspace_safe a)"

definition validate_client_body :: "client_request_body \<Rightarrow> string + unit" where
  "validate_client_body b =
     (if (case body_actor b of Some a \<Rightarrow> \<not> workspace_safe a | None \<Rightarrow> False)
      then Inl ''actor_id is not workspace-safe''
      else case b of
        CrSubmit q t \<Rightarrow> (if blank t then Inl ''submit text must contain non-whitespace content''
                        else if MAX_SUBMIT_BYTES < utf8_len t then Inl ''submit text exceeds the UTF-8 byte limit''
                        else Inr ())
      | CrAckFinal q u ds \<Rightarrow> (if ds = [] \<or> MAX_BUNDLE_DELIVERIES < length ds
                             then Inl ''ack delivery count is outside the bundle limits'' else Inr ())
      | CrActorAdmin q (AcToolsGrant a t) \<Rightarrow> (if blank t then Inl ''actor tool name must not be blank'' else Inr ())
      | CrActorAdmin q (AcToolsRevoke a t) \<Rightarrow> (if blank t then Inl ''actor tool name must not be blank'' else Inr ())
      | _ \<Rightarrow> Inr ())"

fun result_actors :: "admin_result \<Rightarrow> actor_id list" where
  "result_actors (ArActors as) = map ra_id as"
| "result_actors (ArActor d c) = [ra_id (ad_actor d)]"
| "result_actors (ArTools a ts) = [a]"
| "result_actors (ArDeleted a) = [a]"

definition validate_server_body :: "ext \<Rightarrow> server_event_body \<Rightarrow> string + unit" where
  "validate_server_body x b =
     (case b of
        SvAccepted q w n \<Rightarrow> (if parse_uuid x w = None then Inl ''work_item_id is not a UUID'' else Inr ())
      | SvActorAdminResult q r \<Rightarrow> (if list_ex (\<lambda>a. \<not> workspace_safe a) (result_actors r)
                                   then Inl ''actor_id is not workspace-safe'' else Inr ())
      | _ \<Rightarrow> Inr ())"

text \<open>
  \<open>decode_envelope\<close>: the UTF-8 check and the parser, the version, the identifiers, and then the
  schema. The derived reading of the envelope's two fields is the parameter \<open>read\<close>; the version and
  the body it returns are checked again, as the hand-written \<open>Deserialize\<close> of the two messages does.
\<close>

record wire =
  from_utf8 :: "string \<Rightarrow> string option"
  read_client_envelope :: "json \<Rightarrow> string + (nat \<times> client_request_body)"
  read_server_envelope :: "json \<Rightarrow> string + (nat \<times> server_event_body)"
  write_client_json :: "client_request \<Rightarrow> string"
  write_server_json :: "server_event \<Rightarrow> string"
  base64_encode :: "string \<Rightarrow> string"
  base64_decode :: "string \<Rightarrow> string option"

definition decode_envelope ::
    "ext \<Rightarrow> wire \<Rightarrow> (json \<Rightarrow> string + (nat \<times> 'b)) \<Rightarrow> ('b \<Rightarrow> string + unit) \<Rightarrow> protocol_error_code \<Rightarrow> string
      \<Rightarrow> protocol_failure + (nat \<times> 'b)" where
  "decode_envelope x y read validate schema_error payload =
     (case from_utf8 y payload of
        None \<Rightarrow> Inl (failure InvalidUtf8 ''frame is not UTF-8'')
      | Some s \<Rightarrow>
          (case parse_json x s of
             Inl m \<Rightarrow> Inl (failure InvalidJson (''frame is not valid JSON: '' @ m))
           | Inr value \<Rightarrow>
               if number_u64 (json_get value ''version'') \<noteq> Some PROTOCOL_VERSION
               then Inl (failure UnsupportedVersion ''unsupported protocol version'')
               else ebind (validate_wire_uuids x value) (\<lambda>_.
                 case ebind (read value) (\<lambda>(v, b). ebind (require_v1 v) (\<lambda>_. ebind (validate b) (\<lambda>_. Inr (v, b)))) of
                   Inl m \<Rightarrow> Inl (failure schema_error (''frame does not match the protocol schema: '' @ m))
                 | Inr r \<Rightarrow> Inr r)))"

definition decode_client_request :: "ext \<Rightarrow> wire \<Rightarrow> string \<Rightarrow> protocol_failure + client_request" where
  "decode_client_request x y payload =
     ebind (decode_envelope x y (read_client_envelope y) validate_client_body InvalidRequest payload)
       (\<lambda>(v, b). Inr \<lparr>cr_version = v, cr_body = b\<rparr>)"

definition decode_server_event :: "ext \<Rightarrow> wire \<Rightarrow> string \<Rightarrow> protocol_failure + server_event" where
  "decode_server_event x y payload =
     ebind (decode_envelope x y (read_server_envelope y) (validate_server_body x) InvalidJson payload)
       (\<lambda>(v, b). Inr \<lparr>se_version = v, se_body = b\<rparr>)"

end
