(* ===== verification/Ipc_Frames.thy ===== *)
theory Ipc_Frames
  imports Ipc_Protocol
begin

text \<open>
  \<open>runtime/ipc/protocol.rs\<close>, \<open>FrameReader\<close> and \<open>FrameWriter\<close>: a frame is a big-endian length of
  four bytes and that many bytes of JSON.
\<close>

section \<open>The length\<close>

definition to_be_bytes :: "32 word \<Rightarrow> string" where
  "to_be_bytes w = map (\<lambda>k. char_of (unat (drop_bit k w))) [24, 16, 8, 0]"

definition push_byte :: "32 word \<Rightarrow> char \<Rightarrow> 32 word" where
  "push_byte w c = push_bit 8 w OR word_of_nat (of_char c)"

definition from_be_bytes :: "string \<Rightarrow> 32 word" where
  "from_be_bytes cs = foldl push_byte 0 cs"

definition validate_frame_length :: "string \<Rightarrow> protocol_failure + nat" where
  "validate_frame_length header =
     (let n = unat (from_be_bytes header) in
      if n = 0 then Inl (failure ZeroLengthFrame ''zero-length frames are forbidden'')
      else if MAX_FRAME_BYTES < n
      then Inl (failure FrameTooLarge (''frame length '' @ show_nat n @ '' exceeds 1048576'')) else Inr n)"

section \<open>Reading\<close>

text \<open>
  What the peer sends, as the reader sees it: every byte with the milliseconds the reader waits
  for it, and then the end of the stream after some wait, or silence. A read that meets silence
  without a deadline never returns.
\<close>

record byte_source =
  bs_bytes :: "(nat \<times> char) list"
  bs_end :: "nat option"

datatype read_result = ReadOk string | ReadTimedOut | ReadEnded | ReadBlocked

definition in_time :: "nat option \<Rightarrow> nat \<Rightarrow> bool" where
  "in_time budget w = (case budget of None \<Rightarrow> True | Some b \<Rightarrow> w \<le> b)"

definition less_wait :: "nat option \<Rightarrow> nat \<Rightarrow> nat option" where
  "less_wait budget w = map_option (\<lambda>b. b - w) budget"

fun read_exact :: "nat \<Rightarrow> nat option \<Rightarrow> byte_source \<Rightarrow> string \<Rightarrow> read_result \<times> byte_source" where
  "read_exact 0 budget s acc = (ReadOk (rev acc), s)"
| "read_exact (Suc n) budget s acc =
     (case bs_bytes s of
        [] \<Rightarrow> (case bs_end s of
                None \<Rightarrow> (if budget = None then ReadBlocked else ReadTimedOut, s)
              | Some w \<Rightarrow> (if in_time budget w then ReadEnded else ReadTimedOut, s))
      | (w, c) # rest \<Rightarrow>
          (if in_time budget w then read_exact n (less_wait budget w) (s\<lparr>bs_bytes := rest\<rparr>) (c # acc)
           else (ReadTimedOut, s\<lparr>bs_bytes := (w - the budget, c) # rest\<rparr>)))"

definition incomplete :: "string \<Rightarrow> protocol_failure" where
  "incomplete context = failure IncompleteFrame (context @ '': early eof'')"

definition read_payload :: "byte_source \<Rightarrow> (protocol_failure + string) \<times> byte_source" where
  "read_payload s =
     (case read_exact 4 (Some FRAME_HEADER_TIMEOUT) s [] of
        (ReadOk header, s) \<Rightarrow>
          (case validate_frame_length header of
             Inl e \<Rightarrow> (Inl e, s)
           | Inr n \<Rightarrow>
               (case read_exact n (Some FRAME_BODY_TIMEOUT) s [] of
                  (ReadOk payload, s) \<Rightarrow> (Inr payload, s)
                | (ReadEnded, s) \<Rightarrow> (Inl (incomplete ''frame body is incomplete''), s)
                | (_, s) \<Rightarrow> (Inl (failure BodyTimeout ''frame body deadline exceeded''), s)))
      | (ReadEnded, s) \<Rightarrow> (Inl (incomplete ''frame header is incomplete''), s)
      | (_, s) \<Rightarrow> (Inl (failure HeaderTimeout ''frame header deadline exceeded''), s))"

definition read_payload_without_deadline :: "byte_source \<Rightarrow> ((protocol_failure + string) \<times> byte_source) option" where
  "read_payload_without_deadline s =
     (case read_exact 4 None s [] of
        (ReadOk header, s) \<Rightarrow>
          (case validate_frame_length header of
             Inl e \<Rightarrow> Some (Inl e, s)
           | Inr n \<Rightarrow>
               (case read_exact n None s [] of
                  (ReadOk payload, s) \<Rightarrow> Some (Inr payload, s)
                | (ReadEnded, s) \<Rightarrow> Some (Inl (incomplete ''frame body is incomplete''), s)
                | _ \<Rightarrow> None))
      | (ReadEnded, s) \<Rightarrow> Some (Inl (incomplete ''frame header is incomplete''), s)
      | _ \<Rightarrow> None)"

definition read_client_request :: "ext \<Rightarrow> wire \<Rightarrow> byte_source \<Rightarrow> (protocol_failure + client_request) \<times> byte_source" where
  "read_client_request x y s = (case read_payload s of (r, s) \<Rightarrow> (ebind r (decode_client_request x y), s))"

definition read_server_event :: "ext \<Rightarrow> wire \<Rightarrow> byte_source \<Rightarrow> (protocol_failure + server_event) \<times> byte_source" where
  "read_server_event x y s = (case read_payload s of (r, s) \<Rightarrow> (ebind r (decode_server_event x y), s))"

definition read_server_event_without_deadline ::
    "ext \<Rightarrow> wire \<Rightarrow> byte_source \<Rightarrow> ((protocol_failure + server_event) \<times> byte_source) option" where
  "read_server_event_without_deadline x y s =
     map_option (\<lambda>(r, s). (ebind r (decode_server_event x y), s)) (read_payload_without_deadline s)"

section \<open>Writing\<close>

text \<open>The socket takes the bytes in time, or too slowly, or fails.\<close>

datatype write_outcome = WriteTaken | WriteSlow | WriteFailed string

definition write_frame :: "string \<Rightarrow> write_outcome \<Rightarrow> protocol_failure + string" where
  "write_frame payload outcome =
     (if payload = [] then Inl (failure ZeroLengthFrame ''zero-length frames are forbidden'')
      else if MAX_FRAME_BYTES < length payload
      then Inl (failure FrameTooLarge (''frame length '' @ show_nat (length payload) @ '' exceeds 1048576''))
      else case outcome of
        WriteTaken \<Rightarrow> Inr (to_be_bytes (word_of_nat (length payload)) @ payload)
      | WriteSlow \<Rightarrow> Inl (failure WriteTimeout ''frame write deadline exceeded'')
      | WriteFailed m \<Rightarrow> Inl (failure IncompleteFrame (''failed to write frame: '' @ m)))"

definition write_client_request :: "wire \<Rightarrow> client_request \<Rightarrow> write_outcome \<Rightarrow> protocol_failure + string" where
  "write_client_request y r outcome = write_frame (write_client_json y r) outcome"

definition write_server_event :: "wire \<Rightarrow> server_event \<Rightarrow> write_outcome \<Rightarrow> protocol_failure + string" where
  "write_server_event y r outcome = write_frame (write_server_json y r) outcome"

section \<open>Lengths survive the trip\<close>

lemma byte_less: "(of_char (c :: char) :: nat) < 256"
  by (metis char_of_eq_iff of_char_mod_256 mod_less_divisor zero_less_numeral)

lemma unat_lt2p: "unat (w :: 32 word) < 2 ^ 32"
  using unsigned_less[of w] by simp

lemma unat_push_byte:
  assumes "unat w < 2 ^ 24"
  shows "unat (push_byte w c) = unat w * 256 + of_char c"
proof -
  let ?b = "of_char c :: nat"
  have low: "\<not> bit (word_of_nat ?b :: 32 word) n" if "8 \<le> n" for n
  proof -
    have "take_bit 8 ?b = ?b" using byte_less[of c] by (simp add: take_bit_nat_eq_self)
    then have "\<not> bit ?b n" using that by (metis bit_take_bit_iff not_less)
    then show ?thesis by (simp add: bit_simps)
  qed
  have "push_bit 8 w AND word_of_nat ?b = 0"
    using low by (intro bit_word_eqI) (auto simp: bit_simps)
  then have sum: "push_byte w c = push_bit 8 w + word_of_nat ?b"
    using word_plus_and_or[of "push_bit 8 w" "word_of_nat ?b :: 32 word"] by (simp add: push_byte_def)
  have "push_bit 8 w = word_of_nat (unat w * 256)"
    by (simp add: push_bit_eq_mult)
  then have "push_byte w c = word_of_nat (unat w * 256 + ?b)" using sum by simp
  moreover have "unat w < 16777216" using assms by simp
  then have "unat w * 256 + ?b < 4294967296" using byte_less[of c] by linarith
  ultimately show ?thesis by (simp add: unat_of_nat del: of_nat_add of_nat_mult)
qed

lemma from_be_bytes_value:
  "unat (from_be_bytes [a, b, c, d]) =
     ((of_char a * 256 + of_char b) * 256 + of_char c) * 256 + (of_char d :: nat)"
proof -
  have 1: "unat (push_byte 0 a) = of_char a" using unat_push_byte[of 0 a] by simp
  have 2: "unat (push_byte (push_byte 0 a) b) = of_char a * 256 + of_char b"
    using unat_push_byte[of "push_byte 0 a" b] 1 byte_less[of a] by simp
  have 3: "unat (push_byte (push_byte (push_byte 0 a) b) c) = (of_char a * 256 + of_char b) * 256 + of_char c"
    using unat_push_byte[of "push_byte (push_byte 0 a) b" c] 2 byte_less[of a] byte_less[of b] by simp
  show ?thesis
    using unat_push_byte[of "push_byte (push_byte (push_byte 0 a) b) c" d] 3
      byte_less[of a] byte_less[of b] byte_less[of c]
    by (simp add: from_be_bytes_def)
qed

lemma unat_drop_bit: "unat (drop_bit k (w :: 32 word)) = unat w div 2 ^ k"
  using unat_lt2p[of w]
  by (subst unsigned_drop_bit_eq) (simp add: drop_bit_eq_div take_bit_nat_eq_self)

lemma be_digits:
  assumes "n < 2 ^ 32"
  shows "((n div 2 ^ 24 mod 256 * 256 + n div 2 ^ 16 mod 256) * 256 + n div 2 ^ 8 mod 256) * 256 + n mod 256 = (n :: nat)"
proof -
  have "n div 2 ^ 24 < 256" using assms by (simp add: less_mult_imp_div_less)
  moreover have "n div 2 ^ 24 = n div 2 ^ 8 div 256 div 256" "n div 2 ^ 16 = n div 2 ^ 8 div 256"
    by (simp_all add: div_mult2_eq[symmetric])
  moreover have "m div 256 * 256 + m mod 256 = m" for m :: nat by (rule div_mult_mod_eq)
  ultimately show ?thesis by (simp only: mod_less) simp
qed

lemma be_digits_unique:
  assumes "a < 256" "b < 256" "c < 256" "d < (256 :: nat)"
  shows "(((a * 256 + b) * 256 + c) * 256 + d) div 2 ^ 24 mod 256 = a"
    "(((a * 256 + b) * 256 + c) * 256 + d) div 2 ^ 16 mod 256 = b"
    "(((a * 256 + b) * 256 + c) * 256 + d) div 2 ^ 8 mod 256 = c"
    "(((a * 256 + b) * 256 + c) * 256 + d) mod 256 = d"
proof -
  have step: "(m * 256 + k) div 256 = m" if "k < 256" for m k :: nat using that by simp
  have 1: "(((a * 256 + b) * 256 + c) * 256 + d) div 2 ^ 8 = (a * 256 + b) * 256 + c"
    using step[OF assms(4), of "(a * 256 + b) * 256 + c"] by simp
  have 2: "n div 2 ^ 16 = n div 2 ^ 8 div 2 ^ 8" "n div 2 ^ 24 = n div 2 ^ 8 div 2 ^ 8 div 2 ^ 8" for n :: nat
    by (simp_all add: div_mult2_eq[symmetric])
  have 3: "((a * 256 + b) * 256 + c) div 2 ^ 8 = a * 256 + b" "(a * 256 + b) div 2 ^ 8 = a"
    using step[OF assms(3), of "a * 256 + b"] step[OF assms(2), of a] by simp_all
  have rest: "(m * 256 + k) mod 256 = k" if "k < 256" for m k :: nat using that by simp
  show "(((a * 256 + b) * 256 + c) * 256 + d) div 2 ^ 24 mod 256 = a"
    "(((a * 256 + b) * 256 + c) * 256 + d) div 2 ^ 16 mod 256 = b"
    "(((a * 256 + b) * 256 + c) * 256 + d) div 2 ^ 8 mod 256 = c"
    "(((a * 256 + b) * 256 + c) * 256 + d) mod 256 = d"
    by (simp_all only: 1 2 3 rest assms mod_less)
qed

lemma from_to_be_bytes: "from_be_bytes (to_be_bytes w) = w"
proof -
  have "unat (from_be_bytes (to_be_bytes w)) = unat w"
    using be_digits[of "unat w"] unat_lt2p[of w]
    by (simp add: to_be_bytes_def from_be_bytes_value unat_drop_bit)
  then show ?thesis by (simp add: word_unat_eq_iff)
qed

lemma to_from_be_bytes:
  assumes "length cs = 4"
  shows "to_be_bytes (from_be_bytes cs) = cs"
proof -
  obtain a b c d where cs: "cs = [a, b, c, d]"
    using assms by (auto simp: length_Suc_conv numeral_eq_Suc)
  have "char_of n = c" if "n mod 256 = of_char c" for n :: nat and c
    using that by (simp add: char_of_eq_iff take_bit_eq_mod)
  note this[OF be_digits_unique(1)[OF byte_less byte_less byte_less byte_less]]
    this[OF be_digits_unique(2)[OF byte_less byte_less byte_less byte_less]]
    this[OF be_digits_unique(3)[OF byte_less byte_less byte_less byte_less]]
    this[OF be_digits_unique(4)[OF byte_less byte_less byte_less byte_less]]
  then show ?thesis
    by (simp only: cs to_be_bytes_def unat_drop_bit from_be_bytes_value list.map power_0 div_by_1)
qed

section \<open>Frames survive the trip\<close>

definition waits :: "(nat \<times> char) list \<Rightarrow> nat" where
  "waits bs = sum_list (map fst bs)"

lemma read_exact_ok:
  assumes "waits bs \<le> b" and "n = length bs"
  shows "read_exact n (Some b) (s\<lparr>bs_bytes := bs @ rest\<rparr>) acc =
     (ReadOk (rev acc @ map snd bs), s\<lparr>bs_bytes := rest\<rparr>)"
  using assms
proof (induction bs arbitrary: b n s acc)
  case (Cons p bs)
  obtain w c where p: "p = (w, c)" by (cases p)
  have "read_exact (length bs) (Some (b - w)) (s\<lparr>bs_bytes := bs @ rest\<rparr>) (c # acc) =
      (ReadOk (rev (c # acc) @ map snd bs), s\<lparr>bs_bytes := rest\<rparr>)"
    using Cons.prems by (intro Cons.IH) (auto simp: waits_def p)
  then show ?case using Cons.prems by (simp add: p waits_def in_time_def less_wait_def)
qed simp

lemma read_exact_reads:
  assumes "read_exact n budget s acc = (ReadOk out, s')"
  shows "\<exists>bs. length bs = n \<and> bs_bytes s = bs @ bs_bytes s' \<and> out = rev acc @ map snd bs
    \<and> s' = s\<lparr>bs_bytes := bs_bytes s'\<rparr> \<and> in_time budget (waits bs)"
  using assms
proof (induction n budget s acc rule: read_exact.induct)
  case (2 n budget s acc)
  show ?case
  proof (cases "bs_bytes s")
    case Nil
    then show ?thesis using 2(2) by (auto split: option.splits if_splits)
  next
    case (Cons p rest)
    obtain w c where p: "p = (w, c)" by (cases p)
    have t: "in_time budget w" using 2(2) Cons p by (auto split: if_splits)
    then have "read_exact n (less_wait budget w) (s\<lparr>bs_bytes := rest\<rparr>) (c # acc) = (ReadOk out, s')"
      using 2(2) Cons p by simp
    from 2(1)[OF Cons p[symmetric] t this] obtain bs where
      bs: "length bs = n" "rest = bs @ bs_bytes s'" "out = rev (c # acc) @ map snd bs"
        "s' = s\<lparr>bs_bytes := bs_bytes s'\<rparr>" "in_time (less_wait budget w) (waits bs)" by auto
    have "in_time budget (waits ((w, c) # bs))"
      using t bs(5) by (cases budget) (auto simp: in_time_def less_wait_def waits_def)
    then show ?thesis using Cons p bs by (intro exI[of _ "(w, c) # bs"]) simp
  qed
qed (auto simp: in_time_def waits_def split: option.split)

lemma validate_own_length:
  assumes "payload \<noteq> []" and "length payload \<le> MAX_FRAME_BYTES"
  shows "validate_frame_length (to_be_bytes (word_of_nat (length payload))) = Inr (length payload)"
proof -
  have "length payload < 2 ^ 32" using assms(2) by (simp add: MAX_FRAME_BYTES_def)
  then have "unat (word_of_nat (length payload) :: 32 word) = length payload" by (simp add: unat_of_nat)
  then show ?thesis using assms by (simp add: validate_frame_length_def from_to_be_bytes)
qed

lemma write_frame_Inr:
  "write_frame payload outcome = Inr frame \<longleftrightarrow>
     payload \<noteq> [] \<and> length payload \<le> MAX_FRAME_BYTES \<and> outcome = WriteTaken
       \<and> frame = to_be_bytes (word_of_nat (length payload)) @ payload"
  by (auto simp: write_frame_def split: write_outcome.splits)

lemma length_header [simp]: "length (to_be_bytes w) = 4"
  by (simp add: to_be_bytes_def)

lemma read_written:
  assumes frame: "write_frame payload WriteTaken = Inr (map snd bs)"
    and header: "waits (take 4 bs) \<le> FRAME_HEADER_TIMEOUT" and body: "waits (drop 4 bs) \<le> FRAME_BODY_TIMEOUT"
  shows "read_payload (s\<lparr>bs_bytes := bs @ rest\<rparr>) = (Inr payload, s\<lparr>bs_bytes := rest\<rparr>)"
proof -
  have p: "payload \<noteq> []" "length payload \<le> MAX_FRAME_BYTES"
    and b: "map snd bs = to_be_bytes (word_of_nat (length payload)) @ payload"
    using frame by (auto simp: write_frame_Inr)
  have len: "length bs = 4 + length payload" using arg_cong[OF b, of length] by simp
  have t: "map snd (take 4 bs) = to_be_bytes (word_of_nat (length payload))" "map snd (drop 4 bs) = payload"
    by (simp_all add: b flip: take_map drop_map)
  have "read_exact 4 (Some FRAME_HEADER_TIMEOUT) (s\<lparr>bs_bytes := take 4 bs @ drop 4 bs @ rest\<rparr>) [] =
      (ReadOk (to_be_bytes (word_of_nat (length payload))), s\<lparr>bs_bytes := drop 4 bs @ rest\<rparr>)"
    using read_exact_ok[OF header, where n = 4 and s = s and rest = "drop 4 bs @ rest" and acc = "[]"] len t by simp
  then have 1: "read_exact 4 (Some FRAME_HEADER_TIMEOUT) (s\<lparr>bs_bytes := bs @ rest\<rparr>) [] =
      (ReadOk (to_be_bytes (word_of_nat (length payload))), s\<lparr>bs_bytes := drop 4 bs @ rest\<rparr>)"
    by (simp only: append_assoc[symmetric] append_take_drop_id)
  have 2: "read_exact (length payload) (Some FRAME_BODY_TIMEOUT) (s\<lparr>bs_bytes := drop 4 bs @ rest\<rparr>) [] =
      (ReadOk payload, s\<lparr>bs_bytes := rest\<rparr>)"
    using read_exact_ok[OF body, where n = "length payload" and s = s and rest = rest and acc = "[]"] len t by simp
  show ?thesis unfolding read_payload_def 1 by (simp add: validate_own_length[OF p] 2)
qed

lemma read_payload_reads:
  assumes "read_payload s = (Inr payload, s')"
  shows "\<exists>bs. bs_bytes s = bs @ bs_bytes s' \<and> s' = s\<lparr>bs_bytes := bs_bytes s'\<rparr>
    \<and> write_frame payload WriteTaken = Inr (map snd bs)
    \<and> waits (take 4 bs) \<le> FRAME_HEADER_TIMEOUT \<and> waits (drop 4 bs) \<le> FRAME_BODY_TIMEOUT"
proof -
  obtain header s1 where h: "read_exact 4 (Some FRAME_HEADER_TIMEOUT) s [] = (ReadOk header, s1)"
    using assms by (auto simp: read_payload_def split: prod.splits read_result.splits)
  obtain n where n: "validate_frame_length header = Inr n"
    using assms h by (auto simp: read_payload_def split: sum.splits)
  have b: "read_exact n (Some FRAME_BODY_TIMEOUT) s1 [] = (ReadOk payload, s')"
    using assms h n by (auto simp: read_payload_def split: prod.splits read_result.splits)
  obtain hs where hs: "length hs = 4" "bs_bytes s = hs @ bs_bytes s1" "header = map snd hs"
      "s1 = s\<lparr>bs_bytes := bs_bytes s1\<rparr>" "waits hs \<le> FRAME_HEADER_TIMEOUT"
    using read_exact_reads[OF h] by (auto simp: in_time_def)
  obtain ps where ps: "length ps = n" "bs_bytes s1 = ps @ bs_bytes s'" "payload = map snd ps"
      "s' = s1\<lparr>bs_bytes := bs_bytes s'\<rparr>" "waits ps \<le> FRAME_BODY_TIMEOUT"
    using read_exact_reads[OF b] by (auto simp: in_time_def)
  have v: "n \<noteq> 0" "n \<le> MAX_FRAME_BYTES" "unat (from_be_bytes header) = n"
    using n by (auto simp: validate_frame_length_def Let_def split: if_splits)
  have "to_be_bytes (word_of_nat n) = header"
    using to_from_be_bytes[of header] hs(1,3) v(3)[symmetric] by simp
  then have "write_frame payload WriteTaken = Inr (map snd (hs @ ps))"
    using v hs ps by (auto simp: write_frame_Inr)
  moreover have "s' = s\<lparr>bs_bytes := bs_bytes s'\<rparr>"
    using hs(4) ps(4) by (metis byte_source.surjective byte_source.update_convs(1))
  ultimately show ?thesis using hs ps by (intro exI[of _ "hs @ ps"]) simp
qed

text \<open>
  C22. The reader returns a payload exactly when the bytes that arrive, its header within five
  seconds and its body within thirty, are the frame the writer makes of that payload, and it leaves
  the bytes after the frame untouched: frames of a stream are read back one by one, and no payload
  is empty, longer than a mebibyte or assembled from anything but its own frame.
\<close>

theorem frames_read_back:
  "read_payload s = (Inr payload, s') \<longleftrightarrow>
     (\<exists>bs rest. bs_bytes s = bs @ rest \<and> s' = s\<lparr>bs_bytes := rest\<rparr>
       \<and> write_frame payload WriteTaken = Inr (map snd bs)
       \<and> waits (take 4 bs) \<le> FRAME_HEADER_TIMEOUT \<and> waits (drop 4 bs) \<le> FRAME_BODY_TIMEOUT)"
proof
  assume "read_payload s = (Inr payload, s')"
  then show "\<exists>bs rest. bs_bytes s = bs @ rest \<and> s' = s\<lparr>bs_bytes := rest\<rparr>
      \<and> write_frame payload WriteTaken = Inr (map snd bs)
      \<and> waits (take 4 bs) \<le> FRAME_HEADER_TIMEOUT \<and> waits (drop 4 bs) \<le> FRAME_BODY_TIMEOUT"
    using read_payload_reads by blast
next
  assume "\<exists>bs rest. bs_bytes s = bs @ rest \<and> s' = s\<lparr>bs_bytes := rest\<rparr>
      \<and> write_frame payload WriteTaken = Inr (map snd bs)
      \<and> waits (take 4 bs) \<le> FRAME_HEADER_TIMEOUT \<and> waits (drop 4 bs) \<le> FRAME_BODY_TIMEOUT"
  then obtain bs rest where r: "bs_bytes s = bs @ rest" "s' = s\<lparr>bs_bytes := rest\<rparr>"
    and w: "write_frame payload WriteTaken = Inr (map snd bs)"
      "waits (take 4 bs) \<le> FRAME_HEADER_TIMEOUT" "waits (drop 4 bs) \<le> FRAME_BODY_TIMEOUT" by auto
  have "s\<lparr>bs_bytes := bs @ rest\<rparr> = s" by (simp flip: r(1))
  then show "read_payload s = (Inr payload, s')" using read_written[OF w, where s = s and rest = rest] r(2) by simp
qed

end
