(* ===== verification/Final_Bundle.thy ===== *)
theory Final_Bundle
  imports Ipc_Protocol Bundles
begin

text \<open>
  \<open>runtime/ipc/protocol.rs\<close>, \<open>prepare_bundle\<close> and \<open>PreparedBundle::events\<close>: how a result bundle is
  encoded for the local socket, as a manifest, the bytes of its deliveries in chunks of at most
  192 KiB of base64, and an end that carries the hash of the manifest.
\<close>

section \<open>Chunks\<close>

text \<open>\<open>slice::chunks\<close>.\<close>

function byte_chunks :: "nat \<Rightarrow> 'a list \<Rightarrow> 'a list list" where
  "byte_chunks n xs = (if xs = [] \<or> n = 0 then [] else take n xs # byte_chunks n (drop n xs))"
  by auto
termination by (relation "measure (\<lambda>(n, xs). length xs)") auto

declare byte_chunks.simps [simp del]

lemma byte_chunks_Nil [simp]: "byte_chunks n [] = []"
  by (simp add: byte_chunks.simps)

lemma concat_byte_chunks: "0 < n \<Longrightarrow> concat (byte_chunks n xs) = xs"
  by (induction n xs rule: byte_chunks.induct) (subst byte_chunks.simps, auto)

lemma length_byte_chunks: "0 < n \<Longrightarrow> length (byte_chunks n xs) = div_ceil (length xs) n"
proof (induction n xs rule: byte_chunks.induct)
  case (1 n xs)
  show ?case
  proof (cases "xs = []")
    case True
    then show ?thesis using 1(2) by (simp add: div_ceil_def)
  next
    case False
    have ih: "length (byte_chunks n (drop n xs)) = div_ceil (length xs - n) n" using 1 False by simp
    have "Suc (div_ceil (length xs - n) n) = div_ceil (length xs) n"
    proof (cases "n \<le> length xs")
      case True
      have "length xs + n - 1 = (length xs - n + n - 1) + n" using True 1(2) by simp
      then show ?thesis using 1(2) unfolding div_ceil_def by (simp only: div_add_self2)
    next
      case short: False
      have "(length xs + n - 1) div n = 1"
        using short False by (intro div_nat_eqI) (cases xs; simp)+
      then show ?thesis using short 1(2) by (simp add: div_ceil_def)
    qed
    then show ?thesis using ih False 1(2) by (subst byte_chunks.simps) simp
  qed
qed

text \<open>Appending to whole chunks starts a new one.\<close>

lemma byte_chunks_append:
  assumes "0 < n" and "n dvd length xs" and "0 < length ys" and "length ys \<le> n"
  shows "byte_chunks n (xs @ ys) = byte_chunks n xs @ [ys]"
  using assms
proof (induction n xs rule: byte_chunks.induct)
  case (1 n xs)
  show ?case
  proof (cases "xs = []")
    case True
    then show ?thesis using 1(2-5) by (subst byte_chunks.simps) (cases ys; simp)
  next
    case False
    then have le: "n \<le> length xs" using 1(3) by (simp add: dvd_imp_le)
    have "n dvd length (drop n xs)" using 1(3) le by (simp add: dvd_minus_self)
    then have "byte_chunks n (drop n xs @ ys) = byte_chunks n (drop n xs) @ [ys]"
      using 1 False by simp
    then show ?thesis
      using False 1(2) le by (subst (1 2) byte_chunks.simps) simp
  qed
qed

section \<open>Limits\<close>

datatype bundle_limit_error =
    DeliveryCount nat nat | TextBytes nat nat | DecodedBundleBytes nat nat | ManifestBytes nat nat
  | EncodedFrameBytes nat nat | PayloadEncoding string

fun show_limit_error :: "bundle_limit_error \<Rightarrow> string" where
  "show_limit_error (DeliveryCount n m) = ''bundle has '' @ show_nat n @ '' deliveries; maximum is '' @ show_nat m"
| "show_limit_error (TextBytes n m) = ''text has '' @ show_nat n @ '' UTF-8 bytes; maximum is '' @ show_nat m"
| "show_limit_error (DecodedBundleBytes n m) =
     ''bundle has '' @ show_nat n @ '' decoded canonical bytes; maximum is '' @ show_nat m"
| "show_limit_error (ManifestBytes n m) = ''manifest has '' @ show_nat n @ '' bytes; maximum is '' @ show_nat m"
| "show_limit_error (EncodedFrameBytes n m) = ''encoded frame has '' @ show_nat n @ '' bytes; maximum is '' @ show_nat m"
| "show_limit_error (PayloadEncoding m) = m"

section \<open>Preparing a bundle\<close>

record encoded_delivery =
  ed_id :: delivery_id
  ed_bytes :: string
  ed_entry :: manifest_entry

record prepared_bundle =
  pp_request :: request_id
  pp_bundle :: bundle_id
  pp_replay :: bool
  pp_manifest :: "manifest_entry list"
  pp_sha256 :: string
  pp_deliveries :: "encoded_delivery list"

definition chunk_event :: "wire \<Rightarrow> request_id \<Rightarrow> bundle_id \<Rightarrow> delivery_id \<Rightarrow> nat \<times> string \<Rightarrow> server_event" where
  "chunk_event y q b d = (\<lambda>(i, bytes). server_event_new (SvFinalChunk q b d i (base64_encode y bytes)))"

definition delivery_chunks :: "wire \<Rightarrow> request_id \<Rightarrow> bundle_id \<Rightarrow> delivery_id \<Rightarrow> string \<Rightarrow> server_event list" where
  "delivery_chunks y q b d bytes =
     (let cs = byte_chunks MAX_FINAL_CHUNK_BYTES bytes in map (chunk_event y q b d) (zip [0..<length cs] cs))"

definition bundle_events :: "wire \<Rightarrow> prepared_bundle \<Rightarrow> server_event list" where
  "bundle_events y p =
     server_event_new (SvFinalBegin (pp_request p) (pp_bundle p) (pp_replay p) (pp_manifest p))
     # concat (map (\<lambda>d. delivery_chunks y (pp_request p) (pp_bundle p) (ed_id d) (ed_bytes d)) (pp_deliveries p))
     @ [server_event_new (SvFinalEnd (pp_request p) (pp_bundle p) (pp_sha256 p))]"

definition encode_sized ::
    "ext \<Rightarrow> delivery_id \<Rightarrow> final_payload \<Rightarrow> nat \<Rightarrow> encoded_delivery list
      \<Rightarrow> bundle_limit_error + (nat \<times> encoded_delivery list)" where
  "encode_sized x d payload bytes_so_far encoded =
     (let bytes = write_final x payload; bytes_so_far' = bytes_so_far + length bytes in
      if usize_max < bytes_so_far' then Inl (DecodedBundleBytes usize_max MAX_BUNDLE_BYTES)
      else if MAX_BUNDLE_BYTES < bytes_so_far' then Inl (DecodedBundleBytes bytes_so_far' MAX_BUNDLE_BYTES)
      else Inr (bytes_so_far', encoded @ [\<lparr>ed_id = d, ed_bytes = bytes, ed_entry =
        \<lparr>me_delivery = d, me_kind = payload_kind payload, me_bytes = length bytes,
         me_sha256 = sha256_hex x bytes, me_chunks = div_ceil (length bytes) MAX_FINAL_CHUNK_BYTES\<rparr>\<rparr>]))"

definition encode_delivery ::
    "ext \<Rightarrow> delivery_id \<times> final_payload \<Rightarrow> nat \<times> encoded_delivery list
      \<Rightarrow> bundle_limit_error + (nat \<times> encoded_delivery list)" where
  "encode_delivery x = (\<lambda>(d, payload) (bytes_so_far, encoded).
     case payload of
       FpText t \<Rightarrow> (if MAX_BUNDLE_BYTES < utf8_len t then Inl (TextBytes (utf8_len t) MAX_BUNDLE_BYTES)
                   else encode_sized x d payload bytes_so_far encoded)
     | _ \<Rightarrow> encode_sized x d payload bytes_so_far encoded)"

definition frame_in_limit :: "wire \<Rightarrow> server_event \<Rightarrow> bundle_limit_error + unit" where
  "frame_in_limit y frame =
     (let n = length (write_server_json y frame) in
      require (n < MAX_FRAME_BYTES) (EncodedFrameBytes n (MAX_FRAME_BYTES - 1)))"

definition prepare_bundle :: "ext \<Rightarrow> wire \<Rightarrow> result_bundle \<Rightarrow> bool \<Rightarrow> bundle_limit_error + prepared_bundle" where
  "prepare_bundle x y bundle replay =
     (let count = length (bu_deliveries bundle) in
      if count = 0 \<or> MAX_BUNDLE_DELIVERIES < count then Inl (DeliveryCount count MAX_BUNDLE_DELIVERIES)
      else ebind (efold (encode_delivery x) (bu_deliveries bundle) (0, [])) (\<lambda>(_, encoded).
        let manifest = map ed_entry encoded; canonical = write_manifest x manifest in
        if MAX_MANIFEST_BYTES < length canonical then Inl (ManifestBytes (length canonical) MAX_MANIFEST_BYTES)
        else
          let p = \<lparr>pp_request = bu_request bundle, pp_bundle = bu_id bundle, pp_replay = replay,
                   pp_manifest = manifest, pp_sha256 = sha256_hex x canonical, pp_deliveries = encoded\<rparr> in
          ebind (efold (\<lambda>frame _. frame_in_limit y frame) (bundle_events y p) ()) (\<lambda>_. Inr p)))"

definition encode_bundle :: "ext \<Rightarrow> wire \<Rightarrow> result_bundle \<Rightarrow> bool \<Rightarrow> bundle_limit_error + server_event list" where
  "encode_bundle x y bundle replay = ebind (prepare_bundle x y bundle replay) (\<lambda>p. Inr (bundle_events y p))"

section \<open>What a prepared bundle holds\<close>

definition encoded_of :: "ext \<Rightarrow> delivery_id \<times> final_payload \<Rightarrow> encoded_delivery" where
  "encoded_of x p = \<lparr>ed_id = fst p, ed_bytes = write_final x (snd p), ed_entry = manifest_entry_for x p\<rparr>"

lemma encode_sized_Inr:
  "encode_sized x d payload bytes_so_far encoded = Inr r \<longleftrightarrow>
     bytes_so_far + length (write_final x payload) \<le> MAX_BUNDLE_BYTES
     \<and> r = (bytes_so_far + length (write_final x payload), encoded @ [encoded_of x (d, payload)])"
proof -
  have "MAX_BUNDLE_BYTES \<le> usize_max" by (simp add: MAX_BUNDLE_BYTES_def usize_max_def)
  then show ?thesis
    by (auto simp: encode_sized_def encoded_of_def manifest_entry_for_def Let_def)
qed

lemma encode_delivery_Inr:
  assumes "encode_delivery x p s = Inr r"
  shows "fst s + length (write_final x (snd p)) \<le> MAX_BUNDLE_BYTES
    \<and> r = (fst s + length (write_final x (snd p)), snd s @ [encoded_of x p])"
  using assms
  by (cases p; cases s; cases "snd p") (auto simp: encode_delivery_def encode_sized_Inr split: if_splits)

lemma encode_all:
  assumes "efold (encode_delivery x) ds s = Inr r" and "fst s \<le> MAX_BUNDLE_BYTES"
  shows "snd r = snd s @ map (encoded_of x) ds \<and> fst r \<le> MAX_BUNDLE_BYTES
    \<and> fst r = fst s + sum_list (map (\<lambda>p. length (write_final x (snd p))) ds)"
  using assms
proof (induction ds arbitrary: s)
  case (Cons p ds)
  obtain s' where s': "encode_delivery x p s = Inr s'" "efold (encode_delivery x) ds s' = Inr r"
    using Cons.prems(1) by (auto simp: ebind_eq_Inr)
  from encode_delivery_Inr[OF s'(1)] Cons.IH[OF s'(2)] show ?case by auto
qed auto

lemma prepared_bundle_shape:
  assumes "prepare_bundle x y bundle replay = Inr p"
  shows "pp_request p = bu_request bundle" "pp_bundle p = bu_id bundle" "pp_replay p = replay"
    "pp_deliveries p = map (encoded_of x) (bu_deliveries bundle)"
    "pp_manifest p = map (manifest_entry_for x) (bu_deliveries bundle)"
    "pp_sha256 p = sha256_hex x (write_manifest x (pp_manifest p))"
    "bu_deliveries bundle \<noteq> []" "length (bu_deliveries bundle) \<le> MAX_BUNDLE_DELIVERIES"
    "length (write_manifest x (pp_manifest p)) \<le> MAX_MANIFEST_BYTES"
    "sum_list (map (\<lambda>p. length (write_final x (snd p))) (bu_deliveries bundle)) \<le> MAX_BUNDLE_BYTES"
    "\<forall>e \<in> set (bundle_events y p). length (write_server_json y e) < MAX_FRAME_BYTES"
proof -
  have count: "bu_deliveries bundle \<noteq> []" "length (bu_deliveries bundle) \<le> MAX_BUNDLE_DELIVERIES"
    using assms by (auto simp: prepare_bundle_def Let_def split: if_splits)
  obtain bytes_so_far encoded where fold: "efold (encode_delivery x) (bu_deliveries bundle) (0, []) = Inr (bytes_so_far, encoded)"
    using assms count by (auto simp: prepare_bundle_def Let_def ebind_eq_Inr split: if_splits)
  note all = encode_all[OF fold, simplified]
  have entries: "map ed_entry (map (encoded_of x) ds) = map (manifest_entry_for x) ds" for ds
    by (simp add: encoded_of_def)
  have limit: "length (write_manifest x (map (manifest_entry_for x) (bu_deliveries bundle))) \<le> MAX_MANIFEST_BYTES"
    using assms count fold all
    by (auto simp: prepare_bundle_def Let_def ebind_eq_Inr encoded_of_def comp_def split: if_splits)
  have p: "p = \<lparr>pp_request = bu_request bundle, pp_bundle = bu_id bundle, pp_replay = replay,
      pp_manifest = map (manifest_entry_for x) (bu_deliveries bundle),
      pp_sha256 = sha256_hex x (write_manifest x (map (manifest_entry_for x) (bu_deliveries bundle))),
      pp_deliveries = map (encoded_of x) (bu_deliveries bundle)\<rparr>"
    and frames: "efold (\<lambda>frame _. frame_in_limit y frame) (bundle_events y p) () = Inr ()"
    using assms count fold all
    by (auto simp: prepare_bundle_def Let_def ebind_eq_Inr encoded_of_def comp_def split: if_splits)
  show "pp_request p = bu_request bundle" "pp_bundle p = bu_id bundle" "pp_replay p = replay"
    "pp_deliveries p = map (encoded_of x) (bu_deliveries bundle)"
    "pp_manifest p = map (manifest_entry_for x) (bu_deliveries bundle)"
    "pp_sha256 p = sha256_hex x (write_manifest x (pp_manifest p))"
    "bu_deliveries bundle \<noteq> []" "length (bu_deliveries bundle) \<le> MAX_BUNDLE_DELIVERIES"
    "length (write_manifest x (pp_manifest p)) \<le> MAX_MANIFEST_BYTES"
    using count limit by (simp_all add: p)
  show "sum_list (map (\<lambda>p. length (write_final x (snd p))) (bu_deliveries bundle)) \<le> MAX_BUNDLE_BYTES"
    using all by simp
  show "\<forall>e \<in> set (bundle_events y p). length (write_server_json y e) < MAX_FRAME_BYTES"
    using frames by (simp add: efold_unit_checks frame_in_limit_def Let_def)
qed

end
