(* ===== verification/Final_Payload.thy ===== *)
theory Final_Payload
  imports Final_Bundle
begin

text \<open>
  \<open>interfaces/local_renderer.rs\<close>, the validation of a payload that arrived: \<open>parse_payload\<close>, the
  checks of a file's artifact and \<open>visit_json_string\<close>, which decodes a JSON string without building
  it. The borrowed reading of the object's fields as raw JSON is serde's and a parameter.
\<close>

section \<open>Hexadecimal escapes and UTF-8\<close>

definition hex_digit :: "char \<Rightarrow> nat option" where
  "hex_digit c =
     (let n = of_char c in
      if 48 \<le> n \<and> n \<le> 57 then Some (n - 48)
      else if 97 \<le> n \<and> n \<le> 102 then Some (n - 97 + 10)
      else if 65 \<le> n \<and> n \<le> 70 then Some (n - 65 + 10) else None)"

definition push_hex :: "char \<Rightarrow> nat \<Rightarrow> error + nat" where
  "push_hex d v = (case hex_digit d of Some k \<Rightarrow> Inr (v * 16 + k) | None \<Rightarrow> Inl (Bail ''invalid Unicode escape''))"

definition parse_hex_escape :: "string \<Rightarrow> nat \<Rightarrow> error + (nat \<times> nat)" where
  "parse_hex_escape bytes start =
     (if length bytes < start + 4 then Inl (Bail ''incomplete Unicode escape'')
      else ebind (efold push_hex (take 4 (drop start bytes)) 0) (\<lambda>v. Inr (v, start + 4)))"

text \<open>\<open>char::from_u32\<close> and \<open>char::encode_utf8\<close>.\<close>

definition is_scalar :: "nat \<Rightarrow> bool" where
  "is_scalar n \<longleftrightarrow> n < 0xD800 \<or> 0xDFFF < n \<and> n \<le> 0x10FFFF"

definition encode_utf8 :: "nat \<Rightarrow> string" where
  "encode_utf8 n =
     (if n < 0x80 then [char_of n]
      else if n < 0x800 then [char_of (0xC0 + n div 64), char_of (0x80 + n mod 64)]
      else if n < 0x10000 then [char_of (0xE0 + n div 4096), char_of (0x80 + n div 64 mod 64), char_of (0x80 + n mod 64)]
      else [char_of (0xF0 + n div 262144), char_of (0x80 + n div 4096 mod 64), char_of (0x80 + n div 64 mod 64),
            char_of (0x80 + n mod 64)])"

definition high_surrogate :: "nat \<Rightarrow> bool" where "high_surrogate n \<longleftrightarrow> 0xD800 \<le> n \<and> n \<le> 0xDBFF"
definition low_surrogate :: "nat \<Rightarrow> bool" where "low_surrogate n \<longleftrightarrow> 0xDC00 \<le> n \<and> n \<le> 0xDFFF"

definition surrogate_pair :: "nat \<Rightarrow> nat \<Rightarrow> nat" where
  "surrogate_pair high low = 0x10000 + (high - 0xD800) * 1024 + (low - 0xDC00)"

definition scalar_text :: "nat \<Rightarrow> nat \<Rightarrow> error + (string \<times> nat)" where
  "scalar_text n next =
     (if is_scalar n then Inr (encode_utf8 n, next) else Inl (Bail ''invalid Unicode scalar''))"

definition unicode_escape :: "string \<Rightarrow> nat \<Rightarrow> error + (string \<times> nat)" where
  "unicode_escape bytes index =
     ebind (parse_hex_escape bytes index) (\<lambda>(scalar, next).
       if high_surrogate scalar
       then if take 2 (drop next bytes) \<noteq> [CHR 0x5C, CHR ''u'']
            then Inl (Bail ''high surrogate is missing its low surrogate'')
            else ebind (parse_hex_escape bytes (next + 2)) (\<lambda>(low, next).
              if \<not> low_surrogate low then Inl (Bail ''invalid low surrogate'')
              else scalar_text (surrogate_pair scalar low) next)
       else scalar_text scalar next)"

section \<open>Visiting a JSON string\<close>

definition short_escapes :: "(char \<times> char) list" where
  "short_escapes = [(CHR 0x22, CHR 0x22), (CHR 0x5C, CHR 0x5C), (CHR ''/'', CHR ''/''), (CHR ''b'', CHR 0x08),
     (CHR ''f'', CHR 0x0C), (CHR ''n'', CHR 0x0A), (CHR ''r'', CHR 0x0D), (CHR ''t'', CHR 0x09)]"

definition escape_value :: "string \<Rightarrow> char \<Rightarrow> nat \<Rightarrow> error + (string \<times> nat)" where
  "escape_value bytes e index =
     (case map_of short_escapes e of
        Some c \<Rightarrow> Inr ([c], index)
      | None \<Rightarrow> if e = CHR ''u'' then unicode_escape bytes index else Inl (Bail ''invalid JSON string escape''))"

lemma ebind_cong [fundef_cong]:
  "m = m' \<Longrightarrow> (\<And>v. m' = Inr v \<Longrightarrow> k v = k' v) \<Longrightarrow> ebind m k = ebind m' k'"
  by (cases m') simp_all

lemma parse_hex_escape_next: "parse_hex_escape bytes i = Inr (v, j) \<Longrightarrow> j = i + 4 \<and> j \<le> length bytes"
  by (auto simp: parse_hex_escape_def ebind_eq_Inr split: if_splits)

lemma escape_value_next: "escape_value bytes e i = Inr (d, j) \<Longrightarrow> i \<le> j"
  by (auto simp: escape_value_def unicode_escape_def scalar_text_def ebind_eq_Inr
      split: option.splits if_splits dest!: parse_hex_escape_next)

function visit_loop :: "string \<Rightarrow> (string \<Rightarrow> 's \<Rightarrow> error + 's) \<Rightarrow> nat \<Rightarrow> nat \<Rightarrow> 's \<Rightarrow> error + 's" where
  "visit_loop bytes decoded index plain_start s =
     (if length bytes \<le> index then decoded (drop plain_start bytes) s
      else if of_char (bytes ! index) < (0x20 :: nat) \<or> bytes ! index = CHR 0x22
      then Inl (Bail ''final payload string contains an unescaped control or quote'')
      else if bytes ! index \<noteq> CHR 0x5C then visit_loop bytes decoded (index + 1) plain_start s
      else ebind (decoded (take (index - plain_start) (drop plain_start bytes)) s) (\<lambda>s.
        if length bytes \<le> index + 1 then Inl (Bail ''incomplete JSON string escape'')
        else ebind (escape_value bytes (bytes ! (index + 1)) (index + 2)) (\<lambda>(d, next).
          ebind (decoded d s) (\<lambda>s. visit_loop bytes decoded next next s))))"
  by auto
termination
  by (relation "measure (\<lambda>(bytes, decoded, index, plain_start, s). length bytes - index)")
     (auto dest!: escape_value_next)

declare visit_loop.simps [simp del]

definition visit_json_string :: "string \<Rightarrow> (string \<Rightarrow> 's \<Rightarrow> error + 's) \<Rightarrow> 's \<Rightarrow> error + 's" where
  "visit_json_string value decoded s =
     (if length value < 2 \<or> hd value \<noteq> CHR 0x22 \<or> last value \<noteq> CHR 0x22
      then Inl (Bail ''final payload field must be a JSON string'')
      else visit_loop (butlast (tl value)) decoded 0 0 s)"

definition validate_json_string :: "string \<Rightarrow> error + unit" where
  "validate_json_string value = visit_json_string value (\<lambda>_ _. Inr ()) ()"

definition collect_small_json_string :: "string \<Rightarrow> nat \<Rightarrow> error + string" where
  "collect_small_json_string value limit =
     visit_json_string value (\<lambda>bytes decoded.
       if limit < length decoded + length bytes then Inl (Bail ''final payload identifier exceeds its size limit'')
       else Inr (decoded @ bytes)) []"

definition require_nonempty_json_string :: "string \<Rightarrow> string \<Rightarrow> error + unit" where
  "require_nonempty_json_string value field =
     ebind (visit_json_string value (\<lambda>bytes n. Inr (n + length bytes)) 0) (\<lambda>n.
       require (n \<noteq> 0) (Bail (''final artifact '' @ field @ '' must not be empty'')))"

section \<open>Payloads\<close>

record artifact_view =
  av_id :: string
  av_path :: string
  av_display_name :: string
  av_media_type :: string
  av_size :: nat
  av_sha256 :: string
  av_caption :: string

record payload_object =
  po_kind :: string
  po_text :: "string option"
  po_artifact :: "artifact_view option"
  po_code :: "string option"
  po_message :: "string option"

datatype payload_view = PvText string | PvFile artifact_view | PvTerminalError string string

record payload_reader =
  read_object :: "string \<Rightarrow> string + payload_object"
  read_final :: "string \<Rightarrow> string + final_payload"

definition parse_payload :: "payload_reader \<Rightarrow> string \<Rightarrow> error + payload_view" where
  "parse_payload z bytes =
     ebind (lift_read (read_object z bytes)) (\<lambda>p.
       if po_kind p = [CHR 0x22] @ ''text'' @ [CHR 0x22] \<and> po_artifact p = None \<and> po_code p = None \<and> po_message p = None
       then ebind (from_option (Bail ''final text payload is missing text'') (po_text p)) (\<lambda>t. Inr (PvText t))
       else if po_kind p = [CHR 0x22] @ ''file'' @ [CHR 0x22] \<and> po_text p = None \<and> po_code p = None \<and> po_message p = None
       then ebind (from_option (Bail ''final file payload is missing artifact'') (po_artifact p)) (\<lambda>a. Inr (PvFile a))
       else if po_kind p = [CHR 0x22] @ ''terminal_error'' @ [CHR 0x22] \<and> po_text p = None \<and> po_artifact p = None
       then ebind (from_option (Bail ''final terminal error payload is missing code'') (po_code p)) (\<lambda>c.
            ebind (from_option (Bail ''final terminal error payload is missing message'') (po_message p)) (\<lambda>m.
              Inr (PvTerminalError c m)))
       else Inl (Bail ''final payload fields or type are not canonical''))"

fun view_kind :: "payload_view \<Rightarrow> string" where
  "view_kind (PvText t) = ''text''"
| "view_kind (PvFile a) = ''file''"
| "view_kind (PvTerminalError c m) = ''terminal_error''"

definition visit_path :: "string \<Rightarrow> char option \<Rightarrow> error + char option" where
  "visit_path decoded path_first =
     (let path_first = (if path_first = None then (case decoded of [] \<Rightarrow> None | c # _ \<Rightarrow> Some c) else path_first) in
      if CHR 0x00 \<in> set decoded then Inl (Bail ''final artifact path contains NUL'') else Inr path_first)"

definition ascii_hexdigit :: "char \<Rightarrow> bool" where "ascii_hexdigit c \<longleftrightarrow> hex_digit c \<noteq> None"

definition validate_artifact_view :: "ext \<Rightarrow> wire \<Rightarrow> artifact_view \<Rightarrow> error + unit" where
  "validate_artifact_view x y a =
     ebind (collect_small_json_string (av_id a) 64) (\<lambda>i.
     ebind (from_option (Bail ''invalid utf-8'') (from_utf8 y i)) (\<lambda>i.
     ebind (from_option (Bail ''final artifact ID is not a UUID'') (parse_uuid x i)) (\<lambda>_.
     ebind (visit_json_string (av_path a) visit_path None) (\<lambda>path_first.
     ebind (require (path_first = Some (CHR ''/'')) (Bail ''final artifact managed path must be absolute'')) (\<lambda>_.
     ebind (require_nonempty_json_string (av_display_name a) ''display name'') (\<lambda>_.
     ebind (require_nonempty_json_string (av_media_type a) ''media type'') (\<lambda>_.
     ebind (collect_small_json_string (av_sha256 a) 64) (\<lambda>h.
     ebind (require (length h = 64 \<and> list_all ascii_hexdigit h)
              (Bail ''final artifact SHA-256 must be 64 hexadecimal characters'')) (\<lambda>_.
       if av_caption a \<noteq> ''null'' then validate_json_string (av_caption a) else Inr ())))))))))"

fun validate_view :: "ext \<Rightarrow> wire \<Rightarrow> payload_view \<Rightarrow> error + unit" where
  "validate_view x y (PvText t) = validate_json_string t"
| "validate_view x y (PvFile a) = validate_artifact_view x y a"
| "validate_view x y (PvTerminalError c m) = ebind (validate_json_string c) (\<lambda>_. validate_json_string m)"

section \<open>The grammar of JSON strings\<close>

text \<open>
  The reference: which texts between the quotes are a JSON string, and the bytes they denote, as
  RFC 8259 has it, with the surrogate pairs of RFC 8259 section 7 read as one scalar value.
\<close>

definition hex4 :: "string \<Rightarrow> nat \<Rightarrow> bool" where
  "hex4 h v \<longleftrightarrow> (\<exists>a b c d i j k l. h = [a, b, c, d] \<and> hex_digit a = Some i \<and> hex_digit b = Some j
     \<and> hex_digit c = Some k \<and> hex_digit d = Some l \<and> v = i * 4096 + j * 256 + k * 16 + l)"

inductive json_chars :: "string \<Rightarrow> string \<Rightarrow> bool" where
  jc_end: "json_chars [] []"
| jc_plain: "of_char c \<ge> (0x20 :: nat) \<Longrightarrow> c \<noteq> CHR 0x22 \<Longrightarrow> c \<noteq> CHR 0x5C \<Longrightarrow> json_chars r d
    \<Longrightarrow> json_chars (c # r) (c # d)"
| jc_short: "(e, v) \<in> set short_escapes \<Longrightarrow> json_chars r d \<Longrightarrow> json_chars (CHR 0x5C # e # r) (v # d)"
| jc_scalar: "hex4 h v \<Longrightarrow> is_scalar v \<Longrightarrow> json_chars r d
    \<Longrightarrow> json_chars (CHR 0x5C # CHR ''u'' # h @ r) (encode_utf8 v @ d)"
| jc_pair: "hex4 h v \<Longrightarrow> high_surrogate v \<Longrightarrow> hex4 h' v' \<Longrightarrow> low_surrogate v' \<Longrightarrow> json_chars r d
    \<Longrightarrow> json_chars (CHR 0x5C # CHR ''u'' # h @ CHR 0x5C # CHR ''u'' # h' @ r) (encode_utf8 (surrogate_pair v v') @ d)"

inductive_cases json_chars_ConsE: "json_chars (c # r) d"
inductive_simps json_chars_Nil: "json_chars [] d"

section \<open>The visitor decodes the grammar\<close>

lemma take4: "i + 4 \<le> length (bytes :: 'a list) \<Longrightarrow> \<exists>a b c d. drop i bytes = [a, b, c, d] @ drop (i + 4) bytes"
proof -
  assume "i + 4 \<le> length (bytes :: 'a list)"
  then have "length (take 4 (drop i bytes)) = 4" by simp
  moreover have "length xs = 4 \<Longrightarrow> \<exists>a b c d. xs = [a, b, c, d]" for xs :: "'a list"
    by (auto simp: length_Suc_conv numeral_eq_Suc)
  ultimately obtain a b c d where "take 4 (drop i bytes) = [a, b, c, d]" by blast
  moreover have "drop i bytes = take 4 (drop i bytes) @ drop (i + 4) bytes" by (metis append_take_drop_id drop_drop add.commute)
  ultimately show ?thesis by metis
qed

lemma hex4_length: "hex4 h v \<Longrightarrow> length h = 4"
  by (auto simp: hex4_def)

lemma push_hex_Inr: "push_hex d v = Inr w \<longleftrightarrow> (\<exists>k. hex_digit d = Some k \<and> w = v * 16 + k)"
  by (auto simp: push_hex_def split: option.splits)

lemma fold_push_hex: "efold push_hex [a, b, c, d] 0 = Inr v \<longleftrightarrow> hex4 [a, b, c, d] v"
  by (auto simp: ebind_eq_Inr push_hex_Inr hex4_def)

lemma parse_hex_escape_Inr:
  "parse_hex_escape bytes i = Inr (v, j) \<longleftrightarrow> j = i + 4 \<and> (\<exists>h. hex4 h v \<and> drop i bytes = h @ drop j bytes)"
proof (cases "i + 4 \<le> length bytes")
  case True
  obtain a b c d where d: "drop i bytes = [a, b, c, d] @ drop (i + 4) bytes" using take4[OF True] by blast
  have "parse_hex_escape bytes i = Inr (v, j) \<longleftrightarrow> j = i + 4 \<and> hex4 [a, b, c, d] v"
    using True fold_push_hex[of a b c d v] d by (auto simp: parse_hex_escape_def ebind_eq_Inr)
  moreover have "(\<exists>h. hex4 h v \<and> drop i bytes = h @ drop (i + 4) bytes) \<longleftrightarrow> hex4 [a, b, c, d] v"
    using d hex4_length by auto
  ultimately show ?thesis by auto
next
  case False
  have "drop i bytes \<noteq> h @ drop (i + 4) bytes" if "hex4 h v" for h
  proof
    assume "drop i bytes = h @ drop (i + 4) bytes"
    then have "length (drop i bytes) = 4 + length (drop (i + 4) bytes)" using hex4_length[OF that] by (simp only: length_append)
    then show False using False by auto
  qed
  then show ?thesis using False by (auto simp: parse_hex_escape_def)
qed

lemma high_not_scalar: "high_surrogate v \<Longrightarrow> \<not> is_scalar v"
  by (auto simp: high_surrogate_def is_scalar_def)

lemma pair_is_scalar: "high_surrogate v \<Longrightarrow> low_surrogate w \<Longrightarrow> is_scalar (surrogate_pair v w)"
  by (auto simp: high_surrogate_def low_surrogate_def is_scalar_def surrogate_pair_def)

lemma drop_two: "take 2 (drop i bytes) = [a, b] \<Longrightarrow> drop i bytes = a # b # drop (i + 2) bytes"
  by (metis append_Cons append_Nil append_take_drop_id drop_drop add.commute)

lemma unicode_escape_Inr:
  "unicode_escape bytes i = Inr (d, j) \<longleftrightarrow>
     (\<exists>h v. drop i bytes = h @ drop j bytes \<and> hex4 h v \<and> is_scalar v \<and> d = encode_utf8 v \<and> j = i + 4) \<or>
     (\<exists>h v h' v'. drop i bytes = h @ CHR 0x5C # CHR ''u'' # h' @ drop j bytes \<and> hex4 h v \<and> high_surrogate v
        \<and> hex4 h' v' \<and> low_surrogate v' \<and> d = encode_utf8 (surrogate_pair v v') \<and> j = i + 10)"
    (is "?l \<longleftrightarrow> ?scalar \<or> ?pair")
proof
  assume ?l
  then obtain v n where v: "parse_hex_escape bytes i = Inr (v, n)"
    by (auto simp: unicode_escape_def ebind_eq_Inr)
  obtain h where h: "hex4 h v" "drop i bytes = h @ drop n bytes" "n = i + 4"
    using v by (auto simp: parse_hex_escape_Inr)
  show "?scalar \<or> ?pair"
  proof (cases "high_surrogate v")
    case True
    then obtain v' n' where "take 2 (drop n bytes) = [CHR 0x5C, CHR ''u'']"
      and v': "parse_hex_escape bytes (n + 2) = Inr (v', n')" "low_surrogate v'"
      and d: "scalar_text (surrogate_pair v v') n' = Inr (d, j)"
      using \<open>?l\<close> v by (auto simp: unicode_escape_def ebind_eq_Inr split: if_splits)
    moreover obtain h' where "hex4 h' v'" "drop (n + 2) bytes = h' @ drop n' bytes"
      using v'(1) unfolding parse_hex_escape_Inr by blast
    moreover have "n' = n + 6" using v'(1) unfolding parse_hex_escape_Inr by simp
    ultimately have ?pair using h True drop_two[of n bytes]
      by (auto simp: scalar_text_def split: if_splits)
    then show ?thesis ..
  next
    case False
    then have ?scalar using \<open>?l\<close> v h by (auto simp: unicode_escape_def scalar_text_def split: if_splits)
    then show ?thesis ..
  qed
next
  assume "?scalar \<or> ?pair"
  then show ?l
  proof
    assume ?scalar
    then obtain h v where "drop i bytes = h @ drop j bytes" "hex4 h v" "is_scalar v" "d = encode_utf8 v" "j = i + 4" by auto
    moreover from this have "parse_hex_escape bytes i = Inr (v, j)" by (auto simp: parse_hex_escape_Inr)
    ultimately show ?l using high_not_scalar by (auto simp: unicode_escape_def scalar_text_def)
  next
    assume ?pair
    then obtain h v h' v' where r: "drop i bytes = h @ CHR 0x5C # CHR ''u'' # h' @ drop j bytes" and h: "hex4 h v"
      and v: "high_surrogate v" "hex4 h' v'" "low_surrogate v'" and d: "d = encode_utf8 (surrogate_pair v v')" "j = i + 10"
      by auto
    have four: "drop (i + 4) bytes = CHR 0x5C # CHR ''u'' # h' @ drop j bytes"
      using r hex4_length[OF h] by (metis append_eq_conv_conj drop_drop add.commute)
    then have six: "drop (i + 6) bytes = h' @ drop j bytes"
      using drop_drop[of 2 "i + 4" bytes] by (simp add: numeral_eq_Suc add.commute)
    have "parse_hex_escape bytes i = Inr (v, i + 4)" "parse_hex_escape bytes (i + 6) = Inr (v', j)"
      using r four six h v(2) d(2) by (auto simp: parse_hex_escape_Inr)
    then show ?l using four v d pair_is_scalar by (simp add: unicode_escape_def scalar_text_def add.commute)
  qed
qed

lemma drop_Suc_nth: "i < length xs \<Longrightarrow> drop i xs = xs ! i # drop (Suc i) xs"
  by (simp add: Cons_nth_drop_Suc)

lemma short_escapes_plain: "(e, v) \<in> set short_escapes \<Longrightarrow> e \<noteq> CHR ''u''"
  by (auto simp: short_escapes_def)

lemma short_escape_of: "(e, v) \<in> set short_escapes \<longleftrightarrow> map_of short_escapes e = Some v"
  by (simp add: short_escapes_def) auto

text \<open>What follows a backslash, and what the code reads there.\<close>

lemma escape_step:
  assumes "i + 1 < length bytes" and "bytes ! i = CHR 0x5C"
  shows "json_chars (drop i bytes) d \<longleftrightarrow>
     (\<exists>j v r. escape_value bytes (bytes ! (i + 1)) (i + 2) = Inr (v, j) \<and> json_chars (drop j bytes) r \<and> d = v @ r)"
    (is "?l \<longleftrightarrow> ?r")
proof -
  let ?e = "bytes ! (i + 1)"
  have cs: "drop i bytes = CHR 0x5C # ?e # drop (i + 2) bytes"
    using drop_Suc_nth[of i bytes] drop_Suc_nth[of "Suc i" bytes] assms by simp
  have after: "drop (i + 2 + length h) bytes = r" if "drop (i + 2) bytes = h @ r" for h r
    using that by (metis append_eq_conv_conj drop_drop add.commute)
  show ?thesis
  proof
    assume ?l
    then have "json_chars (CHR 0x5C # ?e # drop (i + 2) bytes) d" by (simp add: cs)
    then consider (short) v d' where "(?e, v) \<in> set short_escapes" "json_chars (drop (i + 2) bytes) d'" "d = v # d'"
      | (scalar) h v r d' where "?e = CHR ''u''" "drop (i + 2) bytes = h @ r" "hex4 h v" "is_scalar v" "json_chars r d'"
          "d = encode_utf8 v @ d'"
      | (pair) h v h' v' r d' where "?e = CHR ''u''" "drop (i + 2) bytes = h @ CHR 0x5C # CHR ''u'' # h' @ r"
          "hex4 h v" "high_surrogate v" "hex4 h' v'" "low_surrogate v'" "json_chars r d'"
          "d = encode_utf8 (surrogate_pair v v') @ d'"
      by (elim json_chars_ConsE) blast+
    then show ?r
    proof cases
      case (short v d')
      then show ?thesis by (auto simp: escape_value_def short_escape_of)
    next
      case (scalar h v r d')
      then have six: "drop (i + 6) bytes = r" using after[of h r] hex4_length by (simp add: add.commute)
      then have "unicode_escape bytes (i + 2) = Inr (encode_utf8 v, i + 6)"
        using scalar by (auto simp: unicode_escape_Inr)
      then show ?thesis using scalar six by (auto simp: escape_value_def short_escapes_def)
    next
      case (pair h v h' v' r d')
      then have twelve: "drop (i + 12) bytes = r"
        using after[of "h @ CHR 0x5C # CHR ''u'' # h'" r] hex4_length[of h v] hex4_length[of h' v'] by (simp add: add.commute)
      then have "unicode_escape bytes (i + 2) = Inr (encode_utf8 (surrogate_pair v v'), i + 12)"
        using pair by (auto simp: unicode_escape_Inr)
      then show ?thesis using pair twelve by (auto simp: escape_value_def short_escapes_def)
    qed
  next
    assume ?r
    then obtain j v r where e: "escape_value bytes ?e (i + 2) = Inr (v, j)"
      and r: "json_chars (drop j bytes) r" "d = v @ r" by auto
    show ?l
    proof (cases "map_of short_escapes ?e")
      case (Some c)
      then show ?thesis using e r jc_short[of ?e c "drop (i + 2) bytes" r]
        by (auto simp: escape_value_def short_escape_of cs)
    next
      case None
      then have "?e = CHR ''u''" "unicode_escape bytes (i + 2) = Inr (v, j)"
        using e by (auto simp: escape_value_def split: if_splits)
      then show ?thesis
        using r jc_scalar[OF _ _ r(1)] jc_pair[OF _ _ _ _ r(1)] by (auto simp: unicode_escape_Inr cs)
    qed
  qed
qed

locale string_sink =
  fixes decoded :: "string \<Rightarrow> 's \<Rightarrow> error + 's" and seen :: "string \<Rightarrow> 's" and good :: "string \<Rightarrow> bool"
  assumes step: "good acc \<Longrightarrow> decoded b (seen acc) = Inr t \<longleftrightarrow> good (acc @ b) \<and> t = seen (acc @ b)"
    and prefix: "good (a @ b) \<Longrightarrow> good a" and empty: "good []"
begin

text \<open>A callback that keeps a summary of what it has seen and refuses once that is no longer good.\<close>

lemma loop_exact:
  assumes "p \<le> i" and "i \<le> length bytes" and "good acc"
  shows "visit_loop bytes decoded i p (seen acc) = Inr t \<longleftrightarrow>
     (\<exists>d. json_chars (drop i bytes) d \<and> good (acc @ take (i - p) (drop p bytes) @ d)
        \<and> t = seen (acc @ take (i - p) (drop p bytes) @ d))"
  using assms
proof (induction "length bytes - i" arbitrary: i p acc rule: less_induct)
  case less
  let ?seg = "take (i - p) (drop p bytes)"
  consider (finish) "i = length bytes" | (quote) "i < length bytes" "of_char (bytes ! i) < (0x20 :: nat) \<or> bytes ! i = CHR 0x22"
    | (plain) "i < length bytes" "\<not> (of_char (bytes ! i) < (0x20 :: nat) \<or> bytes ! i = CHR 0x22)" "bytes ! i \<noteq> CHR 0x5C"
    | (escape) "i < length bytes" "bytes ! i = CHR 0x5C"
    using less.prems by force
  then show ?case
  proof cases
    case finish
    then show ?thesis using step[OF less.prems(3), of "drop p bytes" t]
      by (simp add: visit_loop.simps[of bytes decoded "length bytes" p] json_chars_Nil)
  next
    case quote
    then show ?thesis using drop_Suc_nth[OF quote(1)]
      by (auto simp: visit_loop.simps[of bytes decoded i p] short_escapes_def elim!: json_chars_ConsE)
  next
    case plain
    have seg: "take (Suc i - p) (drop p bytes) = ?seg @ [bytes ! i]"
      using plain(1) less.prems by (simp add: Suc_diff_le take_Suc_conv_app_nth)
    have "json_chars (drop i bytes) d \<longleftrightarrow> (\<exists>r. d = bytes ! i # r \<and> json_chars (drop (Suc i) bytes) r)" for d
      using drop_Suc_nth[OF plain(1)] plain(2,3) jc_plain[of "bytes ! i"]
      by (auto elim!: json_chars_ConsE)
    moreover have "visit_loop bytes decoded i p (seen acc) = visit_loop bytes decoded (Suc i) p (seen acc)"
      using plain by (simp add: visit_loop.simps[of bytes decoded i p])
    ultimately show ?thesis
      using less.hyps[of "Suc i" p acc] plain(1) less.prems seg by auto
  next
    case escape
    show ?thesis
    proof (cases "i + 1 < length bytes")
      case False
      then have "drop i bytes = [CHR 0x5C]" using escape drop_Suc_nth[OF escape(1)] by simp
      then show ?thesis using escape False
        by (auto simp: visit_loop.simps[of bytes decoded i p] ebind_eq_Inr elim!: json_chars_ConsE)
    next
      case True
      have bound: "j \<le> length bytes \<and> i < j" if "escape_value bytes (bytes ! (i + 1)) (i + 2) = Inr (v, j)" for v j
        using that True
        by (auto simp: escape_value_def unicode_escape_def scalar_text_def ebind_eq_Inr
            split: option.splits if_splits dest!: parse_hex_escape_next)
      have ih: "visit_loop bytes decoded j j (seen acc') = Inr t \<longleftrightarrow>
          (\<exists>d. json_chars (drop j bytes) d \<and> good (acc' @ d) \<and> t = seen (acc' @ d))"
        if "escape_value bytes (bytes ! (i + 1)) (i + 2) = Inr (v, j)" "good acc'" for v j acc'
      proof -
        have "length bytes - j < length bytes - i" using bound[OF that(1)] by linarith
        then show ?thesis using less.hyps[of j j acc'] bound[OF that(1)] that(2) by simp
      qed
      have pre: "good (acc @ ?seg @ v @ r) \<Longrightarrow> good (acc @ ?seg) \<and> good (acc @ ?seg @ v)" for v r
        using prefix[of "acc @ ?seg" "v @ r"] prefix[of "acc @ ?seg @ v" r] by simp
      have ih': "visit_loop bytes decoded j j (seen (acc @ ?seg @ v)) = Inr t \<longleftrightarrow>
          (\<exists>r. json_chars (drop j bytes) r \<and> good (acc @ ?seg @ v @ r) \<and> t = seen (acc @ ?seg @ v @ r))"
        if "escape_value bytes (bytes ! (i + 1)) (i + 2) = Inr (v, j)" "good (acc @ ?seg @ v)" for v j
        using ih[of v j "acc @ ?seg @ v"] that by simp
      have "visit_loop bytes decoded i p (seen acc) = Inr t \<longleftrightarrow>
          (\<exists>j v. escape_value bytes (bytes ! (i + 1)) (i + 2) = Inr (v, j) \<and> good (acc @ ?seg) \<and> good (acc @ ?seg @ v)
             \<and> visit_loop bytes decoded j j (seen (acc @ ?seg @ v)) = Inr t)"
        using escape True step[OF less.prems(3)] step[of "acc @ ?seg"]
        by (auto simp: visit_loop.simps[of bytes decoded i p] ebind_eq_Inr)
      also have "\<dots> \<longleftrightarrow> (\<exists>j v r. escape_value bytes (bytes ! (i + 1)) (i + 2) = Inr (v, j) \<and> json_chars (drop j bytes) r
          \<and> good (acc @ ?seg @ v @ r) \<and> t = seen (acc @ ?seg @ v @ r))"
        using ih' pre by blast
      finally show ?thesis using escape_step[OF True escape(2)] by auto
    qed
  qed
qed

lemma visit_exact:
  "visit_json_string value decoded (seen []) = Inr t \<longleftrightarrow>
     (\<exists>raw d. value = [CHR 0x22] @ raw @ [CHR 0x22] \<and> json_chars raw d \<and> good d \<and> t = seen d)"
proof (cases "2 \<le> length value \<and> hd value = CHR 0x22 \<and> last value = CHR 0x22")
  case True
  then have "value = [CHR 0x22] @ butlast (tl value) @ [CHR 0x22]"
    by (cases "value"; cases "tl value")
      (use append_butlast_last_id[of "tl value"] in \<open>auto split: if_splits\<close>)
  then show ?thesis
    using True loop_exact[of 0 0 "butlast (tl value)" "[]"] empty by (auto simp: visit_json_string_def)
next
  case False
  then show ?thesis by (auto simp: visit_json_string_def)
qed

end

definition first_char :: "string \<Rightarrow> char option" where
  "first_char s = (case s of [] \<Rightarrow> None | c # _ \<Rightarrow> Some c)"

interpretation checked: string_sink "\<lambda>_ _. Inr ()" "\<lambda>_. ()" "\<lambda>_. True"
  by unfold_locales auto

interpretation counted: string_sink "\<lambda>bytes n. Inr (n + length bytes)" length "\<lambda>_. True"
  by unfold_locales auto

interpretation collected: string_sink
    "\<lambda>bytes decoded. if limit < length decoded + length bytes
       then Inl (Bail ''final payload identifier exceeds its size limit'') else Inr (decoded @ bytes)"
    "\<lambda>s. s" "\<lambda>s. length s \<le> limit" for limit
  by unfold_locales auto

interpretation path: string_sink visit_path first_char "\<lambda>s. CHR 0x00 \<notin> set s"
  by unfold_locales (auto simp: visit_path_def first_char_def Let_def split: list.splits)

text \<open>The text between quotes that denotes some bytes.\<close>

definition json_string :: "string \<Rightarrow> string \<Rightarrow> bool" where
  "json_string quoted d \<longleftrightarrow> (\<exists>raw. quoted = [CHR 0x22] @ raw @ [CHR 0x22] \<and> json_chars raw d)"

lemma json_string_facts:
  "validate_json_string v = Inr () \<longleftrightarrow> (\<exists>d. json_string v d)"
  "collect_small_json_string v n = Inr d \<longleftrightarrow> json_string v d \<and> length d \<le> n"
  "require_nonempty_json_string v field = Inr () \<longleftrightarrow> (\<exists>d. json_string v d \<and> d \<noteq> [])"
  "visit_json_string v visit_path None = Inr t \<longleftrightarrow> (\<exists>d. json_string v d \<and> CHR 0x00 \<notin> set d \<and> t = first_char d)"
proof -
  show "validate_json_string v = Inr () \<longleftrightarrow> (\<exists>d. json_string v d)"
    using checked.visit_exact[of v "()"] by (auto simp: validate_json_string_def json_string_def)
  show "collect_small_json_string v n = Inr d \<longleftrightarrow> json_string v d \<and> length d \<le> n"
    using collected.visit_exact[of v n d] by (auto simp: collect_small_json_string_def json_string_def)
  have "visit_json_string v (\<lambda>bytes n. Inr (n + length bytes)) 0 = Inr n \<longleftrightarrow> (\<exists>d. json_string v d \<and> n = length d)" for n
    using counted.visit_exact[of v n] by (auto simp: json_string_def)
  then show "require_nonempty_json_string v field = Inr () \<longleftrightarrow> (\<exists>d. json_string v d \<and> d \<noteq> [])"
    by (auto simp: require_nonempty_json_string_def ebind_eq_Inr)
  have "visit_json_string v visit_path (first_char []) = Inr t \<longleftrightarrow>
      (\<exists>d. json_string v d \<and> CHR 0x00 \<notin> set d \<and> t = first_char d)"
    unfolding path.visit_exact by (auto simp: json_string_def)
  then show "visit_json_string v visit_path None = Inr t \<longleftrightarrow>
      (\<exists>d. json_string v d \<and> CHR 0x00 \<notin> set d \<and> t = first_char d)"
    by (simp add: first_char_def)
qed

text \<open>
  C21. The hand-written reader of JSON strings accepts exactly the strings of the grammar and decodes
  them to what they denote, whatever escapes and surrogate pairs they hold: as a check, as a text of
  bounded size, as a text that is not empty and as an absolute path without a NUL byte.
\<close>

theorem json_strings_decoded_exactly:
  "(validate_json_string v = Inr () \<longleftrightarrow> (\<exists>d. json_string v d))
   \<and> (collect_small_json_string v n = Inr d \<longleftrightarrow> json_string v d \<and> length d \<le> n)
   \<and> (require_nonempty_json_string v field = Inr () \<longleftrightarrow> (\<exists>d. json_string v d \<and> d \<noteq> []))
   \<and> (visit_json_string v visit_path None = Inr (Some (CHR ''/''))
        \<longleftrightarrow> (\<exists>p. json_string v (CHR ''/'' # p) \<and> CHR 0x00 \<notin> set p))"
proof -
  have "Some (CHR ''/'') = first_char d \<longleftrightarrow> (\<exists>p. d = CHR ''/'' # p)" for d
    by (auto simp: first_char_def split: list.splits)
  then show ?thesis unfolding json_string_facts by auto
qed

section \<open>What is required of the artifact of a file\<close>

lemma ex_unit: "(\<exists>u :: unit. P u) \<longleftrightarrow> P ()"
  by auto

lemma validate_artifact_view_Inr:
  "validate_artifact_view x y a = Inr () \<longleftrightarrow>
     (\<exists>i u. json_string (av_id a) i \<and> length i \<le> 64 \<and> from_utf8 y i = Some u \<and> parse_uuid x u \<noteq> None)
     \<and> (\<exists>p. json_string (av_path a) (CHR ''/'' # p) \<and> CHR 0x00 \<notin> set p)
     \<and> (\<exists>n. json_string (av_display_name a) n \<and> n \<noteq> [])
     \<and> (\<exists>m. json_string (av_media_type a) m \<and> m \<noteq> [])
     \<and> (\<exists>h. json_string (av_sha256 a) h \<and> length h = 64 \<and> list_all ascii_hexdigit h)
     \<and> (av_caption a = ''null'' \<or> (\<exists>c. json_string (av_caption a) c))"
proof -
  have "Some (CHR ''/'') = first_char d \<longleftrightarrow> (\<exists>p. d = CHR ''/'' # p)" for d
    by (auto simp: first_char_def split: list.splits)
  then have path: "visit_json_string v visit_path None = Inr (Some (CHR ''/'')) \<longleftrightarrow>
      (\<exists>p. json_string v (CHR ''/'' # p) \<and> CHR 0x00 \<notin> set p)" for v by (auto simp: json_string_facts)
  have caption: "(if av_caption a \<noteq> ''null'' then validate_json_string (av_caption a) else Inr ()) = Inr () \<longleftrightarrow>
      av_caption a = ''null'' \<or> (\<exists>c. json_string (av_caption a) c)"
    by (simp add: json_string_facts)
  have "validate_artifact_view x y a = Inr () \<longleftrightarrow>
      (\<exists>i. collect_small_json_string (av_id a) 64 = Inr i \<and> (\<exists>u. from_utf8 y i = Some u \<and> (\<exists>v. parse_uuid x u = Some v)))
      \<and> visit_json_string (av_path a) visit_path None = Inr (Some (CHR ''/''))
      \<and> require_nonempty_json_string (av_display_name a) ''display name'' = Inr ()
      \<and> require_nonempty_json_string (av_media_type a) ''media type'' = Inr ()
      \<and> (\<exists>h. collect_small_json_string (av_sha256 a) 64 = Inr h \<and> length h = 64 \<and> list_all ascii_hexdigit h)
      \<and> (if av_caption a \<noteq> ''null'' then validate_json_string (av_caption a) else Inr ()) = Inr ()"
    unfolding validate_artifact_view_def ebind_eq_Inr require_eq_Inr from_option_eq_Inr ex_unit by blast
  then show ?thesis unfolding path caption json_string_facts(1-3) by auto
qed

end
