(* ===== verification/Final_Verifier.thy ===== *)
theory Final_Verifier
  imports Final_Payload
begin

text \<open>
  \<open>interfaces/local_renderer.rs\<close>, \<open>FinalBundleVerifier\<close>: the client's side of a final bundle. It
  takes the events of a transmission one by one, buffers the chunks in the order of the manifest
  and, at the end, checks every hash and payload before it hands the bundle out.
\<close>

section \<open>State\<close>

record buffered_delivery =
  bd_bytes :: string
  bd_digest :: string

record pending_bundle =
  pb_request :: request_id
  pb_bundle :: bundle_id
  pb_replay :: bool
  pb_manifest :: "manifest_entry list"
  pb_deliveries :: "buffered_delivery list"
  pb_current :: nat
  pb_next :: nat
  pb_buffered :: nat

record verified_delivery =
  vd_id :: delivery_id
  vd_payload :: final_payload

record verified_bundle =
  vb_request :: request_id
  vb_bundle :: bundle_id
  vb_replay :: bool
  vb_sha256 :: string
  vb_deliveries :: "verified_delivery list"

record verifier =
  vf_expected :: "request_id option"
  vf_bundle :: "pending_bundle option"
  vf_final :: bool

definition verifier_new :: verifier where
  "verifier_new = \<lparr>vf_expected = None, vf_bundle = None, vf_final = False\<rparr>"

definition verifier_for :: "request_id \<Rightarrow> verifier" where
  "verifier_for q = \<lparr>vf_expected = Some q, vf_bundle = None, vf_final = False\<rparr>"

definition verified_ids :: "verified_bundle \<Rightarrow> delivery_id list" where
  "verified_ids v = map vd_id (vb_deliveries v)"

text \<open>The digest of a delivery is the bytes it was fed, hashed when it is read.\<close>

definition require_request :: "verifier \<Rightarrow> request_id \<Rightarrow> error + unit" where
  "require_request s q =
     (case vf_expected s of
        Some e \<Rightarrow> require (e = q) (Bail (''server event request ID '' @ q @ '' does not match '' @ e))
      | None \<Rightarrow> Inr ())"

section \<open>Begin\<close>

definition accept_entry ::
    "manifest_entry \<Rightarrow> delivery_id set \<times> nat \<times> buffered_delivery list
      \<Rightarrow> error + (delivery_id set \<times> nat \<times> buffered_delivery list)" where
  "accept_entry e = (\<lambda>(seen, decoded, ds).
     if me_delivery e \<in> seen then Inl (Bail ''final manifest contains a duplicate delivery ID'')
     else if me_kind e \<notin> {''text'', ''file'', ''terminal_error''}
     then Inl (Bail ''final manifest contains an unknown payload kind'')
     else if me_bytes e = 0 \<or> me_chunks e \<noteq> div_ceil (me_bytes e) MAX_FINAL_CHUNK_BYTES
     then Inl (Bail ''final manifest chunk count does not match decoded size'')
     else if usize_max < decoded + me_bytes e then Inl (Bail ''final bundle size overflow'')
     else if MAX_BUNDLE_BYTES < decoded + me_bytes e then Inl (Bail ''final bundle exceeds decoded byte limit'')
     else Inr (insert (me_delivery e) seen, decoded + me_bytes e, ds @ [\<lparr>bd_bytes = [], bd_digest = []\<rparr>]))"

definition final_begin ::
    "ext \<Rightarrow> request_id \<Rightarrow> bundle_id \<Rightarrow> bool \<Rightarrow> manifest_entry list \<Rightarrow> verifier \<Rightarrow> (error + unit) \<times> verifier" where
  "final_begin x q b replay manifest s =
     (case ebind (require_request s q) (\<lambda>_.
           ebind (require (vf_bundle s = None \<and> \<not> vf_final s)
                    (Bail ''received a second final bundle before the first completed'')) (\<lambda>_.
           ebind (require (manifest \<noteq> [] \<and> length manifest \<le> MAX_BUNDLE_DELIVERIES)
                    (Bail ''final manifest delivery count is outside protocol limits'')) (\<lambda>_.
           ebind (require (length (write_manifest x manifest) \<le> MAX_MANIFEST_BYTES)
                    (Bail ''final manifest exceeds protocol limit'')) (\<lambda>_.
             efold accept_entry manifest ({}, 0, []))))) of
        Inl e \<Rightarrow> (Inl e, s)
      | Inr (_, _, ds) \<Rightarrow>
          (Inr (), s\<lparr>vf_bundle := Some \<lparr>pb_request = q, pb_bundle = b, pb_replay = replay, pb_manifest = manifest,
             pb_deliveries = ds, pb_current = 0, pb_next = 0, pb_buffered = 0\<rparr>\<rparr>))"

section \<open>Chunk\<close>

definition expected_bytes :: "manifest_entry \<Rightarrow> nat \<Rightarrow> nat" where
  "expected_bytes e i = min (me_bytes e - i * MAX_FINAL_CHUNK_BYTES) MAX_FINAL_CHUNK_BYTES"

definition store_chunk :: "manifest_entry \<Rightarrow> string \<Rightarrow> pending_bundle \<Rightarrow> (error + unit) \<times> pending_bundle" where
  "store_chunk e decoded p =
     (let n = pb_buffered p + length decoded; i = pb_current p; d = pb_deliveries p ! i in
      if usize_max < n then (Inl (Bail ''final bundle size overflow''),
            p\<lparr>pb_deliveries := (pb_deliveries p)[i := d\<lparr>bd_bytes := bd_bytes d @ decoded\<rparr>]\<rparr>)
      else if MAX_BUNDLE_BYTES < n
      then (Inl (Bail ''final bundle exceeds decoded byte limit''), p\<lparr>pb_buffered := n\<rparr>)
      else let full = pb_next p + 1 = me_chunks e in
        (Inr (), p\<lparr>pb_deliveries := (pb_deliveries p)[i := \<lparr>bd_bytes = bd_bytes d @ decoded,
                                                            bd_digest = bd_digest d @ decoded\<rparr>],
                   pb_buffered := n,
                   pb_current := (if full then i + 1 else i),
                   pb_next := (if full then 0 else pb_next p + 1)\<rparr>))"

definition accept_chunk ::
    "wire \<Rightarrow> request_id \<Rightarrow> bundle_id \<Rightarrow> delivery_id \<Rightarrow> nat \<Rightarrow> string \<Rightarrow> pending_bundle
      \<Rightarrow> (error + unit) \<times> pending_bundle" where
  "accept_chunk y q b d i s p =
     (if pb_request p \<noteq> q \<or> pb_bundle p \<noteq> b then (Inl (Bail ''final chunk IDs do not match final begin''), p)
      else if length (pb_manifest p) \<le> pb_current p then (Inl (Bail ''final bundle received an extra chunk''), p)
      else let e = pb_manifest p ! pb_current p in
        if me_delivery e \<noteq> d then (Inl (Bail ''final chunks are not in manifest delivery order''), p)
        else if i \<noteq> pb_next p then (Inl (Bail ''final chunk indices are not contiguous''), p)
        else if usize_max < i * MAX_FINAL_CHUNK_BYTES then (Inl (Bail ''final chunk offset overflow''), p)
        else let n = expected_bytes e i in
          if utf8_len s \<noteq> div_ceil n 3 * 4 then (Inl (Bail ''final chunk encoded size is not canonical''), p)
          else case base64_decode y s of
            None \<Rightarrow> (Inl (Bail ''final chunk is not valid base64''), p)
          | Some decoded \<Rightarrow>
              if length decoded \<noteq> n
              then (Inl (Bail ''final chunk decoded size is not the canonical partition''), p)
              else store_chunk e decoded p)"

definition final_chunk ::
    "wire \<Rightarrow> request_id \<Rightarrow> bundle_id \<Rightarrow> delivery_id \<Rightarrow> nat \<Rightarrow> string \<Rightarrow> verifier \<Rightarrow> (error + unit) \<times> verifier" where
  "final_chunk y q b d i s v =
     (case require_request v q of
        Inl e \<Rightarrow> (Inl e, v)
      | Inr _ \<Rightarrow>
          (case vf_bundle v of
             None \<Rightarrow> (Inl (Bail ''final chunk arrived before begin''), v)
           | Some p \<Rightarrow> (case accept_chunk y q b d i s p of (r, p) \<Rightarrow> (r, v\<lparr>vf_bundle := Some p\<rparr>))))"

section \<open>End\<close>

definition verify_delivery ::
    "ext \<Rightarrow> wire \<Rightarrow> payload_reader \<Rightarrow> manifest_entry \<times> buffered_delivery \<Rightarrow> error + verified_delivery" where
  "verify_delivery x y z = (\<lambda>(e, d).
     ebind (require (length (bd_bytes d) = me_bytes e) (Bail ''final delivery decoded size does not match manifest'')) (\<lambda>_.
     ebind (require (sha256_hex x (bd_digest d) = me_sha256 e) (Bail ''final delivery hash does not match manifest'')) (\<lambda>_.
     ebind (parse_payload z (bd_bytes d)) (\<lambda>payload.
     ebind (validate_view x y payload) (\<lambda>_.
     ebind (require (view_kind payload = me_kind e) (Bail ''final delivery kind does not match manifest'')) (\<lambda>_.
     ebind (lift_read (read_final z (bd_bytes d))) (\<lambda>f.
       Inr \<lparr>vd_id = me_delivery e, vd_payload = f\<rparr>)))))))"

definition verify_pending ::
    "ext \<Rightarrow> wire \<Rightarrow> payload_reader \<Rightarrow> request_id \<Rightarrow> bundle_id \<Rightarrow> string \<Rightarrow> pending_bundle \<Rightarrow> error + verified_bundle" where
  "verify_pending x y z q b h p =
     ebind (require (pb_request p = q \<and> pb_bundle p = b) (Bail ''final end IDs do not match final begin'')) (\<lambda>_.
     ebind (require (sha256_hex x (write_manifest x (pb_manifest p)) = h) (Bail ''final manifest hash does not match'')) (\<lambda>_.
     ebind (require (pb_current p = length (pb_manifest p) \<and> pb_next p = 0)
              (Bail ''final bundle ended before every canonical chunk arrived'')) (\<lambda>_.
     ebind (require (pb_buffered p = sum_list (map me_bytes (pb_manifest p)))
              (Bail ''final bundle decoded total does not match manifest'')) (\<lambda>_.
     ebind (emap (verify_delivery x y z) (zip (pb_manifest p) (pb_deliveries p))) (\<lambda>vs.
       Inr \<lparr>vb_request = q, vb_bundle = b, vb_replay = pb_replay p, vb_sha256 = h, vb_deliveries = vs\<rparr>)))))"

definition final_end ::
    "ext \<Rightarrow> wire \<Rightarrow> payload_reader \<Rightarrow> request_id \<Rightarrow> bundle_id \<Rightarrow> string \<Rightarrow> verifier
      \<Rightarrow> (error + verified_bundle) \<times> verifier" where
  "final_end x y z q b h v =
     (case require_request v q of
        Inl e \<Rightarrow> (Inl e, v)
      | Inr _ \<Rightarrow>
          (case vf_bundle v of
             None \<Rightarrow> (Inl (Bail ''final end arrived before begin''), v)
           | Some p \<Rightarrow>
               (let v = v\<lparr>vf_bundle := None\<rparr> in
                case verify_pending x y z q b h p of
                  Inl e \<Rightarrow> (Inl e, v)
                | Inr r \<Rightarrow> (Inr r, v\<lparr>vf_final := True\<rparr>))))"

definition verifier_handle ::
    "ext \<Rightarrow> wire \<Rightarrow> payload_reader \<Rightarrow> server_event \<Rightarrow> verifier \<Rightarrow> (error + verified_bundle option) \<times> verifier" where
  "verifier_handle x y z ev v =
     (if vf_final v then (Inl (Bail ''received an event after the final bundle completed''), v)
      else case se_body ev of
        SvFinalBegin q b replay manifest \<Rightarrow>
          (case final_begin x q b replay manifest v of (r, v) \<Rightarrow> (ebind r (\<lambda>_. Inr None), v))
      | SvFinalChunk q b d i s \<Rightarrow> (case final_chunk y q b d i s v of (r, v) \<Rightarrow> (ebind r (\<lambda>_. Inr None), v))
      | SvFinalEnd q b h \<Rightarrow> (case final_end x y z q b h v of (r, v) \<Rightarrow> (ebind r (\<lambda>f. Inr (Some f)), v))
      | _ \<Rightarrow> (Inl (Bail ''shared final verifier received a non-final event''), v))"

definition is_in_progress :: "verifier \<Rightarrow> bool" where "is_in_progress v \<longleftrightarrow> vf_bundle v \<noteq> None"
definition is_complete :: "verifier \<Rightarrow> bool" where "is_complete v \<longleftrightarrow> vf_final v"

text \<open>The events of a connection, one after another until the first error.\<close>

fun verify_events ::
    "ext \<Rightarrow> wire \<Rightarrow> payload_reader \<Rightarrow> server_event list \<Rightarrow> verifier \<Rightarrow> (error + verified_bundle option) \<times> verifier" where
  "verify_events x y z [] v = (Inr None, v)"
| "verify_events x y z (ev # evs) v =
     (case verifier_handle x y z ev v of
        (Inl e, v) \<Rightarrow> (Inl e, v)
      | (Inr r, v) \<Rightarrow> (if evs = [] then (Inr r, v) else verify_events x y z evs v))"

end
