(* ===== verification/Final_Transfer.thy ===== *)
theory Final_Transfer
  imports Final_Verifier
begin

text \<open>
  The two ends of a final bundle together: the streaming verifier accepts exactly the canonical
  transmissions of bundles whose manifest, hashes and payloads agree, and what the server prepares
  is one of them.
\<close>

section \<open>The canonical transmission\<close>

definition canonical_chunks ::
    "wire \<Rightarrow> request_id \<Rightarrow> bundle_id \<Rightarrow> manifest_entry list \<Rightarrow> string list \<Rightarrow> server_event list" where
  "canonical_chunks y q b manifest bss =
     concat (map (\<lambda>(e, bytes). delivery_chunks y q b (me_delivery e) bytes) (zip manifest bss))"

definition transmission ::
    "ext \<Rightarrow> wire \<Rightarrow> request_id \<Rightarrow> bundle_id \<Rightarrow> bool \<Rightarrow> manifest_entry list \<Rightarrow> string list \<Rightarrow> server_event list" where
  "transmission x y q b replay manifest bss =
     server_event_new (SvFinalBegin q b replay manifest) # canonical_chunks y q b manifest bss
     @ [server_event_new (SvFinalEnd q b (sha256_hex x (write_manifest x manifest)))]"

definition payload_agrees ::
    "ext \<Rightarrow> wire \<Rightarrow> payload_reader \<Rightarrow> manifest_entry \<Rightarrow> string \<Rightarrow> verified_delivery \<Rightarrow> bool" where
  "payload_agrees x y z e bytes v \<longleftrightarrow>
     me_bytes e = length bytes \<and> bytes \<noteq> [] \<and> me_chunks e = div_ceil (length bytes) MAX_FINAL_CHUNK_BYTES
     \<and> me_sha256 e = sha256_hex x bytes \<and> vd_id v = me_delivery e
     \<and> (\<exists>payload. parse_payload z bytes = Inr payload \<and> validate_view x y payload = Inr ()
          \<and> view_kind payload = me_kind e \<and> read_final z bytes = Inr (vd_payload v))"

definition manifest_fits :: "ext \<Rightarrow> manifest_entry list \<Rightarrow> bool" where
  "manifest_fits x manifest \<longleftrightarrow>
     manifest \<noteq> [] \<and> length manifest \<le> MAX_BUNDLE_DELIVERIES
     \<and> length (write_manifest x manifest) \<le> MAX_MANIFEST_BYTES
     \<and> distinct (map me_delivery manifest) \<and> sum_list (map me_bytes manifest) \<le> MAX_BUNDLE_BYTES"

definition bundle_agrees ::
    "ext \<Rightarrow> wire \<Rightarrow> payload_reader \<Rightarrow> manifest_entry list \<Rightarrow> string list \<Rightarrow> verified_delivery list \<Rightarrow> bool" where
  "bundle_agrees x y z manifest bss vs \<longleftrightarrow>
     manifest_fits x manifest \<and> length bss = length manifest \<and> length vs = length manifest
     \<and> (\<forall>i < length manifest. payload_agrees x y z (manifest ! i) (bss ! i) (vs ! i))"

text \<open>What is relied on of the base64 engine: it is canonical, and pads to groups of four.\<close>

definition base64_laws :: "wire \<Rightarrow> bool" where
  "base64_laws y \<longleftrightarrow>
     (\<forall>b. base64_decode y (base64_encode y b) = Some b)
     \<and> (\<forall>s b. base64_decode y s = Some b \<longrightarrow> s = base64_encode y b)
     \<and> (\<forall>b. utf8_len (base64_encode y b) = div_ceil (length b) 3 * 4)"

lemma base64_facts:
  assumes "base64_laws y"
  shows "base64_decode y (base64_encode y b) = Some b"
    "base64_decode y s = Some b \<Longrightarrow> s = base64_encode y b"
    "utf8_len (base64_encode y b) = div_ceil (length b) 3 * 4"
  using assms by (auto simp: base64_laws_def)

section \<open>Begin\<close>

lemma accept_entry_Inr:
  "accept_entry e (seen, n, ds) = Inr r \<longleftrightarrow>
     me_delivery e \<notin> seen \<and> me_kind e \<in> {''text'', ''file'', ''terminal_error''} \<and> me_bytes e \<noteq> 0
     \<and> me_chunks e = div_ceil (me_bytes e) MAX_FINAL_CHUNK_BYTES \<and> n + me_bytes e \<le> MAX_BUNDLE_BYTES
     \<and> r = (insert (me_delivery e) seen, n + me_bytes e, ds @ [\<lparr>bd_bytes = [], bd_digest = []\<rparr>])"
proof -
  have "MAX_BUNDLE_BYTES \<le> usize_max" by (simp add: MAX_BUNDLE_BYTES_def usize_max_def)
  then show ?thesis unfolding accept_entry_def by auto
qed

definition entry_fits :: "manifest_entry \<Rightarrow> bool" where
  "entry_fits e \<longleftrightarrow> me_kind e \<in> {''text'', ''file'', ''terminal_error''} \<and> me_bytes e \<noteq> 0
     \<and> me_chunks e = div_ceil (me_bytes e) MAX_FINAL_CHUNK_BYTES"

lemma accept_entries:
  "efold accept_entry es (seen, n, ds) = Inr r \<longleftrightarrow>
     distinct (map me_delivery es) \<and> me_delivery ` set es \<inter> seen = {} \<and> list_all entry_fits es
     \<and> (es = [] \<or> n + sum_list (map me_bytes es) \<le> MAX_BUNDLE_BYTES)
     \<and> r = (me_delivery ` set es \<union> seen, n + sum_list (map me_bytes es),
            ds @ replicate (length es) \<lparr>bd_bytes = [], bd_digest = []\<rparr>)"
proof (induction es arbitrary: seen n ds)
  case (Cons e es)
  show ?case
    by (auto simp: ebind_eq_Inr accept_entry_Inr Cons.IH entry_fits_def replicate_append_same)
qed auto

lemma final_begin_Inr:
  "final_begin x q b replay manifest (verifier_for q) = (Inr u, v) \<longleftrightarrow>
     manifest_fits x manifest \<and> list_all entry_fits manifest
     \<and> v = (verifier_for q)\<lparr>vf_bundle := Some \<lparr>pb_request = q, pb_bundle = b, pb_replay = replay, pb_manifest = manifest,
         pb_deliveries = replicate (length manifest) \<lparr>bd_bytes = [], bd_digest = []\<rparr>,
         pb_current = 0, pb_next = 0, pb_buffered = 0\<rparr>\<rparr>"
proof -
  have "final_begin x q b replay manifest (verifier_for q) = (Inr u, v) \<longleftrightarrow>
      manifest \<noteq> [] \<and> length manifest \<le> MAX_BUNDLE_DELIVERIES \<and> length (write_manifest x manifest) \<le> MAX_MANIFEST_BYTES
      \<and> (\<exists>seen n ds. efold accept_entry manifest ({}, 0, []) = Inr (seen, n, ds)
          \<and> v = (verifier_for q)\<lparr>vf_bundle := Some \<lparr>pb_request = q, pb_bundle = b, pb_replay = replay,
              pb_manifest = manifest, pb_deliveries = ds, pb_current = 0, pb_next = 0, pb_buffered = 0\<rparr>\<rparr>)"
    by (auto simp: final_begin_def verifier_for_def require_request_def require_def ebind_def split: sum.splits)
  then show ?thesis by (auto simp: accept_entries manifest_fits_def)
qed

section \<open>Chunks\<close>

lemma div_ceil_le: "0 < m \<Longrightarrow> div_ceil n m \<le> k \<longleftrightarrow> n \<le> k * m"
proof -
  assume m: "0 < m"
  have "div_ceil n m \<le> k \<longleftrightarrow> (n + m - 1) div m < Suc k" by (simp add: div_ceil_def less_Suc_eq_le)
  also have "\<dots> \<longleftrightarrow> n + m - 1 < Suc k * m" using m by (simp only: div_less_iff_less_mult)
  also have "\<dots> \<longleftrightarrow> n \<le> k * m" using m by auto
  finally show ?thesis .
qed

lemma div_ceil_mult: "0 < m \<Longrightarrow> div_ceil (i * m) m = i"
proof -
  assume m: "0 < m"
  have "div_ceil (i * m) m \<le> k \<longleftrightarrow> i \<le> k" for k using m by (simp add: div_ceil_le)
  then show ?thesis by (meson antisym order_refl)
qed

lemma MAX_FINAL_CHUNK_BYTES_pos [simp]: "0 < MAX_FINAL_CHUNK_BYTES"
  by (simp add: MAX_FINAL_CHUNK_BYTES_def)

lemma expected_bytes_bounds:
  assumes "entry_fits e" and "i < me_chunks e"
  shows "i * MAX_FINAL_CHUNK_BYTES < me_bytes e" "0 < expected_bytes e i" "expected_bytes e i \<le> MAX_FINAL_CHUNK_BYTES"
    "i + 1 = me_chunks e \<Longrightarrow> i * MAX_FINAL_CHUNK_BYTES + expected_bytes e i = me_bytes e"
    "i + 1 \<noteq> me_chunks e \<Longrightarrow> expected_bytes e i = MAX_FINAL_CHUNK_BYTES"
proof -
  let ?m = MAX_FINAL_CHUNK_BYTES
  have c: "me_chunks e = div_ceil (me_bytes e) ?m" using assms(1) by (simp add: entry_fits_def)
  have le: "me_chunks e \<le> k \<longleftrightarrow> me_bytes e \<le> k * ?m" for k unfolding c by (rule div_ceil_le) simp
  show lt: "i * ?m < me_bytes e" using le[of i] assms(2) by simp
  then show "0 < expected_bytes e i" by (simp add: expected_bytes_def)
  show "expected_bytes e i \<le> ?m" by (simp add: expected_bytes_def)
  show "i * ?m + expected_bytes e i = me_bytes e" if "i + 1 = me_chunks e"
  proof -
    have "me_bytes e \<le> i * ?m + ?m" using le[of "i + 1"] that by (simp add: add.commute)
    then have "me_bytes e - i * ?m \<le> ?m" by linarith
    then show ?thesis using lt by (simp add: expected_bytes_def)
  qed
  show "expected_bytes e i = ?m" if "i + 1 \<noteq> me_chunks e"
  proof -
    have "\<not> me_bytes e \<le> i * ?m + ?m" using le[of "i + 1"] that assms(2) by (simp add: add.commute)
    then have "?m \<le> me_bytes e - i * ?m" by linarith
    then show ?thesis by (simp add: expected_bytes_def)
  qed
qed

lemma delivery_chunks_Nil [simp]: "delivery_chunks y q b d [] = []"
  by (simp add: delivery_chunks_def)

lemma delivery_chunks_append:
  assumes "length bytes = i * MAX_FINAL_CHUNK_BYTES" and "0 < length c" and "length c \<le> MAX_FINAL_CHUNK_BYTES"
  shows "delivery_chunks y q b d (bytes @ c) = delivery_chunks y q b d bytes @ [chunk_event y q b d (i, c)]"
proof -
  have cs: "byte_chunks MAX_FINAL_CHUNK_BYTES (bytes @ c) = byte_chunks MAX_FINAL_CHUNK_BYTES bytes @ [c]"
    using assms by (intro byte_chunks_append) simp_all
  have "length (byte_chunks MAX_FINAL_CHUNK_BYTES bytes) = i"
    by (simp add: length_byte_chunks assms(1) div_ceil_mult)
  then show ?thesis by (simp add: delivery_chunks_def cs)
qed

lemma canonical_chunks_at:
  assumes "n < length bss" and "length manifest = length bss" and "\<forall>i < length bss. n < i \<longrightarrow> bss ! i = []"
  shows "canonical_chunks y q b manifest bss =
     canonical_chunks y q b (take n manifest) (take n bss) @ delivery_chunks y q b (me_delivery (manifest ! n)) (bss ! n)"
proof -
  have z: "zip manifest bss = zip (take n manifest) (take n bss) @ (manifest ! n, bss ! n) #
      zip (drop (Suc n) manifest) (drop (Suc n) bss)"
  proof -
    have "zip (take n manifest @ manifest ! n # drop (Suc n) manifest) (take n bss @ bss ! n # drop (Suc n) bss) =
        zip (take n manifest) (take n bss) @ (manifest ! n, bss ! n) # zip (drop (Suc n) manifest) (drop (Suc n) bss)"
      using assms(1,2) by simp
    then show ?thesis using assms(1,2) by (simp only: id_take_nth_drop[symmetric])
  qed
  have "snd p = []" if "p \<in> set (zip (drop (Suc n) manifest) (drop (Suc n) bss))" for p
    using that assms by (auto simp: in_set_zip)
  then have "concat (map (\<lambda>(e, bytes). delivery_chunks y q b (me_delivery e) bytes)
      (zip (drop (Suc n) manifest) (drop (Suc n) bss))) = []"
    by (auto simp: split_beta)
  then show ?thesis by (simp add: canonical_chunks_def z)
qed

definition absorbed :: "wire \<Rightarrow> pending_bundle \<Rightarrow> server_event list" where
  "absorbed y p = canonical_chunks y (pb_request p) (pb_bundle p) (pb_manifest p) (map bd_bytes (pb_deliveries p))"

text \<open>What is buffered while a transmission is under way.\<close>

definition received :: "pending_bundle \<Rightarrow> bool" where
  "received p \<longleftrightarrow>
     length (pb_deliveries p) = length (pb_manifest p) \<and> list_all entry_fits (pb_manifest p)
     \<and> pb_current p \<le> length (pb_manifest p) \<and> (pb_current p = length (pb_manifest p) \<longrightarrow> pb_next p = 0)
     \<and> pb_buffered p = sum_list (map (\<lambda>d. length (bd_bytes d)) (pb_deliveries p))
     \<and> (\<forall>i < length (pb_manifest p).
          bd_digest (pb_deliveries p ! i) = bd_bytes (pb_deliveries p ! i)
          \<and> (i < pb_current p \<longrightarrow> length (bd_bytes (pb_deliveries p ! i)) = me_bytes (pb_manifest p ! i))
          \<and> (i = pb_current p \<longrightarrow> length (bd_bytes (pb_deliveries p ! i)) = pb_next p * MAX_FINAL_CHUNK_BYTES
               \<and> pb_next p < me_chunks (pb_manifest p ! i))
          \<and> (pb_current p < i \<longrightarrow> bd_bytes (pb_deliveries p ! i) = []))"

lemma entry_fits_chunks: "entry_fits e \<Longrightarrow> 0 < me_chunks e"
  using div_ceil_le[of MAX_FINAL_CHUNK_BYTES "me_bytes e" 0] by (simp add: entry_fits_def)

lemma received_begin:
  assumes "list_all entry_fits manifest" and "manifest \<noteq> []"
  shows "received \<lparr>pb_request = q, pb_bundle = b, pb_replay = r, pb_manifest = manifest,
     pb_deliveries = replicate (length manifest) \<lparr>bd_bytes = [], bd_digest = []\<rparr>,
     pb_current = 0, pb_next = 0, pb_buffered = 0\<rparr>"
  using assms entry_fits_chunks by (auto simp: received_def list_all_length sum_list_replicate)

definition with_chunk :: "string \<Rightarrow> pending_bundle \<Rightarrow> pending_bundle" where
  "with_chunk c p =
     (let i = pb_current p; d = pb_deliveries p ! i; full = pb_next p + 1 = me_chunks (pb_manifest p ! i) in
      p\<lparr>pb_deliveries := (pb_deliveries p)[i := \<lparr>bd_bytes = bd_bytes d @ c, bd_digest = bd_digest d @ c\<rparr>],
        pb_buffered := pb_buffered p + length c, pb_current := (if full then i + 1 else i),
        pb_next := (if full then 0 else pb_next p + 1)\<rparr>)"

lemma store_chunk_Inr:
  "store_chunk (pb_manifest p ! pb_current p) c p = (Inr u, p') \<longleftrightarrow>
     pb_buffered p + length c \<le> MAX_BUNDLE_BYTES \<and> p' = with_chunk c p"
proof -
  have "MAX_BUNDLE_BYTES \<le> usize_max" by (simp add: MAX_BUNDLE_BYTES_def usize_max_def)
  then show ?thesis by (auto simp: store_chunk_def with_chunk_def Let_def)
qed

text \<open>The next chunk and nothing else is taken.\<close>

lemma accept_chunk_Inr:
  assumes laws: "base64_laws y" and size: "sum_list (map me_bytes (pb_manifest p)) \<le> MAX_BUNDLE_BYTES"
    and r: "received p"
  shows "accept_chunk y q b d i s p = (Inr u, p') \<longleftrightarrow>
     pb_request p = q \<and> pb_bundle p = b \<and> pb_current p < length (pb_manifest p)
     \<and> d = me_delivery (pb_manifest p ! pb_current p) \<and> i = pb_next p
     \<and> (\<exists>c. s = base64_encode y c \<and> length c = expected_bytes (pb_manifest p ! pb_current p) i
          \<and> pb_buffered p + length c \<le> MAX_BUNDLE_BYTES \<and> p' = with_chunk c p)"
    (is "?l \<longleftrightarrow> ?r")
proof -
  let ?e = "pb_manifest p ! pb_current p"
  have offset: "pb_next p * MAX_FINAL_CHUNK_BYTES \<le> usize_max" if cur: "pb_current p < length (pb_manifest p)"
  proof -
    have "entry_fits ?e" "pb_next p < me_chunks ?e" using r cur by (auto simp: received_def list_all_length)
    then have "pb_next p * MAX_FINAL_CHUNK_BYTES < me_bytes ?e" by (rule expected_bytes_bounds(1))
    moreover have "me_bytes ?e \<le> sum_list (map me_bytes (pb_manifest p))"
      using cur by (intro member_le_sum_list) auto
    moreover have "MAX_BUNDLE_BYTES \<le> usize_max" by (simp add: MAX_BUNDLE_BYTES_def usize_max_def)
    ultimately show ?thesis using size by linarith
  qed
  show ?thesis
  proof
    assume ?l
    then have "pb_request p = q" "pb_bundle p = b" "pb_current p < length (pb_manifest p)" "d = me_delivery ?e"
        "i = pb_next p" by (auto simp: accept_chunk_def Let_def split: if_splits)
    moreover obtain c where c: "base64_decode y s = Some c" "length c = expected_bytes ?e i" "store_chunk ?e c p = (Inr u, p')"
      using \<open>?l\<close> by (auto simp: accept_chunk_def Let_def split: if_splits option.splits)
    moreover have "s = base64_encode y c" using base64_facts(2)[OF laws c(1)] .
    ultimately show ?r using c(3) unfolding store_chunk_Inr by blast
  next
    assume r: ?r
    then obtain c where "s = base64_encode y c" "length c = expected_bytes ?e i"
      "pb_buffered p + length c \<le> MAX_BUNDLE_BYTES" "p' = with_chunk c p" by blast
    moreover have "store_chunk ?e c p = (Inr u, p')" unfolding store_chunk_Inr using calculation by simp
    ultimately show ?l using r offset base64_facts(1,3)[OF laws] by (simp add: accept_chunk_def Let_def)
  qed
qed

lemma received_with_chunk:
  assumes r: "received p" and cur: "pb_current p < length (pb_manifest p)"
    and c: "length c = expected_bytes (pb_manifest p ! pb_current p) (pb_next p)"
  shows "received (with_chunk c p)"
    "absorbed y (with_chunk c p) = absorbed y p @ [chunk_event y (pb_request p) (pb_bundle p)
       (me_delivery (pb_manifest p ! pb_current p)) (pb_next p, c)]"
proof -
  let ?i = "pb_current p" and ?e = "pb_manifest p ! pb_current p" and ?ds = "pb_deliveries p"
  let ?bss = "map bd_bytes ?ds"
  have len: "length ?ds = length (pb_manifest p)" and e: "entry_fits ?e" and n: "pb_next p < me_chunks ?e"
    and i: "length (bd_bytes (?ds ! ?i)) = pb_next p * MAX_FINAL_CHUNK_BYTES" "bd_digest (?ds ! ?i) = bd_bytes (?ds ! ?i)"
    and later: "\<forall>j < length (pb_manifest p). ?i < j \<longrightarrow> bd_bytes (?ds ! j) = []"
    using r cur by (auto simp: received_def list_all_length)
  note bounds = expected_bytes_bounds[OF e n]
  have upd: "map bd_bytes (?ds[?i := \<lparr>bd_bytes = bd_bytes (?ds ! ?i) @ c, bd_digest = bd_digest (?ds ! ?i) @ c\<rparr>]) =
      ?bss[?i := bd_bytes (?ds ! ?i) @ c]"
    by (simp add: map_update)
  have chunk: "delivery_chunks y q b d (bd_bytes (?ds ! ?i) @ c) =
      delivery_chunks y q b d (bd_bytes (?ds ! ?i)) @ [chunk_event y q b d (pb_next p, c)]" for q b d
    using bounds(2,3) c by (intro delivery_chunks_append[OF i(1)]) simp_all
  have "canonical_chunks y q b (pb_manifest p) (?bss[?i := bd_bytes (?ds ! ?i) @ c]) =
      canonical_chunks y q b (pb_manifest p) ?bss @ [chunk_event y q b (me_delivery ?e) (pb_next p, c)]" for q b
  proof -
    have 1: "canonical_chunks y q b (pb_manifest p) ?bss =
        canonical_chunks y q b (take ?i (pb_manifest p)) (take ?i ?bss) @ delivery_chunks y q b (me_delivery ?e) (?bss ! ?i)"
      using len cur later by (intro canonical_chunks_at) auto
    have 2: "canonical_chunks y q b (pb_manifest p) (?bss[?i := bd_bytes (?ds ! ?i) @ c]) =
        canonical_chunks y q b (take ?i (pb_manifest p)) (take ?i (?bss[?i := bd_bytes (?ds ! ?i) @ c]))
        @ delivery_chunks y q b (me_delivery ?e) (?bss[?i := bd_bytes (?ds ! ?i) @ c] ! ?i)"
      using len cur later by (intro canonical_chunks_at) auto
    show ?thesis using len cur by (simp add: 1 2 chunk)
  qed
  then show "absorbed y (with_chunk c p) = absorbed y p @ [chunk_event y (pb_request p) (pb_bundle p)
      (me_delivery ?e) (pb_next p, c)]"
    by (simp add: absorbed_def with_chunk_def Let_def map_update)
  have sum: "sum_list (map (\<lambda>d. length (bd_bytes d))
      (?ds[?i := \<lparr>bd_bytes = bd_bytes (?ds ! ?i) @ c, bd_digest = bd_digest (?ds ! ?i) @ c\<rparr>])) = pb_buffered p + length c"
  proof -
    have "map (\<lambda>d. length (bd_bytes d)) (?ds[?i := \<lparr>bd_bytes = bd_bytes (?ds ! ?i) @ c, bd_digest = bd_digest (?ds ! ?i) @ c\<rparr>]) =
        (map (\<lambda>d. length (bd_bytes d)) ?ds)[?i := length (bd_bytes (?ds ! ?i)) + length c]"
      by (simp add: map_update)
    moreover have "pb_buffered p = sum_list (map (\<lambda>d. length (bd_bytes d)) ?ds)" using r by (simp add: received_def)
    moreover have "length (bd_bytes (?ds ! ?i)) \<le> sum_list (map (\<lambda>d. length (bd_bytes d)) ?ds)"
      using len cur by (intro member_le_sum_list) auto
    ultimately show ?thesis using len cur by (simp add: sum_list_update)
  qed
  have start: "0 < me_chunks (pb_manifest p ! j)" if "j < length (pb_manifest p)" for j
    using r that entry_fits_chunks by (auto simp: received_def list_all_length)
  show "received (with_chunk c p)"
  proof (cases "pb_next p + 1 = me_chunks ?e")
    case True
    then have "length (bd_bytes (?ds ! ?i)) + length c = me_bytes ?e" using bounds(4) i(1) c by simp
    then show ?thesis using r cur True sum start i later len
      by (auto simp: received_def with_chunk_def Let_def nth_list_update less_Suc_eq)
  next
    case False
    then have "length (bd_bytes (?ds ! ?i)) + length c = (pb_next p + 1) * MAX_FINAL_CHUNK_BYTES"
      using bounds(5) i(1) c by simp
    then show ?thesis using r cur False sum n i later len
      by (auto simp: received_def with_chunk_def Let_def nth_list_update)
  qed
qed

section \<open>A transmission under way\<close>

definition in_flight :: "request_id \<Rightarrow> pending_bundle \<Rightarrow> verifier" where
  "in_flight q p = \<lparr>vf_expected = Some q, vf_bundle = Some p, vf_final = False\<rparr>"

lemma handle_in_flight:
  assumes "verifier_handle x y z ev (in_flight q p) = (Inr r, s')"
  obtains (chunk) b d i s p' u where "se_body ev = SvFinalChunk q b d i s" "r = None"
      "accept_chunk y q b d i s p = (Inr u, p')" "s' = in_flight q p'"
    | (finish) b h v where "se_body ev = SvFinalEnd q b h" "r = Some v" "verify_pending x y z q b h p = Inr v" "vf_final s'"
proof (cases "se_body ev")
  case (SvFinalBegin q' b replay m)
  then show ?thesis using assms
    by (simp add: verifier_handle_def in_flight_def final_begin_def ebind_def require_def split: sum.splits)
next
  case (SvFinalChunk q' b d i s)
  obtain r' p' where a: "accept_chunk y q' b d i s p = (r', p')" by fastforce
  have "q' = q" "r = None" "isl r' = False" "s' = in_flight q p'"
    using assms SvFinalChunk a
    by (auto simp: verifier_handle_def in_flight_def final_chunk_def require_request_def require_def ebind_def
        split: sum.splits if_splits)
  then show ?thesis using chunk SvFinalChunk a by (cases r') auto
next
  case (SvFinalEnd q' b h)
  have "q' = q" using assms SvFinalEnd
    by (auto simp: verifier_handle_def in_flight_def final_end_def require_request_def require_def split: if_splits)
  then show ?thesis using assms SvFinalEnd finish
    by (auto simp: verifier_handle_def in_flight_def final_end_def require_request_def Let_def split: sum.splits)
qed (use assms in \<open>auto simp: verifier_handle_def in_flight_def\<close>)

lemma verify_after_final: "vf_final s \<Longrightarrow> evs \<noteq> [] \<Longrightarrow> fst (verify_events x y z evs s) \<noteq> Inr r"
  by (cases evs) (auto simp: verifier_handle_def)

definition transferring :: "request_id \<Rightarrow> pending_bundle \<Rightarrow> bool" where
  "transferring q p \<longleftrightarrow> received p \<and> pb_request p = q \<and> sum_list (map me_bytes (pb_manifest p)) \<le> MAX_BUNDLE_BYTES"

lemma transferring_chunk:
  assumes "base64_laws y" and t: "transferring q p" and a: "accept_chunk y q b d i s p = (Inr u, p')"
  shows "transferring q p'" "b = pb_bundle p"
    "absorbed y p' = absorbed y p @ [server_event_new (SvFinalChunk q b d i s)]"
    "pb_manifest p' = pb_manifest p" "pb_bundle p' = pb_bundle p" "pb_replay p' = pb_replay p"
proof -
  have size: "sum_list (map me_bytes (pb_manifest p)) \<le> MAX_BUNDLE_BYTES" and r: "received p" and q: "pb_request p = q"
    using t by (auto simp: transferring_def)
  obtain c where c: "pb_bundle p = b" "pb_current p < length (pb_manifest p)"
      "d = me_delivery (pb_manifest p ! pb_current p)" "i = pb_next p" "s = base64_encode y c"
      "length c = expected_bytes (pb_manifest p ! pb_current p) i" "p' = with_chunk c p"
    using a unfolding accept_chunk_Inr[OF assms(1) size r] by blast
  have same: "pb_manifest p' = pb_manifest p" "pb_bundle p' = pb_bundle p" "pb_replay p' = pb_replay p" "pb_request p' = q"
    using q by (simp_all add: c(7) with_chunk_def Let_def)
  show "transferring q p'" "absorbed y p' = absorbed y p @ [server_event_new (SvFinalChunk q b d i s)]"
    using received_with_chunk[OF r c(2), of c] c same size q by (auto simp: transferring_def chunk_event_def)
  show "b = pb_bundle p" "pb_manifest p' = pb_manifest p" "pb_bundle p' = pb_bundle p" "pb_replay p' = pb_replay p"
    using c(1) same by simp_all
qed

text \<open>An accepted run from the middle: chunks, and an end that finds everything in order.\<close>

lemma accepted_run:
  assumes laws: "base64_laws y"
    and "verify_events x y z evs (in_flight q p) = (Inr (Some v), s')" and "transferring q p"
  shows "\<exists>p' h cs. transferring q p' \<and> pb_manifest p' = pb_manifest p \<and> pb_bundle p' = pb_bundle p \<and> pb_replay p' = pb_replay p
     \<and> absorbed y p' = absorbed y p @ cs \<and> verify_pending x y z q (pb_bundle p) h p' = Inr v
     \<and> map se_body evs = map se_body cs @ [SvFinalEnd q (pb_bundle p) h]"
  using assms(2,3)
proof (induction evs arbitrary: p)
  case (Cons ev evs)
  obtain r s1 where h: "verifier_handle x y z ev (in_flight q p) = (Inr r, s1)"
    using Cons.prems(1) by (auto split: prod.splits sum.splits)
  from h show ?case
  proof (cases rule: handle_in_flight)
    case (chunk b d i s p' u)
    note step = transferring_chunk[OF laws Cons.prems(2) chunk(3)]
    have "evs \<noteq> []" "verify_events x y z evs (in_flight q p') = (Inr (Some v), s')"
      using Cons.prems(1) h chunk by (auto split: if_splits)
    from Cons.IH[OF this(2) step(1)] obtain p'' h' cs where
      "transferring q p''" "pb_manifest p'' = pb_manifest p'" "pb_bundle p'' = pb_bundle p'" "pb_replay p'' = pb_replay p'"
      "absorbed y p'' = absorbed y p' @ cs" "verify_pending x y z q (pb_bundle p') h' p'' = Inr v"
      "map se_body evs = map se_body cs @ [SvFinalEnd q (pb_bundle p') h']" by blast
    then show ?thesis using step chunk(1)
      by (intro exI[of _ p''] exI[of _ h'] exI[of _ "server_event_new (SvFinalChunk q b d i s) # cs"]) simp
  next
    case (finish b h' v')
    have "evs = []"
      using Cons.prems(1) h finish(2) verify_after_final[OF finish(4), of evs x y z "Some v"] by (auto split: if_splits)
    then have "evs = [] \<and> v' = v" using Cons.prems(1) h finish(2) by simp
    moreover have "pb_bundle p = b" using finish(3) by (auto simp: verify_pending_def ebind_eq_Inr)
    ultimately show ?thesis using finish Cons.prems(2) by (intro exI[of _ p] exI[of _ h'] exI[of _ "[]"]) simp
  qed
qed simp

lemma verify_delivery_Inr:
  assumes "entry_fits e" and "bd_digest d = bd_bytes d"
  shows "verify_delivery x y z (e, d) = Inr v \<longleftrightarrow> payload_agrees x y z e (bd_bytes d) v"
proof -
  have v: "v = \<lparr>vd_id = i, vd_payload = f\<rparr> \<longleftrightarrow> vd_id v = i \<and> vd_payload v = f" for i f
    by (cases v) simp
  have "me_bytes e = length (bd_bytes d) \<Longrightarrow> bd_bytes d \<noteq> [] \<and> me_chunks e = div_ceil (length (bd_bytes d)) MAX_FINAL_CHUNK_BYTES"
    using assms(1) by (auto simp: entry_fits_def)
  then show ?thesis
    using assms(2) by (auto simp: verify_delivery_def payload_agrees_def ebind_eq_Inr v)
qed

text \<open>The checks at the end, once every chunk has arrived.\<close>

lemma verify_pending_Inr:
  assumes t: "transferring q p" and fits: "manifest_fits x (pb_manifest p)" and vs: "length (pb_manifest p) = length vs"
  shows "verify_pending x y z q b h p =
      Inr \<lparr>vb_request = q, vb_bundle = b, vb_replay = pb_replay p, vb_sha256 = h, vb_deliveries = vs\<rparr> \<longleftrightarrow>
     pb_bundle p = b \<and> h = sha256_hex x (write_manifest x (pb_manifest p)) \<and> pb_current p = length (pb_manifest p)
     \<and> bundle_agrees x y z (pb_manifest p) (map bd_bytes (pb_deliveries p)) vs"
proof -
  let ?m = "pb_manifest p" and ?ds = "pb_deliveries p"
  have r: "received p" "pb_request p = q" using t by (auto simp: transferring_def)
  have len: "length ?ds = length ?m" and each: "list_all entry_fits ?m"
    and digest: "\<And>i. i < length ?m \<Longrightarrow> bd_digest (?ds ! i) = bd_bytes (?ds ! i)"
    and next0: "pb_current p = length ?m \<Longrightarrow> pb_next p = 0"
    and buffered: "pb_buffered p = sum_list (map (\<lambda>d. length (bd_bytes d)) ?ds)"
    using r(1) by (auto simp: received_def)
  have total: "pb_buffered p = sum_list (map me_bytes ?m)" if "pb_current p = length ?m"
  proof -
    have "map (\<lambda>d. length (bd_bytes d)) ?ds = map me_bytes ?m"
      using r(1) that len by (intro nth_equalityI) (auto simp: received_def)
    then show ?thesis using buffered by simp
  qed
  have "emap (verify_delivery x y z) (zip ?m ?ds) = Inr vs \<longleftrightarrow>
      (\<forall>i < length ?m. payload_agrees x y z (?m ! i) (bd_bytes (?ds ! i)) (vs ! i))"
    using len vs each digest
    by (auto simp: emap_eq_Inr list_all2_conv_all_nth list_all_length verify_delivery_Inr)
  then show ?thesis
    using next0 total r(2) fits len vs by (auto simp: verify_pending_def ebind_eq_Inr bundle_agrees_def)
qed

lemma verify_pending_result:
  assumes "verify_pending x y z q b h p = Inr v" and "length (pb_deliveries p) = length (pb_manifest p)"
  shows "v = \<lparr>vb_request = q, vb_bundle = b, vb_replay = pb_replay p, vb_sha256 = h, vb_deliveries = vb_deliveries v\<rparr>
    \<and> length (pb_manifest p) = length (vb_deliveries v)"
  using assms by (auto simp: verify_pending_def ebind_eq_Inr emap_eq_Inr dest: list_all2_lengthD)

section \<open>Canonical transmissions are accepted\<close>

lemma received_bounded:
  assumes "received p"
  shows "pb_buffered p \<le> sum_list (map me_bytes (pb_manifest p))"
proof -
  let ?m = "pb_manifest p" and ?ds = "pb_deliveries p"
  have len: "length ?ds = length ?m" using assms by (simp add: received_def)
  have "length (bd_bytes (?ds ! i)) \<le> me_bytes (?m ! i)" if i: "i < length ?m" for i
  proof -
    consider "i < pb_current p" | "i = pb_current p" | "pb_current p < i" by linarith
    then show ?thesis
    proof cases
      case 2
      then have "entry_fits (?m ! i)" "pb_next p < me_chunks (?m ! i)"
        "length (bd_bytes (?ds ! i)) = pb_next p * MAX_FINAL_CHUNK_BYTES"
        using assms i by (auto simp: received_def list_all_length)
      then show ?thesis using expected_bytes_bounds(1) by fastforce
    qed (use assms i in \<open>auto simp: received_def\<close>)
  qed
  then have "sum_list (map (\<lambda>d. length (bd_bytes d)) ?ds) \<le> sum_list (map me_bytes ?m)"
    using len by (auto simp: sum_list_sum_nth intro!: sum_mono)
  then show ?thesis using assms by (simp add: received_def)
qed

definition buffers_prefix :: "pending_bundle \<Rightarrow> string list \<Rightarrow> bool" where
  "buffers_prefix p bss \<longleftrightarrow> map length bss = map me_bytes (pb_manifest p)
     \<and> (\<forall>i < length bss. bd_bytes (pb_deliveries p ! i) = take (length (bd_bytes (pb_deliveries p ! i))) (bss ! i))"

lemma buffered_prefix:
  assumes "buffers_prefix p bss" and "i < length bss"
  shows "bd_bytes (pb_deliveries p ! i) = take (length (bd_bytes (pb_deliveries p ! i))) (bss ! i)"
  using assms unfolding buffers_prefix_def by blast

lemma next_chunk:
  assumes laws: "base64_laws y" and t: "transferring q p" and pre: "buffers_prefix p bss"
    and cur: "pb_current p < length (pb_manifest p)"
  shows "\<exists>ev p'. verifier_handle x y z ev (in_flight q p) = (Inr None, in_flight q p') \<and> transferring q p'
     \<and> buffers_prefix p' bss \<and> absorbed y p' = absorbed y p @ [ev] \<and> pb_buffered p < pb_buffered p'
     \<and> pb_manifest p' = pb_manifest p \<and> pb_bundle p' = pb_bundle p \<and> pb_replay p' = pb_replay p"
proof -
  let ?i = "pb_current p" and ?e = "pb_manifest p ! pb_current p" and ?ds = "pb_deliveries p"
  let ?n = "expected_bytes ?e (pb_next p)"
  define c where "c = take ?n (drop (pb_next p * MAX_FINAL_CHUNK_BYTES) (bss ! ?i))"
  have r: "received p" "pb_request p = q" and size: "sum_list (map me_bytes (pb_manifest p)) \<le> MAX_BUNDLE_BYTES"
    using t by (auto simp: transferring_def)
  have e: "entry_fits ?e" "pb_next p < me_chunks ?e" and len: "length ?ds = length (pb_manifest p)"
    and at: "length (bd_bytes (?ds ! ?i)) = pb_next p * MAX_FINAL_CHUNK_BYTES"
    using r(1) cur by (auto simp: received_def list_all_length)
  have lens: "length bss = length (pb_manifest p)" "length (bss ! ?i) = me_bytes ?e"
    using pre cur by (auto simp: buffers_prefix_def dest: arg_cong[of _ _ length]) (metis length_map nth_map)
  have n: "?n \<le> me_bytes ?e - pb_next p * MAX_FINAL_CHUNK_BYTES" by (simp add: expected_bytes_def)
  then have c: "length c = ?n" using lens(2) by (simp add: c_def)
  have rc: "received (with_chunk c p)" by (rule received_with_chunk(1)[OF r(1) cur c])
  have more: "pb_buffered (with_chunk c p) = pb_buffered p + length c" by (simp add: with_chunk_def Let_def)
  have "pb_buffered p + length c \<le> MAX_BUNDLE_BYTES"
    using received_bounded[OF rc] size more by (simp add: with_chunk_def Let_def)
  then have a: "accept_chunk y q (pb_bundle p) (me_delivery ?e) (pb_next p) (base64_encode y c) p = (Inr (), with_chunk c p)"
    unfolding accept_chunk_Inr[OF laws size r(1)] using r(2) cur c by blast
  note step = transferring_chunk[OF laws t a]
  have "verifier_handle x y z (server_event_new (SvFinalChunk q (pb_bundle p) (me_delivery ?e) (pb_next p) (base64_encode y c)))
      (in_flight q p) = (Inr None, in_flight q (with_chunk c p))"
    using a by (simp add: verifier_handle_def in_flight_def final_chunk_def require_request_def)
  moreover have "buffers_prefix (with_chunk c p) bss"
  proof -
    have "bd_bytes (?ds ! ?i) @ c = take (pb_next p * MAX_FINAL_CHUNK_BYTES + ?n) (bss ! ?i)"
      using buffered_prefix[OF pre, of ?i] cur lens at by (simp add: c_def take_add)
    moreover have "pb_next p * MAX_FINAL_CHUNK_BYTES + ?n \<le> me_bytes ?e" using n expected_bytes_bounds(1)[OF e] by linarith
    ultimately show ?thesis using pre cur lens at c len
      by (auto simp: buffers_prefix_def with_chunk_def Let_def nth_list_update min.absorb2)
  qed
  moreover have "0 < length c" using expected_bytes_bounds(2)[OF e] c by simp
  ultimately show ?thesis using step more
    by (intro exI[of _ "server_event_new (SvFinalChunk q (pb_bundle p) (me_delivery ?e) (pb_next p) (base64_encode y c))"]
        exI[of _ "with_chunk c p"]) simp
qed

lemma run_to_end:
  assumes laws: "base64_laws y" and "transferring q p" and "buffers_prefix p bss"
  shows "\<exists>cs p'. (\<forall>rest. rest \<noteq> [] \<longrightarrow> verify_events x y z (cs @ rest) (in_flight q p) = verify_events x y z rest (in_flight q p'))
     \<and> transferring q p' \<and> map bd_bytes (pb_deliveries p') = bss \<and> absorbed y p' = absorbed y p @ cs
     \<and> pb_current p' = length (pb_manifest p) \<and> pb_manifest p' = pb_manifest p \<and> pb_bundle p' = pb_bundle p
     \<and> pb_replay p' = pb_replay p"
  using assms(2,3)
proof (induction "sum_list (map me_bytes (pb_manifest p)) - pb_buffered p" arbitrary: p rule: less_induct)
  case less
  have r: "received p" using less.prems(1) by (simp add: transferring_def)
  show ?case
  proof (cases "pb_current p < length (pb_manifest p)")
    case True
    obtain ev p' where h: "verifier_handle x y z ev (in_flight q p) = (Inr None, in_flight q p')" "transferring q p'"
      "buffers_prefix p' bss" "absorbed y p' = absorbed y p @ [ev]" "pb_buffered p < pb_buffered p'"
      "pb_manifest p' = pb_manifest p" "pb_bundle p' = pb_bundle p" "pb_replay p' = pb_replay p"
      using next_chunk[OF laws less.prems True] by blast
    have "pb_buffered p' \<le> sum_list (map me_bytes (pb_manifest p))"
      using received_bounded[of p'] h(2,6) by (simp add: transferring_def)
    then have "sum_list (map me_bytes (pb_manifest p')) - pb_buffered p' < sum_list (map me_bytes (pb_manifest p)) - pb_buffered p"
      using h(5,6) by simp
    from less.hyps[OF this h(2,3)] obtain cs p'' where
      "\<forall>rest. rest \<noteq> [] \<longrightarrow> verify_events x y z (cs @ rest) (in_flight q p') = verify_events x y z rest (in_flight q p'')"
      "transferring q p''" "map bd_bytes (pb_deliveries p'') = bss" "absorbed y p'' = absorbed y p' @ cs"
      "pb_current p'' = length (pb_manifest p')" "pb_manifest p'' = pb_manifest p'" "pb_bundle p'' = pb_bundle p'"
      "pb_replay p'' = pb_replay p'" by blast
    then show ?thesis using h by (intro exI[of _ "ev # cs"] exI[of _ p'']) simp
  next
    case False
    have lens: "length bss = length (pb_manifest p)" "length (pb_deliveries p) = length (pb_manifest p)"
      using less.prems(2) r by (auto simp: buffers_prefix_def received_def dest: arg_cong[of _ _ length])
    have "map bd_bytes (pb_deliveries p) = bss"
    proof (rule nth_equalityI)
      fix i assume "i < length (map bd_bytes (pb_deliveries p))"
      then have i: "i < length (pb_manifest p)" using lens by simp
      then have "length (bd_bytes (pb_deliveries p ! i)) = me_bytes (pb_manifest p ! i)"
        using r False by (simp add: received_def)
      moreover have "length (bss ! i) = me_bytes (pb_manifest p ! i)"
        using less.prems(2) i lens by (metis buffers_prefix_def length_map nth_map)
      ultimately show "map bd_bytes (pb_deliveries p) ! i = bss ! i"
        using buffered_prefix[OF less.prems(2), of i] i lens by simp
    qed (simp add: lens)
    moreover have "pb_current p = length (pb_manifest p)" using r False by (simp add: received_def)
    ultimately show ?thesis using less.prems by (intro exI[of _ "[]"] exI[of _ p]) simp
  qed
qed

section \<open>The two ends agree\<close>

lemma handle_begin:
  "verifier_handle x y z ev (verifier_for q) = (Inr r, s) \<longleftrightarrow>
     (\<exists>b replay manifest. se_body ev = SvFinalBegin q b replay manifest \<and> r = None \<and> manifest_fits x manifest
        \<and> list_all entry_fits manifest
        \<and> s = in_flight q \<lparr>pb_request = q, pb_bundle = b, pb_replay = replay, pb_manifest = manifest,
            pb_deliveries = replicate (length manifest) \<lparr>bd_bytes = [], bd_digest = []\<rparr>,
            pb_current = 0, pb_next = 0, pb_buffered = 0\<rparr>)"
proof (cases "se_body ev")
  case (SvFinalBegin q' b replay manifest)
  show ?thesis
  proof (cases "q' = q")
    case True
    have ok: "final_begin x q b replay manifest (verifier_for q) = (Inr u, s) \<longleftrightarrow>
        manifest_fits x manifest \<and> list_all entry_fits manifest
        \<and> s = in_flight q \<lparr>pb_request = q, pb_bundle = b, pb_replay = replay, pb_manifest = manifest,
            pb_deliveries = replicate (length manifest) \<lparr>bd_bytes = [], bd_digest = []\<rparr>,
            pb_current = 0, pb_next = 0, pb_buffered = 0\<rparr>" for u
      unfolding final_begin_Inr by (simp add: verifier_for_def in_flight_def)
    obtain a s1 where "final_begin x q b replay manifest (verifier_for q) = (a, s1)" by fastforce
    then show ?thesis using ok SvFinalBegin True
      by (cases a) (auto simp: verifier_handle_def verifier_for_def)
  next
    case False
    then show ?thesis using SvFinalBegin
      by (auto simp: verifier_handle_def verifier_for_def final_begin_def require_request_def require_def)
  qed
qed (auto simp: verifier_handle_def verifier_for_def final_chunk_def final_end_def require_request_def require_def
    split: sum.splits if_splits)

lemma canonical_chunks_empty: "canonical_chunks y q b m (replicate n []) = []"
  by (auto simp: canonical_chunks_def in_set_zip split_beta)

definition started :: "request_id \<Rightarrow> bundle_id \<Rightarrow> bool \<Rightarrow> manifest_entry list \<Rightarrow> pending_bundle" where
  "started q b replay manifest = \<lparr>pb_request = q, pb_bundle = b, pb_replay = replay, pb_manifest = manifest,
     pb_deliveries = replicate (length manifest) \<lparr>bd_bytes = [], bd_digest = []\<rparr>,
     pb_current = 0, pb_next = 0, pb_buffered = 0\<rparr>"

lemma started_simps [simp]:
  "pb_manifest (started q b replay manifest) = manifest" "pb_bundle (started q b replay manifest) = b"
  "pb_replay (started q b replay manifest) = replay"
  by (simp_all add: started_def)

lemma transferring_started:
  assumes "manifest_fits x manifest" and "list_all entry_fits manifest"
  shows "transferring q (started q b replay manifest)" "absorbed y (started q b replay manifest) = []"
  using assms received_begin[OF assms(2)]
  by (auto simp: transferring_def started_def manifest_fits_def absorbed_def canonical_chunks_empty)

lemma verify_events_bodies:
  "map se_body evs = map se_body evs' \<Longrightarrow> verify_events x y z evs s = verify_events x y z evs' s"
proof (induction evs arbitrary: evs' s)
  case (Cons ev evs)
  obtain ev' rest where e: "evs' = ev' # rest" "se_body ev' = se_body ev" "map se_body evs = map se_body rest"
    using Cons.prems by (cases evs') auto
  have "verifier_handle x y z ev s = verifier_handle x y z ev' s" by (simp add: verifier_handle_def e(2))
  moreover have "evs = [] \<longleftrightarrow> rest = []" using arg_cong[OF e(3), of length] by auto
  ultimately show ?case using Cons.IH[OF e(3)] by (simp add: e(1) split: prod.split sum.split)
qed simp

lemma agreeing_entries_fit:
  assumes "bundle_agrees x y z manifest bss vs"
  shows "manifest_fits x manifest" "list_all entry_fits manifest" "map length bss = map me_bytes manifest"
proof -
  have "entry_fits (manifest ! i) \<and> length (bss ! i) = me_bytes (manifest ! i)" if "i < length manifest" for i
  proof -
    obtain payload where "payload_agrees x y z (manifest ! i) (bss ! i) (vs ! i)" "view_kind payload = me_kind (manifest ! i)"
      using assms \<open>i < length manifest\<close> by (auto simp: bundle_agrees_def payload_agrees_def)
    then show ?thesis by (cases payload) (auto simp: payload_agrees_def entry_fits_def)
  qed
  then show "manifest_fits x manifest" "list_all entry_fits manifest" "map length bss = map me_bytes manifest"
    using assms by (auto simp: bundle_agrees_def list_all_length intro: nth_equalityI)
qed

lemma accepted_is_canonical:
  assumes "base64_laws y" and "fst (verify_events x y z evs (verifier_for q)) = Inr (Some v)"
  shows "\<exists>manifest bss. bundle_agrees x y z manifest bss (vb_deliveries v)
        \<and> v = \<lparr>vb_request = q, vb_bundle = vb_bundle v, vb_replay = vb_replay v,
               vb_sha256 = sha256_hex x (write_manifest x manifest), vb_deliveries = vb_deliveries v\<rparr>
        \<and> map se_body evs = map se_body (transmission x y q (vb_bundle v) (vb_replay v) manifest bss)"
proof -
  from assms(2) obtain s' where "verify_events x y z evs (verifier_for q) = (Inr (Some v), s')" by (metis prod.collapse)
  moreover from this obtain ev evs' where evs: "evs = ev # evs'" by (cases evs) auto
  ultimately obtain r s1 where h: "verifier_handle x y z ev (verifier_for q) = (Inr r, s1)"
    by (auto split: prod.splits sum.splits)
  then obtain b replay manifest where m: "se_body ev = SvFinalBegin q b replay manifest" "r = None"
      "manifest_fits x manifest" "list_all entry_fits manifest" "s1 = in_flight q (started q b replay manifest)"
    unfolding handle_begin started_def by blast
  let ?p = "started q b replay manifest"
  have "verify_events x y z evs' (in_flight q ?p) = (Inr (Some v), s')"
    using \<open>verify_events x y z evs (verifier_for q) = (Inr (Some v), s')\<close> evs h m(2,5) by (auto split: if_splits)
  note start = transferring_started[OF m(3,4)]
  from accepted_run[OF assms(1) \<open>verify_events x y z evs' (in_flight q ?p) = (Inr (Some v), s')\<close> start(1)]
  obtain p' h cs where p': "transferring q p'" "pb_manifest p' = manifest" "pb_bundle p' = b" "pb_replay p' = replay"
      "absorbed y p' = cs" "verify_pending x y z q b h p' = Inr v"
      "map se_body evs' = map se_body cs @ [SvFinalEnd q b h]"
    by (auto simp: start(2))
  have lens: "length (pb_deliveries p') = length (pb_manifest p')" and req: "pb_request p' = q"
    using p'(1) by (auto simp: transferring_def received_def)
  note v = verify_pending_result[OF p'(6) lens]
  have "h = sha256_hex x (write_manifest x manifest) \<and>
      bundle_agrees x y z manifest (map bd_bytes (pb_deliveries p')) (vb_deliveries v)"
    using verify_pending_Inr[OF p'(1), where x = x and vs = "vb_deliveries v" and y = y and z = z and b = b and h = h] p'(2,6) m(3) v by auto
  moreover have fields: "vb_request v = q" "vb_bundle v = b" "vb_replay v = replay" "vb_sha256 v = h"
    using p'(4) arg_cong[OF conjunct1[OF v], of vb_request] arg_cong[OF conjunct1[OF v], of vb_bundle]
      arg_cong[OF conjunct1[OF v], of vb_replay] arg_cong[OF conjunct1[OF v], of vb_sha256] by simp_all
  moreover have "cs = canonical_chunks y q b manifest (map bd_bytes (pb_deliveries p'))"
    using p'(2,3,5) req by (simp add: absorbed_def)
  moreover have "v = \<lparr>vb_request = vb_request v, vb_bundle = vb_bundle v, vb_replay = vb_replay v, vb_sha256 = vb_sha256 v,
      vb_deliveries = vb_deliveries v\<rparr>" by simp
  ultimately show ?thesis using p'(7) m(1)
    by (intro exI[of _ manifest] exI[of _ "map bd_bytes (pb_deliveries p')"]) (simp add: evs transmission_def)
qed

lemma canonical_is_accepted:
  assumes "base64_laws y" and agrees: "bundle_agrees x y z manifest bss (vb_deliveries v)"
    and v: "v = \<lparr>vb_request = q, vb_bundle = vb_bundle v, vb_replay = vb_replay v,
        vb_sha256 = sha256_hex x (write_manifest x manifest), vb_deliveries = vb_deliveries v\<rparr>"
    and evs: "map se_body evs = map se_body (transmission x y q (vb_bundle v) (vb_replay v) manifest bss)"
  shows "fst (verify_events x y z evs (verifier_for q)) = Inr (Some v)"
proof -
  let ?p = "started q (vb_bundle v) (vb_replay v) manifest" and ?h = "sha256_hex x (write_manifest x manifest)"
  let ?fin = "server_event_new (SvFinalEnd q (vb_bundle v) ?h)"
  note fits = agreeing_entries_fit[OF agrees]
  note start = transferring_started[OF fits(1,2)]
  have pre: "buffers_prefix ?p bss"
    using fits(3) agrees by (auto simp: buffers_prefix_def started_def bundle_agrees_def)
  obtain cs p' where
    run: "\<forall>rest. rest \<noteq> [] \<longrightarrow> verify_events x y z (cs @ rest) (in_flight q ?p) = verify_events x y z rest (in_flight q p')"
    and p': "transferring q p'" "map bd_bytes (pb_deliveries p') = bss" "absorbed y p' = cs"
      "pb_current p' = length manifest" "pb_manifest p' = manifest" "pb_bundle p' = vb_bundle v" "pb_replay p' = vb_replay v"
    using run_to_end[OF assms(1) start(1) pre, where x = x and z = z, unfolded start(2) started_simps append_Nil] by blast
  have "cs = canonical_chunks y q (vb_bundle v) manifest bss"
    using p' by (simp add: absorbed_def transferring_def flip: p'(3))
  moreover have "verify_pending x y z q (vb_bundle v) ?h p' = Inr v"
    using verify_pending_Inr[OF p'(1), where x = x and vs = "vb_deliveries v" and y = y and z = z and b = "vb_bundle v" and h = ?h] fits(1) agrees p' v
    by (auto simp: bundle_agrees_def)
  then have "fst (verify_events x y z [?fin] (in_flight q p')) = Inr (Some v)"
    by (simp add: verifier_handle_def in_flight_def final_end_def require_request_def Let_def)
  moreover have "verifier_handle x y z (server_event_new (SvFinalBegin q (vb_bundle v) (vb_replay v) manifest)) (verifier_for q)
      = (Inr None, in_flight q ?p)"
    unfolding handle_begin started_def using fits by simp
  ultimately have "fst (verify_events x y z (transmission x y q (vb_bundle v) (vb_replay v) manifest bss) (verifier_for q))
      = Inr (Some v)"
    using run[rule_format, of "[?fin]"] by (simp add: transmission_def)
  then show ?thesis using verify_events_bodies[OF evs, of x y z "verifier_for q"] by simp
qed

text \<open>
  C7. The streaming verifier of a request is equivalent to checking the whole transmission at once:
  it returns a bundle for a sequence of events exactly when the events are, one for one, the
  canonical transmission of some deliveries under a manifest within the limits, every delivery has
  the length, chunk count, hash, kind and well-formed payload its entry names, and the bundle is
  those payloads in that order.
\<close>

theorem verifier_accepts_exactly:
  assumes "base64_laws y"
  shows "fst (verify_events x y z evs (verifier_for q)) = Inr (Some v) \<longleftrightarrow>
     (\<exists>manifest bss. bundle_agrees x y z manifest bss (vb_deliveries v)
        \<and> v = \<lparr>vb_request = q, vb_bundle = vb_bundle v, vb_replay = vb_replay v,
               vb_sha256 = sha256_hex x (write_manifest x manifest), vb_deliveries = vb_deliveries v\<rparr>
        \<and> map se_body evs = map se_body (transmission x y q (vb_bundle v) (vb_replay v) manifest bss))"
  using accepted_is_canonical[OF assms] canonical_is_accepted[OF assms] by blast

end
