(* ===== verification/Final_Delivery.thy ===== *)
theory Final_Delivery
  imports Final_Transfer Payload_Codec
begin

text \<open>
  From the row of a bundle to its acknowledgement: what the store loads, the server prepares and the
  client verifies, and that the store accepts the acknowledgement the client makes of it. Last, an
  instance of the base64 engine with which the theorems are applied.
\<close>

section \<open>What is relied on of the payload's JSON\<close>

text \<open>
  The bytes of a text, and what serde promises of a payload it has written: the reader of payloads
  reads it back, and the reader of raw fields finds its tag and its fields, every text as a JSON
  string that denotes the bytes of that text, a missing caption as null, and no other field.
\<close>

definition text_bytes :: "string \<Rightarrow> string" where
  "text_bytes s = map char_of (utf8_bytes s)"

definition quoted :: "string \<Rightarrow> string" where "quoted s = [CHR 0x22] @ s @ [CHR 0x22]"

definition json_field :: "string \<Rightarrow> string \<Rightarrow> bool" where
  "json_field raw s \<longleftrightarrow> json_string raw (text_bytes s)"

definition artifact_fields :: "managed_artifact \<Rightarrow> artifact_view \<Rightarrow> bool" where
  "artifact_fields a v \<longleftrightarrow>
     json_field (av_id v) (ma_id a) \<and> json_field (av_path v) (ma_path a)
     \<and> json_field (av_display_name v) (ma_display_name a) \<and> json_field (av_media_type v) (ma_media_type a)
     \<and> av_size v = ma_size a \<and> json_field (av_sha256 v) (ma_sha256 a)
     \<and> (case ma_caption a of None \<Rightarrow> av_caption v = ''null'' | Some c \<Rightarrow> json_field (av_caption v) c)"

fun raw_field :: "string \<Rightarrow> string option \<Rightarrow> bool" where
  "raw_field s None = False"
| "raw_field s (Some raw) = json_field raw s"

fun payload_fields :: "final_payload \<Rightarrow> payload_object \<Rightarrow> bool" where
  "payload_fields (FpText t) p \<longleftrightarrow> po_kind p = quoted ''text'' \<and> raw_field t (po_text p)
     \<and> po_artifact p = None \<and> po_code p = None \<and> po_message p = None"
| "payload_fields (FpFile a) p \<longleftrightarrow> po_kind p = quoted ''file'' \<and> po_text p = None
     \<and> (case po_artifact p of None \<Rightarrow> False | Some v \<Rightarrow> artifact_fields a v) \<and> po_code p = None \<and> po_message p = None"
| "payload_fields (FpTerminalError c m) p \<longleftrightarrow> po_kind p = quoted ''terminal_error'' \<and> po_text p = None
     \<and> po_artifact p = None \<and> raw_field c (po_code p) \<and> raw_field m (po_message p)"

definition payload_serialized :: "ext \<Rightarrow> payload_reader \<Rightarrow> final_payload \<Rightarrow> bool" where
  "payload_serialized x z f \<longleftrightarrow>
     write_final x f \<noteq> [] \<and> read_final z (write_final x f) = Inr f
     \<and> (case read_object z (write_final x f) of Inl e \<Rightarrow> False | Inr p \<Rightarrow> payload_fields f p)"

text \<open>\<open>std::str::from_utf8\<close> reads the bytes of a text as that text.\<close>

definition utf8_law :: "wire \<Rightarrow> bool" where
  "utf8_law y \<longleftrightarrow> (\<forall>s. from_utf8 y (text_bytes s) = Some s)"

text \<open>
  What the client asks of a file and the server does not: an identifier that is a UUID, an absolute
  path without a NUL, a display name, a media type and a hash of 64 hexadecimal digits.
\<close>

definition presentable_file :: "ext \<Rightarrow> managed_artifact \<Rightarrow> bool" where
  "presentable_file x a \<longleftrightarrow>
     parse_uuid x (ma_id a) \<noteq> None \<and> utf8_len (ma_id a) \<le> 64
     \<and> take 1 (ma_path a) = ''/'' \<and> CHR 0x00 \<notin> set (ma_path a)
     \<and> ma_display_name a \<noteq> [] \<and> ma_media_type a \<noteq> []
     \<and> length (ma_sha256 a) = 64 \<and> list_all ascii_hexdigit (ma_sha256 a)"

fun presentable :: "ext \<Rightarrow> final_payload \<Rightarrow> bool" where
  "presentable x (FpFile a) = presentable_file x a"
| "presentable x _ = True"

definition payload_readable :: "ext \<Rightarrow> wire \<Rightarrow> payload_reader \<Rightarrow> final_payload \<Rightarrow> bool" where
  "payload_readable x y z f \<longleftrightarrow>
     write_final x f \<noteq> [] \<and> read_final z (write_final x f) = Inr f
     \<and> (case parse_payload z (write_final x f) of
          Inl e \<Rightarrow> False
        | Inr v \<Rightarrow> view_kind v = payload_kind f \<and> validate_view x y v = Inr ())"

lemma text_bytes_simps [simp]:
  "text_bytes [] = []" "(of_char c :: nat) < 128 \<Longrightarrow> text_bytes (c # s) = c # text_bytes s"
  "length (text_bytes s) = utf8_len s" "text_bytes s = [] \<longleftrightarrow> s = []"
proof -
  show "text_bytes [] = []" "(of_char c :: nat) < 128 \<Longrightarrow> text_bytes (c # s) = c # text_bytes s"
    "length (text_bytes s) = utf8_len s"
    by (simp_all add: text_bytes_def utf8_bytes_def utf8_len_def Let_def)
  show "text_bytes s = [] \<longleftrightarrow> s = []"
    by (cases s) (simp_all only: text_bytes_def utf8_bytes_def Let_def list.map concat.simps, auto)
qed

lemma text_bytes_ascii: "\<forall>c \<in> set s. (of_char c :: nat) < 128 \<Longrightarrow> text_bytes s = s"
  by (induction s) simp_all

lemma text_bytes_NUL: "CHR 0x00 \<in> set (text_bytes s) \<Longrightarrow> CHR 0x00 \<in> set s"
proof -
  assume "CHR 0x00 \<in> set (text_bytes s)"
  then obtain n where n: "n \<in> set (utf8_bytes s)" "char_of n = CHR 0x00" by (auto simp: text_bytes_def)
  have "n < 256"
  proof -
    obtain c where "c \<in> set s" "n \<in> set (let n = (of_char c :: nat) in if n < 128 then [n] else [192 + n div 64, 128 + n mod 64])"
      using n(1) by (auto simp: utf8_bytes_def)
    moreover have "(of_char c :: nat) < 256" by (metis char_of_eq_iff of_char_mod_256 mod_less_divisor zero_less_numeral)
    then have "(of_char c :: nat) div 64 < 4" by (simp add: less_mult_imp_div_less)
    moreover have "(of_char c :: nat) mod 64 < 64" by simp
    ultimately show ?thesis by (auto simp: Let_def split: if_splits)
  qed
  then have "n = 0" using n(2) by (simp add: char_of_eq_iff take_bit_eq_mod)
  then have "\<exists>c \<in> set s. (of_char c :: nat) = 0" using n(1) by (auto simp: utf8_bytes_def Let_def split: if_splits)
  then show ?thesis by (metis char_of_char n(2) \<open>n = 0\<close>)
qed

lemma hexdigit_ascii: "ascii_hexdigit c \<Longrightarrow> (of_char c :: nat) < 128"
  by (auto simp: ascii_hexdigit_def hex_digit_def Let_def split: if_splits)

lemma presentable_file_accepted:
  assumes "utf8_law y" and "artifact_fields a v" and ok: "presentable_file x a"
  shows "validate_artifact_view x y v = Inr ()"
proof -
  have f: "json_field (av_id v) (ma_id a)" "json_field (av_path v) (ma_path a)" "json_field (av_display_name v) (ma_display_name a)"
      "json_field (av_media_type v) (ma_media_type a)" "json_field (av_sha256 v) (ma_sha256 a)"
      "case ma_caption a of None \<Rightarrow> av_caption v = ''null'' | Some c \<Rightarrow> json_field (av_caption v) c"
    using assms(2) by (simp_all add: artifact_fields_def)
  obtain p where p: "ma_path a = CHR ''/'' # p" using ok by (cases "ma_path a") (auto simp: presentable_file_def)
  have "CHR 0x00 \<notin> set (text_bytes p)" using ok text_bytes_NUL[of p] by (auto simp: presentable_file_def p)
  then have path: "\<exists>p. json_string (av_path v) (CHR ''/'' # p) \<and> CHR 0x00 \<notin> set p"
    using f(2) by (auto simp: json_field_def p)
  have "text_bytes (ma_sha256 a) = ma_sha256 a"
    using ok hexdigit_ascii by (intro text_bytes_ascii) (auto simp: presentable_file_def list_all_iff)
  then have hash: "\<exists>h. json_string (av_sha256 v) h \<and> length h = 64 \<and> list_all ascii_hexdigit h"
    using f(5) ok by (auto simp: json_field_def presentable_file_def)
  have names: "\<exists>n. json_string (av_display_name v) n \<and> n \<noteq> []" "\<exists>m. json_string (av_media_type v) m \<and> m \<noteq> []"
    using f(3,4) ok by (force simp: json_field_def presentable_file_def)+
  have ident: "\<exists>i u. json_string (av_id v) i \<and> length i \<le> 64 \<and> from_utf8 y i = Some u \<and> parse_uuid x u \<noteq> None"
    using f(1) ok assms(1)
    by (intro exI[of _ "text_bytes (ma_id a)"] exI[of _ "ma_id a"]) (simp add: json_field_def presentable_file_def utf8_law_def)
  have "av_caption v = ''null'' \<or> (\<exists>c. json_string (av_caption v) c)"
    using f(6) by (auto simp: json_field_def split: option.splits)
  then show ?thesis using ident path names hash unfolding validate_artifact_view_Inr by blast
qed

lemma serialized_readable:
  assumes "utf8_law y" and "payload_serialized x z f" and "presentable x f"
  shows "payload_readable x y z f"
proof -
  obtain p where p: "read_object z (write_final x f) = Inr p" "payload_fields f p"
    using assms(2) by (auto simp: payload_serialized_def split: sum.splits)
  have "\<exists>v. parse_payload z (write_final x f) = Inr v \<and> view_kind v = payload_kind f \<and> validate_view x y v = Inr ()"
  proof (cases f)
    case (FpText t)
    then obtain raw where "po_text p = Some raw" "json_field raw t" using p(2) by (cases "po_text p") auto
    then show ?thesis using p FpText by (auto simp: parse_payload_def quoted_def json_field_def json_string_facts(1))
  next
    case (FpFile a)
    then obtain v where "po_artifact p = Some v" "artifact_fields a v" using p(2) by (cases "po_artifact p") auto
    then show ?thesis using p FpFile presentable_file_accepted[OF assms(1), of a v x] assms(3)
      by (auto simp: parse_payload_def quoted_def)
  next
    case (FpTerminalError c m)
    then obtain r r' where "po_code p = Some r" "json_field r c" "po_message p = Some r'" "json_field r' m"
      using p(2) by (cases "po_code p"; cases "po_message p") auto
    moreover from this have "validate_json_string r = Inr ()" "validate_json_string r' = Inr ()"
      by (auto simp: json_field_def json_string_facts(1))
    ultimately show ?thesis using p FpTerminalError by (auto simp: parse_payload_def quoted_def)
  qed
  then show ?thesis using assms(2) by (auto simp: payload_readable_def payload_serialized_def)
qed

lemma prepared_agrees:
  assumes p: "prepare_bundle x y bundle replay = Inr p" and ids: "distinct (map fst (bu_deliveries bundle))"
    and readable: "\<forall>f \<in> snd ` set (bu_deliveries bundle). payload_readable x y z f"
  shows "bundle_agrees x y z (pp_manifest p) (map ed_bytes (pp_deliveries p))
    (map (\<lambda>(d, f). \<lparr>vd_id = d, vd_payload = f\<rparr>) (bu_deliveries bundle))"
proof -
  note shape = prepared_bundle_shape[OF p]
  let ?ds = "bu_deliveries bundle"
  have "map me_delivery (pp_manifest p) = map fst ?ds" "map me_bytes (pp_manifest p) = map (\<lambda>d. length (write_final x (snd d))) ?ds"
    by (simp_all add: shape(5) manifest_entry_for_def Let_def)
  moreover have "pp_manifest p \<noteq> []" "length (pp_manifest p) \<le> MAX_BUNDLE_DELIVERIES" using shape(5,7,8) by simp_all
  ultimately have "manifest_fits x (pp_manifest p)"
    using shape(9,10) ids by (simp only: manifest_fits_def) simp
  moreover have "payload_agrees x y z (manifest_entry_for x e) (write_final x (snd e)) \<lparr>vd_id = fst e, vd_payload = snd e\<rparr>"
    if "e \<in> set ?ds" for e
  proof -
    have "payload_readable x y z (snd e)" using readable \<open>e \<in> set ?ds\<close> by simp
    then show ?thesis
      by (auto simp: payload_readable_def payload_agrees_def manifest_entry_for_def Let_def split: sum.splits)
  qed
  ultimately show ?thesis
    by (auto simp: bundle_agrees_def shape(4,5) encoded_of_def split_beta)
qed

lemma bundle_events_transmission:
  assumes "prepare_bundle x y bundle replay = Inr p"
  shows "bundle_events y p = transmission x y (bu_request bundle) (bu_id bundle) replay (pp_manifest p) (map ed_bytes (pp_deliveries p))"
proof -
  note shape = prepared_bundle_shape[OF assms]
  have "map (\<lambda>(e, bytes). delivery_chunks y q b (me_delivery e) bytes) (zip (map (manifest_entry_for x) ds) (map (\<lambda>d. write_final x (snd d)) ds))
      = map (\<lambda>d. delivery_chunks y q b (fst d) (write_final x (snd d))) ds" for q b ds
    by (induction ds) (simp_all add: manifest_entry_for_def Let_def)
  then show ?thesis
    by (simp add: bundle_events_def transmission_def canonical_chunks_def shape(1-6) encoded_of_def comp_def)
qed

definition verified_of :: "ext \<Rightarrow> result_bundle \<Rightarrow> bool \<Rightarrow> verified_bundle" where
  "verified_of x bundle replay =
     \<lparr>vb_request = bu_request bundle, vb_bundle = bu_id bundle, vb_replay = replay,
      vb_sha256 = sha256_hex x (write_manifest x (map (manifest_entry_for x) (bu_deliveries bundle))),
      vb_deliveries = map (\<lambda>(d, f). \<lparr>vd_id = d, vd_payload = f\<rparr>) (bu_deliveries bundle)\<rparr>"

lemma prepared_is_verified:
  assumes laws: "base64_laws y" and p: "prepare_bundle x y bundle replay = Inr p"
    and ids: "distinct (map fst (bu_deliveries bundle))"
    and readable: "\<forall>f \<in> snd ` set (bu_deliveries bundle). payload_readable x y z f"
  shows "fst (verify_events x y z (bundle_events y p) (verifier_for (bu_request bundle))) = Inr (Some (verified_of x bundle replay))"
proof -
  note shape = prepared_bundle_shape[OF p]
  show ?thesis
  proof (rule canonical_is_accepted[OF laws])
    show "bundle_agrees x y z (pp_manifest p) (map ed_bytes (pp_deliveries p)) (vb_deliveries (verified_of x bundle replay))"
      using prepared_agrees[OF p ids readable] by (simp add: verified_of_def)
    show "verified_of x bundle replay = \<lparr>vb_request = bu_request bundle, vb_bundle = vb_bundle (verified_of x bundle replay),
        vb_replay = vb_replay (verified_of x bundle replay), vb_sha256 = sha256_hex x (write_manifest x (pp_manifest p)),
        vb_deliveries = vb_deliveries (verified_of x bundle replay)\<rparr>"
      by (simp add: verified_of_def shape(5))
  qed (simp add: bundle_events_transmission[OF p] verified_of_def)
qed

section \<open>The acknowledgement of what was verified\<close>

text \<open>
  The row of a bundle under delivery as the store keeps it: its request owns it and belongs to the
  actor of every delivery, and its identifiers are written the way they are parsed.
\<close>

definition deliverable :: "ext \<Rightarrow> db \<Rightarrow> bundle_id \<Rightarrow> bundle_row \<Rightarrow> local_request_row \<Rightarrow> bool" where
  "deliverable x d b r q \<longleftrightarrow>
     find_bundle d b = Some r \<and> bundle_request d r = Some q \<and> lr_bundle q = Some b
     \<and> rb_state r \<in> {BnDelivering, BnFailedRetryable} \<and> distinct (map rb_id (bundles d))
     \<and> parse_uuid x b = Some b \<and> parse_uuid x (rb_request r) = Some (rb_request r)
     \<and> (\<forall>(m, s) \<in> set (memberships d b). ob_actor s = lr_actor q)"

definition ack_of :: "actor_id \<Rightarrow> verified_bundle \<Rightarrow> bundle_ack" where
  "ack_of a v = \<lparr>ak_actor = a, ak_request = vb_request v, ak_bundle = vb_bundle v, ak_deliveries = verified_ids v\<rparr>"

lemma loaded_bundle:
  assumes "load_bundle_row x d b = Inr bundle" and "find_bundle d b = Some r"
    and "parse_uuid x b = Some b" and "parse_uuid x (rb_request r) = Some (rb_request r)"
  shows "bu_id bundle = b" "bu_request bundle = rb_request r"
    "manifest_for x (bu_deliveries bundle) = Inr (bu_manifest bundle)"
    "mf_sha256 (bu_manifest bundle) = rb_manifest r"
    "length (bu_deliveries bundle) = length (memberships d b)"
    "\<forall>(m, s) \<in> set (memberships d b). od_address m = rb_request r"
proof -
  let ?rows = "memberships d b"
  have em: "emap (read_membership x (rb_request r)) (zip [0..<length ?rows] ?rows) = Inr (bu_deliveries bundle)"
    and rest: "bu_id bundle = b" "bu_request bundle = rb_request r"
      "manifest_for x (bu_deliveries bundle) = Inr (bu_manifest bundle)" "mf_sha256 (bu_manifest bundle) = rb_manifest r"
    using assms by (auto simp: load_bundle_row_def Let_def ebind_eq_Inr parse_id_def)
  show "bu_id bundle = b" "bu_request bundle = rb_request r"
    "manifest_for x (bu_deliveries bundle) = Inr (bu_manifest bundle)" "mf_sha256 (bu_manifest bundle) = rb_manifest r"
    by (fact rest)+
  have all: "list_all2 (\<lambda>p q. read_membership x (rb_request r) p = Inr q) (zip [0..<length ?rows] ?rows) (bu_deliveries bundle)"
    using em by (simp add: emap_eq_Inr)
  show "length (bu_deliveries bundle) = length ?rows" using list_all2_lengthD[OF all] by simp
  show "\<forall>(m, s) \<in> set ?rows. od_address m = rb_request r"
  proof clarify
    fix m s assume "(m, s) \<in> set ?rows"
    then obtain i where i: "i < length ?rows" "?rows ! i = (m, s)" by (auto simp: in_set_conv_nth)
    then have "read_membership x (rb_request r) (i, m, s) = Inr (bu_deliveries bundle ! i)"
      using all by (auto simp: list_all2_conv_all_nth)
    then show "od_address m = rb_request r" by (auto simp: read_membership_def ebind_eq_Inr)
  qed
qed

lemma manifest_ids:
  assumes "manifest_for x ds = Inr m"
  shows "map me_delivery (mf_entries m) = map fst ds"
  using assms by (auto simp: manifest_for_def Let_def ebind_eq_Inr manifest_entry_for_def comp_def split: if_splits)

lemma manifest_hash:
  assumes "manifest_for x ds = Inr m"
  shows "mf_sha256 m = sha256_hex x (write_manifest x (map (manifest_entry_for x) ds))"
  using assms by (auto simp: manifest_for_def Let_def ebind_eq_Inr split: if_splits)

lemma changed_unique:
  assumes "distinct (map key rows)" and "r \<in> set rows" and "P r"
  shows "changed (\<lambda>s. key s = key r \<and> P s) rows = 1"
proof -
  have "filter (\<lambda>s. key s = key r \<and> P s) rows = [r]"
    using assms
  proof (induction rows)
    case (Cons a rows)
    show ?case
    proof (cases "a = r")
      case True
      have "filter (\<lambda>s. key s = key r \<and> P s) rows = []"
        using Cons.prems(1) True by (auto simp: filter_empty_conv) (metis image_eqI)
      then show ?thesis using True Cons.prems by simp
    next
      case False
      then have "key a \<noteq> key r" using Cons.prems by auto
      then show ?thesis using Cons False by simp
    qed
  qed simp
  then show ?thesis by (simp add: changed_def)
qed

lemma verified_acknowledged:
  assumes row: "deliverable x d b r q" and load: "load_bundle_row x d b = Inr bundle"
    and ids: "distinct (map fst (bu_deliveries bundle))"
  shows "\<exists>d'. acknowledge_bundle x (ack_of (lr_actor q) (verified_of x bundle replay)) now d = Inr (AkDelivered, d')"
proof -
  have f: "find_bundle d b = Some r" "bundle_request d r = Some q" "lr_bundle q = Some b"
      "rb_state r \<in> {BnDelivering, BnFailedRetryable}" "distinct (map rb_id (bundles d))"
      "parse_uuid x b = Some b" "parse_uuid x (rb_request r) = Some (rb_request r)"
      "\<forall>(m, s) \<in> set (memberships d b). ob_actor s = lr_actor q"
    using row by (auto simp: deliverable_def)
  note l = loaded_bundle[OF load f(1,6,7)]
  have r: "r \<in> set (bundles d)" "rb_id r = b" using f(1) by (auto simp: find_bundle_def find_Some_iff)
  have m: "map me_delivery (mf_entries (bu_manifest bundle)) = map fst (bu_deliveries bundle)" using manifest_ids[OF l(3)] .
  have ack: "ack_deliveries_match bundle (length (memberships d b)) (map fst (bu_deliveries bundle))"
    using ids l(5) by (simp add: ack_deliveries_match_def Let_def m distinct_card flip: set_map)
  have "changed (\<lambda>s. rb_id s = b \<and> (rb_state s = BnDelivering \<or> rb_state s = BnFailedRetryable)) (bundles d) = 1"
    using changed_unique[OF f(5) r(1), of "\<lambda>s. rb_state s = BnDelivering \<or> rb_state s = BnFailedRetryable"] f(4) r(2) by auto
  then obtain d' where "ack_transition b (rb_state r) now d = Inr (AkDelivered, d')"
    using f(4) by (auto simp: ack_transition_def Let_def)
  moreover have "\<forall>(m, s) \<in> set (memberships d b). od_address m = rb_request r \<and> ob_actor s = lr_actor q"
    using f(8) l(6) by auto
  moreover have "verified_ids (verified_of x bundle replay) = map fst (bu_deliveries bundle)"
    by (simp add: verified_ids_def verified_of_def comp_def split_beta)
  ultimately show ?thesis using f l ack load
    by (auto simp: acknowledge_bundle_def ack_of_def Let_def verified_of_def)
qed

text \<open>
  C6. A final bundle survives the way from the database to the client and back, when its files are
  presentable: each has a UUID of at most 64 bytes as identifier, an absolute path without a NUL, a
  display name, a media type and a hash of 64 hexadecimal digits. What the store loads for a request
  under delivery and the server prepares is accepted by the verifier of that request, which returns
  the deliveries in order with their payloads and the manifest hash of the row; and the
  acknowledgement made of what was verified is accepted by the store. Of serde it is relied on that
  a payload it wrote is read back, whole and as its raw fields.
\<close>

theorem final_bundle_end_to_end:
  assumes "base64_laws y" and "utf8_law y"
    and "deliverable x d b r q" and "load_bundle_row x d b = Inr bundle"
    and "prepare_bundle x y bundle replay = Inr p" and "distinct (map fst (bu_deliveries bundle))"
    and "\<forall>f \<in> snd ` set (bu_deliveries bundle). payload_serialized x z f"
    and "\<forall>f \<in> snd ` set (bu_deliveries bundle). presentable x f"
  shows "\<exists>v d'. fst (verify_events x y z (bundle_events y p) (verifier_for (rb_request r))) = Inr (Some v)
     \<and> map (\<lambda>e. (vd_id e, vd_payload e)) (vb_deliveries v) = bu_deliveries bundle
     \<and> vb_bundle v = b \<and> vb_replay v = replay \<and> vb_sha256 v = rb_manifest r
     \<and> acknowledge_bundle x (ack_of (lr_actor q) v) now d = Inr (AkDelivered, d')"
proof -
  have f: "find_bundle d b = Some r" "parse_uuid x b = Some b" "parse_uuid x (rb_request r) = Some (rb_request r)"
    using assms(3) by (auto simp: deliverable_def)
  note l = loaded_bundle[OF assms(4) f]
  have readable: "\<forall>f \<in> snd ` set (bu_deliveries bundle). payload_readable x y z f"
    using serialized_readable[OF assms(2)] assms(7,8) by blast
  have "mf_sha256 (bu_manifest bundle) = sha256_hex x (write_manifest x (map (manifest_entry_for x) (bu_deliveries bundle)))"
    using manifest_hash[OF l(3)] .
  then have "vb_bundle (verified_of x bundle replay) = b" "vb_replay (verified_of x bundle replay) = replay"
    "vb_sha256 (verified_of x bundle replay) = rb_manifest r"
    "map (\<lambda>e. (vd_id e, vd_payload e)) (vb_deliveries (verified_of x bundle replay)) = bu_deliveries bundle"
    using l by (simp_all add: verified_of_def comp_def split_beta)
  moreover obtain d' where
    "acknowledge_bundle x (ack_of (lr_actor q) (verified_of x bundle replay)) now d = Inr (AkDelivered, d')"
    using verified_acknowledged[OF assms(3,4,6)] by blast
  ultimately show ?thesis
    using prepared_is_verified[OF assms(1,5,6) readable] l(2)
    by (intro exI[of _ "verified_of x bundle replay"] exI[of _ d']) simp
qed

section \<open>An instance of the engine\<close>

text \<open>Base64 of RFC 4648 with padding, refusing every text but the canonical one.\<close>

definition b64_alphabet :: string where
  "b64_alphabet = ''ABCDEFGHIJKLMNOPQRSTUVWXYZabcdefghijklmnopqrstuvwxyz0123456789+/''"

definition b64_digit :: "nat \<Rightarrow> char" where "b64_digit n = b64_alphabet ! n"

definition b64_value :: "char \<Rightarrow> nat" where "b64_value c = length (takeWhile (\<lambda>a. a \<noteq> c) b64_alphabet)"

fun b64_encode :: "string \<Rightarrow> string" where
  "b64_encode [] = []"
| "b64_encode [a] = [b64_digit (of_char a div 4), b64_digit (of_char a mod 4 * 16), CHR ''='', CHR ''='']"
| "b64_encode [a, b] = [b64_digit (of_char a div 4), b64_digit (of_char a mod 4 * 16 + of_char b div 16),
     b64_digit (of_char b mod 16 * 4), CHR ''='']"
| "b64_encode (a # b # c # r) =
     b64_digit (of_char a div 4) # b64_digit (of_char a mod 4 * 16 + of_char b div 16)
     # b64_digit (of_char b mod 16 * 4 + of_char c div 64) # b64_digit (of_char c mod 64) # b64_encode r"

fun b64_read :: "string \<Rightarrow> string" where
  "b64_read (w # x # y # z # r) =
     (let i = b64_value w; j = b64_value x; k = b64_value y; l = b64_value z in
      take (if y = CHR ''='' then 1 else if z = CHR ''='' then 2 else 3)
        [char_of (i * 4 + j div 16), char_of (j mod 16 * 16 + k div 4), char_of (k mod 4 * 64 + l)] @ b64_read r)"
| "b64_read _ = []"

definition b64_decode :: "string \<Rightarrow> string option" where
  "b64_decode s = (if b64_encode (b64_read s) = s then Some (b64_read s) else None)"

lemma b64_alphabet_facts:
  "length b64_alphabet = 64" "distinct b64_alphabet" "CHR ''='' \<notin> set b64_alphabet"
  "\<forall>c \<in> set b64_alphabet. (of_char c :: nat) < 128"
  by (simp_all add: b64_alphabet_def)

lemma b64_digit_in: "n < 64 \<Longrightarrow> b64_digit n \<in> set b64_alphabet"
  by (simp add: b64_digit_def b64_alphabet_facts(1))

lemma b64_value_digit [simp]: "n < 64 \<Longrightarrow> b64_value (b64_digit n) = n"
proof -
  assume n: "n < 64"
  have split: "b64_alphabet = take n b64_alphabet @ b64_digit n # drop (Suc n) b64_alphabet"
    using n by (simp add: b64_digit_def b64_alphabet_facts(1) id_take_nth_drop)
  have "\<forall>c \<in> set (take n b64_alphabet). c \<noteq> b64_digit n"
    using b64_alphabet_facts(2) split by (metis distinct_append disjoint_iff list.set_intros(1))
  then have "takeWhile (\<lambda>a. a \<noteq> b64_digit n) (take n b64_alphabet @ b64_digit n # drop (Suc n) b64_alphabet) = take n b64_alphabet"
    by (subst takeWhile_append2) auto
  then show ?thesis using n split b64_alphabet_facts(1) by (simp add: b64_value_def)
qed

lemma b64_digit_not_pad [simp]: "n < 64 \<Longrightarrow> b64_digit n \<noteq> CHR ''=''"
  using b64_digit_in[of n] b64_alphabet_facts(3) by metis

lemma byte_below: "(of_char (c :: char) :: nat) < 256"
  by (metis char_of_eq_iff of_char_mod_256 mod_less_divisor zero_less_numeral)

lemma char_digits:
  "(of_char a :: nat) div 4 < 64" "(of_char a :: nat) mod 4 * 16 < 64" "(of_char b :: nat) mod 16 * 4 < 64"
  "(of_char a :: nat) mod 4 * 16 + of_char b div 16 < 64" "(of_char b :: nat) mod 16 * 4 + of_char c div 64 < 64"
  "(of_char c :: nat) mod 64 < 64"
proof -
  note l = byte_below[of a] byte_below[of b] byte_below[of c]
  show "(of_char a :: nat) div 4 < 64" using l by (simp add: less_mult_imp_div_less)
  have "(of_char b :: nat) div 16 < 16" "(of_char c :: nat) div 64 < 4" using l by (simp_all add: less_mult_imp_div_less)
  moreover have "(of_char a :: nat) mod 4 < 4" "(of_char b :: nat) mod 16 < 16" by simp_all
  ultimately show "(of_char a :: nat) mod 4 * 16 < 64" "(of_char b :: nat) mod 16 * 4 < 64"
    "(of_char a :: nat) mod 4 * 16 + of_char b div 16 < 64" "(of_char b :: nat) mod 16 * 4 + of_char c div 64 < 64"
    by linarith+
  show "(of_char c :: nat) mod 64 < 64" by simp
qed

lemma group_digits:
  "(a :: nat) div 4 * 4 + (a mod 4 * 16 + b div 16) div 16 = a" if "b < 256" for a b
proof -
  have "b div 16 < 16" using that by (simp add: less_mult_imp_div_less)
  then have "(a mod 4 * 16 + b div 16) div 16 = a mod 4" by simp
  then show ?thesis by (simp only: div_mult_mod_eq)
qed

lemma group_digits':
  "(a mod 4 * 16 + b div 16) mod 16 * 16 + (b mod 16 * 4 + c div 64) div 4 = (b :: nat)" if "b < 256" "c < 256" for a b c
proof -
  have "b div 16 < 16" "c div 64 < 4" using that by (simp_all add: less_mult_imp_div_less)
  then have "(a mod 4 * 16 + b div 16) mod 16 = b div 16" "(b mod 16 * 4 + c div 64) div 4 = b mod 16" by simp_all
  then show ?thesis by (simp only: div_mult_mod_eq)
qed

lemma group_digits'':
  "(b mod 16 * 4 + c div 64) mod 4 * 64 + c mod 64 = (c :: nat)" if "c < 256" for b c
proof -
  have "c div 64 < 4" using that by (simp add: less_mult_imp_div_less)
  then have "(b mod 16 * 4 + c div 64) mod 4 = c div 64" by simp
  then show ?thesis by (simp only: div_mult_mod_eq)
qed

lemma char_of_group: "m = of_char a \<Longrightarrow> char_of (m :: nat) = a"
  by simp

lemma b64_read_encode: "b64_read (b64_encode s) = s"
proof (induction s rule: b64_encode.induct)
  case (2 a)
  have "of_char a div 4 * 4 + (of_char a mod 4 * 16) div 16 = (of_char a :: nat)"
    using group_digits[of 0 "of_char a"] by simp
  then show ?case using char_digits(1)[of a] char_digits(2)[of a] by (simp add: Let_def del: div_mult_mod_eq) 
next
  case (3 a b)
  have "of_char a div 4 * 4 + (of_char a mod 4 * 16 + of_char b div 16) div 16 = (of_char a :: nat)"
    "(of_char a mod 4 * 16 + of_char b div 16) mod 16 * 16 + (of_char b mod 16 * 4) div 4 = (of_char b :: nat)"
    using group_digits[OF byte_below] group_digits'[OF byte_below, of 0] by simp_all
  then show ?case using char_digits(1)[of a] char_digits(4)[of a b] char_digits(3)[of b]
    by (simp only: b64_encode.simps b64_read.simps Let_def b64_value_digit b64_digit_not_pad if_False if_True char_of_char) simp
next
  case (4 a b c r)
  note d = char_digits(1)[of a] char_digits(4)[of a b] char_digits(5)[of b c] char_digits(6)[of c]
  show ?case
    by (simp only: b64_encode.simps b64_read.simps Let_def b64_value_digit[OF d(1)] b64_value_digit[OF d(2)]
        b64_value_digit[OF d(3)] b64_value_digit[OF d(4)] b64_digit_not_pad[OF d(3)] b64_digit_not_pad[OF d(4)]
        if_False group_digits[OF byte_below] group_digits'[OF byte_below byte_below] group_digits''[OF byte_below]
        char_of_char 4) simp
qed simp

lemma utf8_len_ascii: "\<forall>c \<in> set s. (of_char c :: nat) < 128 \<Longrightarrow> utf8_len s = length s"
  by (induction s) (simp_all add: utf8_len_def utf8_bytes_def Let_def)

lemma b64_chars: "set (b64_encode s) \<subseteq> insert (CHR ''='') (set b64_alphabet)"
  by (induction s rule: b64_encode.induct) (auto intro!: b64_digit_in char_digits)

lemma b64_length: "length (b64_encode s) = div_ceil (length s) 3 * 4"
proof (induction s rule: b64_encode.induct)
  case (4 a b c r)
  have "div_ceil (Suc (Suc (Suc (length r)))) 3 = div_ceil (length r) 3 + 1"
    using div_add_self2[of "3 :: nat" "length r + 2"] by (simp add: div_ceil_def)
  then show ?case using 4 by simp
qed (simp_all add: div_ceil_def)

text \<open>UTF-8, as far as the characters of the model need it.\<close>

fun utf8_read :: "string \<Rightarrow> string" where
  "utf8_read [] = []"
| "utf8_read (c # s) =
     (if (of_char c :: nat) < 128 then c # utf8_read s
      else (case s of [] \<Rightarrow> [] | e # r \<Rightarrow> char_of ((of_char c - 192) * 64 + (of_char e - 128) :: nat) # utf8_read r))"

lemma utf8_read_bytes: "utf8_read (text_bytes s) = s"
proof (induction s)
  case (Cons c s)
  show ?case
  proof (cases "(of_char c :: nat) < 128")
    case False
    let ?n = "of_char c :: nat"
    have n: "192 + ?n div 64 < 256" "128 + ?n mod 64 < 256"
      using byte_below[of c] less_mult_imp_div_less[of ?n 4 64] mod_less_divisor[of 64 ?n] by linarith+
    have c: "text_bytes (c # s) = char_of (192 + ?n div 64) # char_of (128 + ?n mod 64) # text_bytes s"
      using False by (simp add: text_bytes_def utf8_bytes_def Let_def)
    have of: "of_char (char_of (192 + ?n div 64) :: char) = 192 + ?n div 64" "of_char (char_of (128 + ?n mod 64) :: char) = 128 + ?n mod 64"
      using n by (simp_all add: take_bit_nat_eq_self_iff)
    show ?thesis by (simp only: c utf8_read.simps of list.case Cons) (simp add: mult.commute)
  qed (simp add: Cons)
qed simp

definition sample_wire :: wire where
  "sample_wire = \<lparr>from_utf8 = (\<lambda>b. Some (utf8_read b)), read_client_envelope = (\<lambda>j. Inl ''unread''),
     read_server_envelope = (\<lambda>j. Inl ''unread''),
     write_client_json = (\<lambda>r. ''x''), write_server_json = (\<lambda>e. ''x''), base64_encode = b64_encode, base64_decode = b64_decode\<rparr>"

lemma sample_utf8: "utf8_law sample_wire"
  by (simp add: utf8_law_def sample_wire_def utf8_read_bytes)

lemma sample_base64: "base64_laws sample_wire"
proof -
  have "utf8_len (b64_encode b) = div_ceil (length b) 3 * 4" for b
  proof -
    have "(of_char c :: nat) < 128" if "c \<in> set (b64_encode b)" for c
    proof (cases "c = CHR ''=''")
      case False
      then have "c \<in> set b64_alphabet" using that b64_chars[of b] by blast
      then show ?thesis using b64_alphabet_facts(4) by blast
    qed simp
    then show ?thesis using utf8_len_ascii[of "b64_encode b"] b64_length[of b] by simp
  qed
  then show ?thesis by (simp add: base64_laws_def sample_wire_def b64_decode_def b64_read_encode)
qed

section \<open>An instance of the payload's JSON\<close>

text \<open>
  The JSON serde writes for a payload, and a reader of it: the fields in their order, each text
  quoted and escaped, and the raw fields cut out of the text at the closing quotes.
\<close>

definition escape_byte :: "char \<Rightarrow> string" where
  "escape_byte c =
     (case map_of (map (\<lambda>(e, v). (v, e)) (filter (\<lambda>(e, v). e \<noteq> CHR ''/'') short_escapes)) c of
        Some e \<Rightarrow> [CHR 0x5C, e]
      | None \<Rightarrow> if (of_char c :: nat) < 32
               then [CHR 0x5C, CHR ''u'', CHR ''0'', CHR ''0''] @ map (\<lambda>k. ''0123456789abcdef'' ! k) [of_char c div 16, of_char c mod 16]
               else [c])"

definition write_json :: "string \<Rightarrow> string" where
  "write_json s = quoted (concat (map escape_byte (text_bytes s)))"

fun write_caption :: "string option \<Rightarrow> string" where
  "write_caption None = ''null''"
| "write_caption (Some c) = write_json c"

definition member :: "string \<Rightarrow> string" where "member name = write_json name @ '':''"

fun final_json :: "final_payload \<Rightarrow> string" where
  "final_json (FpText t) = ''{'' @ member ''type'' @ write_json ''text'' @ '','' @ member ''text'' @ write_json t @ ''}''"
| "final_json (FpFile a) = ''{'' @ member ''type'' @ write_json ''file'' @ '','' @ member ''artifact''
     @ ''{'' @ member ''id'' @ write_json (ma_id a) @ '','' @ member ''managed_path'' @ write_json (ma_path a)
     @ '','' @ member ''display_name'' @ write_json (ma_display_name a) @ '','' @ member ''media_type'' @ write_json (ma_media_type a)
     @ '','' @ member ''size'' @ show_nat (ma_size a) @ '','' @ member ''sha256'' @ write_json (ma_sha256 a)
     @ '','' @ member ''caption'' @ write_caption (ma_caption a) @ ''}}''"
| "final_json (FpTerminalError c m) = ''{'' @ member ''type'' @ write_json ''terminal_error'' @ '','' @ member ''code'' @ write_json c
     @ '','' @ member ''message'' @ write_json m @ ''}''"

text \<open>The members of an object: a string up to its closing quote, or a literal up to a comma or brace.\<close>

fun raw_string :: "string \<Rightarrow> string \<times> string" where
  "raw_string [] = ([], [])"
| "raw_string [c] = ([c], [])"
| "raw_string (c # e # s) =
     (if c = CHR 0x22 then ([c], e # s)
      else if c = CHR 0x5C then (case raw_string s of (a, r) \<Rightarrow> (c # e # a, r))
      else (case raw_string (e # s) of (a, r) \<Rightarrow> (c # a, r)))"

definition raw_value :: "string \<Rightarrow> string \<times> string" where
  "raw_value s =
     (if take 1 s = [CHR 0x22] then (case raw_string (tl s) of (a, r) \<Rightarrow> (CHR 0x22 # a, r))
      else (takeWhile (\<lambda>c. c \<notin> set '',}'') s, dropWhile (\<lambda>c. c \<notin> set '',}'') s))"

text \<open>One member, its name and the colon dropped, and the comma after it if there is one.\<close>

definition next_member :: "string \<Rightarrow> string \<times> string" where
  "next_member s =
     (case raw_value (drop 1 (snd (raw_value s))) of
        (v, r) \<Rightarrow> (v, if take 1 r = '','' then tl r else r))"

definition no_fields :: "string \<Rightarrow> payload_object" where
  "no_fields kind = \<lparr>po_kind = kind, po_text = None, po_artifact = None, po_code = None, po_message = None\<rparr>"

definition read_artifact :: "string \<Rightarrow> artifact_view" where
  "read_artifact s =
     (let (i, s) = next_member s; (p, s) = next_member s; (n, s) = next_member s; (m, s) = next_member s;
          (k, s) = next_member s; (h, s) = next_member s; (c, s) = next_member s in
      \<lparr>av_id = i, av_path = p, av_display_name = n, av_media_type = m, av_size = read_nat k, av_sha256 = h, av_caption = c\<rparr>)"

definition read_payload_object :: "string \<Rightarrow> string + payload_object" where
  "read_payload_object s =
     (let (kind, r) = next_member (drop 1 s) in
      if kind = quoted ''text'' then Inr ((no_fields kind)\<lparr>po_text := Some (fst (next_member r))\<rparr>)
      else if kind = quoted ''file''
      then Inr ((no_fields kind)\<lparr>po_artifact := Some (read_artifact (drop 2 (snd (raw_value r))))\<rparr>)
      else if kind = quoted ''terminal_error''
      then (let (c, r) = next_member r in Inr ((no_fields kind)\<lparr>po_code := Some c, po_message := Some (fst (next_member r))\<rparr>))
      else Inl ''unknown variant'')"

definition plain_text :: "string \<Rightarrow> string" where
  "plain_text raw = (case collect_small_json_string raw (length raw) of Inr b \<Rightarrow> utf8_read b | Inl e \<Rightarrow> [])"

definition payload_of_object :: "payload_object \<Rightarrow> string + final_payload" where
  "payload_of_object p =
     (case (po_text p, po_artifact p, po_code p, po_message p) of
        (Some t, _) \<Rightarrow> Inr (FpText (plain_text t))
      | (None, Some a, _) \<Rightarrow> Inr (FpFile \<lparr>ma_id = plain_text (av_id a), ma_path = plain_text (av_path a),
          ma_display_name = plain_text (av_display_name a), ma_media_type = plain_text (av_media_type a), ma_size = av_size a,
          ma_sha256 = plain_text (av_sha256 a),
          ma_caption = (if av_caption a = ''null'' then None else Some (plain_text (av_caption a)))\<rparr>)
      | (None, None, Some c, Some m) \<Rightarrow> Inr (FpTerminalError (plain_text c) (plain_text m))
      | _ \<Rightarrow> Inl ''missing field'')"

definition sample_reader :: payload_reader where
  "sample_reader = \<lparr>read_object = read_payload_object, read_final = (\<lambda>s. ebind (read_payload_object s) payload_of_object)\<rparr>"

lemma hex_digit_of: "k < 16 \<Longrightarrow> hex_digit (''0123456789abcdef'' ! k) = Some k"
proof -
  have "\<forall>k \<in> set [0..<16]. hex_digit (''0123456789abcdef'' ! k) = Some k" by code_simp
  then show "k < 16 \<Longrightarrow> ?thesis" by simp
qed

lemma no_hex_mark: "hex_digit d = Some k \<Longrightarrow> d \<noteq> CHR 0x22 \<and> d \<noteq> CHR 0x5C"
  by (auto simp: hex_digit_def Let_def split: if_splits)

lemma escape_byte_cases:
  obtains (plain) "escape_byte c = [c]" "(of_char c :: nat) \<ge> 0x20" "c \<noteq> CHR 0x22" "c \<noteq> CHR 0x5C"
    | (short) e where "escape_byte c = [CHR 0x5C, e]" "(e, c) \<in> set short_escapes"
    | (scalar) u v where "escape_byte c = [CHR 0x5C, CHR ''u'', CHR ''0'', CHR ''0'', u, v]"
        "hex4 [CHR ''0'', CHR ''0'', u, v] (of_char c)" "(of_char c :: nat) < 32" "u \<notin> {CHR 0x22, CHR 0x5C}" "v \<notin> {CHR 0x22, CHR 0x5C}"
proof -
  let ?n = "of_char c :: nat"
  let ?u = "''0123456789abcdef'' ! (?n div 16)" and ?v = "''0123456789abcdef'' ! (?n mod 16)"
  show thesis
  proof (cases "map_of (map (\<lambda>(e, v). (v, e)) (filter (\<lambda>(e, v). e \<noteq> CHR ''/'') short_escapes)) c")
    case (Some e)
    then have "(e, c) \<in> set short_escapes" by (auto dest!: map_of_SomeD)
    then show ?thesis using short[of e] Some by (simp add: escape_byte_def)
  next
    case None
    then have marks: "c \<noteq> CHR 0x22" "c \<noteq> CHR 0x5C" by (auto simp: short_escapes_def)
    show ?thesis
    proof (cases "?n < 32")
      case False
      then show ?thesis using plain None marks by (simp add: escape_byte_def)
    next
      case True
      have d: "hex_digit ?u = Some (?n div 16)" "hex_digit ?v = Some (?n mod 16)"
        using True by (simp_all add: hex_digit_of)
      have "hex4 [CHR ''0'', CHR ''0'', ?u, ?v] ?n"
        using d by (simp add: hex4_def) (simp add: hex_digit_def Let_def)
      then show ?thesis using scalar[of ?u ?v] None True no_hex_mark[OF d(1)] no_hex_mark[OF d(2)]
        by (simp add: escape_byte_def)
    qed
  qed
qed

lemma escaped_denotes: "json_chars (concat (map escape_byte b)) b"
proof (induction b)
  case (Cons c b)
  show ?case
  proof (cases c rule: escape_byte_cases)
    case (scalar u v)
    have "is_scalar (of_char c)" "encode_utf8 (of_char c) = [c]" using scalar(3) by (simp_all add: is_scalar_def encode_utf8_def)
    then show ?thesis using jc_scalar[OF scalar(2) _ Cons] scalar(1) by simp
  qed (use Cons in \<open>simp_all add: jc_plain jc_short\<close>)
qed (simp add: jc_end)

lemma write_json_field [simp]: "json_field (write_json s) s"
  using escaped_denotes[of "text_bytes s"] by (auto simp: json_field_def json_string_def write_json_def quoted_def)

lemma escaped_length: "length b \<le> length (concat (map escape_byte b))"
proof (induction b)
  case (Cons c b)
  then show ?case by (cases c rule: escape_byte_cases) simp_all
qed simp

lemma raw_string_escaped:
  "raw_string (concat (map escape_byte b) @ CHR 0x22 # r) = (concat (map escape_byte b) @ [CHR 0x22], r)"
proof (induction b)
  case Nil
  then show ?case by (cases r) simp_all
next
  case (Cons c b)
  have "raw_string (c # s) = (case raw_string s of (a, r) \<Rightarrow> (c # a, r))"
    if "c \<noteq> CHR 0x22" "c \<noteq> CHR 0x5C" "s \<noteq> []" for c s
    using that by (cases s) simp_all
  then show ?case using Cons by (cases c rule: escape_byte_cases) simp_all
qed

lemma raw_value_written [simp]: "raw_value (write_json s @ r) = (write_json s, r)"
  using raw_string_escaped[of "text_bytes s" r] by (simp add: raw_value_def write_json_def quoted_def)

lemma raw_value_null [simp]: "raw_value (''null'' @ CHR ''}'' # r) = (''null'', CHR ''}'' # r)"
  by (simp add: raw_value_def)

lemma raw_value_number [simp]: "raw_value (show_nat n @ CHR '','' # r) = (show_nat n, CHR '','' # r)"
proof -
  have "\<forall>c \<in> set (show_nat n). is_digit c" by (rule show_nat_digits)
  then have digits: "\<forall>c \<in> set (show_nat n). c \<notin> set '',}'' \<and> c \<noteq> CHR 0x22" by (auto simp: is_digit_def Let_def)
  have "take 1 (show_nat n @ CHR '','' # r) \<noteq> [CHR 0x22]" using digits by (cases "show_nat n") simp_all
  then show ?thesis using digits by (simp add: raw_value_def takeWhile_append dropWhile_append)
qed

lemma next_member_written:
  "raw_value (v @ CHR '','' # r) = (v, CHR '','' # r) \<Longrightarrow> next_member (member n @ v @ CHR '','' # r) = (v, r)"
  "raw_value (v @ CHR ''}'' # r) = (v, CHR ''}'' # r) \<Longrightarrow> next_member (member n @ v @ CHR ''}'' # r) = (v, CHR ''}'' # r)"
  by (simp_all add: next_member_def member_def)

lemma caption_value: "raw_value (write_caption c @ CHR ''}'' # r) = (write_caption c, CHR ''}'' # r)"
  by (cases c) (use raw_value_null in simp_all)

lemma read_artifact_written:
  "read_artifact (member i @ write_json (ma_id a) @ '','' @ member j @ write_json (ma_path a)
     @ '','' @ member k @ write_json (ma_display_name a) @ '','' @ member l @ write_json (ma_media_type a)
     @ '','' @ member m @ show_nat (ma_size a) @ '','' @ member n @ write_json (ma_sha256 a)
     @ '','' @ member c @ write_caption (ma_caption a) @ ''}'' @ r) =
   \<lparr>av_id = write_json (ma_id a), av_path = write_json (ma_path a), av_display_name = write_json (ma_display_name a),
    av_media_type = write_json (ma_media_type a), av_size = ma_size a, av_sha256 = write_json (ma_sha256 a),
    av_caption = write_caption (ma_caption a)\<rparr>"
  by (simp add: read_artifact_def next_member_written caption_value)

lemma quoted_kind: "write_json ''text'' = quoted ''text''" "write_json ''file'' = quoted ''file''"
    "write_json ''terminal_error'' = quoted ''terminal_error''"
  by code_simp+

fun object_of :: "final_payload \<Rightarrow> payload_object" where
  "object_of (FpText t) = (no_fields (quoted ''text''))\<lparr>po_text := Some (write_json t)\<rparr>"
| "object_of (FpFile a) = (no_fields (quoted ''file''))\<lparr>po_artifact := Some
     \<lparr>av_id = write_json (ma_id a), av_path = write_json (ma_path a), av_display_name = write_json (ma_display_name a),
      av_media_type = write_json (ma_media_type a), av_size = ma_size a, av_sha256 = write_json (ma_sha256 a),
      av_caption = write_caption (ma_caption a)\<rparr>\<rparr>"
| "object_of (FpTerminalError c m) = (no_fields (quoted ''terminal_error''))\<lparr>po_code := Some (write_json c), po_message := Some (write_json m)\<rparr>"

lemma object_read: "read_payload_object (final_json f) = Inr (object_of f)"
proof -
  have kind: "next_member (member t @ write_json k @ CHR '','' # r) = (write_json k, r)" for t k r
    by (simp add: next_member_written)
  have last: "next_member (member t @ write_json k @ ''}'') = (write_json k, ''}'')" for t k
    using next_member_written(2)[of "write_json k" "[]" t] raw_value_written[of k "''}''"] by simp
  show ?thesis
  proof (cases f)
    case (FpFile a)
    have "read_payload_object (final_json f) = Inr ((no_fields (quoted ''file''))\<lparr>po_artifact := Some (read_artifact
        (drop 2 (snd (raw_value (member ''artifact'' @ ''{'' @ member ''id'' @ write_json (ma_id a) @ '','' @ member ''managed_path''
           @ write_json (ma_path a) @ '','' @ member ''display_name'' @ write_json (ma_display_name a)
           @ '','' @ member ''media_type'' @ write_json (ma_media_type a) @ '','' @ member ''size'' @ show_nat (ma_size a)
           @ '','' @ member ''sha256'' @ write_json (ma_sha256 a)
           @ '','' @ member ''caption'' @ write_caption (ma_caption a) @ ''}}'')))))\<rparr>)"
      by (simp add: FpFile read_payload_object_def kind) (simp add: quoted_kind, simp add: quoted_def no_fields_def)
    also have "\<dots> = Inr (object_of f)"
      using read_artifact_written[of _ a _ _ _ _ _ _ "''}''"] by (simp add: FpFile member_def)
    finally show ?thesis .
  qed (simp_all add: read_payload_object_def kind last, simp_all add: quoted_kind, simp_all add: quoted_def)
qed

lemma object_fields: "payload_fields f (object_of f)"
  by (cases f) (auto simp: no_fields_def artifact_fields_def split: option.split)

lemma plain_text_written [simp]: "plain_text (write_json s) = s"
proof -
  have "collect_small_json_string (write_json s) (length (write_json s)) = Inr (text_bytes s)"
    using write_json_field[of s] escaped_length[of "text_bytes s"]
    by (simp add: json_string_facts(2) json_field_def) (simp add: write_json_def quoted_def)
  then show ?thesis by (simp add: plain_text_def utf8_read_bytes)
qed

lemma payload_of_written: "payload_of_object (object_of f) = Inr f"
proof -
  have "write_json c \<noteq> ''null''" for c by (simp add: write_json_def quoted_def)
  then have "(if write_caption c = ''null'' then None else Some (plain_text (write_caption c))) = c" for c
    by (cases c) simp_all
  then show ?thesis by (cases f) (simp_all add: payload_of_object_def no_fields_def split del: if_split cong: if_cong)
qed

lemma final_json_serialized: "write_final x = final_json \<Longrightarrow> payload_serialized x sample_reader f"
proof -
  have "final_json f \<noteq> []" by (cases f) simp_all
  then show "write_final x = final_json \<Longrightarrow> ?thesis"
    by (simp add: payload_serialized_def sample_reader_def object_read payload_of_written object_fields)
qed

section \<open>One bundle from the store to its acknowledgement\<close>

definition transfer_ext :: ext where
  "transfer_ext = codec_ext\<lparr>write_final := final_json\<rparr>"

definition sample_text :: string where
  "sample_text = [CHR ''h'', CHR 0x22, CHR 0x0A, CHR 0xE9]"

definition sample_file :: managed_artifact where
  "sample_file = \<lparr>ma_id = ''f1'', ma_path = ''/h/f1'', ma_display_name = ''a.txt'', ma_media_type = ''text/plain'', ma_size = 3,
     ma_sha256 = replicate 64 CHR ''0'', ma_caption = None\<rparr>"

text \<open>A request whose answer is a text that needs escaping and a file, under delivery.\<close>

definition transfer_row :: bundle_row where
  "transfer_row = sample_bundle\<lparr>rb_count := 2, rb_state := BnDelivering, rb_attempts := 1, rb_owner := Some ''p'', rb_expires := Some 100\<rparr>"

definition transfer_outbox :: "outbox_row list" where
  "transfer_outbox = [(hd (outbox sample_bundles))\<lparr>ob_payload := enc_payload (OpText sample_text)\<rparr>,
     (hd (outbox sample_bundles))\<lparr>ob_id := ''o2'', ob_key := ''k2'', ob_payload := enc_payload (OpFile sample_file)\<rparr>]"

definition transfer_members :: "outbox_delivery_row list" where
  "transfer_members = [hd (outbox_deliveries sample_bundles),
     (hd (outbox_deliveries sample_bundles))\<lparr>od_id := ''e'', od_outbox := ''o2'', od_ordinal := 1\<rparr>]"

definition transfer_db :: db where
  "transfer_db = sample_bundles\<lparr>bundles := [transfer_row], outbox := transfer_outbox, outbox_deliveries := transfer_members\<rparr>"

definition transfer_deliveries :: "(delivery_id \<times> final_payload) list" where
  "transfer_deliveries = [(''d'', FpText sample_text), (''e'', FpFile sample_file)]"

definition loaded_transfer :: result_bundle where
  "loaded_transfer = \<lparr>bu_id = ''b'', bu_request = ''q1'', bu_state = BnDelivering,
     bu_manifest = \<lparr>mf_entries = map (manifest_entry_for transfer_ext) transfer_deliveries, mf_sha256 = replicate 64 CHR ''0''\<rparr>,
     bu_deliveries = transfer_deliveries\<rparr>"

definition plain_char :: "char \<Rightarrow> bool" where
  "plain_char c \<longleftrightarrow> 32 \<le> (of_char c :: nat) \<and> (of_char c :: nat) < 128 \<and> c \<noteq> CHR 0x22 \<and> c \<noteq> CHR 0x5C"

lemma write_json_plain: "list_all plain_char s \<Longrightarrow> write_json s = quoted s"
proof (induction s)
  case (Cons c s)
  have "escape_byte c = [c]" using Cons.prems
    by (auto simp: escape_byte_def plain_char_def short_escapes_def)
  then show ?case using Cons by (simp add: write_json_def quoted_def plain_char_def)
qed (simp add: write_json_def)

lemma transfer_lengths:
  "length (write_final transfer_ext (FpText sample_text)) = 32" "length (write_final transfer_ext (FpFile sample_file)) = 210"
  "length (write_manifest transfer_ext (map (manifest_entry_for transfer_ext) transfer_deliveries)) = 128"
  "utf8_len sample_text = 5"
proof -
  have json: "write_final transfer_ext = final_json" by (simp add: transfer_ext_def)
  have "int (length (final_json (FpText sample_text))) = 32" by code_simp
  then show "length (write_final transfer_ext (FpText sample_text)) = 32" unfolding json by linarith
  have "write_json (replicate 64 CHR ''0'') = quoted (replicate 64 CHR ''0'')"
    by (rule write_json_plain) (simp add: list_all_iff plain_char_def)
  then have hash: "length (write_json (replicate 64 CHR ''0'')) = 66" unfolding quoted_def by simp
  have "show_nat 3 = ''3''" by code_simp
  then show "length (write_final transfer_ext (FpFile sample_file)) = 210"
    using hash unfolding json sample_file_def final_json.simps length_append managed_artifact.select_convs
    by (simp add: member_def write_json_plain plain_char_def quoted_def)
  have "write_manifest transfer_ext es = concat (map me_sha256 es)" for es by (simp add: transfer_ext_def codec_ext_def sample_ext_def)
  moreover have "me_sha256 (manifest_entry_for transfer_ext e) = replicate 64 CHR ''0''" for e
    unfolding manifest_entry_for_def Let_def by (simp add: transfer_ext_def codec_ext_def sample_ext_def)
  ultimately show "length (write_manifest transfer_ext (map (manifest_entry_for transfer_ext) transfer_deliveries)) = 128"
    unfolding transfer_deliveries_def by simp
  show "utf8_len sample_text = 5" by code_simp
qed

lemma transfer_serialized:
  "\<forall>f \<in> snd ` set transfer_deliveries. payload_serialized transfer_ext sample_reader f"
  "\<forall>f \<in> snd ` set transfer_deliveries. presentable transfer_ext f"
proof -
  have "write_final transfer_ext = final_json" by (simp add: transfer_ext_def)
  then show "\<forall>f \<in> snd ` set transfer_deliveries. payload_serialized transfer_ext sample_reader f"
    using final_json_serialized by blast
  have "presentable_file transfer_ext sample_file"
    unfolding presentable_file_def by (intro conjI) code_simp+
  then show "\<forall>f \<in> snd ` set transfer_deliveries. presentable transfer_ext f" by (simp add: transfer_deliveries_def)
qed

lemma transfer_loads: "load_bundle_row transfer_ext transfer_db ''b'' = Inr loaded_transfer"
proof -
  have rows: "memberships transfer_db ''b'' = zip transfer_members transfer_outbox" by code_simp
  have reads: "emap (read_membership transfer_ext ''q1'') (zip [0..<length (zip transfer_members transfer_outbox)] (zip transfer_members transfer_outbox))
      = Inr transfer_deliveries" by code_simp
  have manifest: "manifest_for transfer_ext transfer_deliveries = Inr (bu_manifest loaded_transfer)"
    using transfer_lengths
    by (simp add: manifest_for_def manifest_entry_for_def Let_def checked_add_def usize_max_def validate_bundle_bytes_def
        validate_manifest_bytes_def MAX_BUNDLE_BYTES_def MAX_MANIFEST_BYTES_def MAX_BUNDLE_DELIVERIES_def
        transfer_deliveries_def loaded_transfer_def) (simp add: transfer_ext_def codec_ext_def sample_ext_def)
  have found: "find_bundle transfer_db ''b'' = Some transfer_row" by code_simp
  have "length (zip transfer_members transfer_outbox) = 2" by (simp add: transfer_members_def transfer_outbox_def)
  moreover have "parse_id transfer_ext s = Inr s" for s by (simp add: parse_id_def transfer_ext_def codec_ext_def sample_ext_def)
  moreover have "rb_request transfer_row = ''q1''" "rb_count transfer_row = 2" "rb_state transfer_row = BnDelivering"
      "rb_manifest transfer_row = replicate 64 CHR ''0''" by (simp_all add: transfer_row_def sample_bundle_def)
  ultimately show ?thesis
    using reads by (simp add: load_bundle_row_def found rows Let_def manifest MAX_BUNDLE_DELIVERIES_def)
      (simp add: loaded_transfer_def)
qed

lemma transfer_prepares: "\<exists>p. prepare_bundle transfer_ext sample_wire loaded_transfer False = Inr p"
proof -
  have "efold (encode_delivery transfer_ext) transfer_deliveries (0, []) = Inr (242, map (encoded_of transfer_ext) transfer_deliveries)"
    using transfer_lengths
    by (simp add: transfer_deliveries_def encode_delivery_def encode_sized_Inr MAX_BUNDLE_BYTES_def ebind_eq_Inr)
  moreover have "efold (\<lambda>frame _. frame_in_limit sample_wire frame) evs () = Inr ()" for evs
    by (induction evs) (simp_all add: frame_in_limit_def sample_wire_def MAX_FRAME_BYTES_def)
  moreover have "map ed_entry (map (encoded_of transfer_ext) transfer_deliveries) = map (manifest_entry_for transfer_ext) transfer_deliveries"
    by (simp add: encoded_of_def)
  ultimately show ?thesis
    using transfer_lengths(3) by (simp add: prepare_bundle_def loaded_transfer_def Let_def MAX_MANIFEST_BYTES_def)
      (simp add: transfer_deliveries_def MAX_BUNDLE_DELIVERIES_def)
qed

lemma transfer_deliverable: "deliverable transfer_ext transfer_db ''b'' transfer_row (hd (local_requests sample_bundles))"
proof -
  have "find_bundle transfer_db ''b'' = Some transfer_row" "memberships transfer_db ''b'' = zip transfer_members transfer_outbox"
    by code_simp+
  moreover have "bundle_request transfer_db transfer_row = Some (hd (local_requests sample_bundles))"
    by (simp add: bundle_request_def transfer_db_def transfer_row_def sample_bundles_def sample_bundle_def)
  ultimately show ?thesis
    by (simp add: deliverable_def)
      (simp add: transfer_db_def transfer_row_def transfer_members_def transfer_outbox_def sample_bundles_def sample_bundle_def
        transfer_ext_def codec_ext_def sample_ext_def)
qed

theorem final_bundle_end_to_end_witness:
  "\<exists>p v d'. prepare_bundle transfer_ext sample_wire loaded_transfer False = Inr p
     \<and> fst (verify_events transfer_ext sample_wire sample_reader (bundle_events sample_wire p) (verifier_for ''q1'')) = Inr (Some v)
     \<and> map (\<lambda>e. (vd_id e, vd_payload e)) (vb_deliveries v) = [(''d'', FpText sample_text), (''e'', FpFile sample_file)]
     \<and> acknowledge_bundle transfer_ext (ack_of ''a'' v) 60 transfer_db = Inr (AkDelivered, d')"
proof -
  obtain p where p: "prepare_bundle transfer_ext sample_wire loaded_transfer False = Inr p" using transfer_prepares by blast
  have "distinct (map fst (bu_deliveries loaded_transfer))"
    "\<forall>f \<in> snd ` set (bu_deliveries loaded_transfer). payload_serialized transfer_ext sample_reader f"
    "\<forall>f \<in> snd ` set (bu_deliveries loaded_transfer). presentable transfer_ext f"
    using transfer_serialized by (simp_all add: loaded_transfer_def) (simp add: transfer_deliveries_def)
  note run = final_bundle_end_to_end [OF sample_base64 sample_utf8 transfer_deliverable transfer_loads p this, of 60]
  have "lr_actor (hd (local_requests sample_bundles)) = ''a''" "bu_deliveries loaded_transfer = transfer_deliveries"
      "rb_request transfer_row = ''q1''"
    by (simp_all add: sample_bundles_def loaded_transfer_def transfer_row_def sample_bundle_def)
  then show ?thesis using run p by (auto simp: transfer_deliveries_def)
qed

theorem verifier_accepts_exactly_witness:
  "\<exists>p manifest bss. prepare_bundle transfer_ext sample_wire loaded_transfer False = Inr p
     \<and> bundle_agrees transfer_ext sample_wire sample_reader manifest bss
         [\<lparr>vd_id = ''d'', vd_payload = FpText sample_text\<rparr>, \<lparr>vd_id = ''e'', vd_payload = FpFile sample_file\<rparr>]
     \<and> map se_body (bundle_events sample_wire p) =
         map se_body (transmission transfer_ext sample_wire ''q1'' ''b'' False manifest bss)"
proof -
  obtain p where p: "prepare_bundle transfer_ext sample_wire loaded_transfer False = Inr p" using transfer_prepares by blast
  have "distinct (map fst (bu_deliveries loaded_transfer))" by (simp add: loaded_transfer_def transfer_deliveries_def)
  moreover have "\<forall>f \<in> snd ` set (bu_deliveries loaded_transfer). payload_readable transfer_ext sample_wire sample_reader f"
    using transfer_serialized serialized_readable[OF sample_utf8] by (simp add: loaded_transfer_def)
  ultimately have run: "fst (verify_events transfer_ext sample_wire sample_reader (bundle_events sample_wire p)
      (verifier_for (bu_request loaded_transfer))) = Inr (Some (verified_of transfer_ext loaded_transfer False))"
    by (rule prepared_is_verified [OF sample_base64 p])
  show ?thesis
    using run [unfolded verifier_accepts_exactly [OF sample_base64]] p
    by (auto simp: verified_of_def loaded_transfer_def transfer_deliveries_def)
qed

end
