(* ===== verification/Stream_Hub.thy ===== *)
theory Stream_Hub
  imports Quantum Ipc_Protocol
begin

text \<open>
  \<open>runtime/stream_hub.rs\<close>: the in-memory broadcast of a run's text and activities to the local
  connections that follow its requests. Queues are bounded, publishing never waits, and a
  subscriber that falls behind gets one gap marker and no text after it. Every operation under a
  queue's lock is one step.
\<close>

section \<open>State\<close>

definition DEFAULT_EVENTS_PER_SUBSCRIPTION :: nat where "DEFAULT_EVENTS_PER_SUBSCRIPTION = 256"
definition DEFAULT_BYTES_PER_SUBSCRIPTION :: nat where "DEFAULT_BYTES_PER_SUBSCRIPTION = 512 * 1024"
definition DEFAULT_GLOBAL_BYTES :: nat where "DEFAULT_GLOBAL_BYTES = 32 * 1024 * 1024"

record queued_event =
  qe_event :: server_event
  qe_bytes :: nat

text \<open>
  A subscription's state lives until its handle is dropped and every snapshot that still holds it
  is done; \<open>sb_registered\<close> says whether the hub's table still lists it. A sink is its identity.
\<close>

record subscription =
  sb_id :: nat
  sb_request :: request_id
  sb_sink :: "nat option"
  sb_events :: "queued_event list"
  sb_bytes :: nat
  sb_gap :: bool
  sb_suppress :: bool
  sb_connected :: bool
  sb_registered :: bool

record delivery_subscription =
  ds_id :: nat
  ds_request :: request_id
  ds_sink :: nat
  ds_connected :: bool

record hub =
  hb_event_limit :: nat
  hb_byte_limit :: nat
  hb_global_limit :: nat
  hb_subs :: "subscription list"
  hb_deliveries :: "delivery_subscription list"
  hb_next :: nat
  hb_queued :: nat
  hb_changes :: "64 word"

definition hub_with_limits :: "nat \<Rightarrow> nat \<Rightarrow> nat \<Rightarrow> hub option" where
  "hub_with_limits event_limit byte_limit global_limit =
     (if 2 \<le> event_limit \<and> 0 < byte_limit \<and> 0 < global_limit
      then Some \<lparr>hb_event_limit = event_limit, hb_byte_limit = byte_limit, hb_global_limit = global_limit, hb_subs = [],
                 hb_deliveries = [], hb_next = 1, hb_queued = 0, hb_changes = 0\<rparr>
      else None)"

definition hub_default :: "hub option" where
  "hub_default = hub_with_limits DEFAULT_EVENTS_PER_SUBSCRIPTION DEFAULT_BYTES_PER_SUBSCRIPTION DEFAULT_GLOBAL_BYTES"

definition bump :: "hub \<Rightarrow> hub" where
  "bump h = h\<lparr>hb_changes := hb_changes h + 1\<rparr>"

section \<open>Subscribing\<close>

definition subscribe_inner :: "request_id \<Rightarrow> nat option \<Rightarrow> hub \<Rightarrow> nat \<times> hub" where
  "subscribe_inner q sink h =
     (hb_next h, bump (h\<lparr>hb_next := hb_next h + 1,
        hb_subs := hb_subs h @ [\<lparr>sb_id = hb_next h, sb_request = q, sb_sink = sink, sb_events = [], sb_bytes = 0,
          sb_gap = False, sb_suppress = False, sb_connected = True, sb_registered = True\<rparr>]\<rparr>))"

definition subscribe :: "request_id \<Rightarrow> hub \<Rightarrow> nat \<times> hub" where
  "subscribe q h = subscribe_inner q None h"

definition subscribe_with_delivery_sink :: "request_id \<Rightarrow> nat \<Rightarrow> hub \<Rightarrow> nat \<times> hub" where
  "subscribe_with_delivery_sink q sink h = subscribe_inner q (Some sink) h"

definition subscribe_delivery :: "request_id \<Rightarrow> nat \<Rightarrow> hub \<Rightarrow> nat \<times> hub" where
  "subscribe_delivery q sink h =
     (hb_next h, bump (h\<lparr>hb_next := hb_next h + 1,
        hb_deliveries := hb_deliveries h @ [\<lparr>ds_id = hb_next h, ds_request = q, ds_sink = sink, ds_connected = True\<rparr>]\<rparr>))"

section \<open>Publishing\<close>

datatype published_body = PbText string | PbActivity agent_activity

fun is_text :: "published_body \<Rightarrow> bool" where
  "is_text (PbText t) = True"
| "is_text (PbActivity a) = False"

fun body_bytes :: "published_body \<Rightarrow> nat" where
  "body_bytes (PbText t) = utf8_len t"
| "body_bytes (PbActivity (AaDescription d)) = utf8_len d"
| "body_bytes (PbActivity (AaToolStarted n)) = utf8_len n"
| "body_bytes (PbActivity (AaToolFinished n s)) = utf8_len n"
| "body_bytes (PbActivity a) = 0"

fun to_activity_event :: "agent_activity \<Rightarrow> activity_event" where
  "to_activity_event AaModelStepStarted = EvModelStepStarted"
| "to_activity_event (AaDescription d) = EvDescription d"
| "to_activity_event (AaToolStarted n) = EvToolStarted n"
| "to_activity_event (AaToolFinished n s) = EvToolFinished n s"
| "to_activity_event AaCompleted = EvActivityCompleted"
| "to_activity_event AaCancelled = EvActivityCancelled"
| "to_activity_event AaFailed = EvActivityFailed"

fun body_event :: "request_id \<Rightarrow> published_body \<Rightarrow> server_event" where
  "body_event q (PbText t) = server_event_new (SvTextDelta q t)"
| "body_event q (PbActivity a) = server_event_new (SvActivity q (to_activity_event a))"

definition reserve_global_bytes :: "nat \<Rightarrow> hub \<Rightarrow> hub option" where
  "reserve_global_bytes n h =
     (if hb_queued h + n < 2 ^ 64 \<and> hb_queued h + n \<le> hb_global_limit h
      then Some (h\<lparr>hb_queued := hb_queued h + n\<rparr>) else None)"

definition enqueue_gap :: "subscription \<Rightarrow> subscription" where
  "enqueue_gap s =
     (if sb_gap s then s
      else s\<lparr>sb_gap := True, sb_suppress := True,
             sb_events := sb_events s @ [\<lparr>qe_event = server_event_new (SvStreamGap (sb_request s)), qe_bytes = 0\<rparr>]\<rparr>)"

definition enqueue_body :: "published_body \<Rightarrow> hub \<Rightarrow> subscription \<Rightarrow> hub \<times> subscription" where
  "enqueue_body body h s =
     (if \<not> sb_connected s then (h, s)
      else if is_text body \<and> sb_suppress s then (h, s)
      else let n = body_bytes body in
        case (if length (sb_events s) < hb_event_limit h - 1 \<and> min (2 ^ 64 - 1) (sb_bytes s + n) \<le> hb_byte_limit h
              then reserve_global_bytes n h else None) of
          Some h \<Rightarrow> (h, s\<lparr>sb_bytes := sb_bytes s + n,
                          sb_events := sb_events s @ [\<lparr>qe_event = body_event (sb_request s) body, qe_bytes = n\<rparr>]\<rparr>)
        | None \<Rightarrow> (h, enqueue_gap s))"

definition find_sub :: "hub \<Rightarrow> nat \<Rightarrow> subscription option" where
  "find_sub h i = List.find (\<lambda>s. sb_id s = i) (hb_subs h)"

definition put_sub :: "subscription \<Rightarrow> hub \<Rightarrow> hub" where
  "put_sub s h = h\<lparr>hb_subs := update_where (\<lambda>t. sb_id t = sb_id s) (\<lambda>_. s) (hb_subs h)\<rparr>"

definition enqueue_at :: "published_body \<Rightarrow> nat \<Rightarrow> hub \<Rightarrow> hub" where
  "enqueue_at body i h =
     (case find_sub h i of None \<Rightarrow> h | Some s \<Rightarrow> (case enqueue_body body h s of (h, s) \<Rightarrow> put_sub s h))"

definition subscribers :: "hub \<Rightarrow> request_id \<Rightarrow> nat list" where
  "subscribers h q = map sb_id (filter (\<lambda>s. sb_registered s \<and> sb_request s = q) (hb_subs h))"

definition publish :: "request_id list \<Rightarrow> published_body \<Rightarrow> hub \<Rightarrow> hub" where
  "publish qs body h = fold (\<lambda>q h. fold (enqueue_at body) (subscribers h q) h) qs h"

definition hub_publish_text :: "request_id list \<Rightarrow> string \<Rightarrow> hub \<Rightarrow> hub" where
  "hub_publish_text qs delta h = (if delta = [] then h else publish qs (PbText delta) h)"

definition hub_publish_activity :: "request_id list \<Rightarrow> agent_activity \<Rightarrow> hub \<Rightarrow> hub" where
  "hub_publish_activity qs a h = publish qs (PbActivity a) h"

text \<open>\<open>CompositeRuntimeEventPublisher\<close>: a run with a delivery route is also announced to its gateway.\<close>

record gateway_activity =
  ga_work :: work_item_id
  ga_route :: delivery_route
  ga_source :: "string option"
  ga_body :: published_body

definition gateway_copy :: "attached_run \<Rightarrow> published_body \<Rightarrow> gateway_activity list" where
  "gateway_copy run body =
     (case ar_route run of
        None \<Rightarrow> []
      | Some r \<Rightarrow> [\<lparr>ga_work = ar_work run, ga_route = r, ga_source = ar_source run, ga_body = body\<rparr>])"

definition run_publish_text :: "attached_run \<Rightarrow> string \<Rightarrow> hub \<Rightarrow> hub \<times> gateway_activity list" where
  "run_publish_text run delta h = (hub_publish_text (ar_requests run) delta h, gateway_copy run (PbText delta))"

definition run_publish_activity :: "attached_run \<Rightarrow> agent_activity \<Rightarrow> hub \<Rightarrow> hub \<times> gateway_activity list" where
  "run_publish_activity run a h = (hub_publish_activity (ar_requests run) a h, gateway_copy run (PbActivity a))"

section \<open>Receiving and leaving\<close>

definition try_recv :: "nat \<Rightarrow> hub \<Rightarrow> server_event option \<times> hub" where
  "try_recv i h =
     (case find_sub h i of
        None \<Rightarrow> (None, h)
      | Some s \<Rightarrow>
          (case sb_events s of
             [] \<Rightarrow> (None, h)
           | e # es \<Rightarrow>
               (Some (qe_event e),
                (put_sub (s\<lparr>sb_events := es, sb_bytes := sb_bytes s - qe_bytes e\<rparr>) h)
                  \<lparr>hb_queued := hb_queued h - qe_bytes e\<rparr>)))"

text \<open>Dropping the handle: disconnect under the queue's lock, leave the table, and free the state.\<close>

definition disconnect :: "nat \<Rightarrow> hub \<Rightarrow> hub" where
  "disconnect i h = (case find_sub h i of None \<Rightarrow> h | Some s \<Rightarrow> put_sub (s\<lparr>sb_connected := False\<rparr>) h)"

definition unregister :: "nat \<Rightarrow> hub \<Rightarrow> hub" where
  "unregister i h =
     (case find_sub h i of
        None \<Rightarrow> h
      | Some s \<Rightarrow>
          (if subscribers h (sb_request s) = [] then h else bump (put_sub (s\<lparr>sb_registered := False\<rparr>) h)))"

definition release_sub :: "nat \<Rightarrow> hub \<Rightarrow> hub" where
  "release_sub i h =
     (case find_sub h i of
        None \<Rightarrow> h
      | Some s \<Rightarrow> h\<lparr>hb_queued := hb_queued h - sb_bytes s, hb_subs := delete_where (\<lambda>t. sb_id t = i) (hb_subs h)\<rparr>)"

definition drop_subscription :: "nat \<Rightarrow> hub \<Rightarrow> hub" where
  "drop_subscription i h = release_sub i (unregister i (disconnect i h))"

definition disconnect_delivery :: "nat \<Rightarrow> hub \<Rightarrow> hub" where
  "disconnect_delivery i h =
     h\<lparr>hb_deliveries := update_where (\<lambda>d. ds_id d = i) (\<lambda>d. d\<lparr>ds_connected := False\<rparr>) (hb_deliveries h)\<rparr>"

definition drop_delivery :: "nat \<Rightarrow> hub \<Rightarrow> hub" where
  "drop_delivery i h =
     (if list_ex (\<lambda>d. ds_id d = i) (hb_deliveries h)
      then bump (h\<lparr>hb_deliveries := delete_where (\<lambda>d. ds_id d = i) (hb_deliveries h)\<rparr>) else h)"

section \<open>The registry of the outbox worker\<close>

definition sub_sinks :: "hub \<Rightarrow> request_id \<Rightarrow> nat list" where
  "sub_sinks h q = List.map_filter (\<lambda>s. if sb_registered s \<and> sb_request s = q \<and> sb_connected s then sb_sink s else None) (hb_subs h)"

definition delivery_sinks :: "hub \<Rightarrow> request_id \<Rightarrow> nat list" where
  "delivery_sinks h q = map ds_sink (filter (\<lambda>d. ds_request d = q \<and> ds_connected d) (hb_deliveries h))"

definition hub_snapshot :: "hub \<Rightarrow> request_id \<Rightarrow> nat list" where
  "hub_snapshot h q = sub_sinks h q @ delivery_sinks h q"

text \<open>The code collects a hash set, in no particular order.\<close>

definition subscribed_request_ids :: "hub \<Rightarrow> request_id list" where
  "subscribed_request_ids h =
     remdups (map sb_request (filter (\<lambda>s. sb_registered s \<and> sb_connected s \<and> sb_sink s \<noteq> None) (hb_subs h))
              @ map ds_request (filter (\<lambda>d. ds_connected d) (hb_deliveries h)))"

lemma subscribed_iff_snapshot: "q \<in> set (subscribed_request_ids h) \<longleftrightarrow> hub_snapshot h q \<noteq> []"
proof -
  have "sub_sinks h q \<noteq> [] \<longleftrightarrow> (\<exists>s \<in> set (hb_subs h). sb_registered s \<and> sb_request s = q \<and> sb_connected s \<and> sb_sink s \<noteq> None)"
    by (induction "hb_subs h" arbitrary: h rule: list.induct)
       (auto simp: sub_sinks_def map_filter_def filter_empty_conv split: if_splits)
  then show ?thesis
    by (auto simp: subscribed_request_ids_def hub_snapshot_def delivery_sinks_def filter_empty_conv)
qed

section \<open>Steps\<close>

datatype hub_action =
    HaSubscribe request_id "nat option" | HaSubscribeDelivery request_id nat | HaEnqueue published_body nat
  | HaReceive nat | HaDisconnect nat | HaUnregister nat | HaRelease nat | HaDisconnectDelivery nat | HaDropDelivery nat

fun hub_act :: "hub_action \<Rightarrow> hub \<Rightarrow> hub" where
  "hub_act (HaSubscribe q sink) h = snd (subscribe_inner q sink h)"
| "hub_act (HaSubscribeDelivery q sink) h = snd (subscribe_delivery q sink h)"
| "hub_act (HaEnqueue body i) h = enqueue_at body i h"
| "hub_act (HaReceive i) h = snd (try_recv i h)"
| "hub_act (HaDisconnect i) h = disconnect i h"
| "hub_act (HaUnregister i) h = unregister i h"
| "hub_act (HaRelease i) h = release_sub i h"
| "hub_act (HaDisconnectDelivery i) h = disconnect_delivery i h"
| "hub_act (HaDropDelivery i) h = drop_delivery i h"

definition hub_run :: "hub_action list \<Rightarrow> hub \<Rightarrow> hub" where
  "hub_run acts h = fold hub_act acts h"

text \<open>Publishing and dropping a handle are sequences of these steps.\<close>

lemma hub_run_simps [simp]: "hub_run [] h = h" "hub_run (a # acts) h = hub_run acts (hub_act a h)"
  "hub_run (acts @ rest) h = hub_run rest (hub_run acts h)"
  by (simp_all add: hub_run_def)

lemma enqueue_steps: "fold (enqueue_at body) ids h = hub_run (map (HaEnqueue body) ids) h"
  by (induction ids arbitrary: h) simp_all

lemma publish_steps: "\<exists>acts. publish qs body h = hub_run acts h"
proof (induction qs arbitrary: h)
  case Nil
  show ?case by (intro exI[of _ "[]"]) (simp add: publish_def)
next
  case (Cons q qs)
  let ?here = "map (HaEnqueue body) (subscribers h q)"
  obtain rest where "publish qs body (hub_run ?here h) = hub_run rest (hub_run ?here h)" using Cons.IH by blast
  then show ?case by (intro exI[of _ "?here @ rest"]) (simp add: publish_def enqueue_steps)
qed

lemma drop_subscription_steps: "drop_subscription i h = hub_run [HaDisconnect i, HaUnregister i, HaRelease i] h"
  by (simp add: drop_subscription_def)

section \<open>Limits\<close>

definition sub_within :: "hub \<Rightarrow> subscription \<Rightarrow> bool" where
  "sub_within h s \<longleftrightarrow>
     length (sb_events s) \<le> hb_event_limit h \<and> (\<not> sb_gap s \<longrightarrow> length (sb_events s) < hb_event_limit h)
     \<and> sb_bytes s = sum_list (map qe_bytes (sb_events s)) \<and> sb_bytes s \<le> hb_byte_limit h \<and> sb_suppress s = sb_gap s"

definition hub_within :: "hub \<Rightarrow> bool" where
  "hub_within h \<longleftrightarrow>
     2 \<le> hb_event_limit h \<and> distinct (map sb_id (hb_subs h)) \<and> (\<forall>s \<in> set (hb_subs h). sb_id s < hb_next h \<and> sub_within h s)
     \<and> hb_queued h = sum_list (map sb_bytes (hb_subs h)) \<and> hb_queued h \<le> hb_global_limit h"

lemma find_sub_split:
  assumes "find_sub h i = Some s" and "distinct (map sb_id (hb_subs h))"
  obtains xs ys where "hb_subs h = xs @ s # ys" "sb_id s = i"
    "\<And>t. update_where (\<lambda>t. sb_id t = i) (\<lambda>_. t) (hb_subs h) = xs @ t # ys"
    "delete_where (\<lambda>t. sb_id t = i) (hb_subs h) = xs @ ys"
proof -
  have "s \<in> set (hb_subs h)" and i: "sb_id s = i" using assms(1) by (auto simp: find_sub_def find_Some_iff)
  then obtain xs ys where sp: "hb_subs h = xs @ s # ys" by (auto simp: in_set_conv_decomp)
  have "i \<notin> sb_id ` set xs" "i \<notin> sb_id ` set ys" using assms(2) i unfolding sp by auto
  then have other: "t \<in> set xs \<Longrightarrow> sb_id t \<noteq> i" "t \<in> set ys \<Longrightarrow> sb_id t \<noteq> i" for t by (auto simp: image_iff)
  then have "update_where (\<lambda>t. sb_id t = i) (\<lambda>_. t) xs = xs" "update_where (\<lambda>t. sb_id t = i) (\<lambda>_. t) ys = ys"
    "delete_where (\<lambda>t. sb_id t = i) xs = xs" "delete_where (\<lambda>t. sb_id t = i) ys = ys" for t
    by (auto simp: update_where_def delete_where_def filter_id_conv intro!: map_idI)
  then show ?thesis using that[of xs ys] i by (simp add: sp update_where_append delete_where_def)
qed

lemma find_sub_in: "find_sub h i = Some s \<Longrightarrow> s \<in> set (hb_subs h) \<and> sb_id s = i"
  by (auto simp: find_sub_def find_Some_iff)

lemma limits_kept_act: "hb_event_limit (hub_act a h) = hb_event_limit h \<and> hb_byte_limit (hub_act a h) = hb_byte_limit h
    \<and> hb_global_limit (hub_act a h) = hb_global_limit h"
  by (cases a) (auto simp: subscribe_inner_def subscribe_delivery_def bump_def enqueue_at_def enqueue_body_def put_sub_def
      reserve_global_bytes_def try_recv_def disconnect_def unregister_def release_sub_def disconnect_delivery_def
      drop_delivery_def Let_def split: option.split list.split)

lemma limits_kept: "hb_event_limit (hub_run acts h) = hb_event_limit h \<and> hb_byte_limit (hub_run acts h) = hb_byte_limit h
    \<and> hb_global_limit (hub_run acts h) = hb_global_limit h"
  by (induction acts arbitrary: h) (simp_all add: limits_kept_act)

text \<open>Replacing one subscription and adjusting the global count with it keeps the limits.\<close>

lemma within_put_sub:
  assumes h: "hub_within h" and f: "find_sub h i = Some s" and t: "sb_id t = i" "sub_within h t"
    and n: "n + sb_bytes s = hb_queued h + sb_bytes t" "n \<le> hb_global_limit h"
  shows "hub_within ((put_sub t h)\<lparr>hb_queued := n\<rparr>)"
proof -
  obtain xs ys where sp: "hb_subs h = xs @ s # ys" "sb_id s = i"
    "update_where (\<lambda>u. sb_id u = i) (\<lambda>_. t) (hb_subs h) = xs @ t # ys"
    using find_sub_split[OF f] h by (metis hub_within_def)
  let ?h = "h\<lparr>hb_subs := xs @ t # ys, hb_queued := n\<rparr>"
  have same: "sub_within ?h = sub_within h" by (intro ext) (simp add: sub_within_def)
  have "hb_queued h = sum_list (map sb_bytes xs) + sb_bytes s + sum_list (map sb_bytes ys)"
    using h sp by (simp add: hub_within_def)
  then have "n = sum_list (map sb_bytes (xs @ t # ys))" using n(1) by simp
  moreover have "distinct (map sb_id (xs @ t # ys))" using h t(1) sp by (simp add: hub_within_def)
  moreover have "\<forall>u \<in> set (xs @ t # ys). sb_id u < hb_next h \<and> sub_within h u"
    using h t sp by (simp add: hub_within_def)
  ultimately have "hub_within ?h" using h n(2) unfolding hub_within_def same by simp
  then show ?thesis using sp(3) t(1) by (simp add: put_sub_def)
qed

lemma bytes_counted: "hub_within h \<Longrightarrow> s \<in> set (hb_subs h) \<Longrightarrow> sb_bytes s \<le> hb_queued h"
  by (auto simp: hub_within_def intro!: member_le_sum_list)

lemma within_enqueue_gap: "hub_within h \<Longrightarrow> sub_within h s \<Longrightarrow> sub_within h (enqueue_gap s)"
  by (auto simp: sub_within_def enqueue_gap_def)

lemma put_sub_queued: "(put_sub t h)\<lparr>hb_queued := hb_queued h\<rparr> = put_sub t h"
  by (simp add: put_sub_def)

lemma within_enqueue:
  assumes h: "hub_within h"
  shows "hub_within (enqueue_at body i h)"
proof (cases "find_sub h i")
  case (Some s)
  note s = find_sub_in[OF Some]
  have w: "sub_within h s" using h s by (auto simp: hub_within_def)
  have same: "hub_within (put_sub t h)" if "sb_id t = i" "sub_within h t" "sb_bytes t = sb_bytes s" for t
    using within_put_sub[OF h Some that(1,2), of "hb_queued h"] h that(3) by (simp add: put_sub_queued hub_within_def)
  define n where "n = body_bytes body"
  show ?thesis
  proof (cases "sb_connected s \<and> \<not> (is_text body \<and> sb_suppress s) \<and> length (sb_events s) < hb_event_limit h - 1
      \<and> min (2 ^ 64 - 1) (sb_bytes s + n) \<le> hb_byte_limit h \<and> hb_queued h + n < 2 ^ 64 \<and> hb_queued h + n \<le> hb_global_limit h")
    case True
    let ?t = "s\<lparr>sb_bytes := sb_bytes s + n, sb_events := sb_events s @ [\<lparr>qe_event = body_event (sb_request s) body, qe_bytes = n\<rparr>]\<rparr>"
    have "sb_bytes s + n < 2 ^ 64" using True bytes_counted[OF h conjunct1[OF s]] by linarith
    then have "sb_bytes s + n \<le> hb_byte_limit h" using True by (simp add: min_def split: if_splits)
    then have "sub_within h ?t" using w True by (auto simp: sub_within_def)
    then have "hub_within ((put_sub ?t h)\<lparr>hb_queued := hb_queued h + n\<rparr>)"
      using within_put_sub[OF h Some, of ?t "hb_queued h + n"] s True by simp
    moreover have "enqueue_at body i h = (put_sub ?t h)\<lparr>hb_queued := hb_queued h + n\<rparr>"
      using True Some by (auto simp: enqueue_at_def enqueue_body_def reserve_global_bytes_def put_sub_def n_def Let_def)
    ultimately show ?thesis by simp
  next
    case False
    then have "enqueue_at body i h = put_sub s h \<or> enqueue_at body i h = put_sub (enqueue_gap s) h"
      using Some by (auto simp: enqueue_at_def enqueue_body_def reserve_global_bytes_def n_def Let_def)
    moreover have "sb_id (enqueue_gap s) = i" "sb_bytes (enqueue_gap s) = sb_bytes s"
      using s by (simp_all add: enqueue_gap_def)
    ultimately show ?thesis using same[of s] same[of "enqueue_gap s"] s w within_enqueue_gap[OF h w] by auto
  qed
qed (simp add: enqueue_at_def assms)

lemma within_try_recv:
  assumes h: "hub_within h"
  shows "hub_within (snd (try_recv i h))"
proof (cases "find_sub h i")
  case (Some s)
  note s = find_sub_in[OF Some]
  have w: "sub_within h s" using h s by (auto simp: hub_within_def)
  show ?thesis
  proof (cases "sb_events s")
    case (Cons e es)
    let ?t = "s\<lparr>sb_events := es, sb_bytes := sb_bytes s - qe_bytes e\<rparr>"
    have b: "qe_bytes e \<le> sb_bytes s" "sb_bytes s \<le> hb_queued h"
      using w Cons bytes_counted[OF h conjunct1[OF s]] by (auto simp: sub_within_def)
    have "sub_within h ?t" using w Cons by (auto simp: sub_within_def)
    moreover have "hb_queued h - qe_bytes e + sb_bytes s = hb_queued h + sb_bytes ?t" using b by simp
    moreover have "hb_queued h - qe_bytes e \<le> hb_global_limit h" using h by (auto simp: hub_within_def)
    ultimately show ?thesis using within_put_sub[OF h Some, of ?t] s Some Cons by (simp add: try_recv_def)
  qed (use h Some in \<open>simp add: try_recv_def\<close>)
qed (simp add: try_recv_def assms)

lemma within_flags:
  assumes h: "hub_within h" and f: "find_sub h i = Some s" and t: "sb_id t = sb_id s" "sb_events t = sb_events s"
    "sb_bytes t = sb_bytes s" "sb_gap t = sb_gap s" "sb_suppress t = sb_suppress s"
  shows "hub_within (put_sub t h)"
proof -
  have "sub_within h s" using h find_sub_in[OF f] by (auto simp: hub_within_def)
  then have "sub_within h t" using t by (simp add: sub_within_def)
  then show ?thesis
    using within_put_sub[OF h f, of t "hb_queued h"] t find_sub_in[OF f] h by (simp add: put_sub_queued hub_within_def)
qed

lemma within_bump: "hub_within (bump h) = hub_within h"
  by (simp add: hub_within_def sub_within_def bump_def)

lemma within_release:
  assumes h: "hub_within h"
  shows "hub_within (release_sub i h)"
proof (cases "find_sub h i")
  case (Some s)
  obtain xs ys where sp: "hb_subs h = xs @ s # ys" "delete_where (\<lambda>u. sb_id u = i) (hb_subs h) = xs @ ys"
    using find_sub_split[OF Some] h by (metis hub_within_def)
  let ?h = "h\<lparr>hb_queued := hb_queued h - sb_bytes s, hb_subs := xs @ ys\<rparr>"
  have same: "sub_within ?h = sub_within h" by (intro ext) (simp add: sub_within_def)
  have total: "hb_queued h = sum_list (map sb_bytes (xs @ s # ys))" using h sp by (simp add: hub_within_def)
  have "hub_within ?h" using h unfolding hub_within_def same by (simp add: sp(1) total)
  then show ?thesis using Some sp(2) by (simp add: release_sub_def)
qed (simp add: release_sub_def assms)

lemma within_deliveries: "hub_within h \<Longrightarrow> hub_within (h\<lparr>hb_deliveries := ds\<rparr>)"
proof -
  have "sub_within (h\<lparr>hb_deliveries := ds\<rparr>) = sub_within h" by (intro ext) (simp add: sub_within_def)
  then show "hub_within h \<Longrightarrow> hub_within (h\<lparr>hb_deliveries := ds\<rparr>)" by (simp add: hub_within_def)
qed

lemma within_subscribe:
  assumes h: "hub_within h"
  shows "hub_within (snd (subscribe_inner q sink h))"
proof -
  let ?s = "\<lparr>sb_id = hb_next h, sb_request = q, sb_sink = sink, sb_events = [], sb_bytes = 0, sb_gap = False,
    sb_suppress = False, sb_connected = True, sb_registered = True\<rparr>"
  let ?h = "h\<lparr>hb_next := hb_next h + 1, hb_subs := hb_subs h @ [?s]\<rparr>"
  have same: "sub_within ?h = sub_within h" by (intro ext) (simp add: sub_within_def)
  have old: "\<forall>s \<in> set (hb_subs h). sb_id s < hb_next h \<and> sub_within h s" using h by (simp add: hub_within_def)
  have "sub_within h ?s" using h by (simp add: sub_within_def hub_within_def)
  moreover have "hb_next h \<notin> sb_id ` set (hb_subs h)" using old by auto
  ultimately have "hub_within ?h" using h old unfolding hub_within_def same by (auto simp: less_Suc_eq)
  then show ?thesis by (simp add: subscribe_inner_def within_bump)
qed

lemma within_subscribe_delivery:
  assumes h: "hub_within h"
  shows "hub_within (snd (subscribe_delivery q sink h))"
proof -
  have "sub_within (h\<lparr>hb_next := hb_next h + 1\<rparr>) = sub_within h" by (intro ext) (simp add: sub_within_def)
  then have "hub_within (h\<lparr>hb_next := hb_next h + 1\<rparr>)" using h by (auto simp: hub_within_def less_Suc_eq)
  then show ?thesis by (simp add: subscribe_delivery_def within_bump) (drule within_deliveries, simp)
qed

lemma within_unregister: "hub_within h \<Longrightarrow> hub_within (unregister i h)"
  by (auto simp: unregister_def within_bump within_flags split: option.split)

lemma within_disconnect: "hub_within h \<Longrightarrow> hub_within (disconnect i h)"
  by (auto simp: disconnect_def within_flags split: option.split)

lemma within_act: "hub_within h \<Longrightarrow> hub_within (hub_act a h)"
  by (cases a) (simp_all add: within_subscribe within_subscribe_delivery within_enqueue within_try_recv within_disconnect
    within_unregister within_release within_deliveries disconnect_delivery_def drop_delivery_def within_bump)

lemma within_run: "hub_within h \<Longrightarrow> hub_within (hub_run acts h)"
  by (induction acts arbitrary: h) (auto intro: within_act)

lemma within_limits: "hub_with_limits e b g = Some h \<Longrightarrow> hub_within h"
  by (auto simp: hub_with_limits_def hub_within_def split: if_splits)

section \<open>What one subscription sees\<close>

text \<open>
  A body fits a subscription when a slot remains besides the one kept for the gap marker, and its
  bytes fit the queue and the hub.
\<close>

definition body_fits :: "hub \<Rightarrow> subscription \<Rightarrow> published_body \<Rightarrow> bool" where
  "body_fits h s body \<longleftrightarrow>
     length (sb_events s) + 1 < hb_event_limit h \<and> sb_bytes s + body_bytes body \<le> hb_byte_limit h
     \<and> hb_queued h + body_bytes body \<le> hb_global_limit h \<and> hb_queued h + body_bytes body < 2 ^ 64"

text \<open>
  The bodies a subscription is offered while it is connected, each with whether it fits at that
  moment, and the events it receives, along a run of the hub.
\<close>

fun sub_offered :: "nat \<Rightarrow> hub_action \<Rightarrow> hub \<Rightarrow> (published_body \<times> bool) list" where
  "sub_offered i (HaEnqueue body j) h =
     (if j = i then (case find_sub h i of None \<Rightarrow> [] | Some s \<Rightarrow> if sb_connected s then [(body, body_fits h s body)] else [])
      else [])"
| "sub_offered i a h = []"

fun sub_received :: "nat \<Rightarrow> hub_action \<Rightarrow> hub \<Rightarrow> server_event list" where
  "sub_received i (HaReceive j) h =
     (if j = i then (case fst (try_recv i h) of None \<Rightarrow> [] | Some e \<Rightarrow> [e]) else [])"
| "sub_received i a h = []"

fun sub_observed :: "nat \<Rightarrow> hub_action list \<Rightarrow> hub \<Rightarrow> (published_body \<times> bool) list \<times> server_event list" where
  "sub_observed i [] h = ([], [])"
| "sub_observed i (a # acts) h =
     (case sub_observed i acts (hub_act a h) of (off, rcv) \<Rightarrow> (sub_offered i a h @ off, sub_received i a h @ rcv))"

text \<open>
  The stream those offers stand for: everything up to the first body that does not fit, a gap marker
  in its place, and after it the activities that fit, never text.
\<close>

fun expected_stream :: "request_id \<Rightarrow> bool \<Rightarrow> (published_body \<times> bool) list \<Rightarrow> server_event list" where
  "expected_stream q gap [] = []"
| "expected_stream q gap ((body, fits) # off) =
     (if gap \<and> is_text body then expected_stream q gap off
      else if fits then body_event q body # expected_stream q gap off
      else if gap then expected_stream q gap off
      else server_event_new (SvStreamGap q) # expected_stream q True off)"

definition was_cut :: "(published_body \<times> bool) list \<Rightarrow> bool" where
  "was_cut off \<longleftrightarrow> list_ex (\<lambda>(body, fits). \<not> fits) off"

lemma expected_append: "expected_stream q gap (off @ rest) = expected_stream q gap off @ expected_stream q (gap \<or> was_cut off) rest"
  by (induction q gap off rule: expected_stream.induct) (auto simp: was_cut_def)

lemma was_cut_append [simp]: "was_cut (off @ rest) = (was_cut off \<or> was_cut rest)" "\<not> was_cut []"
  "was_cut [(body, fits)] = (\<not> fits)"
  by (simp_all add: was_cut_def)

text \<open>What was received is the beginning of the expected stream, and the queue holds the rest of it.\<close>

definition sees :: "nat \<Rightarrow> request_id \<Rightarrow> (published_body \<times> bool) list \<Rightarrow> server_event list \<Rightarrow> hub \<Rightarrow> bool" where
  "sees i q off rcv h \<longleftrightarrow>
     i < hb_next h
     \<and> (case find_sub h i of
          None \<Rightarrow> prefix rcv (expected_stream q False off)
        | Some s \<Rightarrow> sb_request s = q \<and> sb_suppress s = sb_gap s \<and> sb_gap s = was_cut off
                    \<and> rcv @ map qe_event (sb_events s) = expected_stream q False off)"

lemma find_put_sub:
  "find_sub (put_sub t h) i = (if sb_id t = i then map_option (\<lambda>_. t) (find_sub h i) else find_sub h i)"
proof -
  have "List.find (\<lambda>s. sb_id s = i) (update_where (\<lambda>u. sb_id u = sb_id t) (\<lambda>_. t) rows) =
      (if sb_id t = i then map_option (\<lambda>_. t) (List.find (\<lambda>s. sb_id s = i) rows) else List.find (\<lambda>s. sb_id s = i) rows)"
    for rows :: "subscription list" by (induction rows) auto
  then show ?thesis by (simp add: find_sub_def put_sub_def)
qed

lemma find_bump [simp]: "find_sub (bump h) i = find_sub h i"
  by (simp add: find_sub_def bump_def)

lemma find_queued [simp]: "find_sub (h\<lparr>hb_queued := n\<rparr>) i = find_sub h i"
  by (simp add: find_sub_def)

lemma find_deliveries [simp]: "find_sub (h\<lparr>hb_deliveries := ds\<rparr>) i = find_sub h i"
  by (simp add: find_sub_def)

lemma find_next [simp]: "find_sub (h\<lparr>hb_next := n\<rparr>) i = find_sub h i"
  by (simp add: find_sub_def)

lemma find_release: "find_sub (release_sub j h) i = (if j = i then None else find_sub h i)"
proof -
  have "List.find (\<lambda>s. sb_id s = i) (delete_where (\<lambda>t. sb_id t = j) rows) =
      (if j = i then None else List.find (\<lambda>s. sb_id s = i) rows)" for rows :: "subscription list"
    by (induction rows) (auto simp: delete_where_def)
  then show ?thesis by (auto simp: release_sub_def find_sub_def split: option.split)
qed

lemma find_subscribe:
  assumes "i < hb_next h"
  shows "find_sub (snd (subscribe_inner q sink h)) i = find_sub h i"
proof -
  have "List.find (\<lambda>s. sb_id s = i) (rows @ [s]) = List.find (\<lambda>s. sb_id s = i) rows"
    if "sb_id s \<noteq> i" for rows and s :: subscription using that by (induction rows) auto
  then show ?thesis using assms by (auto simp: subscribe_inner_def find_sub_def bump_def)
qed

lemma find_act_other:
  assumes "i < hb_next h" and "\<And>body. a \<noteq> HaEnqueue body i" "a \<noteq> HaReceive i" "a \<noteq> HaDisconnect i" "a \<noteq> HaUnregister i" "a \<noteq> HaRelease i"
  shows "find_sub (hub_act a h) i = find_sub h i"
proof (cases a)
  case (HaEnqueue body j)
  then have "j \<noteq> i" using assms by auto
  then show ?thesis using HaEnqueue
    by (auto simp: enqueue_at_def enqueue_body_def enqueue_gap_def reserve_global_bytes_def find_put_sub Let_def dest!: find_sub_in
        split: option.split)
next
  case (HaReceive j)
  then have "j \<noteq> i" using assms by auto
  then show ?thesis using HaReceive
    by (auto simp: try_recv_def find_put_sub dest!: find_sub_in split: option.split list.split)
next
  case (HaDisconnect j)
  then have "j \<noteq> i" using assms by auto
  then show ?thesis using HaDisconnect
    by (auto simp: disconnect_def find_put_sub dest!: find_sub_in split: option.split)
next
  case (HaUnregister j)
  then have "j \<noteq> i" using assms by auto
  then show ?thesis using HaUnregister
    by (auto simp: unregister_def find_put_sub dest!: find_sub_in split: option.split)
next
  case (HaRelease j)
  then show ?thesis using assms by (auto simp: find_release)
qed (use assms in \<open>simp_all add: find_subscribe subscribe_delivery_def disconnect_delivery_def drop_delivery_def\<close>)

lemma next_mono: "hb_next h \<le> hb_next (hub_act a h)"
  by (cases a) (auto simp: subscribe_inner_def subscribe_delivery_def bump_def enqueue_at_def enqueue_body_def put_sub_def
      reserve_global_bytes_def try_recv_def disconnect_def unregister_def release_sub_def disconnect_delivery_def
      drop_delivery_def Let_def split: option.split list.split)

lemma sees_mono:
  assumes "sees i q off rcv h" and "find_sub h' i = find_sub h i" and "hb_next h \<le> hb_next h'"
  shows "sees i q off rcv h'"
  using assms by (simp add: sees_def)

lemma sees_some:
  assumes "find_sub h i = Some s"
  shows "sees i q off rcv h \<longleftrightarrow>
    i < hb_next h \<and> sb_request s = q \<and> sb_suppress s = sb_gap s \<and> sb_gap s = was_cut off
    \<and> rcv @ map qe_event (sb_events s) = expected_stream q False off"
  using assms by (simp add: sees_def)

lemma sees_none:
  assumes "find_sub h i = None"
  shows "sees i q off rcv h \<longleftrightarrow> i < hb_next h \<and> prefix rcv (expected_stream q False off)"
  using assms by (simp add: sees_def)

text \<open>The checks of the code amount to \<open>body_fits\<close>, saturation and overflow included.\<close>

lemma capacity_iff:
  assumes h: "hub_within h" and s: "s \<in> set (hb_subs h)"
  shows "length (sb_events s) < hb_event_limit h - 1 \<and> min (2 ^ 64 - 1) (sb_bytes s + body_bytes body) \<le> hb_byte_limit h
      \<and> reserve_global_bytes (body_bytes body) h \<noteq> None \<longleftrightarrow> body_fits h s body"
proof -
  have "sb_bytes s \<le> hb_queued h" by (rule bytes_counted[OF h s])
  then have "hb_queued h + body_bytes body < 2 ^ 64 \<Longrightarrow> min (2 ^ 64 - 1) (sb_bytes s + body_bytes body) = sb_bytes s + body_bytes body"
    by (simp add: min_def)
  then show ?thesis unfolding body_fits_def reserve_global_bytes_def by auto
qed

text \<open>Enqueueing on the subscription itself, by what happens to its queue.\<close>

lemma enqueue_body_queue:
  assumes h: "hub_within h" and s: "s \<in> set (hb_subs h)" and c: "sb_connected s" and g: "sb_suppress s = sb_gap s"
    and e: "enqueue_body body h s = (h', t)"
  shows "map qe_event (sb_events t) = map qe_event (sb_events s) @ expected_stream (sb_request s) (sb_gap s) [(body, body_fits h s body)]"
    "sb_gap t = (sb_gap s \<or> \<not> (is_text body \<and> sb_gap s) \<and> \<not> body_fits h s body)"
proof -
  have "map qe_event (sb_events t) = map qe_event (sb_events s) @ expected_stream (sb_request s) (sb_gap s) [(body, body_fits h s body)]
     \<and> sb_gap t = (sb_gap s \<or> \<not> (is_text body \<and> sb_gap s) \<and> \<not> body_fits h s body)"
  proof (cases "is_text body \<and> sb_gap s")
    case True
    then show ?thesis using c e g by (simp add: enqueue_body_def)
  next
    case False
    show ?thesis
    proof (cases "body_fits h s body")
      case True
      then obtain h1 where "reserve_global_bytes (body_bytes body) h = Some h1"
        "length (sb_events s) < hb_event_limit h - 1" "min (2 ^ 64 - 1) (sb_bytes s + body_bytes body) \<le> hb_byte_limit h"
        using capacity_iff[OF h s, of body] by auto
      then have "t = s\<lparr>sb_bytes := sb_bytes s + body_bytes body,
          sb_events := sb_events s @ [\<lparr>qe_event = body_event (sb_request s) body, qe_bytes = body_bytes body\<rparr>]\<rparr>"
        using e c g False by (auto simp: enqueue_body_def Let_def)
      then show ?thesis using True False by auto
    next
      case no: False
      have "t = enqueue_gap s"
        using e c g False no capacity_iff[OF h s, of body] by (auto simp: enqueue_body_def Let_def split: if_splits option.splits)
      then show ?thesis using no False by (auto simp: enqueue_gap_def)
    qed
  qed
  then show "map qe_event (sb_events t) = map qe_event (sb_events s) @ expected_stream (sb_request s) (sb_gap s) [(body, body_fits h s body)]"
    "sb_gap t = (sb_gap s \<or> \<not> (is_text body \<and> sb_gap s) \<and> \<not> body_fits h s body)" by blast+
qed

lemma enqueue_body_keeps:
  assumes "enqueue_body body h s = (h', t)"
  shows "sb_id t = sb_id s" "sb_request t = sb_request s" "sb_suppress s = sb_gap s \<Longrightarrow> sb_suppress t = sb_gap t"
    "find_sub h' j = find_sub h j" "hb_next h' = hb_next h" "\<not> sb_connected s \<Longrightarrow> t = s"
  using assms
  by (auto simp: enqueue_body_def enqueue_gap_def reserve_global_bytes_def Let_def split: if_splits option.splits)

lemma sees_enqueue:
  assumes v: "sees i q off rcv h" and h: "hub_within h"
  shows "sees i q (off @ sub_offered i (HaEnqueue body i) h) rcv (enqueue_at body i h)"
proof (cases "find_sub h i")
  case (Some s)
  obtain h' t where e: "enqueue_body body h s = (h', t)" by fastforce
  note k = enqueue_body_keeps[OF e]
  note v' = v[unfolded sees_some[OF Some]]
  have at: "enqueue_at body i h = put_sub t h'" and n: "hb_next (put_sub t h') = hb_next h"
    using Some e k(5) by (simp_all add: enqueue_at_def put_sub_def)
  have t: "find_sub (put_sub t h') i = Some t" using k(1,4) Some find_sub_in[OF Some] by (simp add: find_put_sub)
  show ?thesis
  proof (cases "sb_connected s")
    case True
    note w = enqueue_body_queue[OF h conjunct1[OF find_sub_in[OF Some]] True _ e]
    have "sb_gap t = was_cut (off @ [(body, body_fits h s body)])" using w(2) v' by auto
    moreover have "rcv @ map qe_event (sb_events t) = expected_stream q False (off @ [(body, body_fits h s body)])"
      using w(1) v' by (simp add: expected_append del: expected_stream.simps)
    ultimately show ?thesis using v' k(2,3) Some True unfolding at sees_some[OF t] n by simp
  next
    case False
    then show ?thesis using v' k(6) Some unfolding at sees_some[OF t] n by simp
  qed
qed (use v in \<open>simp add: enqueue_at_def\<close>)

lemma sees_receive:
  assumes "sees i q off rcv h"
  shows "sees i q off (rcv @ sub_received i (HaReceive i) h) (snd (try_recv i h))"
proof (cases "find_sub h i")
  case (Some s)
  note v = assms[unfolded sees_some[OF Some]]
  show ?thesis
  proof (cases "sb_events s")
    case (Cons e es)
    let ?t = "s\<lparr>sb_events := es, sb_bytes := sb_bytes s - qe_bytes e\<rparr>"
    have t: "find_sub ((put_sub ?t h)\<lparr>hb_queued := hb_queued h - qe_bytes e\<rparr>) i = Some ?t"
      using Some find_sub_in[OF Some] by (simp add: find_put_sub)
    have "hb_next (put_sub ?t h) = hb_next h" by (simp add: put_sub_def)
    moreover have "try_recv i h = (Some (qe_event e), (put_sub ?t h)\<lparr>hb_queued := hb_queued h - qe_bytes e\<rparr>)"
      using Some Cons by (simp add: try_recv_def)
    ultimately show ?thesis using v Cons sees_some[OF t] by simp
  qed (use assms Some in \<open>simp add: try_recv_def\<close>)
qed (use assms in \<open>simp add: try_recv_def\<close>)

lemma sees_flags:
  assumes "sees i q off rcv h" and "find_sub h i = Some s" and "find_sub h' i = Some t"
    and "sb_request t = sb_request s" "sb_suppress t = sb_suppress s" "sb_gap t = sb_gap s" "sb_events t = sb_events s"
    and "hb_next h' = hb_next h"
  shows "sees i q off rcv h'"
  using assms by (simp add: sees_def)

lemma sees_release:
  assumes "sees i q off rcv h"
  shows "sees i q off rcv (release_sub i h)"
proof -
  have "hb_next (release_sub i h) = hb_next h" by (simp add: release_sub_def split: option.split)
  moreover have "prefix rcv (expected_stream q False off)"
  proof (cases "find_sub h i")
    case None
    then show ?thesis using assms by (simp add: sees_none)
  next
    case (Some s)
    then show ?thesis using assms unfolding sees_some[OF Some] by (metis prefixI)
  qed
  ultimately show ?thesis using assms unfolding sees_none[OF find_release[of i h i, simplified]] by (simp add: sees_def)
qed

lemma sees_act:
  assumes v: "sees i q off rcv h" and h: "hub_within h"
  shows "sees i q (off @ sub_offered i a h) (rcv @ sub_received i a h) (hub_act a h)"
proof -
  consider (enqueue) body where "a = HaEnqueue body i" | (receive) "a = HaReceive i" | (disconnect) "a = HaDisconnect i"
    | (unregister) "a = HaUnregister i" | (release) "a = HaRelease i"
    | (other) "\<And>body. a \<noteq> HaEnqueue body i" "a \<noteq> HaReceive i" "a \<noteq> HaDisconnect i" "a \<noteq> HaUnregister i" "a \<noteq> HaRelease i"
    by blast
  then show ?thesis
  proof cases
    case enqueue
    then show ?thesis using sees_enqueue[OF v h, of body] by simp
  next
    case receive
    then show ?thesis using sees_receive[OF v] by simp
  next
    case disconnect
    show ?thesis
    proof (cases "find_sub h i")
      case (Some s)
      then show ?thesis using disconnect find_sub_in[OF Some]
          sees_flags[OF v Some, of "disconnect i h" "s\<lparr>sb_connected := False\<rparr>"]
        by (simp add: disconnect_def find_put_sub) (simp add: put_sub_def)
    qed (use v disconnect in \<open>simp add: disconnect_def\<close>)
  next
    case unregister
    show ?thesis
    proof (cases "find_sub h i")
      case (Some s)
      have "sees i q off rcv (bump (put_sub (s\<lparr>sb_registered := False\<rparr>) h))"
        using sees_flags[OF v Some, of "bump (put_sub (s\<lparr>sb_registered := False\<rparr>) h)" "s\<lparr>sb_registered := False\<rparr>"]
          find_sub_in[OF Some] Some by (simp add: find_put_sub) (simp add: put_sub_def bump_def)
      then show ?thesis using unregister v Some by (simp add: unregister_def)
    qed (use v unregister in \<open>simp add: unregister_def\<close>)
  next
    case release
    then show ?thesis using sees_release[OF v] by simp
  next
    case other
    have "i < hb_next h" using v by (simp add: sees_def)
    then have "find_sub (hub_act a h) i = find_sub h i" using other by (rule find_act_other)
    moreover have "sub_offered i a h = []" "sub_received i a h = []" using other by (cases a; auto)+
    ultimately show ?thesis using sees_mono[OF v] next_mono by simp
  qed
qed

lemma sees_run:
  assumes "sees i q off rcv h" and "sub_observed i acts h = (o2, r2)" and "hub_within h"
  shows "sees i q (off @ o2) (rcv @ r2) (hub_run acts h)"
  using assms
proof (induction acts arbitrary: off rcv h o2 r2)
  case (Cons a acts)
  obtain o3 r3 where r: "sub_observed i acts (hub_act a h) = (o3, r3)" by fastforce
  then show ?case using Cons.IH[OF sees_act[OF Cons.prems(1,3)] r within_act[OF Cons.prems(3)]] Cons.prems(2) by auto
qed auto

section \<open>Properties\<close>

text \<open>
  C24. However many publishers, receivers and departures interleave, a hub built with its limits
  keeps them: every queue stays within the event limit (the last slot only for the gap marker) and
  the byte limit, the global byte count is exactly the sum of the queues, and it never exceeds the
  global limit.
\<close>

theorem hub_within_limits:
  assumes "hub_with_limits event_limit byte_limit global_limit = Some h0" and "h = hub_run acts h0"
  shows "(\<forall>s \<in> set (hb_subs h). length (sb_events s) \<le> event_limit \<and> (length (sb_events s) = event_limit \<longrightarrow> sb_gap s)
              \<and> sb_bytes s = sum_list (map qe_bytes (sb_events s)) \<and> sb_bytes s \<le> byte_limit)
         \<and> hb_queued h = sum_list (map sb_bytes (hb_subs h)) \<and> hb_queued h \<le> global_limit"
proof -
  have w: "hub_within h" using within_run[OF within_limits[OF assms(1)]] assms(2) by simp
  have "hb_event_limit h0 = event_limit" "hb_byte_limit h0 = byte_limit" "hb_global_limit h0 = global_limit"
    using assms(1) by (auto simp: hub_with_limits_def split: if_splits)
  then have "hb_event_limit h = event_limit" "hb_byte_limit h = byte_limit" "hb_global_limit h = global_limit"
    using limits_kept[of acts h0] assms(2) by simp_all
  then have "\<forall>s \<in> set (hb_subs h). length (sb_events s) \<le> event_limit \<and> (\<not> sb_gap s \<longrightarrow> length (sb_events s) < event_limit)
      \<and> sb_bytes s = sum_list (map qe_bytes (sb_events s)) \<and> sb_bytes s \<le> byte_limit"
    and "hb_queued h = sum_list (map sb_bytes (hb_subs h)) \<and> hb_queued h \<le> global_limit"
    using w unfolding hub_within_def sub_within_def by blast+
  then show ?thesis by (metis less_irrefl)
qed

text \<open>Two slots, four bytes: the second text overflows the first queue and becomes its gap marker.\<close>

definition two_slots :: hub where
  "two_slots = \<lparr>hb_event_limit = 2, hb_byte_limit = 4, hb_global_limit = 8, hb_subs = [], hb_deliveries = [], hb_next = 1,
     hb_queued = 0, hb_changes = 0\<rparr>"

lemma two_slots_limits: "hub_with_limits 2 4 8 = Some two_slots"
  by (simp add: hub_with_limits_def two_slots_def)

definition overflow_actions :: "hub_action list" where
  "overflow_actions = [HaEnqueue (PbText ''ab'') 1, HaEnqueue (PbText ''cd'') 1, HaReceive 1,
     HaEnqueue (PbText ''ef'') 1, HaReceive 1, HaEnqueue (PbActivity AaCompleted) 1, HaReceive 1]"

lemma hub_within_limits_witness:
  "hb_queued (hub_run (HaSubscribe ''r'' None # overflow_actions) two_slots)
     = sum_list (map sb_bytes (hb_subs (hub_run (HaSubscribe ''r'' None # overflow_actions) two_slots)))"
  using hub_within_limits[OF two_slots_limits refl, of "HaSubscribe ''r'' None # overflow_actions"] by blast

text \<open>
  C23. Whatever else the hub does, a new subscription receives, in order and each once, what it is
  offered while connected, up to the first body that does not fit its queue or the hub at the moment
  it is published; in its place comes the only gap marker, and after it the activities that fit and
  no text. What it has not yet received of this stream is in its queue, until it leaves.
\<close>

theorem stream_prefix_until_gap:
  assumes "subscribe_inner q sink h = (i, h1)" and "sub_observed i acts h1 = (off, rcv)" and "hub_within h"
  shows "prefix rcv (expected_stream q False off)
     \<and> (\<forall>s. find_sub (hub_run acts h1) i = Some s \<longrightarrow> rcv @ map qe_event (sb_events s) = expected_stream q False off)"
proof -
  have new: "i = hb_next h" "i < hb_next h1" using assms(1) by (auto simp: subscribe_inner_def bump_def)
  have "hb_next h \<notin> sb_id ` set (hb_subs h)" using assms(3) by (auto simp: hub_within_def)
  then have "List.find (\<lambda>s. sb_id s = hb_next h) (hb_subs h) = None"
    unfolding find_None_iff image_iff by fastforce
  then have f: "find_sub h1 i = Some \<lparr>sb_id = i, sb_request = q, sb_sink = sink, sb_events = [], sb_bytes = 0,
      sb_gap = False, sb_suppress = False, sb_connected = True, sb_registered = True\<rparr>"
    using assms(1) by (auto simp: subscribe_inner_def bump_def find_sub_def find_append)
  have w: "hub_within h1" using within_subscribe[OF assms(3), of q sink] assms(1) by simp
  have "sees i q [] [] h1" unfolding sees_some[OF f] using new by simp
  then have fin: "sees i q off rcv (hub_run acts h1)" using sees_run[OF _ assms(2) w] by fastforce
  then show ?thesis
  proof (cases "find_sub (hub_run acts h1) i")
    case (Some s)
    then show ?thesis using fin unfolding sees_some[OF Some] by (metis option.inject prefixI)
  qed (simp add: sees_none)
qed

lemma stream_prefix_until_gap_witness:
  "sub_observed 1 overflow_actions (snd (subscribe_inner ''r'' None two_slots)) =
     ([(PbText ''ab'', True), (PbText ''cd'', False), (PbText ''ef'', False), (PbActivity AaCompleted, True)],
      [body_event ''r'' (PbText ''ab''), server_event_new (SvStreamGap ''r''), body_event ''r'' (PbActivity AaCompleted)])
   \<and> prefix [body_event ''r'' (PbText ''ab''), server_event_new (SvStreamGap ''r''), body_event ''r'' (PbActivity AaCompleted)]
       (expected_stream ''r'' False [(PbText ''ab'', True), (PbText ''cd'', False), (PbText ''ef'', False), (PbActivity AaCompleted, True)])"
proof -
  have s: "subscribe_inner ''r'' None two_slots = (1, snd (subscribe_inner ''r'' None two_slots))"
    by (simp add: subscribe_inner_def two_slots_def)
  have o1: "sub_observed 1 overflow_actions (snd (subscribe_inner ''r'' None two_slots)) =
     ([(PbText ''ab'', True), (PbText ''cd'', False), (PbText ''ef'', False), (PbActivity AaCompleted, True)],
      [body_event ''r'' (PbText ''ab''), server_event_new (SvStreamGap ''r''), body_event ''r'' (PbActivity AaCompleted)])"
    by (simp add: overflow_actions_def subscribe_inner_def two_slots_def bump_def find_sub_def enqueue_at_def enqueue_body_def
      put_sub_def enqueue_gap_def reserve_global_bytes_def try_recv_def body_fits_def utf8_len_def utf8_bytes_def Let_def)
  show ?thesis using stream_prefix_until_gap[OF s o1 within_limits[OF two_slots_limits]] o1 by blast
qed

end
