(* ===== verification/Store_Steps.thy ===== *)
theory Store_Steps
  imports Attempt_Frame Recovery Actors
begin

text \<open>
  The operations of the whole store that touch the table of tool attempts, as one step relation:
  those on attempts themselves, and those on runs, failures, stagings, whole processes and actors
  that move or remove attempts on the way.
\<close>

inductive store_step :: "ext \<Rightarrow> db \<Rightarrow> db \<Rightarrow> bool" for x where
  attempt: "attempt_step x d d' \<Longrightarrow> store_step x d d'"
| checkpoint: "checkpoint_run x c now d = Inr (u, d') \<Longrightarrow> store_step x d d'"
| finalize: "finalize_run x uid f now d = Inr (out, d') \<Longrightarrow> store_step x d d'"
| cancel: "cancel_run x uid run v now d = Inr (u, d') \<Longrightarrow> store_step x d d'"
| fail: "record_failure x uid fence e p now d = Inr (disposition, d') \<Longrightarrow> store_step x d d'"
| commit: "commit_staged_execution x files run i e ls now d = Inr (u, d') \<Longrightarrow> store_step x d d'"
| startup: "recover_startup now d = Inr (report, d') \<Longrightarrow> store_step x d d'"
| delete: "delete_actor a mode now d = Inr (deleted, d') \<Longrightarrow> store_step x d d'"
| elsewhere: "attempts d' = attempts d \<Longrightarrow> store_step x d d'"

lemma startup_grows: "recover_startup now d = Inr (report, d') \<Longrightarrow> attempts_grow d d'"
proof -
  assume s: "recover_startup now d = Inr (report, d')"
  obtain unknown d1 where f: "fold (recover_orphan now) (orphaned_attempts d now) ([], d) = (unknown, d1)" by (metis surj_pair)
  have eq: "d1 = d\<lparr>attempts := update_where (orphan_row (orphan_ids (orphaned_attempts d now))) (lose_track now) (attempts d),
      work_items := work_items d1\<rparr>"
    using recover_orphans[OF f] by (simp add: unknown_ok_def)
  have "attempts d1 = update_where (orphan_row (orphan_ids (orphaned_attempts d now))) (lose_track now) (attempts d)"
    by (rule trans[OF arg_cong[OF eq, of attempts]]) simp
  moreover have "attempts d' = attempts d1" using s f by (auto simp: recover_startup_def Let_def)
  ultimately have "attempts d' = update_where (orphan_row (orphan_ids (orphaned_attempts d now))) (lose_track now) (attempts d)"
    by simp
  then show ?thesis
    by (rule attempts_grow_update) (auto intro!: attempt_move_edge attempt_edge.intros simp: same_attempt_def)
qed

lemma delete_actor_attempts:
  assumes "delete_actor a mode now d = Inr (out, d')"
  shows "attempts d' = attempts d \<or> (\<exists>p. attempts d' = delete_where p (attempts d))"
proof -
  consider "d' = d" | "d' = delete_actor_cascading a d" | "force_delete a now d = Inr d'"
    using assms by (auto simp: delete_actor_def commit_checked_def ebind_eq_Inr split: option.splits if_splits)
  then show ?thesis
  proof cases
    case 3
    then obtain d1 d2 where 1: "request_deletion a now d = Inr d1" and 2: "delete_outbox_deliveries a (delete_gateway_deliveries a d1) = Inr d2"
      and d': "d' = delete_actor_cascading a (delete_requests a (delete_legacy a (delete_cancel_targets a d2)))"
      by (auto simp: force_delete_def ebind_eq_Inr)
    have "attempts d1 = attempts d" using 1 by (auto simp: request_deletion_def ebind_eq_Inr)
    moreover have "attempts d2 = attempts d1" using 2
      by (auto simp: delete_outbox_deliveries_def delete_gateway_deliveries_def Let_def split: if_splits)
    ultimately show ?thesis unfolding d'
      by (auto simp: delete_actor_cascading_def delete_requests_def delete_legacy_def delete_cancel_targets_def)
  qed (auto simp: delete_actor_cascading_def)
qed

text \<open>Attempts grow, or an actor's are removed.\<close>

lemma store_step_attempts:
  assumes "store_step x d d'"
  shows "attempts_grow d d' \<or> (\<exists>p. attempts d' = delete_where p (attempts d))"
  using assms
proof cases
  case attempt
  then show ?thesis using attempt_step_grows by blast
next
  case startup
  then show ?thesis using startup_grows by blast
next
  case delete
  then show ?thesis using delete_actor_attempts by (metis attempts_grow_same)
qed (auto dest: checkpoint_grows finalize_grows cancel_grows record_failure_grows commit_execution_grows)

section \<open>A tool starts once\<close>

text \<open>
  Identifiers of attempts are fresh: a step does not bring back one whose attempt is gone.
\<close>

definition not_reissued :: "attempt_id \<Rightarrow> db \<Rightarrow> db \<Rightarrow> bool" where
  "not_reissued i d d' \<longleftrightarrow> (i \<in> ta_id ` set (attempts d') \<longrightarrow> i \<in> ta_id ` set (attempts d))"

definition past_start :: "attempt_id \<Rightarrow> db \<Rightarrow> bool" where
  "past_start i d \<longleftrightarrow> distinct (map ta_id (attempts d)) \<and> (\<forall>r \<in> set (attempts d). ta_id r = i \<longrightarrow> ta_state r \<noteq> AtPrepared)"

lemma past_start_step:
  assumes "past_start i d" and "store_step x d d'" and "not_reissued i d d'"
  shows "past_start i d'"
  using store_step_attempts[OF assms(2)]
proof
  assume g: "attempts_grow d d'"
  have keys: "distinct (map ta_id (attempts d))" using assms(1) by (simp add: past_start_def)
  have "ta_state r \<noteq> AtPrepared" if r: "r \<in> set (attempts d')" "ta_id r = i" for r
  proof -
    have "i \<in> ta_id ` set (attempts d)" using r assms(3) by (auto simp: not_reissued_def)
    then obtain r0 where "r0 \<in> set (attempts d)" "ta_id r0 = i" by auto
    then show ?thesis using not_prepared_again[OF g keys, of r0 r] assms(1) r by (simp add: past_start_def)
  qed
  then show ?thesis using g keys by (simp add: past_start_def attempts_grow_def)
next
  assume "\<exists>p. attempts d' = delete_where p (attempts d)"
  then show ?thesis using assms(1) by (auto simp: past_start_def delete_where_def distinct_map_filter)
qed

lemma past_start_steps:
  assumes "(\<lambda>d d'. store_step x d d' \<and> not_reissued i d d')\<^sup>*\<^sup>* d d'" and "past_start i d"
  shows "past_start i d'"
  using assms by (induction rule: rtranclp_induct) (auto intro: past_start_step)

lemma started_past:
  assumes "mark_attempt_running run i now d = Inr (u, d')" and "distinct (map ta_id (attempts d))"
  shows "past_start i d'"
proof -
  let ?p = "\<lambda>r. ta_id r = i \<and> ta_run r = ar_run run \<and> ta_state r = AtPrepared"
  have ch: "changed ?p (attempts d) = Suc 0"
    and d': "attempts d' = update_where ?p (\<lambda>r. r\<lparr>ta_state := AtRunning, ta_outcome := None, ta_updated := now\<rparr>) (attempts d)"
    using assms(1) by (auto simp: mark_attempt_running_def transition_attempt_def ebind_eq_Inr Let_def)
  obtain r0 where r0: "r0 \<in> set (attempts d)" "?p r0" using ch by (rule changed_oneE)
  have keys: "distinct (map ta_id (attempts d'))" using assms(2) by (simp add: d' map_update_where)
  have "ta_state r \<noteq> AtPrepared" if r: "r \<in> set (attempts d')" "ta_id r = i" for r
  proof -
    obtain r1 where r1: "r1 \<in> set (attempts d)" "r = (if ?p r1 then r1\<lparr>ta_state := AtRunning, ta_outcome := None, ta_updated := now\<rparr> else r1)"
      using r(1) unfolding d' by (rule in_update_whereE)
    then have "r1 = r0" using distinct_key_eq[OF assms(2) r1(1) r0(1)] r(2) r0(2) by (auto split: if_splits)
    then show ?thesis using r1(2) r0(2) by simp
  qed
  then show ?thesis using keys by (simp add: past_start_def)
qed

text \<open>
  C8. A tool runs at most once per attempt. After an attempt was marked running, whatever operations
  of the store follow, on attempts, runs, failures, stagings, processes or actors, and as long as its
  identifier is not issued again, marking it running again fails, for every run and at any time, and
  recovery never answers that it may be invoked.
\<close>

theorem tool_started_at_most_once:
  assumes "mark_attempt_running run i now d = Inr (u, d1)" and "distinct (map ta_id (attempts d))"
    and "(\<lambda>d d'. store_step x d d' \<and> not_reissued i d d')\<^sup>*\<^sup>* d1 d2"
  shows "(\<exists>e. mark_attempt_running run' i later d2 = Inl e)
     \<and> (\<forall>d3. recover_attempt x i d2 \<noteq> Inr (ArMayInvoke, d3))"
proof -
  have never: "ta_state r \<noteq> AtPrepared" if "r \<in> set (attempts d2)" "ta_id r = i" for r
    using past_start_steps[OF assms(3) started_past[OF assms(1,2)]] that by (simp add: past_start_def)
  then have "changed (\<lambda>r. ta_id r = i \<and> ta_run r = ar_run run' \<and> ta_state r = AtPrepared) (attempts d2) = 0"
    by (auto simp: changed_eq_0)
  then have "\<exists>e. mark_attempt_running run' i later d2 = Inl e"
    by (auto simp: mark_attempt_running_def transition_attempt_def require_def intro: ebind_to_Inl)
  moreover have "recover_attempt x i d2 \<noteq> Inr (ArMayInvoke, d3)" for d3
  proof (cases "List.find (\<lambda>r. ta_id r = i) (attempts d2)")
    case None
    then show ?thesis by (simp add: recover_attempt_def)
  next
    case (Some r)
    then have "ta_state r \<noteq> AtPrepared" using never find_Some_in[OF Some] by blast
    then show ?thesis using Some
      by (cases "ta_state r") (auto simp: recover_attempt_def ebind_eq_Inr Let_def split: if_split_asm)
  qed
  ultimately show ?thesis by blast
qed

text \<open>The process that started the tool dies, and startup takes its attempt over.\<close>

theorem tool_started_at_most_once_witness:
  "\<exists>e. mark_attempt_running sample_run ''t1'' 201 sample_orphaned = Inl e"
proof -
  obtain out where m: "mark_attempt_running sample_run ''t1'' 51 sample_prepared = Inr ((), sample_running)"
    by (rule sample_attempts)
  have "case recover_startup 200 sample_running of Inr (out, d') \<Rightarrow> True | Inl e \<Rightarrow> False" by code_simp
  then obtain report where r: "recover_startup 200 sample_running = Inr (report, sample_orphaned)"
    unfolding sample_orphaned_def by (rule tx_succeeds)
  have "not_reissued ''t1'' sample_running sample_orphaned" unfolding not_reissued_def by code_simp
  then have "(\<lambda>d d'. store_step sample_ext d d' \<and> not_reissued ''t1'' d d')\<^sup>*\<^sup>* sample_running sample_orphaned"
    using store_step.startup[OF r] by (intro r_into_rtranclp) simp
  then show ?thesis using tool_started_at_most_once [OF m sample_attempt_keys(1)] by blast
qed

end
