(* ===== verification/Spec2Isabelle.thy ===== *)
theory Spec2Isabelle
  imports Time_Text Webhook_Ingress Local_Ingress Failures Gateway_Delivery Recovery Busy_Retry Identity_Link Actors Artifact_Store
    Quantum_Guarantees Ipc_Frames Final_Delivery Stream_Hub Store_Steps
begin

text \<open>
  The durable runtime of Codrik (\<open>src/src/runtime/\<close>), a service that runs agents for its actors.

  \<^bold>\<open>The program.\<close> Messages reach an actor through gateways, local requests and webhooks. Each is an
  event in the actor's mailbox, in a work item. A process that wants to serve an actor acquires its
  lease, attaches a run to the pending events of one work item, and works on it in quanta: it takes
  events in, calls tools, checkpoints, and at last finalizes or cancels the run. The result goes to
  the outbox, from there to result bundles for local requests and to gateway deliveries, which
  workers claim, send and settle. Everything that has to survive a crash is in one SQLite database
  and every operation is one immediate transaction, so the model is a set of functions from a
  database to an error or a result with the database left behind (\<open>tx\<close>): an error, or a result
  returned without a commit, leaves the database as it was (\<open>commit_state\<close>). Concurrency is the
  order of transactions; the theorems about it quantify over any operations in between.

  \<^bold>\<open>The theories.\<close>
  \<^item> \<open>Prelude\<close>: errors, the \<open>?\<close> operator, SQL statements on lists of rows, text and digits.
  \<^item> \<open>Runtime_Model\<close>, \<open>Time_Text\<close>: \<open>model.rs\<close>, \<open>gateway.rs\<close>, \<open>agent/message.rs\<close>: states, policies,
    routes, saturating time, \<open>split_unicode\<close>, the RFC 3339 text of a timestamp and its validation.
  \<^item> \<open>Store_Types\<close>: the tables (\<open>migrations/*.sql\<close>), payloads of \<open>store.rs\<close>, and the crates used.
  \<^item> \<open>Event_Message\<close>: how an event becomes a message (\<open>sqlite/dispatch.rs\<close>).
  \<^item> \<open>Leases\<close>, \<open>Attach_Run\<close>: acquiring an actor, renewing, releasing, attaching the next run
    (\<open>sqlite/dispatch.rs\<close>).
  \<^item> \<open>Ingress\<close>, \<open>Webhook_Ingress\<close>, \<open>Local_Ingress\<close>: \<open>sqlite/ingress.rs\<close>, \<open>gateway_projection.rs\<close>,
    \<open>webhook.rs\<close>, \<open>local_ingress.rs\<close>.
  \<^item> \<open>Attempts\<close>, \<open>Checkpoint\<close>: tool attempts, checkpoints, terminal bundles, finalization and
    cancellation (\<open>sqlite/checkpoint.rs\<close>); \<open>Failures\<close>: \<open>sqlite/failures.rs\<close>.
  \<^item> \<open>Bundles\<close>: \<open>sqlite/bundles.rs\<close>; \<open>Gateway_Delivery\<close>: \<open>sqlite/gateway.rs\<close>.
  \<^item> \<open>Recovery\<close>: \<open>sqlite/recovery.rs\<close>; \<open>Busy_Retry\<close>: \<open>sqlite/retry.rs\<close>; \<open>Identity_Link\<close>:
    \<open>identity_link.rs\<close> and \<open>sqlite/identity_link.rs\<close>.
  \<^item> \<open>Actors\<close>: \<open>sqlite/actors.rs\<close> and \<open>actor_admin.rs\<close>: actors, their tools, administration and
    deletion, with the foreign keys of the whole schema.
  \<^item> \<open>Artifact_Store\<close>: \<open>sqlite/artifacts.rs\<close>: stagings, their commit and their collection.
  \<^item> \<open>Quantum\<close>, \<open>Runner\<close>: \<open>runner.rs\<close> with \<open>agent/tool_observation.rs\<close> and the staging of \<open>artifacts.rs\<close>: the
    moments between two awaits, the heartbeat, the \<open>select!\<close> loop, and a whole quantum over the store
    operations above. \<open>Attempt_Frame\<close>, \<open>Quantum_Laws\<close>, \<open>Runner_Safety\<close>: what its steps keep;
    \<open>Quantum_Guarantees\<close>: its properties; \<open>Quantum_Sample\<close>: one quantum run in the kernel.
  \<^item> \<open>Ipc_Protocol\<close>, \<open>Ipc_Frames\<close>, \<open>Final_Bundle\<close>: \<open>ipc/protocol.rs\<close>: messages and their validation, frames, and
    the encoding of a bundle; \<open>Final_Payload\<close>, \<open>Final_Verifier\<close>: \<open>interfaces/local_renderer.rs\<close>: the reader of JSON
    strings, the payload checks and the streaming verifier of the client; \<open>Final_Transfer\<close>, \<open>Final_Delivery\<close>:
    the two ends together, from the row of a bundle to its acknowledgement.
  \<^item> \<open>Stream_Hub\<close>: \<open>stream_hub.rs\<close>: the broadcast of a run's text and activities to local connections.
  \<^item> \<open>Store_Steps\<close>: the operations of the whole store that touch tool attempts, as one step relation
    (\<open>store_step\<close>), under which a started tool stays started.
  \<^item> This theory: what spans components, here the fencing of a superseded holder.

  \<^bold>\<open>The interfaces.\<close> Five locales state what several operations promise, and each is interpreted on
  the operations that keep it: \<open>idempotent_submission\<close> (\<open>Idempotence\<close>; ingest, webhooks, local
  submissions), \<open>lease_guarded\<close> (\<open>Leases\<close>; renewing, attaching, control events) and \<open>fenced\<close>
  (\<open>Fencing\<close>, of which a lease guard is an instance; everything done under an attached run, a
  failure fence, a bundle claim or a delivery claim). \<open>quantum_law\<close> (\<open>Quantum_Laws\<close>) has the rules
  by which a relation between the states before and after a step is proved for composed steps;
  \<open>string_sink\<close> (\<open>Final_Payload\<close>) is what a callback of the JSON reader keeps of the text it has seen.

  \<^bold>\<open>What the lemmas show.\<close> Leases exclude each other and fence the past; events are accepted once per
  key; a run takes in only what its work item, audience and cancellations allow, and never widens a
  policy; tools start at most once per attempt, through retries, restarts and every other operation of
  the store (\<open>store_step\<close>); finalizing loses no
  input and closes what it answers; what is written as a result can be read back through every
  check; bundles and deliveries follow their life cycles (\<open>lifecycle\<close>, \<open>attempt_edge\<close>,
  \<open>delivery_edge\<close>: the abstract specifications, to which the step relations \<open>bundle_step\<close>,
  \<open>attempt_step\<close>, \<open>gateway_step\<close> refine); failures end; guesses of link codes are limited; the deletion of an idle actor
  succeeds, removes all that is its own and nothing else (\<open>without_actor\<close>), and no command reaches
  the default actor; committed artifacts are permanent and within their quota, and a staging has one
  owner at a time. A quantum, in any world, calls only tools its run's policy allows, stays within its
  limits, calls no attempt twice, reaches no \<open>unreachable!()\<close>, answers when its calls end or are cut
  off, and gives its lease back. Frames are read back exactly as written; the verifier of a final
  bundle accepts exactly the canonical transmissions whose hashes and payloads agree, and what the
  store loads arrives and is acknowledged, when its files have what the client asks of a file
  (\<open>presentable\<close>). The stream hub keeps its limits under any interleaving, and a subscription
  sees the stream up to the first body that did not fit (\<open>expected_stream\<close>), with one marker there.

  \<^bold>\<open>Representation.\<close> A table is the list of its rows in rowid order; a \<open>CHECK\<close> on a column's values is
  a datatype; keys that a theorem needs are its hypotheses (\<open>distinct (map key rows)\<close>) and the
  uniqueness errors of inserts are branches of the model. Timestamps are integers with the
  saturating arithmetic of \<open>i64\<close> where the code has it; mailbox sequences, generations and counters
  are unbounded integers (a counter reaches 2 to the 63 after more steps than a process can take).
  Statements without \<open>ORDER BY\<close> read rows in rowid order. Loops are structural recursions or folds
  over lists; the loops of a quantum are bounded by its limits, and a wait is a list of the branches
  that fire, whose end before an answer is the value \<open>Hangs\<close>. Nothing needs fuel except \<open>generate_code\<close>, which consumes the random blocks it is
  given.

  \<^bold>\<open>Not modelled.\<close> JSON, SHA-256 and UUID parsing are the fields of the record \<open>ext\<close>; where a
  theorem relies on them it assumes the round trip of the serializer (\<open>payload_roundtrip\<close>,
  \<open>cancel_roundtrip\<close>, \<open>command_roundtrip\<close>, \<open>payload_serialized\<close>), and \<open>Payload_Codec\<close> has an instance;
  \<open>Final_Delivery\<close> has one with the JSON text of a payload and a reader of it, correct for every payload
  (\<open>final_json_serialized\<close>). Fresh identifiers
  come from a supply. Foreign keys are checked where they decide, at the deletion of an actor; the
  other operations insert references to rows they have just read or written. In a quantum the model, the tools, the clock, the file system and
  everybody else are the record \<open>world\<close>, and cancelling a tool's context has no effect that the store
  sees. The asynchronous loops around it (\<open>outbox_worker.rs\<close>, \<open>dispatcher.rs\<close>), transports (the IPC server and client, Telegram, Reticulum, HTTP), the model client, the tools, the
  file system parts of artifacts and memory, and the command line are not modelled; what they do to
  the durable state is the operations above.
\<close>

section \<open>A superseded holder\<close>

lemma acquired_lease:
  assumes "lease_keys d" and "acquire_ready_actor owner now until d = Inr (Some ls, d')
      \<or> acquire_ready_actor_for actor owner now until d = Inr (Some ls, d')"
    and "ls_actor old = ls_actor ls" and "ls_owner old \<noteq> owner \<or> ls_generation old \<noteq> ls_generation ls"
  shows "\<not> lease_current d' old t"
  using assms(2,3,4) grant_is_current[OF assms(1)]
  by (elim disjE acquire_ready_actor_cases acquire_ready_actor_for_cases) auto

lemma release_without_lease:
  assumes "\<And>t. \<not> lease_current d old t"
  shows "commit_state d (release_lease old d) = d"
proof -
  have "\<not> lease_matches old l" if "l \<in> set (leases d)" for l
    using assms[of "al_expires l - 1"] that by (auto simp: lease_current_iff)
  then have "delete_where (lease_matches old) (leases d) = leases d" by (auto simp: delete_where_def filter_id_conv)
  then show ?thesis by (simp add: release_lease_def)
qed

lemma stale_commit_refused:
  assumes "\<And>t. \<not> lease_current d (ar_lease run) t"
  shows "commit_state d (commit_staged_execution x files run i e ls now d) = d"
proof -
  have "\<not> artifact_run_valid run now d"
  proof
    assume "artifact_run_valid run now d"
    then obtain r l where "l \<in> set (leases d)" "al_actor l = ls_actor (ar_lease run)" "al_owner l = ls_owner (ar_lease run)"
      "al_generation l = ls_generation (ar_lease run)"
      by (auto simp: artifact_run_valid_def list_ex_iff)
    then show False using assms[of "al_expires l - 1"] by (auto simp: lease_current_iff lease_matches_def)
  qed
  then show ?thesis by (auto simp: commit_staged_execution_def require_def)
qed

text \<open>
  C2. A superseded holder changes nothing. In the state the acquisition of an actor leaves, every operation that is
  guarded by its lease, made under another lease of that actor, of another owner or an earlier
  generation, leaves the database as it is: attaching, renewing and releasing; preparing, starting,
  rejecting, finishing and blocking a tool attempt; committing what a tool staged; checkpointing,
  finalizing, cancelling, and recording a failure or progress. Recovering an attempt and staging
  its files are guarded by the attempt and the staging, not by the lease, and are not among them.
\<close>

theorem superseded_holder_changes_nothing:
  assumes "lease_keys d" and "acquire_ready_actor owner now until d = Inr (Some ls, d')
      \<or> acquire_ready_actor_for actor owner now until d = Inr (Some ls, d')"
    and "ls_actor (ar_lease run) = ls_actor ls" and "ls_owner (ar_lease run) \<noteq> owner \<or> ls_generation (ar_lease run) \<noteq> ls_generation ls"
    and "ck_run c = run" and "fz_run f = run"
  shows "commit_state d' (attach_next_run x uid n (ar_lease run) t d') = d' \<and> commit_state d' (renew_lease (ar_lease run) t u d') = d'
     \<and> commit_state d' (release_lease (ar_lease run) d') = d'
     \<and> commit_state d' (prepare_attempt x run a t d') = d' \<and> commit_state d' (mark_attempt_running run i t d') = d'
     \<and> commit_state d' (reject_prepared_attempt x run i out t d') = d' \<and> commit_state d' (finish_attempt x run i out t d') = d'
     \<and> commit_state d' (block_unknown_attempt run i t d') = d'
     \<and> commit_state d' (commit_staged_execution x files run i e' ls' t d') = d'
     \<and> commit_state d' (checkpoint_run x c t d') = d' \<and> commit_state d' (finalize_run x uid f t d') = d'
     \<and> commit_state d' (cancel_run x uid run v t d') = d'
     \<and> commit_state d' (record_failure x uid (fence_of run) e p t d') = d' \<and> commit_state d' (record_progress (fence_of run) t d') = d'"
proof -
  have gone: "\<not> lease_current d' (ar_lease run) t" for t by (rule acquired_lease[OF assms(1-4)])
  then have r: "\<not> run_current d' run t" using run_current_lease by blast
  have fence: "\<not> fence_held b d' (fence_of run) t" for b using fence_lease_current[of b d' "fence_of run" t] gone by (auto simp: fence_of_def)
  note stale = transition.without_token[OF r]
  have "commit_state d' (reject_prepared_attempt x run i out t d') = d'" using stale by (simp add: reject_prepared_attempt_def)
  then show ?thesis
    using stale attach.stale_keeps_db[OF gone] renew.stale_keeps_db[OF gone] release_without_lease[OF gone] preparing.without_token[OF r]
      blocking.without_token[OF r] checkpointing.without_token[of d' c t] finalizing.without_token[of d' f t] cancelling.without_token[OF r]
      failing.without_token[OF fence] progressing.without_token[OF fence] r assms(5,6) stale_commit_refused[OF gone]
    by (simp add: mark_attempt_running_def finish_attempt_def)
qed

text \<open>The run of \<open>p\<close> is finalized after \<open>q\<close> has taken the actor over: nothing happens.\<close>

theorem superseded_holder_changes_nothing_witness:
  "\<exists>d'. acquire_ready_actor_for ''a'' ''q'' 100 200 sample_answering = Inr (Some (sample_lease ''q'' 5 200), d')
     \<and> commit_state d' (finalize_run sample_ext sample_ids sample_finalize 99 d') = d'"
proof -
  have "case acquire_ready_actor_for ''a'' ''q'' 100 200 sample_answering of
      Inr (out, d') \<Rightarrow> out = Some (sample_lease ''q'' 5 200) | Inl e \<Rightarrow> False"
    by code_simp
  then obtain d' where a: "acquire_ready_actor_for ''a'' ''q'' 100 200 sample_answering = Inr (Some (sample_lease ''q'' 5 200), d')"
    by (rule tx_succeeds) simp
  have k: "lease_keys sample_answering" by code_simp
  have s: "ls_actor (ar_lease sample_run) = ls_actor (sample_lease ''q'' 5 200)" "fz_run sample_finalize = sample_run"
    "ls_owner (ar_lease sample_run) \<noteq> ''q'' \<or> ls_generation (ar_lease sample_run) \<noteq> ls_generation (sample_lease ''q'' 5 200)"
    by code_simp+
  obtain c :: checkpoint_command where c: "ck_run c = sample_run" by (metis checkpoint_command.select_convs(1))
  show ?thesis using superseded_holder_changes_nothing [OF k disjI2 [OF a] s(1,3) c s(2)] a by blast
qed

end
